(* ===== verification/Ddf_Prelude.thy ===== *)
theory Ddf_Prelude
  imports Main "HOL-Library.Word" "HOL-Library.Code_Target_Nat"
begin

text \<open>
  Shared vocabulary of the development.

  A Rust \<open>&str\<close> or \<open>&[u8]\<close> is a \<^typ>\<open>string\<close>: a list of bytes, one \<^typ>\<open>char\<close> per byte of the
  UTF-8 encoding. Every length below is therefore a byte length, as \<open>str::len\<close> is. The operations
  of \<open>core::str\<close> and \<open>core::slice\<close> the program calls (\<open>strip_prefix\<close>, \<open>split\<close>, \<open>split_once\<close>,
  \<open>split_terminator\<close>, \<open>trim_end_matches\<close>, \<open>rfind\<close> and so on) are defined here once, on ASCII
  separators only, where the byte and the character readings agree.

  A Rust \<open>Result<T, E>\<close> is the sum \<open>'e + 'a\<close>, the error on the left; \<open>res_bind\<close> is the \<open>?\<close>
  operator. Saturating \<open>u32\<close> arithmetic is written out over \<^typ>\<open>nat\<close>.
\<close>

named_theorems res_elims \<open>inversion of successful computations\<close>
named_theorems str_simps \<open>rewriting on the string operations\<close>

subsection \<open>Results\<close>

definition res_bind :: "'e + 'a \<Rightarrow> ('a \<Rightarrow> 'e + 'b) \<Rightarrow> 'e + 'b" where
  "res_bind m f = (case m of Inl e \<Rightarrow> Inl e | Inr x \<Rightarrow> f x)"

definition ok_or :: "'e \<Rightarrow> 'a option \<Rightarrow> 'e + 'a" where
  "ok_or e x = (case x of None \<Rightarrow> Inl e | Some v \<Rightarrow> Inr v)"

definition is_ok :: "'e + 'a \<Rightarrow> bool" where
  "is_ok m = (case m of Inl _ \<Rightarrow> False | Inr _ \<Rightarrow> True)"

lemma res_bind_simps [simp]:
  "res_bind (Inl e) f = Inl e" "res_bind (Inr x) f = f x"
  by (simp_all add: res_bind_def)

lemma res_bind_Inr_iff [res_elims]:
  "res_bind m f = Inr y \<longleftrightarrow> (\<exists>x. m = Inr x \<and> f x = Inr y)"
  by (cases m) auto

lemma res_bind_cong [fundef_cong]:
  "m = m' \<Longrightarrow> (\<And>x. m' = Inr x \<Longrightarrow> f x = f' x) \<Longrightarrow> res_bind m f = res_bind m' f'"
  by (cases m') auto

lemma ok_or_simps [simp]:
  "ok_or e None = Inl e" "ok_or e (Some v) = Inr v"
  by (simp_all add: ok_or_def)

lemma ok_or_Inr_iff [res_elims]: "ok_or e x = Inr v \<longleftrightarrow> x = Some v"
  by (cases x) auto

lemma is_ok_simps [simp]: "\<not> is_ok (Inl e)" "is_ok (Inr x)"
  by (simp_all add: is_ok_def)

lemma is_ok_iff: "is_ok m \<longleftrightarrow> (\<exists>x. m = Inr x)"
  by (cases m) auto

subsection \<open>Fixed-width counters\<close>

definition u32_max :: nat where
  "u32_max = 4294967295"

definition sat_add32 :: "nat \<Rightarrow> nat \<Rightarrow> nat" where
  "sat_add32 a b = min (a + b) u32_max"

lemma sat_add32_le [simp]: "sat_add32 a b \<le> u32_max"
  by (simp add: sat_add32_def)

lemma sat_add32_exact: "a + b \<le> u32_max \<Longrightarrow> sat_add32 a b = a + b"
  by (simp add: sat_add32_def)

definition usize_max :: nat where
  "usize_max = 18446744073709551615"

definition sat_add_usize :: "nat \<Rightarrow> nat \<Rightarrow> nat" where
  "sat_add_usize a b = min (a + b) usize_max"

subsection \<open>Bytes\<close>

abbreviation byte :: "char \<Rightarrow> nat" where
  "byte c \<equiv> of_char c"

abbreviation LF :: char where "LF \<equiv> CHR 0x0A"
abbreviation TAB :: char where "TAB \<equiv> CHR 0x09"
abbreviation CR :: char where "CR \<equiv> CHR 0x0D"
abbreviation SPACE :: char where "SPACE \<equiv> CHR 0x20"
abbreviation DQUOTE :: char where "DQUOTE \<equiv> CHR 0x22"
abbreviation BACKSLASH :: char where "BACKSLASH \<equiv> CHR 0x5C"
abbreviation SLASH :: char where "SLASH \<equiv> CHR 0x2F"
abbreviation NUL :: char where "NUL \<equiv> CHR 0x00"

definition is_ascii_digit :: "char \<Rightarrow> bool" where
  "is_ascii_digit c \<longleftrightarrow> 48 \<le> byte c \<and> byte c \<le> 57"

definition to_ascii_lowercase :: "char \<Rightarrow> char" where
  "to_ascii_lowercase c = (if 65 \<le> byte c \<and> byte c \<le> 90 then char_of (byte c + 32) else c)"

definition eq_ignore_ascii_case :: "string \<Rightarrow> string \<Rightarrow> bool" where
  "eq_ignore_ascii_case a b \<longleftrightarrow> map to_ascii_lowercase a = map to_ascii_lowercase b"

lemma byte_less [simp]: "byte c < 256"
  by (metis char_of_char mod_less_divisor of_char_of zero_less_numeral)

lemma byte_eq_iff: "byte c = byte d \<longleftrightarrow> c = d"
  by (metis char_of_char)

subsection \<open>Prefixes and suffixes\<close>

fun strip_prefix :: "string \<Rightarrow> string \<Rightarrow> string option" where
  "strip_prefix [] s = Some s"
| "strip_prefix (p # ps) [] = None"
| "strip_prefix (p # ps) (c # s) = (if p = c then strip_prefix ps s else None)"

definition starts_with :: "string \<Rightarrow> string \<Rightarrow> bool" where
  "starts_with p s \<longleftrightarrow> strip_prefix p s \<noteq> None"

definition ends_with :: "string \<Rightarrow> string \<Rightarrow> bool" where
  "ends_with p s \<longleftrightarrow> starts_with (rev p) (rev s)"

lemma strip_prefix_Some [str_simps]: "strip_prefix p s = Some r \<longleftrightarrow> s = p @ r"
  by (induction p s rule: strip_prefix.induct) auto

lemma strip_prefix_append [simp]: "strip_prefix p (p @ r) = Some r"
  by (simp add: strip_prefix_Some)

lemma strip_prefix_None: "strip_prefix p s = None \<longleftrightarrow> (\<forall>r. s \<noteq> p @ r)"
  by (metis not_None_eq strip_prefix_Some)

lemma starts_with_iff: "starts_with p s \<longleftrightarrow> (\<exists>r. s = p @ r)"
  by (auto simp: starts_with_def strip_prefix_Some)

lemma starts_with_append [simp]: "starts_with p (p @ r)"
  by (auto simp: starts_with_iff)

lemma starts_with_simps [simp]:
  "starts_with [] s" "\<not> starts_with (p # ps) []"
  "starts_with (p # ps) (c # s) \<longleftrightarrow> p = c \<and> starts_with ps s"
  by (auto simp: starts_with_def)

lemma ends_with_iff: "ends_with p s \<longleftrightarrow> (\<exists>r. s = r @ p)"
  by (auto simp: ends_with_def starts_with_iff) (metis rev_append rev_rev_ident)

subsection \<open>Splitting\<close>

text \<open>\<open>str::split(c)\<close>: always at least one part.\<close>

fun split_char :: "char \<Rightarrow> string \<Rightarrow> string list" where
  "split_char c [] = [[]]"
| "split_char c (x # s) =
     (if x = c then [] # split_char c s
      else case split_char c s of [] \<Rightarrow> [[x]] | p # ps \<Rightarrow> (x # p) # ps)"

text \<open>\<open>str::split_terminator(c)\<close>: \<open>split\<close> without a trailing empty part.\<close>

definition split_terminator :: "char \<Rightarrow> string \<Rightarrow> string list" where
  "split_terminator c s =
     (let parts = split_char c s in if last parts = [] then butlast parts else parts)"

text \<open>\<open>str::split_once(c)\<close>: around the first separator.\<close>

fun split_once :: "char \<Rightarrow> string \<Rightarrow> (string \<times> string) option" where
  "split_once c [] = None"
| "split_once c (x # s) =
     (if x = c then Some ([], s)
      else map_option (\<lambda>(a, b). (x # a, b)) (split_once c s))"

text \<open>\<open>str::rsplit_once(c)\<close>: around the last separator.\<close>

definition rsplit_once :: "char \<Rightarrow> string \<Rightarrow> (string \<times> string) option" where
  "rsplit_once c s = map_option (\<lambda>(a, b). (rev b, rev a)) (split_once c (rev s))"

definition trim_end_char :: "char \<Rightarrow> string \<Rightarrow> string" where
  "trim_end_char c s = rev (dropWhile (\<lambda>x. x = c) (rev s))"

text \<open>\<open>str::find\<close> and \<open>str::rfind\<close> of a substring: its first and last byte offset.\<close>

fun find_sub :: "string \<Rightarrow> string \<Rightarrow> nat option" where
  "find_sub p [] = (if p = [] then Some 0 else None)"
| "find_sub p (c # s) =
     (if starts_with p (c # s) then Some 0 else map_option Suc (find_sub p s))"

fun rfind_sub :: "string \<Rightarrow> string \<Rightarrow> nat option" where
  "rfind_sub p [] = (if p = [] then Some 0 else None)"
| "rfind_sub p (c # s) =
     (case rfind_sub p s of
        Some n \<Rightarrow> Some (Suc n)
      | None \<Rightarrow> if starts_with p (c # s) then Some 0 else None)"

definition contains_sub :: "string \<Rightarrow> string \<Rightarrow> bool" where
  "contains_sub p s \<longleftrightarrow> find_sub p s \<noteq> None"

text \<open>\<open>str::find(char)\<close> and \<open>Iterator::position\<close>.\<close>

fun position :: "('a \<Rightarrow> bool) \<Rightarrow> 'a list \<Rightarrow> nat option" where
  "position f [] = None"
| "position f (x # xs) = (if f x then Some 0 else map_option Suc (position f xs))"

fun find_map :: "('a \<Rightarrow> 'b option) \<Rightarrow> 'a list \<Rightarrow> 'b option" where
  "find_map f [] = None"
| "find_map f (x # xs) = (case f x of Some y \<Rightarrow> Some y | None \<Rightarrow> find_map f xs)"

lemma split_char_not_Nil [simp]: "split_char c s \<noteq> []"
  by (induction s) (auto split: list.splits)

lemma split_char_no_sep: "c \<notin> set s \<Longrightarrow> split_char c s = [s]"
  by (induction s) auto

lemma split_char_append_sep:
  "c \<notin> set a \<Longrightarrow> split_char c (a @ c # s) = a # split_char c s"
  by (induction a) auto

lemma split_char_parts: "p \<in> set (split_char c s) \<Longrightarrow> c \<notin> set p"
  by (induction s arbitrary: p) (auto split: if_splits list.splits)

lemma split_once_Some [str_simps]:
  "split_once c s = Some (a, b) \<longleftrightarrow> s = a @ c # b \<and> c \<notin> set a"
proof (induction s arbitrary: a b)
  case Nil
  then show ?case by simp
next
  case (Cons x s)
  then show ?case
    by (cases a) (auto simp: Cons)
qed

lemma split_once_None: "split_once c s = None \<longleftrightarrow> c \<notin> set s"
  by (induction s) auto

lemma position_Some:
  "position f xs = Some n \<longleftrightarrow> n < length xs \<and> f (xs ! n) \<and> (\<forall>k<n. \<not> f (xs ! k))"
proof (induction xs arbitrary: n)
  case Nil
  then show ?case by simp
next
  case (Cons x xs)
  then show ?case
    by (cases n) (auto simp: less_Suc_eq_0_disj)
qed

lemma position_None: "position f xs = None \<longleftrightarrow> (\<forall>x\<in>set xs. \<not> f x)"
  by (induction xs) auto

lemma find_map_Some: "find_map f xs = Some y \<Longrightarrow> \<exists>x\<in>set xs. f x = Some y"
  by (induction xs) (auto split: option.splits)

lemma find_map_None: "find_map f xs = None \<longleftrightarrow> (\<forall>x\<in>set xs. f x = None)"
  by (induction xs) (auto split: option.splits)

lemma trim_end_char_id: "s = [] \<or> last s \<noteq> c \<Longrightarrow> trim_end_char c s = s"
  by (cases s rule: rev_cases) (auto simp: trim_end_char_def)

subsection \<open>Lines\<close>

definition unlines :: "string list \<Rightarrow> string" where
  "unlines ls = concat (map (\<lambda>l. l @ [LF]) ls)"

lemma unlines_simps [simp]:
  "unlines [] = []" "unlines (l # ls) = l @ LF # unlines ls"
  "unlines (ls @ ms) = unlines ls @ unlines ms"
  by (simp_all add: unlines_def)

lemma split_char_unlines:
  "\<forall>l\<in>set ls. LF \<notin> set l \<Longrightarrow> split_char LF (unlines ls) = ls @ [[]]"
  by (induction ls) (auto simp: split_char_append_sep)

lemma split_terminator_unlines:
  "\<forall>l\<in>set ls. LF \<notin> set l \<Longrightarrow> split_terminator LF (unlines ls) = ls"
  by (simp add: split_terminator_def split_char_unlines)

lemma split_terminator_no_sep: "l \<in> set (split_terminator c s) \<Longrightarrow> c \<notin> set l"
  by (auto simp: split_terminator_def Let_def split: if_splits dest: in_set_butlastD split_char_parts)

lemma unlines_ends: "ls \<noteq> [] \<Longrightarrow> ends_with [LF] (unlines ls)"
  by (cases ls rule: rev_cases) (auto simp: ends_with_iff)

subsection \<open>Decimal numbers\<close>

text \<open>\<open>Display\<close> for the unsigned integers, and the value \<open>str::parse\<close> reads from digits.\<close>

fun show_nat :: "nat \<Rightarrow> string" where
  "show_nat n = (if n < 10 then [char_of (n + 48)] else show_nat (n div 10) @ [char_of (n mod 10 + 48)])"

declare show_nat.simps [simp del]

definition digit_value :: "char \<Rightarrow> nat" where
  "digit_value c = byte c - 48"

definition dec_value :: "string \<Rightarrow> nat" where
  "dec_value ds = foldl (\<lambda>acc d. acc * 10 + digit_value d) 0 ds"

lemma dec_value_simps [simp]:
  "dec_value [] = 0" "dec_value (ds @ [d]) = dec_value ds * 10 + digit_value d"
  by (simp_all add: dec_value_def)

lemma digit_char [simp]:
  "n < 10 \<Longrightarrow> is_ascii_digit (char_of (n + 48))"
  "n < 10 \<Longrightarrow> digit_value (char_of (n + 48)) = n"
  by (simp_all add: is_ascii_digit_def digit_value_def)

lemma show_nat_digits: "\<forall>c\<in>set (show_nat n). is_ascii_digit c"
proof (induction n rule: show_nat.induct)
  case (1 n)
  then show ?case by (subst show_nat.simps) simp
qed

lemma show_nat_not_Nil [simp]: "show_nat n \<noteq> []"
  by (subst show_nat.simps) simp

lemma dec_value_show_nat [simp]: "dec_value (show_nat n) = n"
proof (induction n rule: show_nat.induct)
  case (1 n)
  show ?case
  proof (cases "n < 10")
    case True
    then show ?thesis
      using dec_value_simps(2) [of "[]"] by (subst show_nat.simps) simp
  next
    case False
    then show ?thesis using 1 by (subst show_nat.simps) simp
  qed
qed

lemma ascii_digit_neq:
  "is_ascii_digit c \<Longrightarrow> c \<noteq> LF \<and> c \<noteq> SPACE \<and> c \<noteq> CR \<and> c \<noteq> TAB \<and> c \<noteq> CHR '',''"
  by (auto simp: is_ascii_digit_def)

end
