(* ===== verification/Core_Model.thy ===== *)
theory Core_Model
  imports Ddf_Prelude
begin

text \<open>
  The vocabulary of \<open>deep-diff-forge-core\<close> (\<open>src/crates/deep-diff-forge-core/src/lib.rs\<close>): the patch
  twin and semantic twin of a reviewed file, and the enumerations every other crate matches on.
  A Rust struct is a record with its fields under a short prefix, an enum a datatype with its
  constructors under a short prefix. \<open>u32\<close> and \<open>u64\<close> line numbers and identifiers are \<^typ>\<open>nat\<close>;
  the operations that could pass their width saturate explicitly.
\<close>

datatype FileStatus =
    FsAdded | FsModified | FsDeleted | FsRenamed | FsCopied | FsTypeChanged | FsModeChanged
  | FsBinaryChanged | FsUnknown

fun FileStatus_label :: "FileStatus \<Rightarrow> string" where
  "FileStatus_label FsAdded = ''added''"
| "FileStatus_label FsModified = ''modified''"
| "FileStatus_label FsDeleted = ''deleted''"
| "FileStatus_label FsRenamed = ''renamed''"
| "FileStatus_label FsCopied = ''copied''"
| "FileStatus_label FsTypeChanged = ''type_changed''"
| "FileStatus_label FsModeChanged = ''mode_changed''"
| "FileStatus_label FsBinaryChanged = ''binary_changed''"
| "FileStatus_label FsUnknown = ''unknown''"

datatype PatchLineKind = LkContext | LkAdded | LkRemoved

record PatchLine =
  pl_no_newline :: bool
  pl_lossy :: bool
  pl_kind :: PatchLineKind
  pl_old_line :: "nat option"
  pl_new_line :: "nat option"
  pl_text :: string

record PatchHunk =
  ph_id :: nat
  ph_old_start :: "nat option"
  ph_new_start :: "nat option"
  ph_section :: "string option"
  ph_lines :: "PatchLine list"

record PatchTwin =
  pt_binary_body :: "string list"
  pt_hunks :: "PatchHunk list"
  pt_metadata :: "string list"
  pt_lossy_lines :: nat

datatype FallbackReason =
    UnsupportedLanguage | ParseErrorsExceeded | ByteBudgetExceeded | NodeBudgetExceeded
  | TimeBudgetExceeded | BinaryInput | InvalidPatch

datatype ParseStatus = Parsed | ParsedWithErrors nat | Fallback FallbackReason

datatype SemanticChangeKind =
    AddedNode | RemovedNode | ModifiedNode | MovedNode | ReformattedOnly | RenamedSymbol

record TextRange =
  tr_start_byte :: nat
  tr_end_byte :: nat
  tr_start_line :: nat
  tr_end_line :: nat

record SemanticSpan =
  ss_id :: nat
  ss_hunk_id :: nat
  ss_kind :: SemanticChangeKind
  ss_old_range :: "TextRange option"
  ss_new_range :: "TextRange option"

record SemanticTwin =
  st_language :: string
  st_parse_status :: ParseStatus
  st_spans :: "SemanticSpan list"

datatype DiffStrategy = DsLine | DsWord | DsSyntax | DsMovedBlock | DsBinary | DsGeneratedSuppressed

record PlannerDecision =
  pd_strategy :: DiffStrategy
  pd_fallback :: "FallbackReason option"
  pd_notes :: "string list"

record ReviewFile =
  rf_path :: string
  rf_status :: FileStatus
  rf_patch_twin :: PatchTwin
  rf_semantic_twin :: "SemanticTwin option"
  rf_planner :: PlannerDecision

datatype Parallelism = ParSerial | ParAuto | ParFixed nat

datatype JoinPolicy = DeterministicInputOrder | RankedReviewOrder | AsReadyWithStableIds

datatype ExecutionDimension =
    DimPatch | DimSemantic | DimRisk | DimAgent | DimRuntime | DimStorage | DimHistory | DimPresentation

subsection \<open>Hunk counts and bodies\<close>

fun counts_loop :: "nat \<times> nat \<Rightarrow> PatchLine list \<Rightarrow> nat \<times> nat" where
  "counts_loop (old, new) [] = (old, new)"
| "counts_loop (old, new) (l # ls) =
     (case pl_kind l of
        LkContext \<Rightarrow> counts_loop (old + 1, new + 1) ls
      | LkRemoved \<Rightarrow> counts_loop (old + 1, new) ls
      | LkAdded \<Rightarrow> counts_loop (old, new + 1) ls)"

definition PatchHunk_counts :: "PatchHunk \<Rightarrow> nat \<times> nat" where
  "PatchHunk_counts h = counts_loop (0, 0) (ph_lines h)"

text \<open>\<open>\ No newline at end of file\<close>, the marker Git writes after a line without a line feed.\<close>

definition eof_marker :: string where
  "eof_marker = BACKSLASH # '' No newline at end of file''"

fun line_marker :: "PatchLineKind \<Rightarrow> char" where
  "line_marker LkContext = SPACE"
| "line_marker LkRemoved = CHR ''-''"
| "line_marker LkAdded = CHR ''+''"

definition PatchHunk_body_bytes :: "PatchHunk \<Rightarrow> string" where
  "PatchHunk_body_bytes h =
     concat (map (\<lambda>l. line_marker (pl_kind l) # pl_text l @ [LF]
       @ (if pl_no_newline l then eof_marker @ [LF] else [])) (ph_lines h))"

definition is_old_side :: "PatchLine \<Rightarrow> bool" where
  "is_old_side l \<longleftrightarrow> pl_kind l \<noteq> LkAdded"

definition is_new_side :: "PatchLine \<Rightarrow> bool" where
  "is_new_side l \<longleftrightarrow> pl_kind l \<noteq> LkRemoved"

definition old_side :: "PatchLine list \<Rightarrow> PatchLine list" where
  "old_side ls = filter is_old_side ls"

definition new_side :: "PatchLine list \<Rightarrow> PatchLine list" where
  "new_side ls = filter is_new_side ls"

lemma side_simps [simp]:
  "old_side [] = []" "new_side [] = []"
  "old_side (l # ls) = (if pl_kind l = LkAdded then old_side ls else l # old_side ls)"
  "new_side (l # ls) = (if pl_kind l = LkRemoved then new_side ls else l # new_side ls)"
  "old_side (ls @ ms) = old_side ls @ old_side ms"
  "new_side (ls @ ms) = new_side ls @ new_side ms"
  by (simp_all add: old_side_def new_side_def is_old_side_def is_new_side_def)

lemma counts_loop_sides:
  "counts_loop (a, b) ls = (a + length (old_side ls), b + length (new_side ls))"
  by (induction ls arbitrary: a b) (auto split: PatchLineKind.splits)

lemma counts_sides:
  "PatchHunk_counts h = (length (old_side (ph_lines h)), length (new_side (ph_lines h)))"
  by (simp add: PatchHunk_counts_def counts_loop_sides)

lemma FileStatus_label_inj: "inj FileStatus_label"
proof (rule injI)
  fix a b show "FileStatus_label a = FileStatus_label b \<Longrightarrow> a = b"
    by (cases a; cases b) simp_all
qed

end
