(* ===== verification/Utf8.thy ===== *)
theory Utf8
  imports Ddf_Prelude
begin

text \<open>
  The UTF-8 functions of the Rust standard library the program calls: \<open>str::from_utf8\<close> (as the
  predicate \<open>utf8_valid\<close>), \<open>String::from_utf8_lossy\<close> and \<open>str::chars\<close>. A maximal invalid prefix of
  a sequence is replaced by one U+FFFD, as \<open>Utf8Chunks\<close> does. The byte ranges are those of
  Unicode's table of well-formed sequences: no overlong form, no surrogate, nothing past U+10FFFF.
\<close>

definition is_cont :: "char \<Rightarrow> bool" where
  "is_cont c \<longleftrightarrow> 0x80 \<le> byte c \<and> byte c \<le> 0xBF"

definition utf8_width :: "char \<Rightarrow> nat" where
  "utf8_width c =
     (if byte c < 0x80 then 1
      else if 0xC2 \<le> byte c \<and> byte c \<le> 0xDF then 2
      else if 0xE0 \<le> byte c \<and> byte c \<le> 0xEF then 3
      else if 0xF0 \<le> byte c \<and> byte c \<le> 0xF4 then 4
      else 0)"

definition second_ok :: "char \<Rightarrow> char \<Rightarrow> bool" where
  "second_ok c d \<longleftrightarrow> is_cont d \<and>
     (byte c = 0xE0 \<longrightarrow> 0xA0 \<le> byte d) \<and> (byte c = 0xED \<longrightarrow> byte d \<le> 0x9F) \<and>
     (byte c = 0xF0 \<longrightarrow> 0x90 \<le> byte d) \<and> (byte c = 0xF4 \<longrightarrow> byte d \<le> 0x8F)"

fun conts :: "nat \<Rightarrow> string \<Rightarrow> nat" where
  "conts n [] = 0"
| "conts n (c # s) = (if n = 0 then 0 else if is_cont c then Suc (conts (n - 1) s) else 0)"

lemma conts_0 [simp]: "conts 0 s = 0"
  by (cases s) auto

text \<open>The sequence at the head of \<open>s\<close>: whether it encodes a scalar value, and its length
  (for an ill-formed one, the length of the part one U+FFFD replaces).\<close>

fun utf8_head :: "string \<Rightarrow> bool \<times> nat" where
  "utf8_head [] = (False, 0)"
| "utf8_head (c # s) =
     (let w = utf8_width c in
      if w = 0 then (False, 1)
      else if w = 1 then (True, 1)
      else case s of
        [] \<Rightarrow> (False, 1)
      | d # s' \<Rightarrow>
          if \<not> second_ok c d then (False, 1)
          else let k = conts (w - 2) s' in (k = w - 2, 2 + k))"

lemma utf8_head_pos: "s \<noteq> [] \<Longrightarrow> 0 < snd (utf8_head s)"
  by (cases s) (auto simp: Let_def split: list.splits)

lemma utf8_head_drop: "s \<noteq> [] \<Longrightarrow> length (drop (snd (utf8_head s)) s) < length s"
  using utf8_head_pos [of s] by (cases s) simp_all

declare utf8_head.simps [simp del]

function utf8_valid :: "string \<Rightarrow> bool" where
  "utf8_valid s =
     (if s = [] then True
      else if fst (utf8_head s) then utf8_valid (drop (snd (utf8_head s)) s) else False)"
  by pat_completeness auto
termination
  by (relation "measure length") (use utf8_head_drop in simp_all)

function from_utf8_lossy :: "string \<Rightarrow> string" where
  "from_utf8_lossy s =
     (if s = [] then []
      else (if fst (utf8_head s) then take (snd (utf8_head s)) s else [CHR 0xEF, CHR 0xBF, CHR 0xBD])
        @ from_utf8_lossy (drop (snd (utf8_head s)) s))"
  by pat_completeness auto
termination
  by (relation "measure length") (use utf8_head_drop in simp_all)

definition utf8_code :: "string \<Rightarrow> nat" where
  "utf8_code s =
     (case map byte s of
        [a] \<Rightarrow> a
      | [a, b] \<Rightarrow> (a - 0xC0) * 64 + (b - 0x80)
      | [a, b, c] \<Rightarrow> (a - 0xE0) * 4096 + (b - 0x80) * 64 + (c - 0x80)
      | [a, b, c, d] \<Rightarrow> (a - 0xF0) * 262144 + (b - 0x80) * 4096 + (c - 0x80) * 64 + (d - 0x80)
      | _ \<Rightarrow> 0xFFFD)"

text \<open>\<open>str::chars\<close>, the scalar values of a string (of its lossy decoding, were it ill-formed).\<close>

function chars :: "string \<Rightarrow> nat list" where
  "chars s =
     (if s = [] then []
      else (if fst (utf8_head s) then utf8_code (take (snd (utf8_head s)) s) else 0xFFFD)
        # chars (drop (snd (utf8_head s)) s))"
  by pat_completeness auto
termination
  by (relation "measure length") (use utf8_head_drop in simp_all)

text \<open>\<open>char::is_whitespace\<close> (the \<open>White_Space\<close> property) and \<open>str::trim_start\<close>.\<close>

definition is_whitespace :: "nat \<Rightarrow> bool" where
  "is_whitespace c \<longleftrightarrow>
     (9 \<le> c \<and> c \<le> 13) \<or> c = 0x20 \<or> c = 0x85 \<or> c = 0xA0 \<or> c = 0x1680 \<or>
     (0x2000 \<le> c \<and> c \<le> 0x200A) \<or> c = 0x2028 \<or> c = 0x2029 \<or> c = 0x202F \<or> c = 0x205F \<or> c = 0x3000"

function trim_start :: "string \<Rightarrow> string" where
  "trim_start s =
     (if s = [] then []
      else if fst (utf8_head s) \<and> is_whitespace (utf8_code (take (snd (utf8_head s)) s))
      then trim_start (drop (snd (utf8_head s)) s)
      else s)"
  by pat_completeness auto
termination
  by (relation "measure length") (use utf8_head_drop in simp_all)

definition is_scalar :: "nat \<Rightarrow> bool" where
  "is_scalar c \<longleftrightarrow> c < 0xD800 \<or> (0xE000 \<le> c \<and> c < 0x110000)"

text \<open>\<open>char::encode_utf8\<close>, what \<open>String::push\<close> appends.\<close>

definition utf8_encode :: "nat \<Rightarrow> string" where
  "utf8_encode c =
     (if c < 0x80 then [char_of c]
      else if c < 0x800 then [char_of (0xC0 + c div 64), char_of (0x80 + c mod 64)]
      else if c < 0x10000 then
        [char_of (0xE0 + c div 4096), char_of (0x80 + c div 64 mod 64), char_of (0x80 + c mod 64)]
      else
        [char_of (0xF0 + c div 262144), char_of (0x80 + c div 4096 mod 64),
         char_of (0x80 + c div 64 mod 64), char_of (0x80 + c mod 64)])"

declare utf8_valid.simps [simp del] trim_start.simps [simp del] from_utf8_lossy.simps [simp del] chars.simps [simp del]

subsection \<open>Validity\<close>

lemma byte_char_of [simp]: "n < 256 \<Longrightarrow> byte (char_of n) = n"
  by simp

lemma utf8_valid_Nil [simp]: "utf8_valid []"
  by (simp add: utf8_valid.simps)

lemma chars_Nil [simp]: "chars [] = []"
  by (simp add: chars.simps)

lemma from_utf8_lossy_Nil [simp]: "from_utf8_lossy [] = []"
  by (simp add: from_utf8_lossy.simps)

lemma utf8_head_ascii [simp]: "byte c < 0x80 \<Longrightarrow> utf8_head (c # s) = (True, 1)"
  by (simp add: utf8_width_def utf8_head.simps)

lemma utf8_valid_ascii [simp]: "byte c < 0x80 \<Longrightarrow> utf8_valid (c # s) \<longleftrightarrow> utf8_valid s"
  by (subst utf8_valid.simps) simp

lemma chars_ascii [simp]: "byte c < 0x80 \<Longrightarrow> chars (c # s) = byte c # chars s"
  by (subst chars.simps) (simp add: utf8_code_def)

lemma conts_le: "conts n s \<le> n"
  by (induction n s rule: conts.induct) auto

lemma conts_append: "conts n s = n \<Longrightarrow> conts n (s @ t) = n"
  by (induction n s rule: conts.induct) (auto split: if_splits)

lemma conts_length: "conts n s \<le> length s"
  by (induction n s rule: conts.induct) auto

lemma utf8_head_length: "snd (utf8_head s) \<le> length s"
  by (cases s) (auto simp: utf8_head.simps Let_def conts_length split: list.splits)

lemma utf8_head_append: "fst (utf8_head s) \<Longrightarrow> utf8_head (s @ t) = utf8_head s"
  by (cases s) (auto simp: utf8_head.simps Let_def conts_append split: list.splits if_splits)

lemma utf8_valid_append: "utf8_valid s \<Longrightarrow> utf8_valid (s @ t) \<longleftrightarrow> utf8_valid t"
proof (induction s rule: utf8_valid.induct)
  case (1 s)
  show ?case
  proof (cases "s = []")
    case False
    with 1(2) have ok: "fst (utf8_head s)" and v: "utf8_valid (drop (snd (utf8_head s)) s)"
      by (simp_all add: utf8_valid.simps [of s] split: if_splits)
    have "utf8_valid (s @ t) \<longleftrightarrow> utf8_valid (drop (snd (utf8_head s)) (s @ t))"
      using False ok by (simp add: utf8_valid.simps [of "s @ t"] utf8_head_append)
    also have "\<dots> \<longleftrightarrow> utf8_valid (drop (snd (utf8_head s)) s @ t)"
      using utf8_head_length [of s] by simp
    also have "\<dots> \<longleftrightarrow> utf8_valid t" using 1(1) False ok v by blast
    finally show ?thesis .
  qed simp
qed

lemma chars_append: "utf8_valid s \<Longrightarrow> chars (s @ t) = chars s @ chars t"
proof (induction s rule: utf8_valid.induct)
  case (1 s)
  show ?case
  proof (cases "s = []")
    case False
    with 1(2) have ok: "fst (utf8_head s)" and v: "utf8_valid (drop (snd (utf8_head s)) s)"
      by (simp_all add: utf8_valid.simps [of s] split: if_splits)
    with 1(1) False have IH: "chars (drop (snd (utf8_head s)) s @ t) =
        chars (drop (snd (utf8_head s)) s) @ chars t" by blast
    have "chars (s @ t) = utf8_code (take (snd (utf8_head s)) (s @ t)) #
        chars (drop (snd (utf8_head s)) (s @ t))"
      using False ok by (subst chars.simps) (simp add: utf8_head_append)
    also have "\<dots> = chars s @ chars t"
      using False ok IH utf8_head_length [of s]
      by (simp add: chars.simps [of s])
    finally show ?thesis .
  qed simp
qed

subsection \<open>Encoding a scalar value\<close>

lemma base64_digits:
  fixes c :: nat
  shows "c = c div 64 * 64 + c mod 64" "c mod 64 < 64"
    "c div 64 = c div 4096 * 64 + c div 64 mod 64" "c div 64 mod 64 < 64"
    "c div 4096 = c div 262144 * 64 + c div 4096 mod 64" "c div 4096 mod 64 < 64"
proof -
  have "c div 4096 = c div 64 div 64" "c div 262144 = c div 4096 div 64"
    by (simp_all add: div_mult2_eq [symmetric])
  then show "c div 64 = c div 4096 * 64 + c div 64 mod 64"
    "c div 4096 = c div 262144 * 64 + c div 4096 mod 64" by simp_all
qed simp_all

lemma mod64_le [simp]: "(n :: nat) mod 64 \<le> 63"
  using mod_less_divisor [of 64 n] by linarith

lemma utf8_head_encode:
  assumes "is_scalar c"
  shows "utf8_head (utf8_encode c @ s) = (True, length (utf8_encode c))"
proof -
  consider "c < 0x80" | "0x80 \<le> c" "c < 0x800" | "0x800 \<le> c" "c < 0x10000"
    | "0x10000 \<le> c" "c < 0x110000"
    using assms unfolding is_scalar_def by linarith
  then show ?thesis
  proof cases
    case 1
    then show ?thesis by (simp add: utf8_encode_def)
  next
    case 2
    then have "2 \<le> c div 64" "c div 64 \<le> 31" using base64_digits [of c] by linarith+
    with 2 show ?thesis
      by (simp add: utf8_encode_def utf8_head.simps utf8_width_def second_ok_def is_cont_def)
  next
    case 3
    then have "c div 4096 \<le> 15" using base64_digits [of c] by linarith
    moreover have "c div 4096 = 0 \<Longrightarrow> 32 \<le> c div 64 mod 64"
      using 3 base64_digits [of c] by linarith
    moreover have "c div 4096 = 13 \<Longrightarrow> c div 64 mod 64 \<le> 31"
      using assms base64_digits [of c] unfolding is_scalar_def by linarith
    ultimately show ?thesis using 3
      by (simp add: utf8_encode_def utf8_head.simps utf8_width_def second_ok_def is_cont_def numeral_2_eq_2)
  next
    case 4
    then have "c div 262144 \<le> 4" using base64_digits [of c] by linarith
    moreover have "c div 262144 = 0 \<Longrightarrow> 16 \<le> c div 4096 mod 64"
      using 4 base64_digits [of c] by linarith
    moreover have "c div 262144 = 4 \<Longrightarrow> c div 4096 mod 64 \<le> 15"
      using 4 base64_digits [of c] by linarith
    ultimately show ?thesis using 4
      by (simp add: utf8_encode_def utf8_head.simps utf8_width_def second_ok_def is_cont_def numeral_2_eq_2)
  qed
qed

lemma utf8_code_encode: "is_scalar c \<Longrightarrow> utf8_code (utf8_encode c) = c"
proof -
  assume "is_scalar c"
  then consider "c < 0x80" | "0x80 \<le> c" "c < 0x800" | "0x800 \<le> c" "c < 0x10000"
    | "0x10000 \<le> c" "c < 0x110000"
    unfolding is_scalar_def by linarith
  then show "utf8_code (utf8_encode c) = c"
  proof cases
    case 1
    then show ?thesis by (simp add: utf8_encode_def utf8_code_def)
  next
    case 2
    then have "c div 64 < 32" using base64_digits [of c] by linarith
    with 2 show ?thesis by (simp add: utf8_encode_def utf8_code_def)
  next
    case 3
    then have "c div 4096 < 16" using base64_digits [of c] by linarith
    moreover have "c div 4096 * 4096 + c div 64 mod 64 * 64 + c mod 64 = c"
      using base64_digits [of c] by linarith
    ultimately show ?thesis using 3 by (simp add: utf8_encode_def utf8_code_def)
  next
    case 4
    then have "c div 262144 < 5" using base64_digits [of c] by linarith
    moreover have "c div 262144 * 262144 + c div 4096 mod 64 * 4096 + c div 64 mod 64 * 64 + c mod 64 = c"
      using base64_digits [of c] by linarith
    ultimately show ?thesis using 4 by (simp add: utf8_encode_def utf8_code_def)
  qed
qed

lemma utf8_encode_not_Nil [simp]: "utf8_encode c \<noteq> []"
  by (simp add: utf8_encode_def)

lemma utf8_valid_encode: "is_scalar c \<Longrightarrow> utf8_valid (utf8_encode c @ s) \<longleftrightarrow> utf8_valid s"
  by (subst utf8_valid.simps) (simp add: utf8_head_encode)

lemma chars_encode: "is_scalar c \<Longrightarrow> chars (utf8_encode c @ s) = c # chars s"
  by (subst chars.simps) (simp add: utf8_head_encode utf8_code_encode)

subsection \<open>Lossy decoding\<close>

lemma from_utf8_lossy_valid: "utf8_valid s \<Longrightarrow> from_utf8_lossy s = s"
proof (induction s rule: utf8_valid.induct)
  case (1 s)
  show ?case
  proof (cases "s = []")
    case False
    with 1(2) have ok: "fst (utf8_head s)" and v: "utf8_valid (drop (snd (utf8_head s)) s)"
      by (simp_all add: utf8_valid.simps [of s] split: if_splits)
    with 1(1) False have "from_utf8_lossy (drop (snd (utf8_head s)) s) = drop (snd (utf8_head s)) s"
      by blast
    with False ok show ?thesis
      by (subst from_utf8_lossy.simps) simp
  qed simp
qed

lemma utf8_valid_take_head:
  assumes "fst (utf8_head s)"
  shows "utf8_valid (take (snd (utf8_head s)) s @ t) \<longleftrightarrow> utf8_valid t"
proof -
  have conts_take: "conts n (take n u @ v) = n" if "conts n u = n" for n u v
    using that
  proof (induction n u rule: conts.induct)
    case (2 n c s)
    then show ?case by (cases n) (auto split: if_splits)
  qed auto
  note conts_take0 = conts_take [where v = "[]", simplified]
  have "utf8_head (take (snd (utf8_head s)) s @ t) = utf8_head s"
    using assms by (cases s) (auto simp: utf8_head.simps Let_def conts_take conts_take0 split: list.splits if_splits)
  then show ?thesis
    using assms utf8_head_length [of s] utf8_head_pos [of s]
    by (subst utf8_valid.simps) (cases s, auto)
qed

lemma utf8_valid_from_utf8_lossy: "utf8_valid (from_utf8_lossy s)"
proof (induction s rule: from_utf8_lossy.induct)
  case (1 s)
  show ?case
  proof (cases "s = []")
    case False
    with 1 have IH: "utf8_valid (from_utf8_lossy (drop (snd (utf8_head s)) s))" by simp
    have replacement: "char_of (239 :: nat) = CHR 0xEF" "char_of (191 :: nat) = CHR 0xBF"
      "char_of (189 :: nat) = CHR 0xBD"
      by (simp_all flip: byte_eq_iff)
    have bad: "utf8_valid ([CHR 0xEF, CHR 0xBF, CHR 0xBD] @ t) \<longleftrightarrow> utf8_valid t" for t
      using replacement utf8_valid_encode [where c = "0xFFFD" and s = t] by (simp add: utf8_encode_def is_scalar_def)
    show ?thesis
      using False IH bad utf8_valid_take_head [of s]
      by (subst from_utf8_lossy.simps) simp
  qed simp
qed

end
