(* ===== verification/Paths.thy ===== *)
theory Paths
  imports Utf8
begin

text \<open>
  Git's C-quoted paths: \<open>src/crates/deep-diff-forge-patch/src/paths.rs\<close>. The index loop of
  \<open>decode_quoted_prefix\<close> is a recursion over the bytes not yet read, with the decoded bytes as
  its accumulator. The main result is that \<open>decode_path\<close> inverts \<open>quote\<close>.
\<close>

definition is_octal :: "char \<Rightarrow> bool" where
  "is_octal c \<longleftrightarrow> 48 \<le> byte c \<and> byte c \<le> 55"

definition simple_escape :: "char \<Rightarrow> char option" where
  "simple_escape c =
     (if c = CHR ''a'' then Some (CHR 0x07) else if c = CHR ''b'' then Some (CHR 0x08)
      else if c = CHR ''t'' then Some TAB else if c = CHR ''n'' then Some LF
      else if c = CHR ''v'' then Some (CHR 0x0B) else if c = CHR ''f'' then Some (CHR 0x0C)
      else if c = CHR ''r'' then Some CR else if c = BACKSLASH then Some BACKSLASH
      else if c = DQUOTE then Some DQUOTE else None)"

fun dq_loop :: "string \<Rightarrow> string \<Rightarrow> (string \<times> string) option" where
  "dq_loop out [] = None"
| "dq_loop out (b # s) =
     (if b = DQUOTE then (if utf8_valid out then Some (out, s) else None)
      else if b = BACKSLASH then
        (case s of
           [] \<Rightarrow> None
         | e # s1 \<Rightarrow>
             (case simple_escape e of
                Some v \<Rightarrow> dq_loop (out @ [v]) s1
              | None \<Rightarrow>
                  if 48 \<le> byte e \<and> byte e \<le> 51 then
                    (case s1 of
                       d1 # d2 # s2 \<Rightarrow>
                         if \<not> is_octal d1 \<or> \<not> is_octal d2 then None
                         else dq_loop (out @ [char_of ((byte e - 48) * 64 + (byte d1 - 48) * 8
                                + (byte d2 - 48))]) s2
                     | _ \<Rightarrow> None)
                  else None))
      else if b = NUL then None
      else dq_loop (out @ [b]) s)"

definition decode_quoted_prefix :: "string \<Rightarrow> (string \<times> string) option" where
  "decode_quoted_prefix input =
     (case input of
        [] \<Rightarrow> None
      | b # s \<Rightarrow> if b \<noteq> DQUOTE then None else dq_loop [] s)"

definition decode_path :: "string \<Rightarrow> string option" where
  "decode_path input =
     (if starts_with [DQUOTE] input then
        (case decode_quoted_prefix input of
           None \<Rightarrow> None
         | Some (decoded, rest) \<Rightarrow>
             if rest = [] \<and> NUL \<notin> set decoded then Some decoded else None)
      else if NUL \<in> set input then None
      else Some input)"

definition quote_byte :: "char \<Rightarrow> string" where
  "quote_byte b =
     (if b = DQUOTE then [BACKSLASH, DQUOTE]
      else if b = BACKSLASH then [BACKSLASH, BACKSLASH]
      else if b = TAB then [BACKSLASH, CHR ''t'']
      else if b = LF then [BACKSLASH, CHR ''n'']
      else if b = CR then [BACKSLASH, CHR ''r'']
      else if 32 \<le> byte b \<and> byte b \<le> 126 then [b]
      else [BACKSLASH, char_of (byte b div 64 + 48), char_of (byte b div 8 mod 8 + 48),
            char_of (byte b mod 8 + 48)])"

definition needs_quoting :: "char \<Rightarrow> bool" where
  "needs_quoting b \<longleftrightarrow> byte b \<le> 32 \<or> 127 \<le> byte b \<or> b = DQUOTE \<or> b = BACKSLASH"

definition quote :: "string \<Rightarrow> string" where
  "quote path =
     (if \<not> (\<exists>b\<in>set path. needs_quoting b) then path
      else DQUOTE # concat (map quote_byte path) @ [DQUOTE])"

declare dq_loop.simps [simp del]

subsection \<open>Decoding inverts quoting\<close>

lemma byte_div64_le: "byte c div 64 \<le> 3"
  using byte_less [of c] by linarith

lemma octal_digits: "(n div 64) * 64 + n div 8 mod 8 * 8 + n mod 8 = (n :: nat)"
proof -
  have "n div 64 = n div 8 div 8" by (simp add: div_mult2_eq [symmetric])
  then have "n div 8 = n div 64 * 8 + n div 8 mod 8" by simp
  moreover have "n = n div 8 * 8 + n mod 8" by simp
  ultimately show ?thesis by linarith
qed

lemma octal_chars:
  assumes "k < 8"
  shows "byte (char_of (k + 48)) = k + 48" "is_octal (char_of (k + 48))"
    "simple_escape (char_of (k + 48)) = None"
proof -
  show b: "byte (char_of (k + 48)) = k + 48" using assms by simp
  with assms show "is_octal (char_of (k + 48))" by (simp add: is_octal_def)
  have "char_of (k + 48) \<noteq> c" if "byte c \<notin> {48..<56}" for c
    using that b assms by auto
  then show "simple_escape (char_of (k + 48)) = None" by (simp add: simple_escape_def)
qed

lemma dq_loop_end [simp]:
  "dq_loop out [] = None"
  "dq_loop out (DQUOTE # s) = (if utf8_valid out then Some (out, s) else None)"
  by (simp_all add: dq_loop.simps)

lemma dq_loop_step:
  "b \<noteq> DQUOTE \<Longrightarrow> b \<noteq> BACKSLASH \<Longrightarrow> 32 \<le> byte b \<Longrightarrow> dq_loop out (b # s) = dq_loop (out @ [b]) s"
  by (auto simp: dq_loop.simps(2) [of out b])

lemma dq_loop_simple:
  "simple_escape e = Some v \<Longrightarrow> dq_loop out (BACKSLASH # e # s) = dq_loop (out @ [v]) s"
  by (simp add: dq_loop.simps(2) [of out BACKSLASH])

lemma dq_loop_escape:
  "dq_loop out (BACKSLASH # DQUOTE # s) = dq_loop (out @ [DQUOTE]) s"
  "dq_loop out (BACKSLASH # BACKSLASH # s) = dq_loop (out @ [BACKSLASH]) s"
  "dq_loop out (BACKSLASH # CHR ''t'' # s) = dq_loop (out @ [TAB]) s"
  "dq_loop out (BACKSLASH # CHR ''n'' # s) = dq_loop (out @ [LF]) s"
  "dq_loop out (BACKSLASH # CHR ''r'' # s) = dq_loop (out @ [CR]) s"
  by (rule dq_loop_simple, simp add: simple_escape_def)+

lemma dq_loop_octal:
  "simple_escape e = None \<Longrightarrow> 48 \<le> byte e \<Longrightarrow> byte e \<le> 51 \<Longrightarrow> is_octal d1 \<Longrightarrow> is_octal d2 \<Longrightarrow>
   dq_loop out (BACKSLASH # e # d1 # d2 # s) =
     dq_loop (out @ [char_of ((byte e - 48) * 64 + (byte d1 - 48) * 8 + (byte d2 - 48))]) s"
  by (simp add: dq_loop.simps(2) [of out BACKSLASH])

lemma dq_loop_quote_byte: "dq_loop out (quote_byte b @ s) = dq_loop (out @ [b]) s"
proof -
  have lt: "byte b div 64 < 8" "byte b div 8 mod 8 < 8" "byte b mod 8 < 8"
    using byte_div64_le [of b] by auto
  have small: "byte b div 64 \<le> 3" by (rule byte_div64_le)
  have val: "char_of (byte b div 64 * 64 + byte b div 8 mod 8 * 8 + byte b mod 8) = b"
    by (simp only: octal_digits char_of_char)
  show ?thesis
    using lt small val
    by (simp add: quote_byte_def dq_loop_step dq_loop_escape octal_chars dq_loop_octal)
qed

lemma dq_loop_quoted:
  "dq_loop out (concat (map quote_byte p) @ DQUOTE # s) =
     (if utf8_valid (out @ p) then Some (out @ p, s) else None)"
  by (induction p arbitrary: out) (simp_all add: dq_loop_quote_byte)

lemma quote_not_quoted: "\<not> (\<exists>b\<in>set p. needs_quoting b) \<Longrightarrow> \<not> starts_with [DQUOTE] p \<and> NUL \<notin> set p"
proof -
  assume "\<not> (\<exists>b\<in>set p. needs_quoting b)"
  then have "DQUOTE \<notin> set p" "NUL \<notin> set p"
    using needs_quoting_def [of DQUOTE] needs_quoting_def [of NUL] by auto
  then show ?thesis by (cases p) auto
qed

lemma decode_quote_prefix:
  assumes "utf8_valid p" "\<exists>b\<in>set p. needs_quoting b"
  shows "decode_quoted_prefix (quote p @ s) = Some (p, s)"
  using assms dq_loop_quoted [of "[]" p s] by (simp add: quote_def decode_quoted_prefix_def)

lemma decode_path_quote:
  assumes "utf8_valid p" "NUL \<notin> set p"
  shows "decode_path (quote p) = Some p"
proof (cases "\<exists>b\<in>set p. needs_quoting b")
  case True
  then show ?thesis
    using assms decode_quote_prefix [OF assms(1) True, of "[]"]
    by (simp add: decode_path_def quote_def)
next
  case False
  with quote_not_quoted [OF False] show ?thesis
    by (simp add: decode_path_def quote_def)
qed

lemma decode_path_no_NUL: "decode_path s = Some p \<Longrightarrow> NUL \<notin> set p"
  by (auto simp: decode_path_def split: if_splits option.splits)

lemma dq_loop_utf8: "dq_loop out s = Some (p, r) \<Longrightarrow> utf8_valid p"
proof (induction out s rule: dq_loop.induct)
  case (2 out b s)
  show ?case
    using 2 unfolding dq_loop.simps(2)
    by (auto split: if_splits list.splits option.splits)
qed simp

lemma decode_path_utf8: "utf8_valid s \<Longrightarrow> decode_path s = Some p \<Longrightarrow> utf8_valid p"
  by (auto simp: decode_path_def decode_quoted_prefix_def split: if_splits option.splits list.splits
      dest: dq_loop_utf8)

lemma quote_byte_printable: "c \<in> set (quote_byte b) \<Longrightarrow> 32 \<le> byte c \<and> byte c \<le> 126"
proof -
  have "byte b div 64 < 8" "byte b div 8 mod 8 < 8" "byte b mod 8 < 8"
    using byte_div64_le [of b] by auto
  then show "c \<in> set (quote_byte b) \<Longrightarrow> 32 \<le> byte c \<and> byte c \<le> 126"
    by (auto simp: quote_byte_def octal_chars split: if_splits)
qed

lemma quote_printable: "c \<in> set (quote p) \<Longrightarrow> 32 \<le> byte c \<and> byte c \<le> 126"
proof (cases "\<exists>b\<in>set p. needs_quoting b")
  case True
  then show "c \<in> set (quote p) \<Longrightarrow> ?thesis"
    by (auto simp: quote_def dest: quote_byte_printable)
next
  case False
  moreover assume "c \<in> set (quote p)"
  ultimately have "\<not> needs_quoting c" by (auto simp: quote_def)
  then show ?thesis by (simp add: needs_quoting_def)
qed

end
