(* ===== verification/Header_Syntax.thy ===== *)
theory Header_Syntax
  imports Core_Model Paths
begin

text \<open>
  The stateless readers of \<open>src/crates/deep-diff-forge-patch/src/parser.rs\<close>: file modes, hunk
  headers, header names, the halves of a \<open>diff --git\<close> line, \<open>diff -u\<close> timestamps and the lines of a
  binary body, with the constants they match. Modes are \<^typ>\<open>32 word\<close>s, since the code masks
  them; the numbers of a hunk header are \<^typ>\<open>nat\<close>s that the reader refuses past \<open>u32::MAX\<close>.
\<close>

unbundle bit_operations_syntax

definition META_PREFIXES :: "string list" where
  "META_PREFIXES =
     [''old mode '', ''new mode '', ''new file mode '', ''deleted file mode '', ''index '',
      ''similarity index '', ''dissimilarity index '', ''copy from '', ''copy to '',
      ''GIT binary patch'', ''Binary files '']"

definition MODE_PREFIXES :: "string list" where
  "MODE_PREFIXES = [''old mode '', ''new mode '', ''new file mode '', ''deleted file mode '']"

definition dev_null :: string where
  "dev_null = ''/dev/null''"

subsection \<open>Modes\<close>

text \<open>The octal constants of the source in hexadecimal: \<open>0o170000 = 0xF000\<close>, \<open>0o100000 = 0x8000\<close>,
  \<open>0o120000 = 0xA000\<close>, \<open>0o040000 = 0x4000\<close>, \<open>0o160000 = 0xE000\<close>, \<open>0o100755 = 0x81ED\<close>,
  \<open>0o100644 = 0x81A4\<close>, \<open>0o100 = 0x40\<close>.\<close>

definition parse_mode :: "string \<Rightarrow> 32 word option" where
  "parse_mode mode =
     (if mode \<noteq> [] \<and> length mode \<le> 6 \<and> list_all is_octal mode
      then Some (of_nat (foldl (\<lambda>acc d. acc * 8 + digit_value d) 0 mode)) else None)"

definition object_type :: "32 word \<Rightarrow> 32 word" where
  "object_type mode = mode AND 0xF000"

definition canon_mode :: "32 word \<Rightarrow> 32 word" where
  "canon_mode mode =
     (if object_type mode = 0x8000 \<and> mode AND 0x40 \<noteq> 0 then 0x81ED
      else if object_type mode = 0x8000 then 0x81A4
      else if object_type mode = 0xA000 then 0xA000
      else if object_type mode = 0x4000 then 0x4000
      else 0xE000)"

subsection \<open>Paths\<close>

definition git_refuses_path :: "string \<Rightarrow> bool" where
  "git_refuses_path path \<longleftrightarrow>
     path = [] \<or> starts_with [SLASH] path \<or>
     (\<exists>c\<in>set (split_char SLASH path). c = ''.'' \<or> c = ''..'' \<or> eq_ignore_ascii_case c ''.git'')"

definition squash_slashes :: "string \<Rightarrow> string" where
  "squash_slashes path =
     foldl (\<lambda>out c. if c = SLASH \<and> ends_with [SLASH] out then out else out @ [c]) [] path"

definition p_name :: "string \<Rightarrow> bool \<Rightarrow> string" where
  "p_name path p0 =
     (let stripped = (if p0 then path
                      else case split_once SLASH path of None \<Rightarrow> path | Some (_, rest) \<Rightarrow> rest)
      in squash_slashes stripped)"

definition header_half :: "string \<Rightarrow> bool \<Rightarrow> string" where
  "header_half path p0 =
     (if p0 then path
      else case split_once SLASH path of None \<Rightarrow> path | Some (_, rest) \<Rightarrow> rest)"

definition strip_p :: "string \<Rightarrow> bool \<Rightarrow> string option" where
  "strip_p path p0 =
     (case (if p0 then Some path else map_option snd (split_once SLASH path)) of
        None \<Rightarrow> None
      | Some rest \<Rightarrow> if rest = [] then None else Some rest)"

definition skip_tree_prefix :: "string \<Rightarrow> bool \<Rightarrow> string option" where
  "skip_tree_prefix name p0 =
     (if p0 then (if starts_with [SLASH] name then None else Some name)
      else case position (\<lambda>c. c = SLASH) name of
        None \<Rightarrow> None
      | Some at \<Rightarrow> if at = 0 then None else Some (drop (at + 1) name))"

fun snh_loop :: "bool \<Rightarrow> string \<Rightarrow> nat \<Rightarrow> nat list \<Rightarrow> string option" where
  "snh_loop p0 name slash [] = None"
| "snh_loop p0 name slash (at # ats) =
     (let start = at + 1 in
      if start = length name then None
      else if p0 then
        (if name ! start = SLASH then None
         else if length name - start = at \<and> drop start name = take at name
         then Some (take at name)
         else snh_loop p0 name slash ats)
      else
        (let from = max slash start in
         case position (\<lambda>b. b = SLASH) (drop from name) of
           None \<Rightarrow> None
         | Some k \<Rightarrow>
             (let slash' = from + k in
              if slash' = start then None
              else
                (let second = slash' + 1 in
                 if length name - second = at \<and> drop second name = take at name
                 then Some (take at name)
                 else snh_loop p0 name slash' ats))))"

definition blank_positions :: "string \<Rightarrow> nat list" where
  "blank_positions name = filter (\<lambda>i. name ! i = SPACE \<or> name ! i = TAB) [0..<length name]"

definition same_name_halves :: "string \<Rightarrow> bool \<Rightarrow> string option" where
  "same_name_halves rest p0 =
     (case skip_tree_prefix rest p0 of
        None \<Rightarrow> None
      | Some name \<Rightarrow>
          (case position (\<lambda>c. c = DQUOTE) name of
             Some q \<Rightarrow>
               (case decode_quoted_prefix (drop q name) of
                  None \<Rightarrow> None
                | Some (second, _) \<Rightarrow>
                    (case skip_tree_prefix second p0 of
                       None \<Rightarrow> None
                     | Some second \<Rightarrow>
                         (case strip_prefix second (take q name) of
                            None \<Rightarrow> None
                          | Some after \<Rightarrow>
                              if starts_with [SPACE] after \<or> starts_with [TAB] after
                                 \<or> starts_with [CR] after
                              then Some second else None)))
           | None \<Rightarrow> snh_loop p0 name 0 (blank_positions name)))"

subsection \<open>Hunk headers\<close>

record HunkHeader =
  hh_old_start :: nat
  hh_old_count :: nat
  hh_new_start :: nat
  hh_new_count :: nat
  hh_section :: "string option"

definition take_digits :: "string \<Rightarrow> (nat \<times> string) option" where
  "take_digits text =
     (let digits = takeWhile is_ascii_digit text; rest = dropWhile is_ascii_digit text in
      if digits = [] then None
      else if dec_value digits \<le> u32_max then Some (dec_value digits, rest) else None)"

definition take_range :: "string \<Rightarrow> (nat \<times> nat \<times> string) option" where
  "take_range text =
     (case take_digits text of
        None \<Rightarrow> None
      | Some (start, rest) \<Rightarrow>
          (case strip_prefix '','' rest of
             None \<Rightarrow> Some (start, 1, rest)
           | Some after_comma \<Rightarrow>
               (case take_digits after_comma of
                  None \<Rightarrow> None
                | Some (count, rest) \<Rightarrow> Some (start, count, rest))))"

definition parse_hunk_header :: "string \<Rightarrow> HunkHeader option" where
  "parse_hunk_header line =
     Option.bind (strip_prefix ''@@ -'' line) (\<lambda>rest.
     Option.bind (take_range rest) (\<lambda>(old_start, old_count, rest).
     Option.bind (strip_prefix '' +'' rest) (\<lambda>rest.
     Option.bind (take_range rest) (\<lambda>(new_start, new_count, rest).
     Option.bind (strip_prefix '' @@'' rest) (\<lambda>after.
     Option.bind (if after = [] then Some [] else strip_prefix '' '' after) (\<lambda>heading.
       Some \<lparr>hh_old_start = old_start, hh_old_count = old_count, hh_new_start = new_start,
         hh_new_count = new_count,
         hh_section = (if heading = [] then None else Some heading)\<rparr>))))))"

subsection \<open>Timestamps\<close>

definition all_digits :: "string \<Rightarrow> bool" where
  "all_digits s \<longleftrightarrow> list_all is_ascii_digit s"

definition is_sign :: "char \<Rightarrow> bool" where
  "is_sign c \<longleftrightarrow> c = CHR ''+'' \<or> c = CHR ''-''"

definition slice :: "nat \<Rightarrow> nat \<Rightarrow> 'a list \<Rightarrow> 'a list" where
  "slice a b xs = take (b - a) (drop a xs)"

text \<open>The closures of \<open>timestamp_len\<close>, in its order.\<close>

definition ts_sane_tz :: "string \<Rightarrow> nat" where
  "ts_sane_tz s =
     (if length s < 6 then 0
      else let tz = length s - 6 in
        if s ! tz = SPACE \<and> is_sign (s ! (tz + 1)) \<and> all_digits (drop (tz + 2) s) then 6 else 0)"

definition ts_colon_tz :: "string \<Rightarrow> nat" where
  "ts_colon_tz s =
     (if length s < 7 then 0
      else let tz = length s - 7 in
        if s ! tz = SPACE \<and> is_sign (s ! (tz + 1)) \<and> all_digits (slice (tz + 2) (tz + 4) s)
           \<and> s ! (tz + 4) = CHR '':'' \<and> all_digits (drop (tz + 5) s)
        then 7 else 0)"

definition ts_short_time :: "string \<Rightarrow> nat" where
  "ts_short_time s =
     (if length s < 9 then 0
      else let t = drop (length s - 9) s in
        if t ! 0 = SPACE \<and> all_digits (slice 1 3 t) \<and> t ! 3 = CHR '':'' \<and> all_digits (slice 4 6 t)
           \<and> t ! 6 = CHR '':'' \<and> all_digits (drop 7 t)
        then 9 else 0)"

definition ts_fractional_time :: "string \<Rightarrow> nat" where
  "ts_fractional_time s =
     (let whole = length s - length (takeWhile is_ascii_digit (rev s)) in
      if whole = length s \<or> whole = 0 \<or> s ! (whole - 1) \<noteq> CHR ''.'' then 0
      else let n = ts_short_time (take (whole - 1) s) in
        if n = 0 then 0 else length s - (whole - 1) + n)"

definition ts_date :: "string \<Rightarrow> nat" where
  "ts_date s =
     (if length s < 8 then 0
      else let at = length s - 8; d = drop at s in
        if \<not> (all_digits (take 2 d) \<and> d ! 2 = CHR ''-'' \<and> all_digits (slice 3 5 d)
              \<and> d ! 5 = CHR ''-'' \<and> all_digits (drop 6 d))
        then 0
        else if 2 \<le> at \<and> all_digits (slice (at - 2) at s) then 10 else 8)"

definition timestamp_len :: "string \<Rightarrow> nat" where
  "timestamp_len line =
     (if line = [] \<or> \<not> is_ascii_digit (last line) then 0
      else
        let len = length line;
            e1 = len - (if ts_sane_tz line = 0 then ts_colon_tz line else ts_sane_tz line);
            l1 = take e1 line;
            e2 = e1 - (if ts_short_time l1 = 0 then ts_fractional_time l1 else ts_short_time l1);
            l2 = take e2 line
        in if ts_date l2 = 0 then 0
           else
             let e3 = e2 - ts_date l2 in
             if e3 = 0 then 0
             else if line ! (e3 - 1) = TAB then len - (e3 - 1)
             else if line ! (e3 - 1) = SPACE
             then len - (e3 - length (takeWhile (\<lambda>b. b = SPACE) (rev (take e3 line))))
             else 0)"

definition ep_two :: "string \<Rightarrow> char \<Rightarrow> int option" where
  "ep_two s first =
     (case s of
        [a, b] \<Rightarrow>
          if is_ascii_digit a \<and> is_ascii_digit b \<and> byte a \<le> byte first
          then Some (int (digit_value a) * 10 + int (digit_value b)) else None
      | _ \<Rightarrow> None)"

text \<open>\<open>slice.get(a..b)\<close>.\<close>

definition get_range :: "nat \<Rightarrow> nat \<Rightarrow> 'a list \<Rightarrow> 'a list option" where
  "get_range a b xs = (if b \<le> length xs then Some (slice a b xs) else None)"

definition ep_fraction :: "string \<Rightarrow> string option" where
  "ep_fraction rest =
     (case strip_prefix ''.'' rest of
        None \<Rightarrow> Some rest
      | Some fraction \<Rightarrow>
          if takeWhile (\<lambda>b. b = CHR ''0'') fraction = [] then None
          else Some (dropWhile (\<lambda>b. b = CHR ''0'') fraction))"

definition ep_zone :: "string \<Rightarrow> int option" where
  "ep_zone zone =
     (case (case zone of
              [h0, h1, c, m0, m1] \<Rightarrow> if c = CHR '':'' then Some ([h0, h1], [m0, m1]) else None
            | [h0, h1, m0, m1] \<Rightarrow> Some ([h0, h1], [m0, m1])
            | _ \<Rightarrow> None) of
        None \<Rightarrow> None
      | Some (hs, ms) \<Rightarrow>
          (case (ep_two hs (CHR ''2''), ep_two ms (CHR ''5'')) of
             (Some h, Some m) \<Rightarrow> Some (h * 60 + m)
           | _ \<Rightarrow> None))"

definition has_epoch_timestamp :: "string \<Rightarrow> bool" where
  "has_epoch_timestamp rest =
     (case rsplit_once TAB rest of
        None \<Rightarrow> False
      | Some (_, stamp) \<Rightarrow>
          (case (case strip_prefix ''1969-12-31 '' stamp of
                   Some time \<Rightarrow> Some (24 :: int, time)
                 | None \<Rightarrow> map_option (\<lambda>time. (0, time)) (strip_prefix ''1970-01-01 '' stamp)) of
             None \<Rightarrow> False
           | Some (epoch_hour, t) \<Rightarrow>
               (case (Option.bind (get_range 0 2 t) (\<lambda>s. ep_two s (CHR ''2'')),
                      Option.bind (get_range 3 5 t) (\<lambda>s. ep_two s (CHR ''5'')),
                      get_range 5 8 t) of
                  (Some hour, Some minute, Some sec) \<Rightarrow>
                    if sec \<noteq> '':00'' \<or> t ! 2 \<noteq> CHR '':'' then False
                    else (case ep_fraction (drop 8 t) of
                            Some (sp # sign # zone) \<Rightarrow>
                              if sp \<noteq> SPACE \<or> \<not> is_sign sign then False
                              else (case ep_zone zone of
                                      None \<Rightarrow> False
                                    | Some z \<Rightarrow>
                                        hour * 60 + minute - (if sign = CHR ''-'' then - z else z)
                                          = epoch_hour * 60)
                          | _ \<Rightarrow> False)
                | _ \<Rightarrow> False)))"

subsection \<open>Header names\<close>

definition header_name :: "string \<Rightarrow> bool \<Rightarrow> string option" where
  "header_name rest dated =
     (if (case strip_prefix dev_null rest of
            None \<Rightarrow> False
          | Some after \<Rightarrow> after = [] \<or> starts_with [SPACE] after \<or> starts_with [TAB] after
                           \<or> starts_with [CR] after)
      then Some dev_null
      else if starts_with [DQUOTE] rest then decode_path (takeWhile (\<lambda>c. c \<noteq> TAB) rest)
      else
        let stamp = (if dated then timestamp_len rest else 0) in
        decode_path
          (if 0 < stamp then take (length rest - stamp) rest
           else takeWhile (\<lambda>c. c \<noteq> TAB \<and> c \<noteq> CR) rest))"

subsection \<open>Binary bodies\<close>

definition BASE85 :: string where
  "BASE85 =
     ''0123456789ABCDEFGHIJKLMNOPQRSTUVWXYZabcdefghijklmnopqrstuvwxyz!#$%&()*+-;<=>?@^_`{|}~''"

definition is_binary_body_line :: "string \<Rightarrow> bool" where
  "is_binary_body_line line =
     (if line = [] then True
      else case (case strip_prefix ''literal '' line of
                   Some n \<Rightarrow> Some n
                 | None \<Rightarrow> strip_prefix ''delta '' line) of
        Some n \<Rightarrow> n \<noteq> [] \<and> all_digits n
      | None \<Rightarrow>
          let b = byte (hd line); data = tl line in
          (case (if 65 \<le> b \<and> b \<le> 90 then Some (b - 65 + 1)
                 else if 97 \<le> b \<and> b \<le> 122 then Some (b - 97 + 27) else None) of
             None \<Rightarrow> False
           | Some count \<Rightarrow>
               length data = ((count + 3) div 4) * 5 \<and> list_all (\<lambda>c. c \<in> set BASE85) data))"

end
