(* ===== verification/Parse_Error.thy ===== *)
theory Parse_Error
  imports Core_Model
begin

text \<open>
  The typed refusals of the patch layer and their exit codes
  (\<open>src/crates/deep-diff-forge-patch/src/lib.rs\<close>), and the exit-code registry they map into
  (\<open>src/crates/deep-diff-forge-core/src/exit.rs\<close>).
\<close>

definition DEFAULT_BYTE_BUDGET :: nat where
  "DEFAULT_BYTE_BUDGET = 64 * 1024 * 1024"

definition DEFAULT_LINE_BUDGET :: nat where
  "DEFAULT_LINE_BUDGET = 1000000"

datatype PatchParseError =
    InvalidEofMarker nat
  | UnsupportedFormat nat
  | InvalidPath nat
  | InvalidMode nat
  | MisplacedHeader nat
  | InconsistentHeader nat
  | UnterminatedLine nat
  | BudgetExceeded nat nat
  | LineBudgetExceeded nat nat
  | MisplacedHunk nat
  | HunkWithoutChange nat
  | SectionWithoutPatch nat
  | LossyHeader nat
  | MalformedHunkHeader nat string
  | BodyLineOutsideHunk nat string
  | TruncatedHunk nat nat nat
  | HunkLineCountMismatch nat string

subsection \<open>The exit-code registry\<close>

definition SUCCESS :: int where "SUCCESS = 0"
definition USAGE :: int where "USAGE = 2"
definition EXIT_IO :: int where "EXIT_IO = 3"
definition INVALID_INPUT :: int where "INVALID_INPUT = 4"
definition DAEMON_OR_TERMINAL :: int where "DAEMON_OR_TERMINAL = 6"
definition INPUT_CONTRACT_REFUSED :: int where "INPUT_CONTRACT_REFUSED = 7"
definition EXIT_PANIC :: int where "EXIT_PANIC = 101"
definition COUNCIL_COMPLETED :: int where "COUNCIL_COMPLETED = 0"
definition COUNCIL_REFUSED :: int where "COUNCIL_REFUSED = 4"
definition COUNCIL_HOLD :: int where "COUNCIL_HOLD = 7"

datatype NextAction =
  Proceed | FixInvocation | CheckEnvironment | ChangeInput | ReviewEvidence | ReportBug

fun NextAction_name :: "NextAction \<Rightarrow> string" where
  "NextAction_name Proceed = ''proceed''"
| "NextAction_name FixInvocation = ''fix_invocation''"
| "NextAction_name CheckEnvironment = ''check_environment''"
| "NextAction_name ChangeInput = ''change_input''"
| "NextAction_name ReviewEvidence = ''review_evidence''"
| "NextAction_name ReportBug = ''report_bug''"

definition may_be_transient :: "NextAction \<Rightarrow> bool" where
  "may_be_transient a \<longleftrightarrow> a = CheckEnvironment"

record ExitCode =
  ec_family :: string
  ec_code :: int
  ec_name :: string
  ec_meaning :: string
  ec_action :: NextAction

definition exit_entry :: "string \<Rightarrow> int \<Rightarrow> string \<Rightarrow> string \<Rightarrow> NextAction \<Rightarrow> ExitCode" where
  "exit_entry family code name meaning action =
     \<lparr>ec_family = family, ec_code = code, ec_name = name, ec_meaning = meaning, ec_action = action\<rparr>"

definition EXIT_CODES :: "ExitCode list" where
  "EXIT_CODES =
    [exit_entry ''engine'' SUCCESS ''success'' ''Success.'' Proceed,
     exit_entry ''engine'' USAGE ''usage'' ''CLI usage / argument error.'' FixInvocation,
     exit_entry ''engine'' EXIT_IO ''io''
       ''I/O or encoding failure: reading input (stdin, a file, Git, the learning store), non-UTF-8 input, or writing output.''
       CheckEnvironment,
     exit_entry ''engine'' INVALID_INPUT ''invalid_input''
       ''Invalid input: a patch or analysis input that fails to parse or validate, input over the byte budget, an invalid receipt, a named path that is not a regular file, or a refused Git acquisition or file pair.''
       ChangeInput,
     exit_entry ''engine'' DAEMON_OR_TERMINAL ''daemon_or_terminal''
       ''Daemon / interactive-terminal failure.'' CheckEnvironment,
     exit_entry ''engine'' INPUT_CONTRACT_REFUSED ''input_contract_refused''
       ''Input contract refused.'' ChangeInput,
     exit_entry ''engine'' EXIT_PANIC ''panic'' ''Internal error (a panic).'' ReportBug,
     exit_entry ''council'' COUNCIL_COMPLETED ''completed''
       ''The requested council operation completed under its contract; `status` exit 0 means ready for human review.''
       Proceed,
     exit_entry ''council'' COUNCIL_REFUSED ''refused''
       ''Malformed input, stale admission, an existing artifact, or a protocol or I/O failure.''
       ChangeInput,
     exit_entry ''council'' COUNCIL_HOLD ''hold''
       ''HOLD: failed, missing or inconclusive evidence, or an import conflict.'' ReviewEvidence]"

definition exit_lookup :: "string \<Rightarrow> int \<Rightarrow> ExitCode option" where
  "exit_lookup family code = List.find (\<lambda>e. ec_family e = family \<and> ec_code e = code) EXIT_CODES"

fun PatchParseError_exit_code :: "PatchParseError \<Rightarrow> int" where
  "PatchParseError_exit_code (LossyHeader _) = EXIT_IO"
| "PatchParseError_exit_code _ = INVALID_INPUT"

lemmas exit_code_defs =
  SUCCESS_def USAGE_def EXIT_IO_def INVALID_INPUT_def DAEMON_OR_TERMINAL_def
  INPUT_CONTRACT_REFUSED_def EXIT_PANIC_def COUNCIL_COMPLETED_def COUNCIL_REFUSED_def
  COUNCIL_HOLD_def

end
