(* ===== verification/Parser.thy ===== *)
theory Parser
  imports Header_Syntax Parse_Error
begin

text \<open>
  The patch parser of \<open>src/crates/deep-diff-forge-patch/src/parser.rs\<close>: the working accumulators
  \<open>FileBuf\<close>, \<open>HunkBuf\<close> and \<open>Parser\<close> as records, and each method as a function from the parser state
  to either a refusal or the next state. \<open>&mut self\<close> is state passing; the state a method leaves
  behind when it refuses is not modelled, since every refusal ends the parse.
\<close>

record FileBuf =
  fb_git_old :: "string option"
  fb_git_new :: "string option"
  fb_old_raw :: "string option"
  fb_new_raw :: "string option"
  fb_rename_from :: "string option"
  fb_rename_to :: "string option"
  fb_metadata :: "string list"
  fb_binary_body :: "string list"
  fb_in_binary_body :: bool
  fb_hunks :: "PatchHunk list"
  fb_lossy_lines :: nat
  fb_awaiting_new_header :: bool
  fb_past_headers :: bool
  fb_header_ended :: bool
  fb_eof_old :: "nat option"
  fb_eof_new :: "nat option"
  fb_git :: bool
  fb_p0 :: bool
  fb_old_epoch :: bool
  fb_traditional_path :: "string option"
  fb_first_line :: nat

definition FileBuf_default :: FileBuf where
  "FileBuf_default =
     \<lparr>fb_git_old = None, fb_git_new = None, fb_old_raw = None, fb_new_raw = None,
      fb_rename_from = None, fb_rename_to = None, fb_metadata = [], fb_binary_body = [],
      fb_in_binary_body = False, fb_hunks = [], fb_lossy_lines = 0,
      fb_awaiting_new_header = False, fb_past_headers = False, fb_header_ended = False,
      fb_eof_old = None, fb_eof_new = None, fb_git = False, fb_p0 = False, fb_old_epoch = False,
      fb_traditional_path = None, fb_first_line = 0\<rparr>"

record HunkBuf =
  hb_id :: nat
  hb_section :: "string option"
  hb_old_start :: nat
  hb_new_start :: nat
  hb_old_line :: nat
  hb_new_line :: nat
  hb_rem_old :: nat
  hb_rem_new :: nat
  hb_lines :: "PatchLine list"

record Parser =
  pr_files :: "ReviewFile list"
  pr_file :: "FileBuf option"
  pr_hunk :: "HunkBuf option"
  pr_next_hunk_id :: nat
  pr_last_line :: nat
  pr_can_mark_eof :: bool
  pr_hunk_may_open :: bool
  pr_p0 :: bool
  pr_unterminated_last :: "nat option"

definition Parser_default :: Parser where
  "Parser_default =
     \<lparr>pr_files = [], pr_file = None, pr_hunk = None, pr_next_hunk_id = 0, pr_last_line = 0,
      pr_can_mark_eof = False, pr_hunk_may_open = False, pr_p0 = False,
      pr_unterminated_last = None\<rparr>"

datatype LineUse = Interpreted | Ignored

subsection \<open>Reading a file section\<close>

definition metadata_says :: "FileBuf \<Rightarrow> string \<Rightarrow> bool" where
  "metadata_says f p \<longleftrightarrow> (\<exists>m\<in>set (fb_metadata f). starts_with p m)"

text \<open>\<open>mode\<close>, the closure shared by \<open>only_an_unchanged_mode\<close> and \<open>resolve_status\<close>.\<close>

definition metadata_mode :: "FileBuf \<Rightarrow> string \<Rightarrow> 32 word option" where
  "metadata_mode f p =
     map_option canon_mode (Option.bind (find_map (strip_prefix p) (fb_metadata f)) parse_mode)"

definition resolve_status :: "FileBuf \<Rightarrow> FileStatus" where
  "resolve_status f =
     (let old_devnull = (fb_old_raw f = Some dev_null);
          new_devnull = (fb_new_raw f = Some dev_null);
          binary = (metadata_says f ''Binary files '' \<or> metadata_says f ''GIT binary patch'');
          new_file = (metadata_says f ''new file mode '' \<or> old_devnull);
          deleted = (metadata_says f ''deleted file mode '' \<or> new_devnull);
          mode_change = (metadata_says f ''old mode '' \<or> metadata_says f ''new mode '');
          same_type = (case (metadata_mode f ''old mode '', metadata_mode f ''new mode '') of
                         (Some old, Some new) \<Rightarrow> object_type old = object_type new
                       | _ \<Rightarrow> False)
      in if binary then FsBinaryChanged
         else if fb_rename_from f \<noteq> None \<or> fb_rename_to f \<noteq> None then FsRenamed
         else if metadata_says f ''copy from '' \<or> metadata_says f ''copy to '' then FsCopied
         else if new_file then FsAdded
         else if deleted then FsDeleted
         else if mode_change \<and> fb_hunks f = [] then (if same_type then FsModeChanged else FsTypeChanged)
         else if fb_hunks f = [] \<and> fb_metadata f = [] \<and> fb_old_raw f = None \<and> fb_new_raw f = None
                 \<and> fb_git_new f = None then FsUnknown
         else FsModified)"

definition raw_side :: "string option \<Rightarrow> bool \<Rightarrow> string option" where
  "raw_side raw p0 =
     (case raw of None \<Rightarrow> None | Some p \<Rightarrow> if p = dev_null then None else Some (p_name p p0))"

definition opt_or :: "'a option \<Rightarrow> 'a option \<Rightarrow> 'a option" where
  "opt_or a b = (case a of None \<Rightarrow> b | Some x \<Rightarrow> Some x)"

definition resolve_path :: "FileBuf \<Rightarrow> string" where
  "resolve_path f =
     (case fb_rename_to f of
        Some to \<Rightarrow> to
      | None \<Rightarrow>
          (case fb_traditional_path f of
             Some path \<Rightarrow> path
           | None \<Rightarrow>
               (case opt_or (raw_side (fb_new_raw f) (fb_p0 f))
                       (opt_or (raw_side (fb_old_raw f) (fb_p0 f))
                          (opt_or (fb_git_new f) (fb_git_old f))) of
                  Some path \<Rightarrow> path
                | None \<Rightarrow> [])))"

definition only_an_unchanged_mode :: "FileBuf \<Rightarrow> bool" where
  "only_an_unchanged_mode f =
     (let old = metadata_mode f ''old mode ''; new = metadata_mode f ''new mode '';
          has_mode = (old \<noteq> None \<or> new \<noteq> None);
          changed = (case (old, new) of (Some a, Some b) \<Rightarrow> a \<noteq> b | _ \<Rightarrow> False);
          other = (\<exists>m\<in>set (fb_metadata f). \<exists>p\<in>set [''new file mode '', ''deleted file mode '',
                     ''rename '', ''copy '', ''Binary files '', ''GIT binary patch'']. starts_with p m)
      in has_mode \<and> \<not> changed \<and> fb_hunks f = [] \<and> \<not> other)"

text \<open>\<open>refuse_what_git_reads_nothing_from\<close>\<close>

definition refuse_empty_section :: "FileBuf \<Rightarrow> nat \<Rightarrow> PatchParseError + unit" where
  "refuse_empty_section f last_line =
     (if resolve_path f = [] then Inl (InvalidPath (fb_first_line f))
      else if only_an_unchanged_mode f then Inl (InvalidMode last_line)
      else if fb_hunks f = [] \<and> (\<not> fb_git f \<or> fb_metadata f = [])
      then Inl (SectionWithoutPatch (fb_first_line f))
      else Inr ())"

definition ended_side :: "FileBuf \<Rightarrow> string \<Rightarrow> nat option" where
  "ended_side f line =
     (if starts_with ''-'' line then fb_eof_old f
      else if starts_with ''+'' line then fb_eof_new f
      else opt_or (fb_eof_old f) (fb_eof_new f))"

definition name_traditional :: "FileBuf \<Rightarrow> bool \<Rightarrow> bool \<Rightarrow> FileBuf" where
  "name_traditional f new_epoch new_quoted =
     (case (fb_old_raw f, fb_new_raw f) of
        (Some old, Some new) \<Rightarrow>
          let side = (\<lambda>path. map_option squash_slashes (strip_p path (fb_p0 f))) in
          if old = dev_null then f\<lparr>fb_traditional_path := side new\<rparr>
          else if new = dev_null then f\<lparr>fb_traditional_path := side old\<rparr>
          else
            let name = (case (side old, strip_p new (fb_p0 f)) of
                          (Some first, Some second) \<Rightarrow>
                            if \<not> new_quoted \<and> starts_with first second then Some first
                            else Some (squash_slashes second)
                        | (None, Some second) \<Rightarrow> Some (squash_slashes second)
                        | (first, None) \<Rightarrow> first);
                f' = f\<lparr>fb_traditional_path := name\<rparr>
            in if fb_old_epoch f then f'\<lparr>fb_old_raw := Some dev_null\<rparr>
               else if new_epoch then f'\<lparr>fb_new_raw := Some dev_null\<rparr>
               else f'
      | _ \<Rightarrow> f)"

definition into_review_file :: "FileBuf \<Rightarrow> ReviewFile" where
  "into_review_file f =
     (let status = resolve_status f in
      \<lparr>rf_path = resolve_path f,
       rf_status = status,
       rf_patch_twin =
         \<lparr>pt_binary_body = fb_binary_body f, pt_hunks = fb_hunks f, pt_metadata = fb_metadata f,
          pt_lossy_lines = fb_lossy_lines f\<rparr>,
       rf_semantic_twin = None,
       rf_planner =
         \<lparr>pd_strategy = (if status = FsBinaryChanged then DsBinary else DsLine),
          pd_fallback = None, pd_notes = []\<rparr>\<rparr>)"

text \<open>\<open>record_implied_rename\<close>: \<open>None\<close> stands for \<open>false\<close>, a name Git refuses to write.\<close>

definition record_implied_rename :: "FileBuf \<Rightarrow> FileBuf option" where
  "record_implied_rename f =
     (if \<not> fb_git f then Some f
      else case (raw_side (fb_old_raw f) (fb_p0 f), raw_side (fb_new_raw f) (fb_p0 f)) of
        (Some old, Some new) \<Rightarrow>
          if old \<noteq> new \<and> old \<noteq> [] \<and> new \<noteq> [] then
            (if git_refuses_path old \<or> git_refuses_path new then None
             else Some (f\<lparr>fb_metadata := fb_metadata f @ [''rename from '' @ quote old]
                            @ [''rename to '' @ quote new],
                        fb_rename_from := Some old, fb_rename_to := Some new\<rparr>))
          else Some f
      | _ \<Rightarrow> Some f)"

text \<open>\<open>complete_move_headers\<close>: the loop over the two sides, then the choice of the verb.\<close>

definition complete_side :: "string \<Rightarrow> string \<Rightarrow> bool \<Rightarrow> string option \<Rightarrow> FileBuf \<Rightarrow> FileBuf option" where
  "complete_side verb side absent raw f =
     (if \<not> absent then Some f
      else case raw_side raw (fb_p0 f) of
        None \<Rightarrow> None
      | Some name \<Rightarrow>
          if git_refuses_path name then None
          else
            let f' = f\<lparr>fb_metadata := fb_metadata f @ [verb @ '' '' @ side @ '' '' @ quote name]\<rparr> in
            Some (if verb = ''rename'' then
                    (if side = ''from'' then f'\<lparr>fb_rename_from := Some name\<rparr>
                     else f'\<lparr>fb_rename_to := Some name\<rparr>)
                  else f'))"

definition complete_move_headers :: "FileBuf \<Rightarrow> FileBuf option" where
  "complete_move_headers f =
     (case (if metadata_says f ''rename from '' \<or> metadata_says f ''rename to '' then Some ''rename''
            else if metadata_says f ''copy from '' \<or> metadata_says f ''copy to '' then Some ''copy''
            else None) of
        None \<Rightarrow> Some f
      | Some verb \<Rightarrow>
          Option.bind
            (complete_side verb ''from'' (\<not> metadata_says f (verb @ '' from '')) (fb_old_raw f) f)
            (complete_side verb ''to'' (\<not> metadata_says f (verb @ '' to '')) (fb_new_raw f)))"

subsection \<open>Hunk bodies\<close>

definition body_line :: "PatchLineKind \<Rightarrow> nat option \<Rightarrow> nat option \<Rightarrow> string \<Rightarrow> PatchLine" where
  "body_line kind old new text =
     \<lparr>pl_no_newline = False, pl_lossy = False, pl_kind = kind, pl_old_line = old, pl_new_line = new,
      pl_text = text\<rparr>"

text \<open>\<open>HunkBuf::consume_body\<close>: \<open>None\<close> when the line is no body line.\<close>

definition consume_body :: "HunkBuf \<Rightarrow> string \<Rightarrow> nat \<Rightarrow> (PatchParseError + HunkBuf) option" where
  "consume_body h line line_number =
     (let text = drop 1 line; mismatch = HunkLineCountMismatch line_number line in
      if line = [] \<or> hd line = SPACE then
        Some (if hb_rem_old h = 0 \<or> hb_rem_new h = 0 then Inl mismatch
              else Inr (h\<lparr>hb_lines := hb_lines h
                            @ [body_line LkContext (Some (hb_old_line h)) (Some (hb_new_line h)) text],
                          hb_old_line := sat_add32 (hb_old_line h) 1,
                          hb_new_line := sat_add32 (hb_new_line h) 1,
                          hb_rem_old := hb_rem_old h - 1,
                          hb_rem_new := hb_rem_new h - 1\<rparr>))
      else if hd line = CHR ''+'' then
        Some (if hb_rem_new h = 0 then Inl mismatch
              else Inr (h\<lparr>hb_lines := hb_lines h
                            @ [body_line LkAdded None (Some (hb_new_line h)) text],
                          hb_new_line := sat_add32 (hb_new_line h) 1,
                          hb_rem_new := hb_rem_new h - 1\<rparr>))
      else if hd line = CHR ''-'' then
        Some (if hb_rem_old h = 0 then Inl mismatch
              else Inr (h\<lparr>hb_lines := hb_lines h
                            @ [body_line LkRemoved (Some (hb_old_line h)) None text],
                          hb_old_line := sat_add32 (hb_old_line h) 1,
                          hb_rem_old := hb_rem_old h - 1\<rparr>))
      else None)"

definition closed_hunk :: "HunkBuf \<Rightarrow> PatchHunk" where
  "closed_hunk h =
     \<lparr>ph_id = hb_id h, ph_old_start = Some (hb_old_start h), ph_new_start = Some (hb_new_start h),
      ph_section = hb_section h, ph_lines = hb_lines h\<rparr>"

definition close_hunk :: "Parser \<Rightarrow> nat \<Rightarrow> PatchParseError + Parser" where
  "close_hunk p line_number =
     (case pr_hunk p of
        None \<Rightarrow> Inr p
      | Some h \<Rightarrow>
          if hb_rem_old h \<noteq> 0 \<or> hb_rem_new h \<noteq> 0
          then Inl (TruncatedHunk line_number (hb_rem_old h) (hb_rem_new h))
          else if \<forall>l\<in>set (hb_lines h). pl_kind l = LkContext
          then Inl (HunkWithoutChange line_number)
          else Inr (p\<lparr>pr_hunk := None,
                      pr_file := map_option (\<lambda>f. f\<lparr>fb_hunks := fb_hunks f @ [closed_hunk h]\<rparr>)
                                   (pr_file p)\<rparr>))"

text \<open>\<open>Parser::last_body_line\<close>, a mutable borrow in the source: here what it reads and an update
  through it.\<close>

definition last_body_line :: "Parser \<Rightarrow> PatchLine option" where
  "last_body_line p =
     (case pr_file p of
        None \<Rightarrow> None
      | Some f \<Rightarrow>
          (case pr_hunk p of
             Some h \<Rightarrow> if hb_lines h \<noteq> [] then Some (last (hb_lines h))
                       else if fb_hunks f \<noteq> [] \<and> ph_lines (last (fb_hunks f)) \<noteq> []
                       then Some (last (ph_lines (last (fb_hunks f)))) else None
           | None \<Rightarrow> if fb_hunks f \<noteq> [] \<and> ph_lines (last (fb_hunks f)) \<noteq> []
                     then Some (last (ph_lines (last (fb_hunks f)))) else None))"

definition map_last :: "('a \<Rightarrow> 'a) \<Rightarrow> 'a list \<Rightarrow> 'a list" where
  "map_last g xs = (if xs = [] then [] else butlast xs @ [g (last xs)])"

definition map_last_closed :: "(PatchLine \<Rightarrow> PatchLine) \<Rightarrow> FileBuf \<Rightarrow> FileBuf" where
  "map_last_closed g f =
     f\<lparr>fb_hunks := map_last (\<lambda>h. h\<lparr>ph_lines := map_last g (ph_lines h)\<rparr>) (fb_hunks f)\<rparr>"

definition update_last_body_line :: "(PatchLine \<Rightarrow> PatchLine) \<Rightarrow> Parser \<Rightarrow> Parser" where
  "update_last_body_line g p =
     (case pr_file p of
        None \<Rightarrow> p
      | Some f \<Rightarrow>
          (case pr_hunk p of
             Some h \<Rightarrow>
               if hb_lines h \<noteq> []
               then p\<lparr>pr_hunk := Some (h\<lparr>hb_lines := map_last g (hb_lines h)\<rparr>)\<rparr>
               else p\<lparr>pr_file := Some (map_last_closed g f)\<rparr>
           | None \<Rightarrow> p\<lparr>pr_file := Some (map_last_closed g f)\<rparr>))"

subsection \<open>Ending a file section\<close>

text \<open>The header contradictions \<open>flush_file\<close> refuses, disjunct by disjunct.\<close>

definition is_moved :: "FileBuf \<Rightarrow> bool" where
  "is_moved f \<longleftrightarrow>
     metadata_says f ''rename from '' \<or> metadata_says f ''rename to ''
     \<or> metadata_says f ''copy from '' \<or> metadata_says f ''copy to ''"

definition all_lines :: "PatchHunk list \<Rightarrow> PatchLine list" where
  "all_lines hs = concat (map ph_lines hs)"

definition inconsistent_headers :: "FileBuf \<Rightarrow> bool" where
  "inconsistent_headers f \<longleftrightarrow>
     (let new_mode = metadata_says f ''new file mode '';
          del_mode = metadata_says f ''deleted file mode '';
          moved = is_moved f in
      (new_mode \<and> del_mode)
      \<or> ((new_mode \<or> del_mode) \<and> moved)
      \<or> ((new_mode \<or> (\<not> fb_git f \<and> resolve_status f = FsAdded))
         \<and> (\<exists>l\<in>set (all_lines (fb_hunks f)). pl_kind l \<noteq> LkAdded))
      \<or> ((del_mode \<or> (\<not> fb_git f \<and> resolve_status f = FsDeleted))
         \<and> (\<exists>l\<in>set (all_lines (fb_hunks f)). pl_kind l \<noteq> LkRemoved))
      \<or> (fb_hunks f \<noteq> []
         \<and> ((new_mode \<and> resolve_status f \<noteq> FsAdded) \<or> (del_mode \<and> resolve_status f \<noteq> FsDeleted)))
      \<or> (new_mode \<and> (case fb_old_raw f of None \<Rightarrow> False | Some p \<Rightarrow> p \<noteq> dev_null))
      \<or> (del_mode \<and> (case fb_new_raw f of None \<Rightarrow> False | Some p \<Rightarrow> p \<noteq> dev_null))
      \<or> (fb_git f \<and> \<not> moved \<and> fb_new_raw f = Some dev_null \<and> \<not> del_mode)
      \<or> (fb_git f \<and> \<not> moved \<and> fb_old_raw f = Some dev_null \<and> \<not> new_mode))"

text \<open>The loop over \<open>rename from\<close>/\<open>copy from\<close> headers: \<open>False\<close> is a refusal as \<open>InvalidPath\<close>.\<close>

fun declared_old_ok :: "FileBuf \<Rightarrow> string option \<Rightarrow> string list \<Rightarrow> bool" where
  "declared_old_ok f declared [] = True"
| "declared_old_ok f declared (meta # ms) =
     (case opt_or (strip_prefix ''rename from '' meta) (strip_prefix ''copy from '' meta) of
        None \<Rightarrow> declared_old_ok f declared ms
      | Some raw \<Rightarrow>
          (case map_option squash_slashes (decode_path raw) of
             None \<Rightarrow> False
           | Some from \<Rightarrow>
               if (case declared of None \<Rightarrow> False | Some previous \<Rightarrow> previous \<noteq> from) then False
               else if (case fb_old_raw f of None \<Rightarrow> False | Some old \<Rightarrow> p_name old (fb_p0 f) \<noteq> from)
                       \<or> fb_new_raw f = Some dev_null
                       \<or> metadata_says f ''new file mode '' \<or> metadata_says f ''deleted file mode ''
               then False
               else declared_old_ok f (Some from) ms))"

definition flush_file_buf :: "FileBuf \<Rightarrow> nat \<Rightarrow> PatchParseError + ReviewFile" where
  "flush_file_buf f last_line =
     (if fb_awaiting_new_header f then Inl (MisplacedHeader last_line)
      else if inconsistent_headers f then Inl (InconsistentHeader last_line)
      else if fb_hunks f \<noteq> []
           \<and> (\<exists>m\<in>set (fb_metadata f). m = ''GIT binary patch'' \<or> starts_with ''Binary files '' m)
      then Inl (UnsupportedFormat last_line)
      else case complete_move_headers f of
        None \<Rightarrow> Inl (InvalidPath (fb_first_line f))
      | Some f1 \<Rightarrow>
          (case (if is_moved f then Some f1 else record_implied_rename f1) of
             None \<Rightarrow> Inl (InvalidPath last_line)
           | Some f2 \<Rightarrow>
               if \<not> declared_old_ok f2 None (fb_metadata f2) then Inl (InvalidPath last_line)
               else res_bind (refuse_empty_section f2 last_line) (\<lambda>_. Inr (into_review_file f2))))"

definition flush_file :: "Parser \<Rightarrow> PatchParseError + Parser" where
  "flush_file p =
     (case pr_file p of
        None \<Rightarrow> Inr p
      | Some f \<Rightarrow>
          res_bind (flush_file_buf f (pr_last_line p))
            (\<lambda>rf. Inr (p\<lparr>pr_file := None, pr_files := pr_files p @ [rf]\<rparr>)))"

definition finish :: "Parser \<Rightarrow> PatchParseError + ReviewFile list" where
  "finish p =
     res_bind (close_hunk p (pr_last_line p)) (\<lambda>p.
     res_bind (flush_file p) (\<lambda>p. Inr (pr_files p)))"

subsection \<open>Header lines\<close>

definition git_header_names :: "string \<Rightarrow> bool \<Rightarrow> nat \<Rightarrow> PatchParseError + (string \<times> string) option" where
  "git_header_names rest p0 line_number =
     (if starts_with [DQUOTE] rest then
        res_bind (ok_or (InvalidPath line_number) (decode_quoted_prefix rest)) (\<lambda>(old, remaining).
        res_bind (ok_or (InvalidPath line_number) (decode_path (trim_start remaining))) (\<lambda>new.
        Inr (Some (header_half old p0, header_half new p0))))
      else case same_name_halves rest p0 of
        Some name \<Rightarrow>
          res_bind (ok_or (InvalidPath line_number) (decode_path name)) (\<lambda>name. Inr (Some (name, name)))
      | None \<Rightarrow>
          (case opt_or (rfind_sub ([SPACE, DQUOTE] @ ''b/'') rest) (rfind_sub '' b/'' rest) of
             None \<Rightarrow> Inr None
           | Some sep \<Rightarrow>
               res_bind (ok_or (InvalidPath line_number) (decode_path (take sep rest))) (\<lambda>old.
               res_bind (ok_or (InvalidPath line_number) (decode_path (drop (sep + 1) rest))) (\<lambda>new.
               Inr (Some (p_name old p0, p_name new p0))))))"

definition start_git_file :: "Parser \<Rightarrow> string \<Rightarrow> nat \<Rightarrow> PatchParseError + Parser" where
  "start_git_file p rest line_number =
     res_bind (close_hunk p line_number) (\<lambda>p.
     res_bind (flush_file p) (\<lambda>p.
     res_bind (git_header_names rest (pr_p0 p) line_number) (\<lambda>names.
     let file = FileBuf_default\<lparr>fb_git := True, fb_p0 := pr_p0 p, fb_first_line := line_number\<rparr> in
     Inr (p\<lparr>pr_file := Some (case names of
                None \<Rightarrow> file
              | Some (old, new) \<Rightarrow> file\<lparr>fb_git_old := Some old, fb_git_new := Some new\<rparr>)\<rparr>))))"

definition on_old_header :: "Parser \<Rightarrow> string \<Rightarrow> bool \<Rightarrow> nat \<Rightarrow> PatchParseError + Parser" where
  "on_old_header p rest had_cr line_number =
     res_bind (close_hunk p line_number) (\<lambda>p.
     res_bind (case pr_file p of
                 None \<Rightarrow> Inr (p, FileBuf_default\<lparr>fb_first_line := line_number\<rparr>)
               | Some f \<Rightarrow>
                   if fb_new_raw f \<noteq> None \<or> fb_hunks f \<noteq> []
                   then res_bind (flush_file p) (\<lambda>p. Inr (p, FileBuf_default\<lparr>fb_first_line := line_number\<rparr>))
                   else Inr (p, f)) (\<lambda>(p, f).
     if fb_old_raw f \<noteq> None \<or> fb_header_ended f then Inl (MisplacedHeader line_number)
     else
       let traditional = (\<not> fb_git f) in
       res_bind (ok_or (InvalidPath line_number) (header_name rest (traditional \<and> \<not> had_cr))) (\<lambda>name.
       Inr (p\<lparr>pr_file := Some (f\<lparr>fb_old_raw := Some name,
                                 fb_old_epoch := traditional \<and> \<not> had_cr \<and> has_epoch_timestamp rest,
                                 fb_awaiting_new_header := True,
                                 fb_past_headers := True\<rparr>)\<rparr>))))"

definition on_new_header :: "Parser \<Rightarrow> string \<Rightarrow> bool \<Rightarrow> nat \<Rightarrow> PatchParseError + Parser" where
  "on_new_header p rest had_cr line_number =
     (case pr_file p of
        None \<Rightarrow> Inl (MisplacedHeader line_number)
      | Some f \<Rightarrow>
          if \<not> fb_awaiting_new_header f then Inl (MisplacedHeader line_number)
          else
            let traditional = (\<not> fb_git f) in
            res_bind (ok_or (InvalidPath line_number) (header_name rest (traditional \<and> \<not> had_cr))) (\<lambda>name.
            let p0 = (if traditional
                      then pr_p0 p \<or> (name \<noteq> dev_null \<and> name \<noteq> [] \<and> SLASH \<notin> set name)
                      else pr_p0 p);
                f1 = f\<lparr>fb_awaiting_new_header := False,
                       fb_p0 := (if traditional then p0 else fb_p0 f),
                       fb_new_raw := Some name\<rparr>;
                f2 = (if traditional
                      then name_traditional f1 (\<not> had_cr \<and> has_epoch_timestamp rest)
                             (starts_with [DQUOTE] rest)
                      else f1)
            in Inr (p\<lparr>pr_p0 := p0, pr_file := Some f2\<rparr>)))"

definition open_hunk :: "Parser \<Rightarrow> string \<Rightarrow> nat \<Rightarrow> bool \<Rightarrow> PatchParseError + Parser" where
  "open_hunk p line line_number hunk_may_open =
     res_bind (ok_or (MalformedHunkHeader line_number line) (parse_hunk_header line)) (\<lambda>header.
     case (if hunk_may_open then pr_file p else None) of
       None \<Rightarrow> Inl (MisplacedHunk line_number)
     | Some f \<Rightarrow>
         Inr (p\<lparr>pr_file := Some (f\<lparr>fb_past_headers := True\<rparr>),
                pr_next_hunk_id := pr_next_hunk_id p + 1,
                pr_hunk := Some
                  \<lparr>hb_id = pr_next_hunk_id p, hb_section = hh_section header,
                   hb_old_start = hh_old_start header, hb_new_start = hh_new_start header,
                   hb_old_line = hh_old_start header, hb_new_line = hh_new_start header,
                   hb_rem_old = hh_old_count header, hb_rem_new = hh_new_count header,
                   hb_lines = []\<rparr>\<rparr>))"

definition moved_path :: "string \<Rightarrow> string option" where
  "moved_path path =
     (case decode_path path of
        None \<Rightarrow> None
      | Some q \<Rightarrow> if git_refuses_path q then None else Some (squash_slashes q))"

definition is_meta_line :: "string \<Rightarrow> bool" where
  "is_meta_line line \<longleftrightarrow> (\<exists>p\<in>set META_PREFIXES. starts_with p line)"

definition is_extended :: "string \<Rightarrow> bool" where
  "is_extended line \<longleftrightarrow> is_meta_line line
     \<or> (\<exists>p\<in>set [''rename from '', ''rename to '', ''copy from '', ''copy to '']. starts_with p line)"

definition bad_mode_line :: "string \<Rightarrow> bool" where
  "bad_mode_line line \<longleftrightarrow>
     (\<exists>p\<in>set MODE_PREFIXES. case strip_prefix p line of
         None \<Rightarrow> False | Some mode \<Rightarrow> parse_mode mode = None)"

definition push_meta :: "string \<Rightarrow> FileBuf \<Rightarrow> FileBuf" where
  "push_meta line f = f\<lparr>fb_metadata := fb_metadata f @ [line]\<rparr>"

definition try_metadata_file ::
  "FileBuf \<Rightarrow> string \<Rightarrow> nat \<Rightarrow> PatchParseError + FileBuf option" where
  "try_metadata_file f line line_number =
     (if is_extended line \<and> (fb_past_headers f \<or> fb_header_ended f)
      then Inl (MisplacedHeader line_number)
      else if \<not> fb_past_headers f \<and> (starts_with ''rename old '' line \<or> starts_with ''rename new '' line)
      then Inl (UnsupportedFormat line_number)
      else case strip_prefix ''rename from '' line of
        Some path \<Rightarrow>
          res_bind (ok_or (InvalidPath line_number) (moved_path path)) (\<lambda>q.
          Inr (Some (push_meta line (f\<lparr>fb_rename_from := Some q\<rparr>))))
      | None \<Rightarrow>
          (case strip_prefix ''rename to '' line of
             Some path \<Rightarrow>
               res_bind (ok_or (InvalidPath line_number) (moved_path path)) (\<lambda>q.
               Inr (Some (push_meta line (f\<lparr>fb_rename_to := Some q\<rparr>))))
           | None \<Rightarrow>
               res_bind
                 (case opt_or (strip_prefix ''copy from '' line) (strip_prefix ''copy to '' line) of
                    None \<Rightarrow> Inr ()
                  | Some path \<Rightarrow>
                      res_bind (ok_or (InvalidPath line_number) (moved_path path)) (\<lambda>_. Inr ())) (\<lambda>_.
               if bad_mode_line line then Inl (InvalidMode line_number)
               else if is_meta_line line
               then Inr (Some (push_meta line
                      (f\<lparr>fb_in_binary_body := fb_in_binary_body f \<or> line = ''GIT binary patch''\<rparr>)))
               else Inr None)))"

definition try_metadata :: "Parser \<Rightarrow> string \<Rightarrow> nat \<Rightarrow> PatchParseError + (bool \<times> Parser)" where
  "try_metadata p line line_number =
     (case pr_file p of
        None \<Rightarrow> Inr (False, p)
      | Some f \<Rightarrow>
          res_bind (try_metadata_file f line line_number) (\<lambda>r.
            case r of
              None \<Rightarrow> Inr (False, p)
            | Some f' \<Rightarrow> Inr (True, p\<lparr>pr_file := Some f'\<rparr>)))"

definition file_is :: "(FileBuf \<Rightarrow> bool) \<Rightarrow> Parser \<Rightarrow> bool" where
  "file_is P p \<longleftrightarrow> (case pr_file p of None \<Rightarrow> False | Some f \<Rightarrow> P f)"

definition dispatch_header ::
  "Parser \<Rightarrow> string \<Rightarrow> bool \<Rightarrow> nat \<Rightarrow> bool \<Rightarrow> PatchParseError + (LineUse \<times> Parser)" where
  "dispatch_header p line had_cr line_number hunk_may_open =
     (if file_is fb_awaiting_new_header p \<and> \<not> starts_with ''+++ '' line
      then Inl (MisplacedHeader line_number)
      else case strip_prefix ''--- '' line of
        Some rest \<Rightarrow> res_bind (on_old_header p rest had_cr line_number) (\<lambda>p. Inr (Interpreted, p))
      | None \<Rightarrow>
      (case strip_prefix ''+++ '' line of
        Some rest \<Rightarrow>
          res_bind (on_new_header p rest had_cr line_number) (\<lambda>p.
          Inr (Interpreted, p\<lparr>pr_hunk_may_open := True\<rparr>))
      | None \<Rightarrow>
      if starts_with ''@@'' line
      then res_bind (open_hunk p line line_number hunk_may_open) (\<lambda>p. Inr (Interpreted, p))
      else
        res_bind (try_metadata p line line_number) (\<lambda>(taken, p).
        if taken then Inr (Interpreted, p\<lparr>pr_hunk_may_open := True\<rparr>)
        else if line = ''---'' \<or> line = ''-- '' then Inr (Ignored, p)
        else if starts_with ''+'' line \<or> starts_with ''-'' line
        then Inl (BodyLineOutsideHunk line_number line)
        else Inr (Ignored, p))))"

definition dispatch_non_body ::
  "Parser \<Rightarrow> string \<Rightarrow> nat \<Rightarrow> bool \<Rightarrow> PatchParseError + (LineUse \<times> Parser)" where
  "dispatch_non_body p line line_number hunk_may_open =
     (if starts_with ''diff --cc '' line \<or> starts_with ''diff --combined '' line
      then Inl (UnsupportedFormat line_number)
      else case strip_prefix ''diff --git '' line of
        Some rest \<Rightarrow> res_bind (start_git_file p rest line_number) (\<lambda>p. Inr (Interpreted, p))
      | None \<Rightarrow>
          (case (case pr_file p of None \<Rightarrow> None | Some f \<Rightarrow> if fb_in_binary_body f then Some f else None) of
             Some f \<Rightarrow>
               if is_binary_body_line line
               then Inr (Interpreted, p\<lparr>pr_file := Some (f\<lparr>fb_binary_body := fb_binary_body f @ [line]\<rparr>)\<rparr>)
               else Inl (UnsupportedFormat line_number)
           | None \<Rightarrow>
               dispatch_header p (trim_end_char CR line) (ends_with [CR] line) line_number hunk_may_open))"

subsection \<open>Feeding lines\<close>

definition mark_eof :: "Parser \<Rightarrow> string \<Rightarrow> nat \<Rightarrow> Parser" where
  "mark_eof p line line_number =
     (let kind = map_option pl_kind (last_body_line p);
          p1 = update_last_body_line (\<lambda>l. l\<lparr>pl_no_newline := True\<rparr>) p
      in p1\<lparr>pr_file := map_option (\<lambda>f. f\<lparr>fb_metadata := fb_metadata f @ [line],
              fb_eof_old := (if kind \<noteq> Some LkAdded then Some line_number else fb_eof_old f),
              fb_eof_new := (if kind \<noteq> Some LkRemoved then Some line_number else fb_eof_new f)\<rparr>)
              (pr_file p1)\<rparr>)"

definition feed_non_body ::
  "Parser \<Rightarrow> string \<Rightarrow> nat \<Rightarrow> bool \<Rightarrow> bool \<Rightarrow> PatchParseError + Parser" where
  "feed_non_body p line line_number lossy hunk_may_open =
     res_bind (dispatch_non_body p line line_number hunk_may_open) (\<lambda>(use, p).
     case use of
       Interpreted \<Rightarrow>
         if lossy then Inl (LossyHeader line_number)
         else if pr_unterminated_last p = Some line_number then Inl (UnterminatedLine line_number)
         else Inr p
     | Ignored \<Rightarrow>
         Inr (p\<lparr>pr_file := map_option
                  (\<lambda>f. if fb_git f \<and> \<not> fb_past_headers f then f\<lparr>fb_header_ended := True\<rparr> else f)
                  (pr_file p)\<rparr>))"

definition feed_body :: "Parser \<Rightarrow> HunkBuf \<Rightarrow> string \<Rightarrow> nat \<Rightarrow> PatchParseError + Parser" where
  "feed_body p h line line_number =
     (case Option.bind (pr_file p) (\<lambda>f. ended_side f line) of
        Some marker \<Rightarrow> Inl (InvalidEofMarker marker)
      | None \<Rightarrow>
          let p1 = p\<lparr>pr_hunk := Some h, pr_can_mark_eof := True\<rparr> in
          if hb_rem_old h = 0 \<and> hb_rem_new h = 0
          then res_bind (close_hunk p1 line_number) (\<lambda>p. Inr (p\<lparr>pr_hunk_may_open := True\<rparr>))
          else Inr p1)"

definition feed :: "Parser \<Rightarrow> string \<Rightarrow> nat \<Rightarrow> bool \<Rightarrow> PatchParseError + Parser" where
  "feed p line line_number lossy =
     (let can_mark_eof = pr_can_mark_eof p; hunk_may_open = pr_hunk_may_open p;
          p1 = p\<lparr>pr_last_line := line_number, pr_can_mark_eof := False, pr_hunk_may_open := False\<rparr>
      in if starts_with [BACKSLASH] line then
           (if \<not> can_mark_eof \<or> line \<noteq> eof_marker then Inl (InvalidEofMarker line_number)
            else Inr ((mark_eof p1 line line_number)\<lparr>pr_hunk_may_open := hunk_may_open\<rparr>))
         else case pr_hunk p1 of
           None \<Rightarrow> feed_non_body p1 line line_number lossy hunk_may_open
         | Some h \<Rightarrow>
             (case (if 0 < hb_rem_old h \<or> 0 < hb_rem_new h then consume_body h line line_number else None) of
                Some consumed \<Rightarrow> res_bind consumed (\<lambda>h. feed_body p1 h line line_number)
              | None \<Rightarrow>
                  res_bind (close_hunk p1 line_number) (\<lambda>p2.
                  feed_non_body p2 line line_number lossy hunk_may_open)))"

subsection \<open>Parsing an input\<close>

record ParseOptions =
  po_byte_budget :: nat

definition ParseOptions_default :: ParseOptions where
  "ParseOptions_default = \<lparr>po_byte_budget = DEFAULT_BYTE_BUDGET\<rparr>"

definition mark_lossy :: "Parser \<Rightarrow> Parser" where
  "mark_lossy p =
     (let p1 = (if pr_can_mark_eof p then update_last_body_line (\<lambda>l. l\<lparr>pl_lossy := True\<rparr>) p else p)
      in p1\<lparr>pr_file := map_option (\<lambda>f. f\<lparr>fb_lossy_lines := sat_add32 (fb_lossy_lines f) 1\<rparr>) (pr_file p1)\<rparr>)"

fun parse_loop ::
  "nat option \<Rightarrow> nat \<Rightarrow> nat list \<Rightarrow> string list \<Rightarrow> Parser \<Rightarrow> PatchParseError + Parser" where
  "parse_loop unterminated index lossy [] p = Inr p"
| "parse_loop unterminated index lossy (line # ls) p =
     (if DEFAULT_LINE_BUDGET \<le> index then Inl (LineBudgetExceeded DEFAULT_LINE_BUDGET (index + 1))
      else
        let is_lossy = (lossy \<noteq> [] \<and> hd lossy = index + 1);
            lossy' = (if is_lossy then tl lossy else lossy)
        in res_bind (feed p line (index + 1) is_lossy) (\<lambda>p.
           if unterminated = Some (index + 1) \<and> pr_can_mark_eof p
           then Inl (UnterminatedLine (index + 1))
           else parse_loop unterminated (index + 1) lossy' ls (if is_lossy then mark_lossy p else p)))"

definition parse_lines ::
  "string \<Rightarrow> nat \<Rightarrow> nat list \<Rightarrow> ParseOptions \<Rightarrow> PatchParseError + ReviewFile list" where
  "parse_lines input byte_len lossy options =
     (if po_byte_budget options < byte_len then Inl (BudgetExceeded (po_byte_budget options) byte_len)
      else
        let unterminated = (if input \<noteq> [] \<and> \<not> ends_with [LF] input
                            then Some (length (split_terminator LF input)) else None)
        in res_bind
             (parse_loop unterminated 0 lossy (split_terminator LF input)
                (Parser_default\<lparr>pr_unterminated_last := unterminated\<rparr>)) finish)"

definition parse_with :: "string \<Rightarrow> ParseOptions \<Rightarrow> PatchParseError + ReviewFile list" where
  "parse_with input options = parse_lines input (length input) [] options"

definition parse :: "string \<Rightarrow> PatchParseError + ReviewFile list" where
  "parse input = parse_with input ParseOptions_default"

end
