(* ===== verification/Render.thy ===== *)
theory Render
  imports Parser
begin

text \<open>
  Rendering a review back to a patch: \<open>src/crates/deep-diff-forge-patch/src/render.rs\<close>. The
  \<open>String\<close> the code appends to is the result of each function here; \<open>writeln!\<close> into a \<open>String\<close>
  cannot fail.
\<close>

definition old_path :: "ReviewFile \<Rightarrow> string option" where
  "old_path file =
     find_map (\<lambda>meta.
       case opt_or (strip_prefix ''rename from '' meta) (strip_prefix ''copy from '' meta) of
         None \<Rightarrow> None
       | Some from \<Rightarrow> Some (case decode_path from of None \<Rightarrow> from | Some p \<Rightarrow> p))
       (pt_metadata (rf_patch_twin file))"

definition old_label :: "ReviewFile \<Rightarrow> string" where
  "old_label file = (case old_path file of None \<Rightarrow> rf_path file | Some p \<Rightarrow> p)"

definition render_line :: "PatchLine \<Rightarrow> string" where
  "render_line line =
     line_marker (pl_kind line) # pl_text line @ [LF]
     @ (if pl_no_newline line then eof_marker @ [LF] else [])"

definition render_hunk :: "PatchHunk \<Rightarrow> string" where
  "render_hunk hunk =
     (let old_start = (case ph_old_start hunk of None \<Rightarrow> 0 | Some n \<Rightarrow> n);
          new_start = (case ph_new_start hunk of None \<Rightarrow> 0 | Some n \<Rightarrow> n);
          old_count = length (filter (\<lambda>l. pl_kind l = LkContext \<or> pl_kind l = LkRemoved) (ph_lines hunk));
          new_count = length (filter (\<lambda>l. pl_kind l = LkContext \<or> pl_kind l = LkAdded) (ph_lines hunk))
      in ''@@ -'' @ show_nat old_start @ '','' @ show_nat old_count @ '' +'' @ show_nat new_start
         @ '','' @ show_nat new_count @ '' @@'' @ [LF] @ concat (map render_line (ph_lines hunk)))"

definition render_file :: "ReviewFile \<Rightarrow> string" where
  "render_file file =
     (let label = old_label file; twin = rf_patch_twin file;
          has = (\<lambda>p. \<exists>m\<in>set (pt_metadata twin). starts_with p m)
      in ''diff --git '' @ quote (''a/'' @ label) @ '' '' @ quote (''b/'' @ rf_path file) @ [LF]
         @ (if pt_hunks twin \<noteq> [] \<and> rf_status file = FsAdded \<and> \<not> has ''new file mode ''
            then ''new file mode 100644'' @ [LF] else [])
         @ (if pt_hunks twin \<noteq> [] \<and> rf_status file = FsDeleted \<and> \<not> has ''deleted file mode ''
            then ''deleted file mode 100644'' @ [LF] else [])
         @ concat (map (\<lambda>m. if starts_with [BACKSLASH] m then [] else m @ [LF]) (pt_metadata twin))
         @ concat (map (\<lambda>l. l @ [LF]) (pt_binary_body twin))
         @ (if pt_hunks twin = [] then []
            else (if rf_status file = FsAdded then ''--- /dev/null'' @ [LF]
                  else ''--- '' @ quote (''a/'' @ label) @ [LF])
              @ (if rf_status file = FsDeleted then ''+++ /dev/null'' @ [LF]
                 else ''+++ '' @ quote (''b/'' @ rf_path file) @ [LF])
              @ concat (map render_hunk (pt_hunks twin))))"

definition render_unified :: "ReviewFile list \<Rightarrow> string" where
  "render_unified files = concat (map render_file files)"

end
