(* ===== verification/Header_Props.thy ===== *)
theory Header_Props
  imports Header_Syntax
begin

text \<open>
  What the stateless readers guarantee: the exact grammar of a hunk header and its round trip,
  canonical modes, squashed paths, the equivalence of the linear \<open>diff --git\<close> splitter with the
  quadratic one its comment describes, and the bounds that keep the slices of \<open>timestamp_len\<close> and
  \<open>header_name\<close> in range.
\<close>

subsection \<open>Numbers and hunk headers\<close>

definition starts_digit :: "string \<Rightarrow> bool" where
  "starts_digit s \<longleftrightarrow> s \<noteq> [] \<and> is_ascii_digit (hd s)"

lemma takeWhile_digits:
  "list_all is_ascii_digit ds \<Longrightarrow> \<not> starts_digit rest \<Longrightarrow>
   takeWhile is_ascii_digit (ds @ rest) = ds \<and> dropWhile is_ascii_digit (ds @ rest) = rest"
  by (cases rest) (auto simp: starts_digit_def list_all_iff takeWhile_append2 dropWhile_append2)

lemma take_digits_iff:
  "take_digits text = Some (n, rest) \<longleftrightarrow>
     (\<exists>ds. text = ds @ rest \<and> ds \<noteq> [] \<and> list_all is_ascii_digit ds \<and> \<not> starts_digit rest
        \<and> dec_value ds = n \<and> n \<le> u32_max)" (is "?l \<longleftrightarrow> ?r")
proof
  assume ?l
  then have "text = takeWhile is_ascii_digit text @ rest" "takeWhile is_ascii_digit text \<noteq> []"
    "dec_value (takeWhile is_ascii_digit text) = n" "n \<le> u32_max" "rest = dropWhile is_ascii_digit text"
    by (auto simp: take_digits_def Let_def split: if_splits)
  moreover have "list_all is_ascii_digit (takeWhile is_ascii_digit text)"
    by (auto simp: list_all_iff dest: set_takeWhileD)
  moreover have "\<not> starts_digit (dropWhile is_ascii_digit text)"
    using hd_dropWhile [of is_ascii_digit "text"] by (auto simp: starts_digit_def)
  ultimately show ?r by blast
next
  assume ?r
  then show ?l using takeWhile_digits by (auto simp: take_digits_def Let_def)
qed

text \<open>Git's \<open>RANGE = DIGITS [ "," DIGITS ]\<close>, with the count 1 when it is left out.\<close>

definition is_range :: "string \<Rightarrow> nat \<Rightarrow> nat \<Rightarrow> bool" where
  "is_range r start count \<longleftrightarrow>
     start \<le> u32_max \<and> count \<le> u32_max \<and>
     (\<exists>ds. ds \<noteq> [] \<and> list_all is_ascii_digit ds \<and> dec_value ds = start \<and>
        ((r = ds \<and> count = 1) \<or>
         (\<exists>cs. cs \<noteq> [] \<and> list_all is_ascii_digit cs \<and> dec_value cs = count \<and> r = ds @ '','' @ cs)))"

lemma comma_not_digit [simp]: "\<not> starts_digit (CHR '','' # s)" "\<not> starts_digit (SPACE # s)"
  by (simp_all add: starts_digit_def is_ascii_digit_def)

lemma take_range_SomeD:
  assumes "take_range text = Some (start, count, rest)"
  shows "\<exists>r. text = r @ rest \<and> is_range r start count"
proof -
  obtain mid where d: "take_digits text = Some (start, mid)"
    using assms by (auto simp: take_range_def split: option.splits)
  then obtain ds where ds: "text = ds @ mid" "ds \<noteq> []" "list_all is_ascii_digit ds"
      "dec_value ds = start" "start \<le> u32_max"
    by (auto simp: take_digits_iff)
  show ?thesis
  proof (cases "strip_prefix '','' mid")
    case None
    with assms d have "count = 1" "rest = mid" by (auto simp: take_range_def)
    then show ?thesis using ds by (intro exI [of _ ds]) (auto simp: is_range_def u32_max_def)
  next
    case (Some after)
    with assms d have "take_digits after = Some (count, rest)"
      by (auto simp: take_range_def split: option.splits)
    then obtain cs where cs: "after = cs @ rest" "cs \<noteq> []" "list_all is_ascii_digit cs"
        "dec_value cs = count" "count \<le> u32_max"
      by (auto simp: take_digits_iff)
    have "text = (ds @ '','' @ cs) @ rest"
      using ds cs Some by (auto simp: strip_prefix_Some)
    then show ?thesis using ds cs by (intro exI [of _ "ds @ '','' @ cs"]) (auto simp: is_range_def)
  qed
qed

lemma take_range_is_range:
  assumes "is_range r start count"
  shows "take_range (r @ SPACE # rest) = Some (start, count, SPACE # rest)"
proof -
  obtain ds where ds: "ds \<noteq> []" "list_all is_ascii_digit ds" "dec_value ds = start" "start \<le> u32_max"
    and r: "(r = ds \<and> count = 1) \<or> (\<exists>cs. cs \<noteq> [] \<and> list_all is_ascii_digit cs
      \<and> dec_value cs = count \<and> count \<le> u32_max \<and> r = ds @ '','' @ cs)"
    using assms by (auto simp: is_range_def)
  from r show ?thesis
  proof
    assume "r = ds \<and> count = 1"
    then have "take_digits (r @ SPACE # rest) = Some (start, SPACE # rest)" "count = 1"
      using ds by (auto simp: take_digits_iff)
    then show ?thesis by (simp add: take_range_def)
  next
    assume "\<exists>cs. cs \<noteq> [] \<and> list_all is_ascii_digit cs
      \<and> dec_value cs = count \<and> count \<le> u32_max \<and> r = ds @ '','' @ cs"
    then obtain cs where cs: "cs \<noteq> []" "list_all is_ascii_digit cs" "dec_value cs = count"
        "count \<le> u32_max" "r = ds @ '','' @ cs" by blast
    have "take_digits (r @ SPACE # rest) = Some (start, CHR '','' # cs @ SPACE # rest)"
      unfolding take_digits_iff using ds cs by (intro exI [of _ ds]) simp
    moreover have "take_digits (cs @ SPACE # rest) = Some (count, SPACE # rest)"
      unfolding take_digits_iff using cs by (intro exI [of _ cs]) simp
    ultimately show ?thesis by (simp add: take_range_def)
  qed
qed

text \<open>The header grammar of \<open>parse_hunk_header\<close>'s comment:
  \<open>"@@ -" RANGE " +" RANGE " @@" [ " " heading ]\<close>.\<close>

definition heading_of :: "string option \<Rightarrow> string \<Rightarrow> bool" where
  "heading_of sec s \<longleftrightarrow>
     (case sec of None \<Rightarrow> s = [] \<or> s = '' '' | Some h \<Rightarrow> h \<noteq> [] \<and> s = '' '' @ h)"

definition hunk_header_grammar :: "string \<Rightarrow> HunkHeader \<Rightarrow> bool" where
  "hunk_header_grammar line h \<longleftrightarrow>
     (\<exists>r1 r2 s. line = ''@@ -'' @ r1 @ '' +'' @ r2 @ '' @@'' @ s
        \<and> is_range r1 (hh_old_start h) (hh_old_count h)
        \<and> is_range r2 (hh_new_start h) (hh_new_count h)
        \<and> heading_of (hh_section h) s)"

lemma parse_hunk_header_sound:
  assumes "parse_hunk_header line = Some h"
  shows "hunk_header_grammar line h"
proof -
  obtain rest os oc rest2 rest3 ns nc rest4 after heading where
    l: "line = ''@@ -'' @ rest" and r1: "take_range rest = Some (os, oc, rest2)"
    and p: "rest2 = '' +'' @ rest3" and r2: "take_range rest3 = Some (ns, nc, rest4)"
    and a: "rest4 = '' @@'' @ after"
    and hd: "(if after = [] then Some [] else strip_prefix '' '' after) = Some heading"
    and h: "h = \<lparr>hh_old_start = os, hh_old_count = oc, hh_new_start = ns, hh_new_count = nc,
         hh_section = (if heading = [] then None else Some heading)\<rparr>"
    using assms by (auto simp: parse_hunk_header_def strip_prefix_Some bind_eq_Some_conv split: prod.splits)
  obtain s1 where s1: "rest = s1 @ rest2" "is_range s1 os oc" using take_range_SomeD [OF r1] by blast
  obtain s2 where s2: "rest3 = s2 @ rest4" "is_range s2 ns nc" using take_range_SomeD [OF r2] by blast
  have "heading_of (hh_section h) after"
    using hd h by (auto simp: heading_of_def strip_prefix_Some split: if_splits)
  moreover have "line = ''@@ -'' @ s1 @ '' +'' @ s2 @ '' @@'' @ after"
    using l p a s1 s2 by simp
  ultimately show ?thesis unfolding hunk_header_grammar_def using s1(2) s2(2) h
    by (intro exI [of _ s1] exI [of _ s2] exI [of _ after]) simp
qed

lemma parse_hunk_header_complete:
  assumes "hunk_header_grammar line h"
  shows "parse_hunk_header line = Some h"
proof -
  obtain r1 r2 s where l: "line = ''@@ -'' @ r1 @ '' +'' @ r2 @ '' @@'' @ s"
    and r1: "is_range r1 (hh_old_start h) (hh_old_count h)"
    and r2: "is_range r2 (hh_new_start h) (hh_new_count h)"
    and s: "heading_of (hh_section h) s"
    using assms by (auto simp: hunk_header_grammar_def)
  have "(if s = [] then Some [] else strip_prefix '' '' s)
      = Some (case hh_section h of None \<Rightarrow> [] | Some x \<Rightarrow> x)"
    using s by (auto simp: heading_of_def split: option.splits)
  then show ?thesis
    using l take_range_is_range [OF r1] take_range_is_range [OF r2] s
    by (auto simp: parse_hunk_header_def heading_of_def split: option.splits)
qed

lemma parse_hunk_header_iff: "parse_hunk_header line = Some h \<longleftrightarrow> hunk_header_grammar line h"
  using parse_hunk_header_sound parse_hunk_header_complete by blast

lemma is_range_show:
  "a \<le> u32_max \<Longrightarrow> b \<le> u32_max \<Longrightarrow> is_range (show_nat a @ '','' @ show_nat b) a b"
  unfolding is_range_def
  by (intro conjI exI [of _ "show_nat a"] disjI2 exI [of _ "show_nat b"])
    (auto simp: list_all_iff show_nat_digits)

subsection \<open>Modes\<close>

lemma canon_mode_range: "canon_mode m \<in> {0x81ED, 0x81A4, 0xA000, 0x4000, 0xE000}"
  by (simp add: canon_mode_def)

lemma canon_mode_idem: "canon_mode (canon_mode m) = canon_mode m"
  using canon_mode_range [of m] by (auto simp: canon_mode_def [of "_ :: 32 word"] object_type_def)

lemma object_type_canon:
  "object_type m \<in> {0x8000, 0xA000, 0x4000, 0xE000} \<Longrightarrow> object_type (canon_mode m) = object_type m"
  by (auto simp: canon_mode_def object_type_def)

subsection \<open>Squashed slashes\<close>

fun sq_rec :: "bool \<Rightarrow> string \<Rightarrow> string" where
  "sq_rec b [] = []"
| "sq_rec b (c # s) = (if c = SLASH \<and> b then sq_rec True s else c # sq_rec (c = SLASH) s)"

fun no_double_slash :: "string \<Rightarrow> bool" where
  "no_double_slash (a # b # s) \<longleftrightarrow> \<not> (a = SLASH \<and> b = SLASH) \<and> no_double_slash (b # s)"
| "no_double_slash _ \<longleftrightarrow> True"

lemma ends_with_snoc [simp]: "ends_with [c] (s @ [d]) \<longleftrightarrow> d = c" "\<not> ends_with [c] []"
  by (auto simp: ends_with_def)

lemma squash_foldl:
  "foldl (\<lambda>out c. if c = SLASH \<and> ends_with [SLASH] out then out else out @ [c]) out s =
     out @ sq_rec (ends_with [SLASH] out) s"
  by (induction s arbitrary: out) auto

lemma squash_slashes_rec: "squash_slashes s = sq_rec False s"
  by (simp add: squash_slashes_def squash_foldl)

lemma sq_rec_no_double: "no_double_slash (sq_rec b s) \<and> (b \<longrightarrow> \<not> starts_with [SLASH] (sq_rec b s))"
proof (induction s arbitrary: b)
  case (Cons c s)
  have "no_double_slash (c # sq_rec (c = SLASH) s)"
    using Cons [of "c = SLASH"] by (cases "sq_rec (c = SLASH) s") auto
  then show ?case using Cons [of True] by auto
qed simp

lemma squash_no_double: "no_double_slash (squash_slashes s)"
  by (simp add: squash_slashes_rec sq_rec_no_double)

lemma sq_rec_id: "no_double_slash s \<Longrightarrow> (b \<longrightarrow> \<not> starts_with [SLASH] s) \<Longrightarrow> sq_rec b s = s"
proof (induction s arbitrary: b)
  case (Cons c s)
  then have "no_double_slash s" "c = SLASH \<longrightarrow> \<not> starts_with [SLASH] s"
    by (cases s; auto)+
  with Cons show ?case by auto
qed simp

lemma squash_id: "no_double_slash s \<Longrightarrow> squash_slashes s = s"
  by (simp add: squash_slashes_rec sq_rec_id)

lemma squash_idem: "squash_slashes (squash_slashes s) = squash_slashes s"
  by (simp add: squash_id squash_no_double)

lemma squash_Nil [simp]: "squash_slashes s = [] \<longleftrightarrow> s = []"
  by (cases s) (auto simp: squash_slashes_rec)

lemma squash_starts: "starts_with [SLASH] (squash_slashes s) \<longleftrightarrow> starts_with [SLASH] s"
  by (cases s) (auto simp: squash_slashes_rec)

lemma squash_subset: "set (squash_slashes s) \<subseteq> set s"
proof -
  have "set (sq_rec b s) \<subseteq> set s" for b by (induction s arbitrary: b) auto
  then show ?thesis by (simp add: squash_slashes_rec)
qed

text \<open>Squashing drops empty components only.\<close>

abbreviation named_components :: "string \<Rightarrow> string list" where
  "named_components s \<equiv> filter (\<lambda>c. c \<noteq> []) (split_char SLASH s)"

lemma split_char_Cons:
  "split_char c (x # s) =
     (if x = c then [] # split_char c s else (x # hd (split_char c s)) # tl (split_char c s))"
  by (cases "split_char c s") auto

lemma sq_rec_components:
  "named_components (sq_rec b s) = named_components s
   \<and> hd (split_char SLASH (sq_rec False s)) = hd (split_char SLASH s)
   \<and> filter (\<lambda>c. c \<noteq> []) (tl (split_char SLASH (sq_rec False s)))
       = filter (\<lambda>c. c \<noteq> []) (tl (split_char SLASH s))"
proof (induction s arbitrary: b)
  case (Cons c s)
  show ?case
    using Cons [of True] Cons [of False]
    by (auto simp del: split_char.simps(2) simp: split_char_Cons)
qed simp

lemma squash_components: "named_components (squash_slashes s) = named_components s"
  by (simp add: squash_slashes_rec sq_rec_components)

lemma git_refuses_squash [simp]: "git_refuses_path (squash_slashes s) = git_refuses_path s"
proof -
  have named: "eq_ignore_ascii_case c ''.git'' \<Longrightarrow> c \<noteq> []" for c
    by (auto simp: eq_ignore_ascii_case_def)
  have bad: "(\<exists>c\<in>set (split_char SLASH x). c = ''.'' \<or> c = ''..'' \<or> eq_ignore_ascii_case c ''.git'')
      \<longleftrightarrow> (\<exists>c\<in>set (named_components x). c = ''.'' \<or> c = ''..'' \<or> eq_ignore_ascii_case c ''.git'')" for x
    using named by fastforce
  show ?thesis
    unfolding git_refuses_path_def bad squash_components squash_starts by simp
qed

subsection \<open>The halves of a \<open>diff --git\<close> line\<close>

text \<open>The splitter before it was made linear: a fresh \<open>skip_tree_prefix\<close> at every separator.\<close>

fun snh_ref :: "bool \<Rightarrow> string \<Rightarrow> nat list \<Rightarrow> string option" where
  "snh_ref p0 name [] = None"
| "snh_ref p0 name (at # ats) =
     (if at + 1 = length name then None
      else case skip_tree_prefix (drop (at + 1) name) p0 of
        None \<Rightarrow> None
      | Some second \<Rightarrow> if second = take at name then Some second else snh_ref p0 name ats)"

lemma position_drop_skip:
  assumes "\<forall>k. a \<le> k \<and> k < b \<longrightarrow> \<not> f (xs ! k)" "a \<le> b" "b \<le> length xs"
  shows "position f (drop a xs) = map_option (\<lambda>k. k + (b - a)) (position f (drop b xs))"
  using assms
proof (induction "b - a" arbitrary: a)
  case (Suc d)
  then have a: "a < length xs" "a < b" by linarith+
  with Suc have step: "position f (drop a xs) = map_option Suc (position f (drop (Suc a) xs))"
    by (simp add: Cons_nth_drop_Suc [symmetric])
  have "position f (drop (Suc a) xs) = map_option (\<lambda>k. k + (b - Suc a)) (position f (drop b xs))"
    using Suc a by (intro Suc.hyps) auto
  then show ?case
    using step a by (auto simp: option.map_comp comp_def Suc_diff_Suc intro!: map_option_cong)
qed (simp add: option.map_id0 [unfolded id_def])

text \<open>Where the scan stands: nothing between the next separator and \<open>slash\<close> is a \<open>/\<close>.\<close>

definition scan_ok :: "string \<Rightarrow> nat \<Rightarrow> nat list \<Rightarrow> bool" where
  "scan_ok name slash ats \<longleftrightarrow>
     slash \<le> length name \<and> sorted_wrt (<) ats \<and> (\<forall>at\<in>set ats. at < length name) \<and>
     (\<forall>at\<in>set ats. \<forall>k. at < k \<and> k < slash \<longrightarrow> name ! k \<noteq> SLASH)"

lemma skip_tree_prefix_drop:
  assumes "start \<le> length name" "from \<le> length name" "start \<le> from"
    and "\<forall>k. start \<le> k \<and> k < from \<longrightarrow> name ! k \<noteq> SLASH"
  shows "skip_tree_prefix (drop start name) False =
     (case position (\<lambda>b. b = SLASH) (drop from name) of
        None \<Rightarrow> None
      | Some k \<Rightarrow> if from + k = start then None else Some (drop (from + k + 1) name))"
proof -
  have "position (\<lambda>b. b = SLASH) (drop start name) =
      map_option (\<lambda>k. k + (from - start)) (position (\<lambda>b. b = SLASH) (drop from name))"
    using assms by (intro position_drop_skip) auto
  then show ?thesis
    using assms(3) by (auto simp: skip_tree_prefix_def add.commute split: option.splits)
qed

lemma snh_loop_ref:
  "scan_ok name slash ats \<Longrightarrow> snh_loop p0 name slash ats = snh_ref p0 name ats"
proof (induction ats arbitrary: slash)
  case (Cons at ats)
  show ?case
  proof (cases "at + 1 = length name \<or> p0")
    case True
    have IH: "snh_loop p0 name slash ats = snh_ref p0 name ats"
      using Cons by (intro Cons.IH) (auto simp: scan_ok_def)
    have at: "at < length name" using Cons.prems by (simp add: scan_ok_def)
    have "\<not> at + 1 = length name \<Longrightarrow> starts_with [SLASH] (drop (at + 1) name) \<longleftrightarrow> name ! (at + 1) = SLASH"
      using at by (subst Cons_nth_drop_Suc [symmetric]) auto
    moreover have "drop (Suc at) name = take at name \<Longrightarrow> length name - Suc at = at"
      using at by (metis length_drop length_take min.absorb2 less_imp_le)
    ultimately show ?thesis using True IH at
      by (auto simp: skip_tree_prefix_def Let_def)
  next
    case False
    define start where "start = Suc at"
    define fr where "fr = max slash start"
    have st: "start < length name" "slash \<le> length name" "at < length name" and np0: "\<not> p0"
      using Cons.prems False by (auto simp: scan_ok_def start_def)
    have gap: "\<forall>k. start \<le> k \<and> k < fr \<longrightarrow> name ! k \<noteq> SLASH"
      using Cons.prems by (auto simp: scan_ok_def start_def fr_def)
    have skip: "skip_tree_prefix (drop start name) False =
        (case position (\<lambda>b. b = SLASH) (drop fr name) of None \<Rightarrow> None
         | Some k \<Rightarrow> if fr + k = start then None else Some (drop (fr + k + 1) name))"
      using st gap by (intro skip_tree_prefix_drop) (auto simp: fr_def)
    show ?thesis
    proof (cases "position (\<lambda>b. b = SLASH) (drop fr name)")
      case None
      with skip np0 st show ?thesis by (simp add: Let_def start_def [symmetric] fr_def [symmetric])
    next
      case (Some k)
      then have k: "fr + k < length name" "\<forall>j<k. name ! (fr + j) \<noteq> SLASH"
        by (auto simp: position_Some)
      have "scan_ok name (fr + k) ats"
      proof -
        have "name ! j \<noteq> SLASH" if "a \<in> set ats" "a < j" "j < fr + k" for a j
        proof (cases "j < fr")
          case True
          have "start \<le> j" using that(1,2) Cons.prems by (auto simp: scan_ok_def start_def)
          with True gap show ?thesis by blast
        next
          case False
          then have "j - fr < k" "fr + (j - fr) = j" using that(3) by auto
          with k(2) show ?thesis by metis
        qed
        with Cons.prems k(1) show ?thesis by (auto simp: scan_ok_def)
      qed
      then have IH: "snh_loop p0 name (fr + k) ats = snh_ref p0 name ats" by (rule Cons.IH)
      have "drop (fr + k + 1) name = take at name \<Longrightarrow> length name - (fr + k + 1) = at"
        using st(3) by (metis length_drop length_take min.absorb2 less_imp_le)
      with IH Some skip np0 st show ?thesis
        by (auto simp: Let_def start_def [symmetric] fr_def [symmetric])
    qed
  qed
qed simp

lemma blank_positions_scan: "scan_ok name 0 (blank_positions name)"
  by (auto simp: scan_ok_def blank_positions_def sorted_wrt_filter)

lemma same_name_halves_linear:
  "snh_loop p0 name 0 (blank_positions name) = snh_ref p0 name (blank_positions name)"
  by (rule snh_loop_ref [OF blank_positions_scan])

lemma skip_tree_prefix_iff:
  "skip_tree_prefix name False = Some r \<longleftrightarrow>
     (\<exists>a. name = a @ SLASH # r \<and> a \<noteq> [] \<and> SLASH \<notin> set a)"
proof
  assume "skip_tree_prefix name False = Some r"
  then obtain at where at: "position (\<lambda>c. c = SLASH) name = Some at" "at \<noteq> 0" "r = drop (at + 1) name"
    by (auto simp: skip_tree_prefix_def split: option.splits if_splits)
  then have p: "at < length name" "name ! at = SLASH" "\<forall>k<at. name ! k \<noteq> SLASH"
    by (auto simp: position_Some)
  then have "name = take at name @ SLASH # r" using at by (metis Suc_eq_plus1 id_take_nth_drop)
  moreover have "SLASH \<notin> set (take at name)"
    using p by (auto simp: in_set_conv_nth)
  moreover have "take at name \<noteq> []" using at(2) p(1) by auto
  ultimately show "\<exists>a. name = a @ SLASH # r \<and> a \<noteq> [] \<and> SLASH \<notin> set a" by blast
next
  assume "\<exists>a. name = a @ SLASH # r \<and> a \<noteq> [] \<and> SLASH \<notin> set a"
  then obtain a where a: "name = a @ SLASH # r" "a \<noteq> []" "SLASH \<notin> set a" by blast
  then have "position (\<lambda>c. c = SLASH) name = Some (length a)"
    by (auto simp: position_Some nth_append in_set_conv_nth)
  with a show "skip_tree_prefix name False = Some r" by (simp add: skip_tree_prefix_def)
qed

lemma snh_ref_sound:
  "snh_ref p0 name ats = Some n \<Longrightarrow>
     \<exists>at\<in>set ats. n = take at name \<and> skip_tree_prefix (drop (at + 1) name) p0 = Some n"
  by (induction ats) (auto split: if_splits option.splits)

text \<open>What a split found means: the line is \<open>X/NAME Y/NAME\<close>.\<close>

lemma same_name_halves_sound:
  assumes "same_name_halves rest False = Some n" "DQUOTE \<notin> set rest"
  shows "\<exists>a b sep. rest = a @ SLASH # n @ sep # b @ SLASH # n \<and> a \<noteq> [] \<and> b \<noteq> []
     \<and> SLASH \<notin> set a \<and> SLASH \<notin> set b \<and> (sep = SPACE \<or> sep = TAB)"
proof -
  obtain name where name: "skip_tree_prefix rest False = Some name"
    using assms(1) by (auto simp: same_name_halves_def split: option.splits)
  then obtain a where a: "rest = a @ SLASH # name" "a \<noteq> []" "SLASH \<notin> set a"
    by (auto simp: skip_tree_prefix_iff)
  have "position (\<lambda>c. c = DQUOTE) name = None"
    using assms(2) a(1) by (auto simp: position_None)
  with assms(1) name have "snh_ref False name (blank_positions name) = Some n"
    by (simp add: same_name_halves_def same_name_halves_linear)
  then obtain at where at: "at \<in> set (blank_positions name)" "n = take at name"
      "skip_tree_prefix (drop (at + 1) name) False = Some n"
    using snh_ref_sound by blast
  then obtain b where b: "drop (at + 1) name = b @ SLASH # n" "b \<noteq> []" "SLASH \<notin> set b"
    by (auto simp: skip_tree_prefix_iff)
  have at': "at < length name" "name ! at = SPACE \<or> name ! at = TAB"
    using at(1) by (auto simp: blank_positions_def)
  then have "name = n @ (name ! at) # b @ SLASH # n"
    using at(2) b(1) by (metis Suc_eq_plus1 id_take_nth_drop)
  with a b at' show ?thesis by (metis append_Cons)
qed

lemma blank_positions_single:
  assumes "SPACE \<notin> set n" "TAB \<notin> set n" "SPACE \<notin> set m" "TAB \<notin> set m"
  shows "blank_positions (n @ SPACE # m) = [length n]"
proof -
  have split: "[0..<length (n @ SPACE # m)] =
      [0..<length n] @ [length n] @ [Suc (length n)..<length (n @ SPACE # m)]"
    by (metis append_Cons append_Nil le_add1 length_Cons length_append less_add_Suc1 upt_add_eq_append
        upt_conv_Cons add_Suc_right less_eq_nat.simps(1) plus_nat.add_0)
  have "filter (\<lambda>i. (n @ SPACE # m) ! i = SPACE \<or> (n @ SPACE # m) ! i = TAB) [0..<length n] = []"
    using assms by (auto simp: filter_empty_conv nth_append in_set_conv_nth)
  moreover have "filter (\<lambda>i. (n @ SPACE # m) ! i = SPACE \<or> (n @ SPACE # m) ! i = TAB)
      [Suc (length n)..<length (n @ SPACE # m)] = []"
    using assms by (auto simp: filter_empty_conv nth_append nth_Cons in_set_conv_nth split: nat.splits)
  ultimately show ?thesis unfolding blank_positions_def split by simp
qed

lemma same_name_halves_complete:
  assumes n: "SPACE \<notin> set n" "TAB \<notin> set n" "DQUOTE \<notin> set n"
    and b: "SPACE \<notin> set b" "TAB \<notin> set b" "DQUOTE \<notin> set b" "SLASH \<notin> set b" "b \<noteq> []"
    and a: "SLASH \<notin> set a" "a \<noteq> []"
  shows "same_name_halves (a @ SLASH # n @ SPACE # b @ SLASH # n) False = Some n"
proof -
  let ?name = "n @ SPACE # b @ SLASH # n"
  have "skip_tree_prefix (a @ SLASH # ?name) False = Some ?name"
    using a by (auto simp: skip_tree_prefix_iff)
  moreover have "position (\<lambda>c. c = DQUOTE) ?name = None"
    using n b by (auto simp: position_None)
  moreover have "blank_positions ?name = [length n]"
    using n b by (intro blank_positions_single) auto
  moreover have "skip_tree_prefix (b @ SLASH # n) False = Some n"
    using b by (auto simp: skip_tree_prefix_iff)
  ultimately have "snh_ref False ?name (blank_positions ?name) = Some n" by simp
  with \<open>skip_tree_prefix (a @ SLASH # ?name) False = Some ?name\<close>
    \<open>position (\<lambda>c. c = DQUOTE) ?name = None\<close>
  show ?thesis by (simp only: same_name_halves_def same_name_halves_linear option.case)
qed

subsection \<open>Timestamps\<close>

text \<open>Every length the scanner subtracts is at most what is left, so no subtraction wraps.\<close>

lemma ts_bounds:
  "ts_sane_tz s \<le> length s" "ts_colon_tz s \<le> length s" "ts_short_time s \<le> length s"
  "ts_fractional_time s \<le> length s" "ts_date s \<le> length s"
proof -
  show short: "ts_short_time s \<le> length s" for s by (auto simp: ts_short_time_def Let_def)
  show "ts_sane_tz s \<le> length s" "ts_colon_tz s \<le> length s"
    by (auto simp: ts_sane_tz_def ts_colon_tz_def Let_def)
  show "ts_date s \<le> length s" by (auto simp: ts_date_def Let_def)
  let ?w = "length s - length (takeWhile is_ascii_digit (rev s))"
  have "ts_short_time (take (?w - 1) s) \<le> ?w - 1"
    using short [of "take (?w - 1) s"] by simp
  then show "ts_fractional_time s \<le> length s"
    by (auto simp: ts_fractional_time_def Let_def)
qed

lemma trailing_run:
  assumes "xs \<noteq> []" "f (last xs)"
  shows "0 < length (takeWhile f (rev xs))" "length (takeWhile f (rev xs)) \<le> length xs"
    "f (xs ! (length xs - length (takeWhile f (rev xs))))"
proof -
  let ?n = "length (takeWhile f (rev xs))"
  show pos: "0 < ?n" using assms by (cases xs rule: rev_cases) auto
  show le: "?n \<le> length xs" using length_takeWhile_le [of f "rev xs"] by simp
  have "f (takeWhile f (rev xs) ! (?n - 1))"
    using pos by (metis diff_less nth_mem set_takeWhileD zero_less_one)
  moreover have "takeWhile f (rev xs) ! (?n - 1) = rev xs ! (?n - 1)"
    using pos by (simp add: takeWhile_nth)
  moreover have "rev xs ! (?n - 1) = xs ! (length xs - ?n)"
    using pos le rev_nth [of "?n - 1" xs] by (metis Suc_pred' diff_less le_trans less_le_trans zero_less_one)
  ultimately show "f (xs ! (length xs - ?n))" by simp
qed

lemma timestamp_len_boundary:
  assumes "0 < timestamp_len line"
  shows "timestamp_len line \<le> length line
    \<and> line ! (length line - timestamp_len line) \<in> {TAB, SPACE}"
proof -
  define e1 where "e1 = length line - (if ts_sane_tz line = 0 then ts_colon_tz line else ts_sane_tz line)"
  define l1 where "l1 = take e1 line"
  define e2 where "e2 = e1 - (if ts_short_time l1 = 0 then ts_fractional_time l1 else ts_short_time l1)"
  define e3 where "e3 = e2 - ts_date (take e2 line)"
  have e3: "e3 \<le> length line" "0 < e3" and
    ts: "timestamp_len line =
      (if line ! (e3 - 1) = TAB then length line - (e3 - 1)
       else if line ! (e3 - 1) = SPACE
       then length line - (e3 - length (takeWhile (\<lambda>b. b = SPACE) (rev (take e3 line)))) else 0)"
  proof -
    have "timestamp_len line =
      (if line = [] \<or> \<not> is_ascii_digit (last line) then 0
       else if ts_date (take e2 line) = 0 then 0
       else if e3 = 0 then 0
       else if line ! (e3 - 1) = TAB then length line - (e3 - 1)
       else if line ! (e3 - 1) = SPACE
       then length line - (e3 - length (takeWhile (\<lambda>b. b = SPACE) (rev (take e3 line)))) else 0)"
      by (simp only: timestamp_len_def Let_def e1_def l1_def e2_def e3_def)
    with assms show "0 < e3" and "timestamp_len line =
      (if line ! (e3 - 1) = TAB then length line - (e3 - 1)
       else if line ! (e3 - 1) = SPACE
       then length line - (e3 - length (takeWhile (\<lambda>b. b = SPACE) (rev (take e3 line)))) else 0)"
      by (auto split: if_splits)
    have "e3 \<le> e2" "e2 \<le> e1" "e1 \<le> length line"
      unfolding e3_def e2_def e1_def by (rule diff_le_self)+
    then show "e3 \<le> length line" by linarith
  qed
  have last: "last (take e3 line) = line ! (e3 - 1)" "take e3 line \<noteq> []"
    using e3 by (cases e3, auto simp add: take_Suc_conv_app_nth)
  show ?thesis
  proof (cases "line ! (e3 - 1) = TAB")
    case True
    with ts e3 show ?thesis by simp
  next
    case False
    with ts assms have sp: "line ! (e3 - 1) = SPACE" by (auto split: if_splits)
    let ?t = "length (takeWhile (\<lambda>b. b = SPACE) (rev (take e3 line)))"
    have "?t \<le> e3" "line ! (e3 - ?t) = SPACE" "0 < ?t"
      using trailing_run [of "take e3 line" "\<lambda>b. b = SPACE"] last sp e3 by auto
    with ts False sp e3 show ?thesis by simp
  qed
qed

end
