(* ===== verification/Parser_Steps.thy ===== *)
theory Parser_Steps
  imports Parser Header_Props
begin

text \<open>
  The parser as a state machine. \<open>pstep L\<close> is an inductive relation whose rules are the atomic
  changes the methods of \<open>Parser\<close> make to the state while they read lines of the set \<open>L\<close>; each
  successful \<open>feed\<close> is a finite run of such steps (\<open>feed_steps\<close>). An invariant of the parser is an
  instance of the locale \<open>parser_invariant\<close>: it holds initially and every step keeps it, so it
  holds for whatever \<open>parse_lines\<close> returns.
\<close>

text \<open>A header changes names and flags of a section only.\<close>

definition same_body :: "FileBuf \<Rightarrow> FileBuf \<Rightarrow> bool" where
  "same_body f f' \<longleftrightarrow>
     fb_metadata f' = fb_metadata f \<and> fb_rename_from f' = fb_rename_from f
     \<and> fb_rename_to f' = fb_rename_to f \<and> fb_hunks f' = fb_hunks f
     \<and> fb_lossy_lines f' = fb_lossy_lines f \<and> fb_eof_old f' = fb_eof_old f
     \<and> fb_eof_new f' = fb_eof_new f \<and> fb_git f' = fb_git f"

definition fresh_file :: "FileBuf \<Rightarrow> bool" where
  "fresh_file f \<longleftrightarrow> same_body (FileBuf_default\<lparr>fb_git := fb_git f\<rparr>) f"

definition same_content :: "Parser \<Rightarrow> Parser \<Rightarrow> bool" where
  "same_content p p' \<longleftrightarrow>
     pr_files p' = pr_files p \<and> pr_file p' = pr_file p \<and> pr_hunk p' = pr_hunk p
     \<and> pr_next_hunk_id p' = pr_next_hunk_id p"

definition opened_hunk :: "nat \<Rightarrow> HunkHeader \<Rightarrow> HunkBuf" where
  "opened_hunk i hh =
     \<lparr>hb_id = i, hb_section = hh_section hh, hb_old_start = hh_old_start hh,
      hb_new_start = hh_new_start hh, hb_old_line = hh_old_start hh, hb_new_line = hh_new_start hh,
      hb_rem_old = hh_old_count hh, hb_rem_new = hh_new_count hh, hb_lines = []\<rparr>"

inductive pstep :: "string set \<Rightarrow> Parser \<Rightarrow> Parser \<Rightarrow> bool" for L where
  flags: "same_content p p' \<Longrightarrow> pstep L p p'"
| eof: "pstep L p (mark_eof p eof_marker n)"
| body: "pr_hunk p = Some h \<Longrightarrow> line \<in> L \<Longrightarrow> consume_body h line n = Some (Inr h') \<Longrightarrow>
    Option.bind (pr_file p) (\<lambda>f. ended_side f line) = None \<Longrightarrow> pstep L p (p\<lparr>pr_hunk := Some h'\<rparr>)"
| close: "close_hunk p n = Inr p' \<Longrightarrow> pstep L p p'"
| flush: "pr_hunk p = None \<Longrightarrow> flush_file p = Inr p' \<Longrightarrow> pstep L p p'"
| fresh: "pr_hunk p = None \<Longrightarrow> pr_file p = None \<Longrightarrow> fresh_file f \<Longrightarrow> pstep L p (p\<lparr>pr_file := Some f\<rparr>)"
| header: "pr_file p = Some f \<Longrightarrow> same_body f f' \<Longrightarrow> pstep L p (p\<lparr>pr_file := Some f'\<rparr>)"
| opened: "pr_hunk p = None \<Longrightarrow> pr_file p = Some f \<Longrightarrow> line \<in> L \<Longrightarrow>
    parse_hunk_header (trim_end_char CR line) = Some hh \<Longrightarrow>
    pstep L p (p\<lparr>pr_next_hunk_id := pr_next_hunk_id p + 1,
                 pr_hunk := Some (opened_hunk (pr_next_hunk_id p) hh)\<rparr>)"
| meta: "pr_file p = Some f \<Longrightarrow> try_metadata_file f line n = Inr (Some f') \<Longrightarrow>
    pstep L p (p\<lparr>pr_file := Some f'\<rparr>)"
| lossy: "pstep L p (mark_lossy p)"

abbreviation psteps :: "string set \<Rightarrow> Parser \<Rightarrow> Parser \<Rightarrow> bool" where
  "psteps L \<equiv> (pstep L)\<^sup>*\<^sup>*"

lemma psteps_flags [intro]: "same_content p p' \<Longrightarrow> psteps L p p'"
  by (blast intro: pstep.flags)

lemma psteps_flags_after:
  "psteps L p p' \<Longrightarrow> same_content p' p'' \<Longrightarrow> psteps L p p''"
  using pstep.flags rtranclp.rtrancl_into_rtrancl by metis

lemma same_content_flags [simp]:
  "same_content p (p\<lparr>pr_last_line := a\<rparr>)" "same_content p (p\<lparr>pr_can_mark_eof := b\<rparr>)"
  "same_content p (p\<lparr>pr_hunk_may_open := b\<rparr>)" "same_content p (p\<lparr>pr_p0 := b\<rparr>)"
  "same_content p (p\<lparr>pr_last_line := a, pr_can_mark_eof := b, pr_hunk_may_open := c\<rparr>)"
  by (simp_all add: same_content_def)

subsection \<open>Each method is a run of steps\<close>

lemma close_hunk_None: "close_hunk p n = Inr p' \<Longrightarrow> pr_hunk p' = None"
  by (auto simp: close_hunk_def split: option.splits if_splits)

lemma flush_file_None: "flush_file p = Inr p' \<Longrightarrow> pr_file p' = None \<and> pr_hunk p' = pr_hunk p"
  by (auto simp: flush_file_def res_elims split: option.splits)

lemma close_hunk_steps: "close_hunk p n = Inr p' \<Longrightarrow> psteps L p p'"
  by (blast intro: pstep.close)

lemma start_git_file_steps:
  assumes "start_git_file p rest n = Inr p'"
  shows "psteps L p p'"
proof -
  obtain p1 p2 names where 1: "close_hunk p n = Inr p1" and 2: "flush_file p1 = Inr p2"
    and p': "p' = p2\<lparr>pr_file := Some (case names of
                None \<Rightarrow> FileBuf_default\<lparr>fb_git := True, fb_p0 := pr_p0 p2, fb_first_line := n\<rparr>
              | Some (old, new) \<Rightarrow> FileBuf_default\<lparr>fb_git := True, fb_p0 := pr_p0 p2,
                  fb_first_line := n, fb_git_old := Some old, fb_git_new := Some new\<rparr>)\<rparr>"
    using assms by (auto simp: start_git_file_def res_elims Let_def)
  have None: "pr_hunk p1 = None" "pr_hunk p2 = None" "pr_file p2 = None"
    using close_hunk_None [OF 1] flush_file_None [OF 2] by auto
  have "pstep L p2 p'"
    unfolding p' by (rule pstep.fresh) (auto simp: None fresh_file_def same_body_def FileBuf_default_def
        split: option.splits)
  moreover have "pstep L p p1" "pstep L p1 p2"
    using 1 2 None by (auto intro: pstep.close pstep.flush)
  ultimately show ?thesis by (auto intro: converse_rtranclp_into_rtranclp)
qed

lemma on_old_header_steps:
  assumes "on_old_header p rest cr n = Inr p'"
  shows "psteps L p p'"
proof -
  obtain p1 where 1: "close_hunk p n = Inr p1" using assms by (auto simp: on_old_header_def res_elims)
  obtain p2 f name where
    sel: "(case pr_file p1 of
             None \<Rightarrow> Inr (p1, FileBuf_default\<lparr>fb_first_line := n\<rparr>)
           | Some f \<Rightarrow>
               if fb_new_raw f \<noteq> None \<or> fb_hunks f \<noteq> []
               then res_bind (flush_file p1) (\<lambda>p. Inr (p, FileBuf_default\<lparr>fb_first_line := n\<rparr>))
               else Inr (p1, f)) = Inr (p2, f)"
    and p': "p' = p2\<lparr>pr_file := Some (f\<lparr>fb_old_raw := Some name,
                 fb_old_epoch := \<not> fb_git f \<and> \<not> cr \<and> has_epoch_timestamp rest,
                 fb_awaiting_new_header := True, fb_past_headers := True\<rparr>)\<rparr>"
    using assms 1 by (auto simp: on_old_header_def res_elims Let_def split: if_splits)
  have N: "pr_hunk p1 = None" using close_hunk_None [OF 1] .
  have "psteps L p1 p'"
  proof (cases "pr_file p2")
    case None
    with sel have f: "f = FileBuf_default\<lparr>fb_first_line := n\<rparr>" and p2: "psteps L p1 p2" "pr_hunk p2 = None"
      using N flush_file_None
      by (auto simp: res_elims split: option.splits if_splits intro: pstep.flush)
    have "pstep L p2 p'"
      unfolding p' by (rule pstep.fresh) (simp_all add: None p2 f fresh_file_def same_body_def FileBuf_default_def)
    with p2(1) show ?thesis by (rule rtranclp.rtrancl_into_rtrancl)
  next
    case (Some g)
    with sel have "p2 = p1" "pr_file p1 = Some f"
      using flush_file_None by (auto simp: res_elims split: option.splits if_splits)
    then have "pstep L p2 p'"
      unfolding p' by (intro pstep.header [where f = f]) (simp_all add: same_body_def)
    with \<open>p2 = p1\<close> have "pstep L p1 p'" by simp
    then show ?thesis by blast
  qed
  with 1 show ?thesis by (meson pstep.close converse_rtranclp_into_rtranclp)
qed

lemma name_traditional_same_body: "same_body f (name_traditional f e q)"
  by (auto simp: same_body_def name_traditional_def Let_def split: option.splits)

lemma same_body_trans: "same_body f g \<Longrightarrow> same_body g h \<Longrightarrow> same_body f h"
  by (simp add: same_body_def)

lemma on_new_header_steps:
  assumes "on_new_header p rest cr n = Inr p'"
  shows "psteps L p p'"
proof -
  obtain f name where f: "pr_file p = Some f"
    and p': "p' = p\<lparr>pr_p0 := (if \<not> fb_git f then pr_p0 p \<or> (name \<noteq> dev_null \<and> name \<noteq> [] \<and> SLASH \<notin> set name)
                              else pr_p0 p),
        pr_file := Some (if \<not> fb_git f
          then name_traditional (f\<lparr>fb_awaiting_new_header := False,
                 fb_p0 := pr_p0 p \<or> (name \<noteq> dev_null \<and> name \<noteq> [] \<and> SLASH \<notin> set name),
                 fb_new_raw := Some name\<rparr>) (\<not> cr \<and> has_epoch_timestamp rest) (starts_with [DQUOTE] rest)
          else f\<lparr>fb_awaiting_new_header := False, fb_new_raw := Some name\<rparr>)\<rparr>"
    using assms by (auto simp: on_new_header_def res_elims Let_def split: option.splits if_splits)
  have names: "same_body f (f\<lparr>fb_awaiting_new_header := False, fb_p0 := b, fb_new_raw := Some name\<rparr>)"
    "same_body f (f\<lparr>fb_awaiting_new_header := False, fb_new_raw := Some name\<rparr>)" for b
    by (simp_all add: same_body_def)
  obtain b f' where f': "p' = p\<lparr>pr_p0 := b, pr_file := Some f'\<rparr>" "same_body f f'"
  proof (rule that, rule p')
    show "same_body f (if \<not> fb_git f
          then name_traditional (f\<lparr>fb_awaiting_new_header := False,
                 fb_p0 := pr_p0 p \<or> (name \<noteq> dev_null \<and> name \<noteq> [] \<and> SLASH \<notin> set name),
                 fb_new_raw := Some name\<rparr>) (\<not> cr \<and> has_epoch_timestamp rest) (starts_with [DQUOTE] rest)
          else f\<lparr>fb_awaiting_new_header := False, fb_new_raw := Some name\<rparr>)"
      using names same_body_trans [OF names(1) name_traditional_same_body] by (simp only: split: if_split) blast
  qed
  have "pstep L p (p\<lparr>pr_file := Some f'\<rparr>)" using f f'(2) by (rule pstep.header)
  then have "psteps L p (p\<lparr>pr_file := Some f'\<rparr>)" by blast
  then show ?thesis unfolding f'(1) by (rule psteps_flags_after) (simp add: same_content_def)
qed

lemma open_hunk_steps:
  assumes "open_hunk p (trim_end_char CR line) n b = Inr p'" "pr_hunk p = None" "line \<in> L"
  shows "psteps L p p'"
proof -
  obtain hh f where hh: "parse_hunk_header (trim_end_char CR line) = Some hh" and f: "pr_file p = Some f"
    and p': "p' = p\<lparr>pr_file := Some (f\<lparr>fb_past_headers := True\<rparr>),
        pr_next_hunk_id := pr_next_hunk_id p + 1,
        pr_hunk := Some (opened_hunk (pr_next_hunk_id p) hh)\<rparr>"
    using assms(1) by (auto simp: open_hunk_def res_elims opened_hunk_def split: option.splits if_splits)
  let ?q = "p\<lparr>pr_file := Some (f\<lparr>fb_past_headers := True\<rparr>)\<rparr>"
  have "pstep L p ?q" using f by (intro pstep.header) (auto simp: same_body_def)
  moreover have "pstep L ?q (?q\<lparr>pr_next_hunk_id := pr_next_hunk_id ?q + 1,
                 pr_hunk := Some (opened_hunk (pr_next_hunk_id ?q) hh)\<rparr>)"
    using assms(2,3) hh by (intro pstep.opened) auto
  ultimately have "psteps L p (?q\<lparr>pr_next_hunk_id := pr_next_hunk_id ?q + 1,
                 pr_hunk := Some (opened_hunk (pr_next_hunk_id ?q) hh)\<rparr>)"
    by (auto intro: converse_rtranclp_into_rtranclp)
  then show ?thesis by (simp add: p')
qed

lemma try_metadata_steps:
  assumes "try_metadata p line n = Inr (b, p')"
  shows "psteps L p p'"
  using assms
  by (auto simp: try_metadata_def res_elims split: option.splits intro: pstep.meta)

lemma dispatch_header_steps:
  assumes "dispatch_header p (trim_end_char CR line) cr n b = Inr (u, p')" "pr_hunk p = None" "line \<in> L"
  shows "psteps L p p'"
  using assms
  by (auto simp: dispatch_header_def res_elims split: if_splits option.splits
      intro: on_old_header_steps psteps_flags_after [OF on_new_header_steps] open_hunk_steps
        try_metadata_steps psteps_flags_after [OF try_metadata_steps])

lemma dispatch_non_body_steps:
  assumes "dispatch_non_body p line n b = Inr (u, p')" "pr_hunk p = None" "line \<in> L"
  shows "psteps L p p'"
proof (cases "strip_prefix ''diff --git '' line")
  case (Some rest)
  then show ?thesis
    using assms(1) start_git_file_steps by (auto simp: dispatch_non_body_def res_elims split: if_splits)
next
  case None
  show ?thesis
  proof (cases "\<exists>f. pr_file p = Some f \<and> fb_in_binary_body f")
    case True
    then obtain f where f: "pr_file p = Some f" "fb_in_binary_body f" by blast
    with assms(1) None have "p' = p\<lparr>pr_file := Some (f\<lparr>fb_binary_body := fb_binary_body f @ [line]\<rparr>)\<rparr>"
      by (auto simp: dispatch_non_body_def split: if_splits)
    moreover have "pstep L p (p\<lparr>pr_file := Some (f\<lparr>fb_binary_body := fb_binary_body f @ [line]\<rparr>)\<rparr>)"
      using f(1) by (rule pstep.header) (simp add: same_body_def)
    ultimately show ?thesis by blast
  next
    case False
    with assms(1) None have "dispatch_header p (trim_end_char CR line) (ends_with [CR] line) n b = Inr (u, p')"
      by (cases "pr_file p") (auto simp: dispatch_non_body_def split: if_splits)
    then show ?thesis using assms(2,3) by (rule dispatch_header_steps)
  qed
qed

lemma feed_non_body_steps:
  assumes "feed_non_body p line n lossy b = Inr p'" "pr_hunk p = None" "line \<in> L"
  shows "psteps L p p'"
proof -
  obtain u q where q: "dispatch_non_body p line n b = Inr (u, q)"
    and use: "(case u of
       Interpreted \<Rightarrow>
         if lossy then Inl (LossyHeader n)
         else if pr_unterminated_last q = Some n then Inl (UnterminatedLine n) else Inr q
     | Ignored \<Rightarrow> Inr (q\<lparr>pr_file := map_option
        (\<lambda>f. if fb_git f \<and> \<not> fb_past_headers f then f\<lparr>fb_header_ended := True\<rparr> else f) (pr_file q)\<rparr>))
     = Inr p'"
    using assms(1) by (auto simp: feed_non_body_def res_elims)
  have p': "p' = q \<or> p' = q\<lparr>pr_file := map_option
        (\<lambda>f. if fb_git f \<and> \<not> fb_past_headers f then f\<lparr>fb_header_ended := True\<rparr> else f) (pr_file q)\<rparr>"
    using use by (cases u) (auto split: if_splits)
  have steps: "psteps L p q" using q assms(2,3) by (rule dispatch_non_body_steps)
  show ?thesis
  proof (cases "pr_file q")
    case None
    with p' have "same_content q p'" by (auto simp: same_content_def)
    with steps show ?thesis by (rule psteps_flags_after)
  next
    case (Some f)
    have "pstep L q (q\<lparr>pr_file := Some (if fb_git f \<and> \<not> fb_past_headers f
        then f\<lparr>fb_header_ended := True\<rparr> else f)\<rparr>)"
      using Some by (rule pstep.header) (simp add: same_body_def)
    with p' Some steps show ?thesis by auto
  qed
qed

lemma feed_body_steps:
  assumes "feed_body p h' line n = Inr p'" "pr_hunk p = Some h" "consume_body h line m = Some (Inr h')"
    "line \<in> L"
  shows "psteps L p p'"
proof -
  have none: "Option.bind (pr_file p) (\<lambda>f. ended_side f line) = None"
    using assms(1) by (auto simp: feed_body_def split: option.splits)
  let ?q = "p\<lparr>pr_hunk := Some h'\<rparr>" and ?q1 = "p\<lparr>pr_hunk := Some h', pr_can_mark_eof := True\<rparr>"
  have "pstep L p ?q" using assms(2,4,3) none by (rule pstep.body)
  then have q1: "psteps L p ?q1"
    by (intro psteps_flags_after [of L p ?q ?q1]) (auto simp: same_content_def)
  show ?thesis
  proof (cases "hb_rem_old h' = 0 \<and> hb_rem_new h' = 0")
    case True
    with assms(1) none obtain q2 where q2: "close_hunk ?q1 n = Inr q2" "p' = q2\<lparr>pr_hunk_may_open := True\<rparr>"
      by (auto simp: feed_body_def Let_def res_elims)
    have "psteps L p q2" using q1 close_hunk_steps [OF q2(1)] by (rule rtranclp_trans)
    then show ?thesis unfolding q2(2) by (rule psteps_flags_after) simp
  next
    case False
    with assms(1) none have "p' = ?q1" by (auto simp: feed_body_def Let_def)
    with q1 show ?thesis by simp
  qed
qed

lemma feed_steps:
  assumes "feed p line n lossy = Inr p'" "line \<in> L"
  shows "psteps L p p'"
proof -
  define q where "q = p\<lparr>pr_last_line := n, pr_can_mark_eof := False, pr_hunk_may_open := False\<rparr>"
  have pq: "psteps L p q" unfolding q_def by (rule psteps_flags) simp
  have "psteps L q p'"
  proof (cases "starts_with [BACKSLASH] line")
    case True
    with assms(1) have "p' = (mark_eof q eof_marker n)\<lparr>pr_hunk_may_open := pr_hunk_may_open p\<rparr>"
      by (auto simp: feed_def Let_def q_def [symmetric] split: if_splits)
    moreover have "psteps L q (mark_eof q eof_marker n)" by (blast intro: pstep.eof)
    ultimately show ?thesis using psteps_flags_after by simp
  next
    case False
    show ?thesis
    proof (cases "pr_hunk q")
      case None
      with assms(1) False have "feed_non_body q line n lossy (pr_hunk_may_open p) = Inr p'"
        by (simp add: feed_def Let_def q_def [symmetric])
      then show ?thesis using None assms(2) by (rule feed_non_body_steps)
    next
      case (Some h)
      let ?c = "if 0 < hb_rem_old h \<or> 0 < hb_rem_new h then consume_body h line n else None"
      have eq: "(case ?c of Some consumed \<Rightarrow> res_bind consumed (\<lambda>h. feed_body q h line n)
          | None \<Rightarrow> res_bind (close_hunk q n) (\<lambda>p2. feed_non_body p2 line n lossy (pr_hunk_may_open p)))
          = Inr p'"
        using assms(1) False Some by (simp add: feed_def Let_def q_def [symmetric])
      show ?thesis
      proof (cases ?c)
        case None
        with eq obtain p2 where p2: "close_hunk q n = Inr p2"
            "feed_non_body p2 line n lossy (pr_hunk_may_open p) = Inr p'"
          by (auto simp: res_elims)
        have "psteps L p2 p'" using p2(2) close_hunk_None [OF p2(1)] assms(2) by (rule feed_non_body_steps)
        with close_hunk_steps [OF p2(1)] show ?thesis by (rule rtranclp_trans)
      next
        case c: (Some consumed)
        with eq obtain h' where h': "consumed = Inr h'" "feed_body q h' line n = Inr p'"
          by (auto simp: res_elims)
        have "consume_body h line n = Some (Inr h')" using c h'(1) by (simp split: if_splits)
        with h'(2) Some show ?thesis using assms(2) by (rule feed_body_steps)
      qed
    qed
  qed
  with pq show ?thesis by (rule rtranclp_trans)
qed

lemma finish_steps:
  assumes "finish p = Inr fs"
  shows "\<exists>p'. psteps L p p' \<and> fs = pr_files p' \<and> pr_file p' = None \<and> pr_hunk p' = None"
proof -
  obtain p1 p2 where 1: "close_hunk p (pr_last_line p) = Inr p1" and 2: "flush_file p1 = Inr p2"
    and fs: "fs = pr_files p2"
    using assms by (auto simp: finish_def res_elims)
  have "pstep L p1 p2" using close_hunk_None [OF 1] 2 by (rule pstep.flush)
  with close_hunk_steps [OF 1] have "psteps L p p2" by (rule rtranclp.rtrancl_into_rtrancl)
  with fs flush_file_None [OF 2] close_hunk_None [OF 1] show ?thesis by auto
qed

lemma parse_loop_ConsE:
  assumes "parse_loop u i lossy (line # ls) p = Inr p'"
  obtains q b lossy' where "i < DEFAULT_LINE_BUDGET" "feed p line (i + 1) b = Inr q"
    "parse_loop u (i + 1) lossy' ls (if b then mark_lossy q else q) = Inr p'"
proof -
  define b where "b = (lossy \<noteq> [] \<and> hd lossy = i + 1)"
  have i: "\<not> DEFAULT_LINE_BUDGET \<le> i"
    using assms by (cases "DEFAULT_LINE_BUDGET \<le> i") simp_all
  with assms have "res_bind (feed p line (i + 1) b) (\<lambda>p.
      if u = Some (i + 1) \<and> pr_can_mark_eof p then Inl (UnterminatedLine (i + 1))
      else parse_loop u (i + 1) (if b then tl lossy else lossy) ls (if b then mark_lossy p else p)) = Inr p'"
    by (simp only: parse_loop.simps Let_def if_False b_def)
  then obtain q where "feed p line (i + 1) b = Inr q"
    "parse_loop u (i + 1) (if b then tl lossy else lossy) ls (if b then mark_lossy q else q) = Inr p'"
    unfolding res_bind_Inr_iff by (auto split: if_split_asm simp del: parse_loop.simps)
  with i that show thesis by simp
qed

lemma parse_loop_within_budget:
  "parse_loop u i lossy ls p = Inr p' \<Longrightarrow> i \<le> DEFAULT_LINE_BUDGET \<Longrightarrow> i + length ls \<le> DEFAULT_LINE_BUDGET"
proof (induction ls arbitrary: i lossy p)
  case (Cons line ls)
  from Cons.prems(1) obtain q b lossy' where "i < DEFAULT_LINE_BUDGET"
      "parse_loop u (i + 1) lossy' ls (if b then mark_lossy q else q) = Inr p'"
    by (rule parse_loop_ConsE)
  with Cons.IH [of "i + 1"] show ?case by simp
qed simp

subsection \<open>Invariants\<close>

text \<open>The contract of an invariant \<open>I\<close> of the parser over the lines \<open>L\<close>, and what its holders get:
  every review returned by \<open>parse_lines\<close> satisfies \<open>Q\<close>.\<close>

locale parser_invariant =
  fixes I :: "string set \<Rightarrow> Parser \<Rightarrow> bool" and Q :: "string set \<Rightarrow> ReviewFile list \<Rightarrow> bool"
  assumes I_init: "I L (Parser_default\<lparr>pr_unterminated_last := u\<rparr>)"
    and I_step: "I L p \<Longrightarrow> pstep L p p' \<Longrightarrow> I L p'"
    and I_result: "I L p \<Longrightarrow> pr_file p = None \<Longrightarrow> pr_hunk p = None \<Longrightarrow> Q L (pr_files p)"
begin

lemma I_steps: "psteps L p p' \<Longrightarrow> I L p \<Longrightarrow> I L p'"
  by (induction rule: rtranclp_induct) (auto intro: I_step)

lemma I_loop:
  "parse_loop u i lossy ls p = Inr p' \<Longrightarrow> set ls \<subseteq> L \<Longrightarrow> I L p \<Longrightarrow> I L p'"
proof (induction ls arbitrary: i lossy p)
  case (Cons line ls)
  from Cons.prems(1) obtain q b lossy' where q: "feed p line (i + 1) b = Inr q"
    and loop: "parse_loop u (i + 1) lossy' ls (if b then mark_lossy q else q) = Inr p'"
    by (rule parse_loop_ConsE)
  have "I L q" using feed_steps [OF q] Cons.prems(2,3) by (auto intro: I_steps)
  moreover from this have "I L (mark_lossy q)" by (rule I_step) (rule pstep.lossy)
  ultimately have "I L (if b then mark_lossy q else q)" by simp
  with loop show ?case using Cons.IH Cons.prems(2) by auto
qed simp

theorem I_parse_lines:
  assumes "parse_lines input len lossy opts = Inr fs"
  shows "Q (set (split_terminator LF input)) fs"
proof -
  let ?L = "set (split_terminator LF input)"
  obtain u p where p: "parse_loop u 0 lossy (split_terminator LF input)
        (Parser_default\<lparr>pr_unterminated_last := u\<rparr>) = Inr p" "finish p = Inr fs"
    using assms by (auto simp: parse_lines_def Let_def res_elims split: if_splits)
  have "I ?L p" using p(1) by (rule I_loop) (simp_all add: I_init)
  moreover obtain p' where "psteps ?L p p'" "fs = pr_files p'"
      "pr_file p' = None" "pr_hunk p' = None" using finish_steps [OF p(2)] by blast
  ultimately show ?thesis using I_steps I_result by blast
qed

end

end
