(* ===== verification/Hunk_Inv.thy ===== *)
theory Hunk_Inv
  imports Parser_Steps
begin

text \<open>
  The hunks of a parsed review: each is declared by a header line of the input with exactly the
  counts its body has, its lines are lines of the input and are numbered consecutively from the
  declared starts (saturating at \<open>u32::MAX\<close>), at least one of them is a change, and the hunk
  identifiers number the hunks of the review in order. Proved as an instance of
  \<open>parser_invariant\<close>.
\<close>

subsection \<open>What a good hunk is\<close>

definition hunk_numbered :: "nat \<Rightarrow> nat \<Rightarrow> PatchLine list \<Rightarrow> bool" where
  "hunk_numbered os ns ls \<longleftrightarrow>
     map pl_old_line (old_side ls) = map (\<lambda>i. Some (min (os + i) u32_max)) [0..<length (old_side ls)]
     \<and> map pl_new_line (new_side ls) = map (\<lambda>i. Some (min (ns + i) u32_max)) [0..<length (new_side ls)]
     \<and> (\<forall>l\<in>set ls. (pl_kind l = LkAdded \<longrightarrow> pl_old_line l = None)
                    \<and> (pl_kind l = LkRemoved \<longrightarrow> pl_new_line l = None))"

definition line_from :: "string set \<Rightarrow> PatchLine \<Rightarrow> bool" where
  "line_from L l \<longleftrightarrow>
     line_marker (pl_kind l) # pl_text l \<in> L \<or> (pl_kind l = LkContext \<and> pl_text l = [] \<and> [] \<in> L)"

definition declared_by :: "string set \<Rightarrow> HunkHeader \<Rightarrow> bool" where
  "declared_by L hh \<longleftrightarrow> (\<exists>line\<in>L. parse_hunk_header (trim_end_char CR line) = Some hh)"

definition hunk_ok :: "string set \<Rightarrow> PatchHunk \<Rightarrow> bool" where
  "hunk_ok L h \<longleftrightarrow>
     (\<exists>hh. declared_by L hh
        \<and> ph_old_start h = Some (hh_old_start hh) \<and> ph_new_start h = Some (hh_new_start hh)
        \<and> ph_section h = hh_section hh
        \<and> PatchHunk_counts h = (hh_old_count hh, hh_new_count hh)
        \<and> hunk_numbered (hh_old_start hh) (hh_new_start hh) (ph_lines h))
     \<and> (\<forall>l\<in>set (ph_lines h). line_from L l)
     \<and> (\<exists>l\<in>set (ph_lines h). pl_kind l \<noteq> LkContext)"

definition open_ok :: "string set \<Rightarrow> HunkBuf \<Rightarrow> bool" where
  "open_ok L h \<longleftrightarrow>
     (\<exists>hh. declared_by L hh
        \<and> hb_old_start h = hh_old_start hh \<and> hb_new_start h = hh_new_start hh
        \<and> hb_section h = hh_section hh
        \<and> hb_rem_old h + length (old_side (hb_lines h)) = hh_old_count hh
        \<and> hb_rem_new h + length (new_side (hb_lines h)) = hh_new_count hh)
     \<and> hb_old_line h = min (hb_old_start h + length (old_side (hb_lines h))) u32_max
     \<and> hb_new_line h = min (hb_new_start h + length (new_side (hb_lines h))) u32_max
     \<and> hunk_numbered (hb_old_start h) (hb_new_start h) (hb_lines h)
     \<and> (\<forall>l\<in>set (hb_lines h). line_from L l)"

definition review_ids :: "ReviewFile list \<Rightarrow> nat list" where
  "review_ids fs = concat (map (\<lambda>rf. map ph_id (pt_hunks (rf_patch_twin rf))) fs)"

definition state_ids :: "Parser \<Rightarrow> nat list" where
  "state_ids p =
     review_ids (pr_files p)
     @ (case pr_file p of None \<Rightarrow> [] | Some f \<Rightarrow> map ph_id (fb_hunks f))
     @ (case pr_hunk p of None \<Rightarrow> [] | Some h \<Rightarrow> [hb_id h])"

definition hunks_ok :: "string set \<Rightarrow> ReviewFile list \<Rightarrow> bool" where
  "hunks_ok L fs \<longleftrightarrow> (\<forall>rf\<in>set fs. \<forall>h\<in>set (pt_hunks (rf_patch_twin rf)). hunk_ok L h)"

definition hunks_inv :: "string set \<Rightarrow> Parser \<Rightarrow> bool" where
  "hunks_inv L p \<longleftrightarrow>
     hunks_ok L (pr_files p)
     \<and> (\<forall>f. pr_file p = Some f \<longrightarrow> (\<forall>h\<in>set (fb_hunks f). hunk_ok L h))
     \<and> (\<forall>h. pr_hunk p = Some h \<longrightarrow> pr_file p \<noteq> None \<and> open_ok L h)
     \<and> state_ids p = [0..<pr_next_hunk_id p]"

definition hunks_result :: "string set \<Rightarrow> ReviewFile list \<Rightarrow> bool" where
  "hunks_result L fs \<longleftrightarrow> hunks_ok L fs \<and> review_ids fs = [0..<length (review_ids fs)]"

subsection \<open>Flags do not matter\<close>

text \<open>Marking a line (no newline, lossy) changes no other field of it.\<close>

definition marks_only :: "(PatchLine \<Rightarrow> PatchLine) \<Rightarrow> bool" where
  "marks_only g \<longleftrightarrow> (\<forall>l. pl_kind (g l) = pl_kind l \<and> pl_old_line (g l) = pl_old_line l
     \<and> pl_new_line (g l) = pl_new_line l \<and> pl_text (g l) = pl_text l)"

lemma marks_only_flags [simp]:
  "marks_only (\<lambda>l. l\<lparr>pl_no_newline := b\<rparr>)" "marks_only (\<lambda>l. l\<lparr>pl_lossy := b\<rparr>)"
  by (simp_all add: marks_only_def)

lemma map_last_simps [simp]: "map_last g [] = []" "map_last g (xs @ [x]) = xs @ [g x]"
  by (simp_all add: map_last_def)

lemma length_map_last [simp]: "length (map_last g xs) = length xs"
  by (cases xs rule: rev_cases) auto

lemma map_last_Nil [simp]: "map_last g xs = [] \<longleftrightarrow> xs = []"
  by (cases xs rule: rev_cases) auto

lemma map_last_append: "ys \<noteq> [] \<Longrightarrow> map_last g (xs @ ys) = xs @ map_last g ys"
  by (cases ys rule: rev_cases) (auto simp flip: append_assoc)

lemma marked_numbered:
  assumes "marks_only g" shows "hunk_numbered os ns (map_last g ls) = hunk_numbered os ns ls"
  using assms by (cases ls rule: rev_cases) (auto simp: hunk_numbered_def marks_only_def)

lemma marked_sides:
  assumes "marks_only g"
  shows "length (old_side (map_last g ls)) = length (old_side ls)"
    "length (new_side (map_last g ls)) = length (new_side ls)"
  using assms by (cases ls rule: rev_cases; simp add: marks_only_def)+

lemma marked_from:
  assumes "marks_only g"
  shows "(\<forall>l\<in>set (map_last g ls). line_from L l) = (\<forall>l\<in>set ls. line_from L l)"
  using assms by (cases ls rule: rev_cases) (auto simp: line_from_def marks_only_def)

lemma marked_change:
  assumes "marks_only g"
  shows "(\<exists>l\<in>set (map_last g ls). pl_kind l \<noteq> LkContext) = (\<exists>l\<in>set ls. pl_kind l \<noteq> LkContext)"
  using assms by (cases ls rule: rev_cases) (auto simp: marks_only_def)

lemmas marked = marked_numbered marked_sides marked_from marked_change

lemma marked_hunk_ok:
  "marks_only g \<Longrightarrow> hunk_ok L (h\<lparr>ph_lines := map_last g (ph_lines h)\<rparr>) = hunk_ok L h"
  by (simp add: hunk_ok_def counts_sides marked)

lemma marked_open_ok:
  "marks_only g \<Longrightarrow> open_ok L (h\<lparr>hb_lines := map_last g (hb_lines h)\<rparr>) = open_ok L h"
  by (simp add: open_ok_def marked)

lemma map_last_closed_hunks:
  assumes "marks_only g"
  shows "(\<forall>h\<in>set (fb_hunks (map_last_closed g f)). hunk_ok L h) = (\<forall>h\<in>set (fb_hunks f). hunk_ok L h)"
    "map ph_id (fb_hunks (map_last_closed g f)) = map ph_id (fb_hunks f)"
  using assms
  by (cases "fb_hunks f" rule: rev_cases; auto simp: map_last_closed_def marked_hunk_ok)+

text \<open>What \<open>update_last_body_line\<close> can do to the state.\<close>

lemma update_last_cases:
  obtains (none) "pr_file p = None" "update_last_body_line g p = p"
  | (inside) f h where "pr_file p = Some f" "pr_hunk p = Some h" "hb_lines h \<noteq> []"
      "update_last_body_line g p = p\<lparr>pr_hunk := Some (h\<lparr>hb_lines := map_last g (hb_lines h)\<rparr>)\<rparr>"
  | (closed) f where "pr_file p = Some f" "\<forall>h. pr_hunk p = Some h \<longrightarrow> hb_lines h = []"
      "update_last_body_line g p = p\<lparr>pr_file := Some (map_last_closed g f)\<rparr>"
  by (cases "pr_file p"; cases "pr_hunk p") (auto simp: update_last_body_line_def split: if_splits)

lemma update_last_hunks_inv:
  assumes "hunks_inv L p" "marks_only g"
  shows "hunks_inv L (update_last_body_line g p)"
proof (cases rule: update_last_cases [of p g])
  case none
  with assms show ?thesis by simp
next
  case (inside f h)
  with assms show ?thesis by (auto simp: hunks_inv_def marked_open_ok state_ids_def)
next
  case (closed f)
  with assms show ?thesis
    by (auto simp: hunks_inv_def map_last_closed_hunks state_ids_def simp del: set_map split: option.splits)
qed

lemma hunks_inv_file:
  assumes "hunks_inv L p" "pr_file p = Some f" "fb_hunks f' = fb_hunks f"
  shows "hunks_inv L (p\<lparr>pr_file := Some f'\<rparr>)"
  using assms by (auto simp: hunks_inv_def state_ids_def)

lemma hunks_inv_map_file:
  assumes "hunks_inv L p" "\<And>f. fb_hunks (g f) = fb_hunks f"
  shows "hunks_inv L (p\<lparr>pr_file := map_option g (pr_file p)\<rparr>)"
proof (cases "pr_file p")
  case None
  with assms(1) show ?thesis by (auto simp: hunks_inv_def state_ids_def)
next
  case (Some f)
  with assms hunks_inv_file [OF assms(1) Some, of "g f"] show ?thesis by simp
qed

subsection \<open>Every step keeps the invariant\<close>

lemma sat_add32_min: "sat_add32 (min a u32_max) 1 = min (Suc a) u32_max"
  by (auto simp: sat_add32_def)

lemma consume_body_open_ok:
  assumes h: "open_ok L h" and line: "line \<in> L" and c: "consume_body h line n = Some (Inr h')"
  shows "open_ok L h'"
proof -
  obtain k old new where
    h': "hb_lines h' = hb_lines h @ [body_line k old new (drop 1 line)]" and
    keep: "hb_old_start h' = hb_old_start h" "hb_new_start h' = hb_new_start h" "hb_section h' = hb_section h" and
    side: "(k = LkContext \<and> (line = [] \<or> hd line = SPACE) \<and> old = Some (hb_old_line h) \<and> new = Some (hb_new_line h)
          \<and> 0 < hb_rem_old h \<and> 0 < hb_rem_new h
          \<and> hb_rem_old h' = hb_rem_old h - 1 \<and> hb_rem_new h' = hb_rem_new h - 1
          \<and> hb_old_line h' = sat_add32 (hb_old_line h) 1 \<and> hb_new_line h' = sat_add32 (hb_new_line h) 1)
        \<or> (k = LkAdded \<and> line \<noteq> [] \<and> hd line = CHR ''+'' \<and> old = None \<and> new = Some (hb_new_line h)
          \<and> 0 < hb_rem_new h \<and> hb_rem_old h' = hb_rem_old h \<and> hb_rem_new h' = hb_rem_new h - 1
          \<and> hb_old_line h' = hb_old_line h \<and> hb_new_line h' = sat_add32 (hb_new_line h) 1)
        \<or> (k = LkRemoved \<and> line \<noteq> [] \<and> hd line = CHR ''-'' \<and> old = Some (hb_old_line h) \<and> new = None
          \<and> 0 < hb_rem_old h \<and> hb_rem_old h' = hb_rem_old h - 1 \<and> hb_rem_new h' = hb_rem_new h
          \<and> hb_old_line h' = sat_add32 (hb_old_line h) 1 \<and> hb_new_line h' = hb_new_line h)"
    using c by (auto simp: consume_body_def Let_def split: if_splits)
  have num: "hunk_numbered (hb_old_start h') (hb_new_start h') (hb_lines h')"
    using h side by (auto simp: h' keep open_ok_def hunk_numbered_def body_line_def)
  have "line_from L (body_line k old new (drop 1 line))"
    using side line by (cases line) (auto simp: line_from_def body_line_def)
  with h have src: "\<forall>l\<in>set (hb_lines h'). line_from L l" by (auto simp: h' open_ok_def)
  obtain hh where hh: "declared_by L hh"
    "hb_old_start h = hh_old_start hh" "hb_new_start h = hh_new_start hh" "hb_section h = hh_section hh"
    "hb_rem_old h + length (old_side (hb_lines h)) = hh_old_count hh"
    "hb_rem_new h + length (new_side (hb_lines h)) = hh_new_count hh"
    using h by (auto simp: open_ok_def)
  have cnt: "hb_rem_old h' + length (old_side (hb_lines h')) = hh_old_count hh"
    "hb_rem_new h' + length (new_side (hb_lines h')) = hh_new_count hh"
    using hh(5,6) side by (auto simp: h' body_line_def)
  have lines: "hb_old_line h = min (hb_old_start h + length (old_side (hb_lines h))) u32_max"
    "hb_new_line h = min (hb_new_start h + length (new_side (hb_lines h))) u32_max"
    using h by (auto simp only: open_ok_def)
  have nums: "hb_old_line h' = min (hb_old_start h' + length (old_side (hb_lines h'))) u32_max"
    "hb_new_line h' = min (hb_new_start h' + length (new_side (hb_lines h'))) u32_max"
    using side by (auto simp only: h' keep lines sat_add32_min side_simps body_line_def
        PatchLine.select_convs PatchLineKind.distinct if_True if_False list.size add_0_right add_Suc_right
        length_append simp_thms)
  have "\<exists>hh. declared_by L hh \<and> hb_old_start h' = hh_old_start hh \<and> hb_new_start h' = hh_new_start hh
      \<and> hb_section h' = hh_section hh
      \<and> hb_rem_old h' + length (old_side (hb_lines h')) = hh_old_count hh
      \<and> hb_rem_new h' + length (new_side (hb_lines h')) = hh_new_count hh"
    using hh(1-4) keep cnt by metis
  then show ?thesis unfolding open_ok_def using num src nums by blast
qed

lemma consume_body_id: "consume_body h line n = Some (Inr h') \<Longrightarrow> hb_id h' = hb_id h"
  by (auto simp: consume_body_def Let_def split: if_splits)

lemma closed_hunk_ok:
  assumes "open_ok L h" "hb_rem_old h = 0" "hb_rem_new h = 0" "\<exists>l\<in>set (hb_lines h). pl_kind l \<noteq> LkContext"
  shows "hunk_ok L (closed_hunk h)"
  using assms by (auto simp: hunk_ok_def open_ok_def closed_hunk_def counts_sides)

lemma opened_hunk_ok:
  assumes "line \<in> L" "parse_hunk_header (trim_end_char CR line) = Some hh"
  shows "open_ok L (opened_hunk i hh)"
proof -
  have "hh_old_start hh \<le> u32_max" "hh_new_start hh \<le> u32_max"
    using parse_hunk_header_sound [OF assms(2)] by (auto simp: hunk_header_grammar_def is_range_def)
  then show ?thesis
    using assms by (auto simp: open_ok_def opened_hunk_def declared_by_def hunk_numbered_def)
qed

lemma complete_side_keeps:
  "complete_side v s a r f = Some f' \<Longrightarrow>
     fb_hunks f' = fb_hunks f \<and> fb_lossy_lines f' = fb_lossy_lines f \<and> fb_git f' = fb_git f
     \<and> fb_old_raw f' = fb_old_raw f \<and> fb_new_raw f' = fb_new_raw f \<and> fb_p0 f' = fb_p0 f
     \<and> fb_binary_body f' = fb_binary_body f \<and> fb_traditional_path f' = fb_traditional_path f
     \<and> set (fb_metadata f) \<subseteq> set (fb_metadata f')"
  by (auto simp: complete_side_def Let_def split: if_splits option.splits)

lemma complete_move_keeps:
  "complete_move_headers f = Some f' \<Longrightarrow>
     fb_hunks f' = fb_hunks f \<and> fb_lossy_lines f' = fb_lossy_lines f \<and> fb_git f' = fb_git f
     \<and> fb_old_raw f' = fb_old_raw f \<and> fb_new_raw f' = fb_new_raw f \<and> fb_p0 f' = fb_p0 f
     \<and> fb_binary_body f' = fb_binary_body f \<and> fb_traditional_path f' = fb_traditional_path f
     \<and> set (fb_metadata f) \<subseteq> set (fb_metadata f')"
  by (auto simp: complete_move_headers_def bind_eq_Some_conv split: option.splits dest!: complete_side_keeps)

lemma implied_rename_keeps:
  "record_implied_rename f = Some f' \<Longrightarrow>
     fb_hunks f' = fb_hunks f \<and> fb_lossy_lines f' = fb_lossy_lines f \<and> fb_git f' = fb_git f
     \<and> fb_old_raw f' = fb_old_raw f \<and> fb_new_raw f' = fb_new_raw f \<and> fb_p0 f' = fb_p0 f
     \<and> fb_binary_body f' = fb_binary_body f \<and> fb_traditional_path f' = fb_traditional_path f
     \<and> set (fb_metadata f) \<subseteq> set (fb_metadata f')"
  by (auto simp: record_implied_rename_def split: if_splits option.splits)

lemma flush_file_bufE:
  assumes "flush_file_buf f n = Inr rf"
  obtains f1 f2 where "complete_move_headers f = Some f1"
    "(if is_moved f then Some f1 else record_implied_rename f1) = Some f2"
    "\<not> fb_awaiting_new_header f" "\<not> inconsistent_headers f"
    "declared_old_ok f2 None (fb_metadata f2)" "refuse_empty_section f2 n = Inr ()"
    "rf = into_review_file f2"
  using assms by (auto simp: flush_file_buf_def res_elims split: if_splits option.splits)

lemma flush_file_buf_keeps:
  assumes "flush_file_buf f n = Inr rf"
  shows "pt_hunks (rf_patch_twin rf) = fb_hunks f" "pt_lossy_lines (rf_patch_twin rf) = fb_lossy_lines f"
    "pt_binary_body (rf_patch_twin rf) = fb_binary_body f"
    "set (fb_metadata f) \<subseteq> set (pt_metadata (rf_patch_twin rf))"
proof -
  obtain f1 f2 where f: "complete_move_headers f = Some f1"
      "(if is_moved f then Some f1 else record_implied_rename f1) = Some f2" "rf = into_review_file f2"
    using flush_file_bufE [OF assms] by metis
  have "fb_hunks f2 = fb_hunks f1 \<and> fb_lossy_lines f2 = fb_lossy_lines f1
      \<and> fb_binary_body f2 = fb_binary_body f1 \<and> set (fb_metadata f1) \<subseteq> set (fb_metadata f2)"
    using f(2) by (auto split: if_splits dest: implied_rename_keeps)
  with complete_move_keeps [OF f(1)] f(3)
  show "pt_hunks (rf_patch_twin rf) = fb_hunks f" "pt_lossy_lines (rf_patch_twin rf) = fb_lossy_lines f"
    "pt_binary_body (rf_patch_twin rf) = fb_binary_body f"
    "set (fb_metadata f) \<subseteq> set (pt_metadata (rf_patch_twin rf))"
    by (auto simp: into_review_file_def Let_def)
qed

lemma try_metadata_file_keeps:
  "try_metadata_file f line n = Inr (Some f') \<Longrightarrow>
     fb_hunks f' = fb_hunks f \<and> fb_lossy_lines f' = fb_lossy_lines f
     \<and> fb_eof_old f' = fb_eof_old f \<and> fb_eof_new f' = fb_eof_new f \<and> fb_git f' = fb_git f
     \<and> fb_metadata f' = fb_metadata f @ [line]"
  by (auto simp: try_metadata_file_def push_meta_def res_elims split: if_splits option.splits)

lemma hunks_inv_init: "hunks_inv L (Parser_default\<lparr>pr_unterminated_last := u\<rparr>)"
  by (simp add: hunks_inv_def Parser_default_def hunks_ok_def state_ids_def review_ids_def)

lemma hunks_inv_close:
  assumes "hunks_inv L p" "close_hunk p n = Inr p'"
  shows "hunks_inv L p'"
proof (cases "pr_hunk p")
  case None
  with assms show ?thesis by (simp add: close_hunk_def)
next
  case (Some h)
  then obtain f where f: "pr_file p = Some f" and h: "open_ok L h"
    using assms(1) by (auto simp: hunks_inv_def)
  have p': "p' = p\<lparr>pr_hunk := None, pr_file := Some (f\<lparr>fb_hunks := fb_hunks f @ [closed_hunk h]\<rparr>)\<rparr>"
    and ok: "hunk_ok L (closed_hunk h)"
    using assms(2) Some f closed_hunk_ok [OF h] by (auto simp: close_hunk_def split: if_splits)
  show ?thesis using assms(1) Some f ok
    by (auto simp: p' hunks_inv_def state_ids_def closed_hunk_def)
qed

lemma hunks_inv_flush:
  assumes "hunks_inv L p" "pr_hunk p = None" "flush_file p = Inr p'"
  shows "hunks_inv L p'"
proof (cases "pr_file p")
  case None
  with assms show ?thesis by (simp add: flush_file_def)
next
  case (Some f)
  then obtain rf where rf: "flush_file_buf f (pr_last_line p) = Inr rf"
    and p': "p' = p\<lparr>pr_file := None, pr_files := pr_files p @ [rf]\<rparr>"
    using assms(3) by (auto simp: flush_file_def res_elims)
  show ?thesis using assms(1,2) Some flush_file_buf_keeps [OF rf]
    by (auto simp: p' hunks_inv_def hunks_ok_def state_ids_def review_ids_def)
qed

lemma hunks_inv_step:
  assumes "hunks_inv L p" "pstep L p p'"
  shows "hunks_inv L p'"
  using assms(2,1)
proof (induction rule: pstep.induct)
  case (flags p p')
  then show ?case by (simp add: hunks_inv_def same_content_def state_ids_def)
next
  case (eof p n)
  have "hunks_inv L (update_last_body_line (\<lambda>l. l\<lparr>pl_no_newline := True\<rparr>) p)"
    using eof by (rule update_last_hunks_inv) simp
  then show ?case unfolding mark_eof_def Let_def by (rule hunks_inv_map_file) simp
next
  case (body p h line n h')
  then have "open_ok L h'" by (auto simp: hunks_inv_def intro: consume_body_open_ok)
  with body consume_body_id [OF body(3)] show ?case by (auto simp: hunks_inv_def state_ids_def)
next
  case (close p n p')
  then show ?case by (blast intro: hunks_inv_close)
next
  case (flush p p')
  then show ?case by (blast intro: hunks_inv_flush)
next
  case (fresh p f)
  then show ?case
    by (auto simp: hunks_inv_def state_ids_def fresh_file_def same_body_def FileBuf_default_def)
next
  case (header p f f')
  then show ?case by (intro hunks_inv_file) (auto simp: same_body_def)
next
  case (opened p f line hh)
  then show ?case
    using opened_hunk_ok [OF opened(3,4)]
    by (auto simp: hunks_inv_def state_ids_def opened_hunk_def)
next
  case (meta p f line n f')
  then show ?case
    using hunks_inv_file [OF meta(3) meta(1)] try_metadata_file_keeps [OF meta(2)] by auto
next
  case (lossy p)
  have "hunks_inv L (if pr_can_mark_eof p then update_last_body_line (\<lambda>l. l\<lparr>pl_lossy := True\<rparr>) p else p)"
    using lossy by (auto intro: update_last_hunks_inv)
  then show ?case unfolding mark_lossy_def Let_def by (rule hunks_inv_map_file) simp
qed

interpretation hunk_machine: parser_invariant hunks_inv hunks_result
proof unfold_locales
  show "hunks_inv L (Parser_default\<lparr>pr_unterminated_last := u\<rparr>)" for L u by (rule hunks_inv_init)
  show "hunks_inv L p \<Longrightarrow> pstep L p p' \<Longrightarrow> hunks_inv L p'" for L p p' by (rule hunks_inv_step)
  show "hunks_inv L p \<Longrightarrow> pr_file p = None \<Longrightarrow> pr_hunk p = None \<Longrightarrow> hunks_result L (pr_files p)" for L p
    by (auto simp: hunks_inv_def hunks_result_def state_ids_def)
qed

lemmas parse_lines_hunks = hunk_machine.I_parse_lines

end
