(* ===== verification/Section_Inv.thy ===== *)
theory Section_Inv
  imports Hunk_Inv
begin

text \<open>
  The file sections of a parsed review: the section names a path, carries a change, a moved file
  goes to a path Git would write and says so in its metadata, an added file has added lines only
  and a deleted one removed lines only, and a section with a binary body or notice has no text hunk.
  A second instance of \<open>parser_invariant\<close>.
\<close>

definition names_ok :: "FileBuf \<Rightarrow> bool" where
  "names_ok f \<longleftrightarrow>
     (\<forall>q. fb_rename_from f = Some q \<longrightarrow> \<not> git_refuses_path q)
     \<and> (\<forall>q. fb_rename_to f = Some q \<longrightarrow> \<not> git_refuses_path q)
     \<and> (metadata_says f ''rename from '' \<longleftrightarrow> fb_rename_from f \<noteq> None)
     \<and> (metadata_says f ''rename to '' \<longleftrightarrow> fb_rename_to f \<noteq> None)"

definition twin_says :: "ReviewFile \<Rightarrow> string \<Rightarrow> bool" where
  "twin_says rf p \<longleftrightarrow> (\<exists>m\<in>set (pt_metadata (rf_patch_twin rf)). starts_with p m)"

definition section_ok :: "ReviewFile \<Rightarrow> bool" where
  "section_ok rf \<longleftrightarrow>
     rf_path rf \<noteq> []
     \<and> (pt_hunks (rf_patch_twin rf) = [] \<longrightarrow> pt_metadata (rf_patch_twin rf) \<noteq> [])
     \<and> (''GIT binary patch'' \<in> set (pt_metadata (rf_patch_twin rf)) \<or> twin_says rf ''Binary files ''
          \<longrightarrow> pt_hunks (rf_patch_twin rf) = [])
     \<and> (rf_status rf = FsRenamed \<longrightarrow>
          \<not> git_refuses_path (rf_path rf) \<and> twin_says rf ''rename from '' \<and> twin_says rf ''rename to '')
     \<and> (rf_status rf = FsAdded \<longrightarrow> (\<forall>l\<in>set (all_lines (pt_hunks (rf_patch_twin rf))). pl_kind l = LkAdded))
     \<and> (rf_status rf = FsDeleted \<longrightarrow> (\<forall>l\<in>set (all_lines (pt_hunks (rf_patch_twin rf))). pl_kind l = LkRemoved))"

definition sections_inv :: "string set \<Rightarrow> Parser \<Rightarrow> bool" where
  "sections_inv L p \<longleftrightarrow> (\<forall>rf\<in>set (pr_files p). section_ok rf) \<and> (\<forall>f. pr_file p = Some f \<longrightarrow> names_ok f)"

definition sections_result :: "string set \<Rightarrow> ReviewFile list \<Rightarrow> bool" where
  "sections_result L fs \<longleftrightarrow> (\<forall>rf\<in>set fs. section_ok rf)"

subsection \<open>Names while a section is read\<close>

lemma moved_path_safe: "moved_path s = Some q \<Longrightarrow> \<not> git_refuses_path q"
  by (auto simp: moved_path_def git_refuses_squash split: option.splits if_splits)

lemma metadata_says_add:
  "metadata_says (f\<lparr>fb_metadata := fb_metadata f @ ms\<rparr>) p \<longleftrightarrow> metadata_says f p \<or> (\<exists>m\<in>set ms. starts_with p m)"
  by (auto simp: metadata_says_def)

lemma strip_None_not_starts: "strip_prefix p s = None \<longleftrightarrow> \<not> starts_with p s"
  by (simp add: starts_with_def)

lemma names_ok_same_body: "same_body f f' \<Longrightarrow> names_ok f \<Longrightarrow> names_ok f'"
  by (simp add: names_ok_def same_body_def metadata_says_def)

lemma try_metadata_cases:
  assumes "try_metadata_file f line n = Inr (Some f')"
  obtains (moved_from) path q where "line = ''rename from '' @ path" "moved_path path = Some q"
      "f' = push_meta line (f\<lparr>fb_rename_from := Some q\<rparr>)"
  | (moved_to) path q where "line = ''rename to '' @ path" "moved_path path = Some q"
      "f' = push_meta line (f\<lparr>fb_rename_to := Some q\<rparr>)"
  | (other) b where "\<not> starts_with ''rename from '' line" "\<not> starts_with ''rename to '' line"
      "f' = push_meta line (f\<lparr>fb_in_binary_body := b\<rparr>)"
proof (cases "strip_prefix ''rename from '' line")
  case (Some path)
  with assms that(1) show ?thesis
    by (auto simp: try_metadata_file_def strip_prefix_Some res_bind_Inr_iff ok_or_Inr_iff split: if_splits)
next
  case None
  show ?thesis
  proof (cases "strip_prefix ''rename to '' line")
    case (Some path)
    with None assms that(2) show ?thesis
      by (auto simp: try_metadata_file_def strip_prefix_Some res_bind_Inr_iff ok_or_Inr_iff split: if_splits)
  next
    case N: None
    with None assms have "\<exists>b. f' = push_meta line (f\<lparr>fb_in_binary_body := b\<rparr>)"
      unfolding try_metadata_file_def by (auto simp only: res_bind_Inr_iff option.case split: if_splits)
    with None N that(3) show ?thesis by (auto simp: strip_None_not_starts)
  qed
qed

lemma names_ok_push:
  assumes "names_ok f"
  shows "line = ''rename from '' @ path \<Longrightarrow> \<not> git_refuses_path q \<Longrightarrow>
      names_ok (push_meta line (f\<lparr>fb_rename_from := Some q\<rparr>))"
    "line = ''rename to '' @ path \<Longrightarrow> \<not> git_refuses_path q \<Longrightarrow>
      names_ok (push_meta line (f\<lparr>fb_rename_to := Some q\<rparr>))"
    "\<not> starts_with ''rename from '' line \<Longrightarrow> \<not> starts_with ''rename to '' line \<Longrightarrow>
      names_ok (push_meta line (f\<lparr>fb_in_binary_body := b\<rparr>))"
  using assms by (simp_all add: names_ok_def push_meta_def metadata_says_def)

lemma names_ok_meta:
  assumes "names_ok f" "try_metadata_file f line n = Inr (Some f')"
  shows "names_ok f'"
  using assms(2) by (rule try_metadata_cases) (auto intro: names_ok_push [OF assms(1)] simp: moved_path_safe)

lemma names_ok_no_move:
  assumes "names_ok f" "fb_rename_from f' = fb_rename_from f" "fb_rename_to f' = fb_rename_to f"
    "fb_metadata f' = fb_metadata f @ [line]" "\<not> starts_with ''rename '' line"
  shows "names_ok f'"
proof -
  have "\<not> starts_with ''rename from '' line" "\<not> starts_with ''rename to '' line"
    using assms(5) by (auto simp: starts_with_iff)
  with assms show ?thesis by (auto simp: names_ok_def metadata_says_def)
qed

lemma names_ok_fresh: "fresh_file f \<Longrightarrow> names_ok f"
  by (simp add: fresh_file_def same_body_def names_ok_def FileBuf_default_def metadata_says_def)

subsection \<open>Ending a section\<close>

lemma complete_side_names:
  assumes "complete_side verb side absent raw f = Some f'" "names_ok f"
    "verb = ''rename'' \<or> verb = ''copy''" "side = ''from'' \<or> side = ''to''"
    "\<not> absent \<Longrightarrow> metadata_says f (verb @ '' '' @ side @ '' '')"
  shows "names_ok f' \<and> metadata_says f' (verb @ '' '' @ side @ '' '')
    \<and> (verb = ''copy'' \<longrightarrow> fb_rename_from f' = fb_rename_from f \<and> fb_rename_to f' = fb_rename_to f)
    \<and> (\<forall>p. metadata_says f p \<longrightarrow> metadata_says f' p)"
proof (cases absent)
  case False
  with assms show ?thesis by (auto simp: complete_side_def)
next
  case True
  then obtain name where name: "\<not> git_refuses_path name"
    and f': "f' = (let g = f\<lparr>fb_metadata := fb_metadata f @ [verb @ '' '' @ side @ '' '' @ quote name]\<rparr> in
       if verb = ''rename'' then
         (if side = ''from'' then g\<lparr>fb_rename_from := Some name\<rparr> else g\<lparr>fb_rename_to := Some name\<rparr>)
       else g)"
    using assms(1) by (auto simp: complete_side_def Let_def split: option.splits if_splits)
  show ?thesis
    using assms(2,3,4) name unfolding f' names_ok_def metadata_says_def Let_def
    by (elim disjE) simp_all
qed

lemma complete_move_names:
  assumes "complete_move_headers f = Some f1" "names_ok f"
  shows "names_ok f1 \<and> (fb_rename_from f1 \<noteq> None \<longleftrightarrow> fb_rename_to f1 \<noteq> None)
    \<and> (is_moved f \<longrightarrow> fb_rename_to f1 \<noteq> None \<or> metadata_says f1 ''copy from '')
    \<and> (\<not> is_moved f \<longrightarrow> f1 = f)"
proof (cases "metadata_says f ''rename from '' \<or> metadata_says f ''rename to ''")
  case True
  then obtain g where g:
      "complete_side ''rename'' ''from'' (\<not> metadata_says f ''rename from '') (fb_old_raw f) f = Some g"
      "complete_side ''rename'' ''to'' (\<not> metadata_says f ''rename to '') (fb_new_raw f) g = Some f1"
    using assms(1) by (auto simp: complete_move_headers_def bind_eq_Some_conv)
  have 1: "names_ok g \<and> metadata_says g ''rename from '' \<and> (\<forall>p. metadata_says f p \<longrightarrow> metadata_says g p)"
    using complete_side_names [OF g(1) assms(2)] by simp
  have 2: "names_ok f1 \<and> metadata_says f1 ''rename to '' \<and> (\<forall>p. metadata_says g p \<longrightarrow> metadata_says f1 p)"
    using complete_side_names [OF g(2)] 1 by simp
  with 1 True show ?thesis by (auto simp: names_ok_def is_moved_def)
next
  case no: False
  show ?thesis
  proof (cases "metadata_says f ''copy from '' \<or> metadata_says f ''copy to ''")
    case True
    then obtain g where g:
        "complete_side ''copy'' ''from'' (\<not> metadata_says f ''copy from '') (fb_old_raw f) f = Some g"
        "complete_side ''copy'' ''to'' (\<not> metadata_says f ''copy to '') (fb_new_raw f) g = Some f1"
      using assms(1) no by (auto simp: complete_move_headers_def bind_eq_Some_conv)
    have 1: "names_ok g \<and> metadata_says g ''copy from '' \<and> fb_rename_from g = fb_rename_from f
        \<and> fb_rename_to g = fb_rename_to f \<and> (\<forall>p. metadata_says f p \<longrightarrow> metadata_says g p)"
      using complete_side_names [OF g(1) assms(2)] by simp
    have 2: "names_ok f1 \<and> fb_rename_from f1 = fb_rename_from g \<and> fb_rename_to f1 = fb_rename_to g
        \<and> (\<forall>p. metadata_says g p \<longrightarrow> metadata_says f1 p)"
      using complete_side_names [OF g(2)] 1 by simp
    with 1 no assms(2) True show ?thesis by (auto simp: names_ok_def is_moved_def)
  next
    case False
    with no assms show ?thesis by (auto simp: complete_move_headers_def is_moved_def names_ok_def)
  qed
qed

lemma implied_rename_names:
  assumes "record_implied_rename f = Some f'" "names_ok f" "fb_rename_from f = None" "fb_rename_to f = None"
  shows "names_ok f' \<and> (fb_rename_from f' \<noteq> None \<longleftrightarrow> fb_rename_to f' \<noteq> None)
    \<and> (f' = f \<or> fb_rename_to f' \<noteq> None)"
proof (cases "f' = f")
  case False
  then obtain old new where "\<not> git_refuses_path old" "\<not> git_refuses_path new"
    "f' = f\<lparr>fb_metadata := fb_metadata f @ [''rename from '' @ quote old] @ [''rename to '' @ quote new],
        fb_rename_from := Some old, fb_rename_to := Some new\<rparr>"
    using assms(1) by (auto simp: record_implied_rename_def split: if_splits option.splits)
  with assms(2) show ?thesis by (simp add: names_ok_def metadata_says_def)
qed (use assms in simp)

lemma resolve_status_moved:
  "resolve_status f = FsRenamed \<Longrightarrow> fb_rename_from f \<noteq> None \<or> fb_rename_to f \<noteq> None"
  "fb_rename_to f \<noteq> None \<or> metadata_says f ''copy from '' \<Longrightarrow> resolve_status f \<noteq> FsAdded \<and> resolve_status f \<noteq> FsDeleted"
  "resolve_status f = FsAdded \<Longrightarrow> metadata_says f ''new file mode '' \<or> fb_old_raw f = Some dev_null"
  "resolve_status f = FsDeleted \<Longrightarrow> metadata_says f ''deleted file mode '' \<or> fb_new_raw f = Some dev_null"
  "resolve_status f = FsBinaryChanged \<Longrightarrow> metadata_says f ''Binary files '' \<or> metadata_says f ''GIT binary patch''"
  by (auto simp: resolve_status_def Let_def split: if_splits)

lemma complete_side_meta:
  "complete_side verb side absent raw f = Some f' \<Longrightarrow>
     fb_metadata f' = fb_metadata f \<or> (\<exists>r. fb_metadata f' = fb_metadata f @ [verb @ '' '' @ r])"
  by (auto simp: complete_side_def Let_def split: if_splits option.splits)

lemma complete_move_meta:
  assumes "complete_move_headers f = Some f'" "m \<in> set (fb_metadata f')"
  shows "m \<in> set (fb_metadata f) \<or> starts_with ''rename '' m \<or> starts_with ''copy '' m"
  using assms
  by (auto simp: complete_move_headers_def bind_eq_Some_conv starts_with_iff split: if_splits dest!: complete_side_meta)

lemma implied_rename_meta:
  assumes "record_implied_rename f = Some f'" "m \<in> set (fb_metadata f')"
  shows "m \<in> set (fb_metadata f) \<or> starts_with ''rename '' m"
  using assms by (auto simp: record_implied_rename_def starts_with_iff split: if_splits option.splits)

lemma flush_section_names:
  assumes "flush_file_buf f n = Inr rf" "names_ok f"
  obtains f2 where "names_ok f2" "fb_rename_from f2 \<noteq> None \<longleftrightarrow> fb_rename_to f2 \<noteq> None"
    "f2 = f \<or> fb_rename_to f2 \<noteq> None \<or> metadata_says f2 ''copy from ''"
    "\<not> inconsistent_headers f" "refuse_empty_section f2 n = Inr ()" "rf = into_review_file f2"
    "fb_hunks f2 = fb_hunks f"
    "\<forall>m\<in>set (fb_metadata f2). m \<in> set (fb_metadata f) \<or> starts_with ''rename '' m \<or> starts_with ''copy '' m"
proof -
  obtain f1 f2 where f: "complete_move_headers f = Some f1"
      "(if is_moved f then Some f1 else record_implied_rename f1) = Some f2"
      "\<not> inconsistent_headers f" "refuse_empty_section f2 n = Inr ()" "rf = into_review_file f2"
    using flush_file_bufE [OF assms(1)] by metis
  note 1 = complete_move_names [OF f(1) assms(2)] complete_move_keeps [OF f(1)]
  show thesis
  proof (cases "is_moved f")
    case True
    with f(2) have "f2 = f1" by simp
    with True f 1 complete_move_meta [OF f(1)] show thesis by (intro that [of f2]) auto
  next
    case False
    with 1 f(2) have r: "f1 = f" "record_implied_rename f = Some f2" by auto
    from False assms(2) have "fb_rename_from f = None" "fb_rename_to f = None"
      by (auto simp: is_moved_def names_ok_def)
    with implied_rename_names [OF r(2) assms(2)] implied_rename_keeps [OF r(2)] implied_rename_meta [OF r(2)] f
    show thesis by (intro that [of f2]) auto
  qed
qed

lemma consistentD:
  assumes "\<not> inconsistent_headers f" "l \<in> set (all_lines (fb_hunks f))"
  shows "metadata_says f ''new file mode '' \<or> (\<not> fb_git f \<and> resolve_status f = FsAdded) \<Longrightarrow> pl_kind l = LkAdded"
    "metadata_says f ''deleted file mode '' \<or> (\<not> fb_git f \<and> resolve_status f = FsDeleted) \<Longrightarrow> pl_kind l = LkRemoved"
  using assms unfolding inconsistent_headers_def Let_def by blast+

lemma consistent_devnull:
  assumes "\<not> inconsistent_headers f" "fb_git f" "\<not> is_moved f"
  shows "fb_old_raw f = Some dev_null \<Longrightarrow> metadata_says f ''new file mode ''"
    "fb_new_raw f = Some dev_null \<Longrightarrow> metadata_says f ''deleted file mode ''"
  using assms unfolding inconsistent_headers_def Let_def by blast+

lemma status_not_moved:
  assumes "resolve_status f = FsAdded \<or> resolve_status f = FsDeleted" "names_ok f"
  shows "\<not> is_moved f"
proof -
  have "fb_rename_from f = None \<and> fb_rename_to f = None
      \<and> \<not> metadata_says f ''copy from '' \<and> \<not> metadata_says f ''copy to ''"
    using assms(1) by (auto simp: resolve_status_def Let_def split: if_splits)
  with assms(2) show ?thesis by (simp add: is_moved_def names_ok_def)
qed

lemma consistent_lines:
  assumes "\<not> inconsistent_headers f" "names_ok f" "l \<in> set (all_lines (fb_hunks f))"
  shows "resolve_status f = FsAdded \<Longrightarrow> pl_kind l = LkAdded"
    "resolve_status f = FsDeleted \<Longrightarrow> pl_kind l = LkRemoved"
  using consistentD [OF assms(1,3)] consistent_devnull [OF assms(1)] status_not_moved [OF _ assms(2)]
    resolve_status_moved(3,4) [of f] by blast+

lemma flush_no_binary_hunks:
  assumes "flush_file_buf f n = Inr rf" "fb_hunks f \<noteq> []" "m \<in> set (fb_metadata f)"
  shows "m \<noteq> ''GIT binary patch'' \<and> \<not> starts_with ''Binary files '' m"
  using assms by (auto simp: flush_file_buf_def split: if_splits)

lemma into_review_file_simps [simp]:
  "rf_path (into_review_file f) = resolve_path f" "rf_status (into_review_file f) = resolve_status f"
  "pt_hunks (rf_patch_twin (into_review_file f)) = fb_hunks f"
  "pt_metadata (rf_patch_twin (into_review_file f)) = fb_metadata f"
  "twin_says (into_review_file f) p = metadata_says f p"
  by (simp_all add: into_review_file_def Let_def twin_says_def metadata_says_def)

lemma flush_section_ok:
  assumes rf: "flush_file_buf f n = Inr rf" and f: "names_ok f"
  shows "section_ok rf"
proof -
  obtain f2 where n2: "names_ok f2" and both: "fb_rename_from f2 \<noteq> None \<longleftrightarrow> fb_rename_to f2 \<noteq> None"
    and f2: "f2 = f \<or> fb_rename_to f2 \<noteq> None \<or> metadata_says f2 ''copy from ''"
    and cons: "\<not> inconsistent_headers f" and full: "refuse_empty_section f2 n = Inr ()"
    and rf2: "rf = into_review_file f2" and hunks: "fb_hunks f2 = fb_hunks f"
    and meta: "\<forall>m\<in>set (fb_metadata f2). m \<in> set (fb_metadata f) \<or> starts_with ''rename '' m \<or> starts_with ''copy '' m"
    by (rule flush_section_names [OF rf f])
  have path: "resolve_path f2 \<noteq> []" "fb_hunks f2 = [] \<Longrightarrow> fb_metadata f2 \<noteq> []"
    using full by (auto simp: refuse_empty_section_def split: if_splits)
  have bin: "m \<noteq> ''GIT binary patch'' \<and> \<not> starts_with ''Binary files '' m"
    if "fb_hunks f2 \<noteq> []" "m \<in> set (fb_metadata f2)" for m
    using meta that flush_no_binary_hunks [OF rf] by (auto simp: hunks starts_with_iff)
  have ren: "\<not> git_refuses_path (resolve_path f2) \<and> metadata_says f2 ''rename from '' \<and> metadata_says f2 ''rename to ''"
    if "resolve_status f2 = FsRenamed"
    using resolve_status_moved(1) [OF that] both n2 by (auto simp: names_ok_def resolve_path_def)
  have same: "f2 = f" if "resolve_status f2 = FsAdded \<or> resolve_status f2 = FsDeleted"
    using f2 resolve_status_moved(2) [of f2] that by blast
  have add: "pl_kind l = LkAdded" if "resolve_status f2 = FsAdded" "l \<in> set (all_lines (fb_hunks f2))" for l
    using consistent_lines(1) [OF cons f] same that by blast
  have del: "pl_kind l = LkRemoved" if "resolve_status f2 = FsDeleted" "l \<in> set (all_lines (fb_hunks f2))" for l
    using consistent_lines(2) [OF cons f] same that by blast
  show ?thesis
    unfolding section_ok_def rf2 into_review_file_simps
    using path bin ren add del by (auto simp: metadata_says_def)
qed

subsection \<open>The invariant\<close>

lemma update_last_sections:
  "sections_inv L p \<Longrightarrow> sections_inv L (update_last_body_line g p)"
  by (cases rule: update_last_cases [of p g])
    (auto simp: sections_inv_def names_ok_def metadata_says_def map_last_closed_def)

lemma sections_map_file:
  "sections_inv L p \<Longrightarrow> (\<And>f. names_ok f \<Longrightarrow> names_ok (g f)) \<Longrightarrow>
     sections_inv L (p\<lparr>pr_file := map_option g (pr_file p)\<rparr>)"
  by (auto simp: sections_inv_def)

lemma sections_inv_step:
  assumes "sections_inv L p" "pstep L p p'"
  shows "sections_inv L p'"
  using assms(2,1)
proof (induction rule: pstep.induct)
  case (flags p p')
  then show ?case by (simp add: sections_inv_def same_content_def)
next
  case (eof p n)
  have "sections_inv L (update_last_body_line (\<lambda>l. l\<lparr>pl_no_newline := True\<rparr>) p)"
    using eof by (rule update_last_sections)
  then show ?case unfolding mark_eof_def Let_def
    by (rule sections_map_file) (erule names_ok_no_move, auto simp: eof_marker_def)
next
  case (body p h line n h')
  then show ?case by (simp add: sections_inv_def)
next
  case (close p n p')
  then show ?case
    by (auto simp: close_hunk_def sections_inv_def names_ok_def metadata_says_def split: option.splits if_splits)
next
  case (flush p p')
  then show ?case
    by (auto simp: flush_file_def sections_inv_def res_elims flush_section_ok split: option.splits)
next
  case (fresh p f)
  then show ?case by (simp add: sections_inv_def names_ok_fresh)
next
  case (header p f f')
  then show ?case by (auto simp: sections_inv_def intro: names_ok_same_body)
next
  case (opened p f line hh)
  then show ?case by (simp add: sections_inv_def)
next
  case (meta p f line n f')
  then show ?case by (auto simp: sections_inv_def intro: names_ok_meta)
next
  case (lossy p)
  have "sections_inv L (if pr_can_mark_eof p then update_last_body_line (\<lambda>l. l\<lparr>pl_lossy := True\<rparr>) p else p)"
    using lossy by (auto intro: update_last_sections)
  then show ?case unfolding mark_lossy_def Let_def
    by (rule sections_map_file) (simp add: names_ok_def metadata_says_def)
qed

interpretation section_machine: parser_invariant sections_inv sections_result
proof unfold_locales
  show "sections_inv L (Parser_default\<lparr>pr_unterminated_last := u\<rparr>)" for L u
    by (simp add: sections_inv_def Parser_default_def)
  show "sections_inv L p \<Longrightarrow> pstep L p p' \<Longrightarrow> sections_inv L p'" for L p p' by (rule sections_inv_step)
  show "sections_inv L p \<Longrightarrow> pr_file p = None \<Longrightarrow> pr_hunk p = None \<Longrightarrow> sections_result L (pr_files p)" for L p
    by (simp add: sections_inv_def sections_result_def)
qed

end
