(* ===== verification/Mark_Inv.thy ===== *)
theory Mark_Inv
  imports Hunk_Inv
begin

text \<open>
  The marks a parsed review carries on its lines. A line with no line feed at the end of its file
  is the last line of its side: no later line of the section, in this hunk or a later one, is on
  the same side. Lines read from replaced bytes are all accounted for in \<open>lossy_lines\<close>, which
  saturates. A third instance of \<open>parser_invariant\<close>.
\<close>

definition shares_side :: "PatchLine \<Rightarrow> PatchLine \<Rightarrow> bool" where
  "shares_side a b \<longleftrightarrow> (is_old_side a \<and> is_old_side b) \<or> (is_new_side a \<and> is_new_side b)"

definition eof_ordered :: "PatchLine list \<Rightarrow> bool" where
  "eof_ordered ls \<longleftrightarrow> sorted_wrt (\<lambda>a b. pl_no_newline a \<longrightarrow> \<not> shares_side a b) ls"

definition lossy_count :: "PatchLine list \<Rightarrow> nat" where
  "lossy_count ls = length (filter pl_lossy ls)"

definition twin_marks_ok :: "ReviewFile \<Rightarrow> bool" where
  "twin_marks_ok rf \<longleftrightarrow>
     (let ls = all_lines (pt_hunks (rf_patch_twin rf)) in
      eof_ordered ls \<and> min (lossy_count ls) u32_max \<le> pt_lossy_lines (rf_patch_twin rf))"

definition section_lines :: "FileBuf \<Rightarrow> HunkBuf option \<Rightarrow> PatchLine list" where
  "section_lines f ho = all_lines (fb_hunks f) @ (case ho of None \<Rightarrow> [] | Some h \<Rightarrow> hb_lines h)"

text \<open>The marks on the lines \<open>ls\<close> of a section whose old or new side has ended (\<open>eo\<close>, \<open>en\<close>) and in
  which \<open>c\<close> replaced lines were counted.\<close>

definition line_marks :: "bool \<Rightarrow> bool \<Rightarrow> nat \<Rightarrow> PatchLine list \<Rightarrow> bool" where
  "line_marks eo en c ls \<longleftrightarrow>
     eof_ordered ls
     \<and> (\<forall>l\<in>set ls. pl_no_newline l \<longrightarrow> (is_old_side l \<longrightarrow> eo) \<and> (is_new_side l \<longrightarrow> en))
     \<and> min (lossy_count ls) u32_max \<le> c"

definition marks_of :: "FileBuf \<Rightarrow> PatchLine list \<Rightarrow> bool" where
  "marks_of f ls \<longleftrightarrow>
     line_marks (fb_eof_old f \<noteq> None) (fb_eof_new f \<noteq> None) (fb_lossy_lines f) ls
     \<and> (\<forall>h\<in>set (fb_hunks f). ph_lines h \<noteq> [])"

definition marks_inv :: "string set \<Rightarrow> Parser \<Rightarrow> bool" where
  "marks_inv L p \<longleftrightarrow>
     (\<forall>rf\<in>set (pr_files p). twin_marks_ok rf)
     \<and> (\<forall>f. pr_file p = Some f \<longrightarrow> marks_of f (section_lines f (pr_hunk p)))
     \<and> (pr_file p = None \<longrightarrow> pr_hunk p = None)"

definition marks_result :: "string set \<Rightarrow> ReviewFile list \<Rightarrow> bool" where
  "marks_result L fs \<longleftrightarrow> (\<forall>rf\<in>set fs. twin_marks_ok rf)"

lemma eof_ordered_snoc:
  "eof_ordered (ls @ [l]) \<longleftrightarrow> eof_ordered ls \<and> (\<forall>a\<in>set ls. pl_no_newline a \<longrightarrow> \<not> shares_side a l)"
  by (auto simp: eof_ordered_def sorted_wrt_append)

lemma eof_ordered_map_last:
  assumes "eof_ordered ls" "marks_only g"
  shows "eof_ordered (map_last g ls)"
  using assms by (cases ls rule: rev_cases)
    (auto simp: eof_ordered_snoc marks_only_def shares_side_def is_old_side_def is_new_side_def)

lemma lossy_count_simps [simp]:
  "lossy_count [] = 0" "lossy_count (a @ b) = lossy_count a + lossy_count b"
  "lossy_count (l # b) = (if pl_lossy l then Suc (lossy_count b) else lossy_count b)"
  by (simp_all add: lossy_count_def)

lemma lossy_count_map_last:
  "lossy_count (map_last (\<lambda>l. l\<lparr>pl_lossy := True\<rparr>) ls) \<le> Suc (lossy_count ls)"
  "lossy_count (map_last (\<lambda>l. l\<lparr>pl_no_newline := b\<rparr>) ls) = lossy_count ls"
  by (cases ls rule: rev_cases; simp)+

text \<open>The line a mark reaches is the last line of the section.\<close>

lemma all_lines_map_last:
  assumes "\<forall>h\<in>set hs. ph_lines h \<noteq> []"
  shows "all_lines (map_last (\<lambda>h. h\<lparr>ph_lines := map_last g (ph_lines h)\<rparr>) hs) = map_last g (all_lines hs)"
  using assms by (cases hs rule: rev_cases) (auto simp: all_lines_def map_last_append)

lemma update_last_lines:
  assumes "pr_file p = Some f" "\<forall>h\<in>set (fb_hunks f). ph_lines h \<noteq> []"
  obtains f' where "pr_file (update_last_body_line g p) = Some f'"
    "pr_files (update_last_body_line g p) = pr_files p"
    "section_lines f' (pr_hunk (update_last_body_line g p)) = map_last g (section_lines f (pr_hunk p))"
    "fb_eof_old f' = fb_eof_old f" "fb_eof_new f' = fb_eof_new f" "fb_lossy_lines f' = fb_lossy_lines f"
    "\<forall>h\<in>set (fb_hunks f'). ph_lines h \<noteq> []"
proof (cases rule: update_last_cases [of p g])
  case none
  with assms show thesis by simp
next
  case (inside f0 h)
  with assms show thesis by (intro that [of f]) (auto simp: section_lines_def map_last_append)
next
  case (closed f0)
  have "\<forall>h\<in>set (fb_hunks (map_last_closed g f)). ph_lines h \<noteq> []"
    using assms(2) by (cases "fb_hunks f" rule: rev_cases) (auto simp: map_last_closed_def)
  moreover have "pr_hunk p = None \<or> (\<exists>h. pr_hunk p = Some h \<and> hb_lines h = [])"
    using closed(2) by (cases "pr_hunk p") auto
  ultimately show thesis using closed assms
    by (intro that [of "map_last_closed g f"])
      (auto simp: section_lines_def map_last_closed_def all_lines_map_last)
qed

lemma last_body_line_section:
  assumes "pr_file p = Some f" "\<forall>h\<in>set (fb_hunks f). ph_lines h \<noteq> []"
  shows "last_body_line p =
    (if section_lines f (pr_hunk p) = [] then None else Some (last (section_lines f (pr_hunk p))))"
  using assms
  by (cases "fb_hunks f" rule: rev_cases; cases "pr_hunk p")
    (auto simp: last_body_line_def section_lines_def all_lines_def)

subsection \<open>Every step keeps the marks\<close>

lemma line_marks_eof:
  assumes "line_marks eo en c ls"
    "ls \<noteq> [] \<Longrightarrow> is_old_side (last ls) \<Longrightarrow> eo'" "ls \<noteq> [] \<Longrightarrow> is_new_side (last ls) \<Longrightarrow> en'"
    "eo \<Longrightarrow> eo'" "en \<Longrightarrow> en'"
  shows "line_marks eo' en' c (map_last (\<lambda>l. l\<lparr>pl_no_newline := True\<rparr>) ls)"
proof -
  have "eof_ordered (map_last (\<lambda>l. l\<lparr>pl_no_newline := True\<rparr>) ls)"
    using assms(1) by (intro eof_ordered_map_last) (simp_all add: line_marks_def)
  with assms show ?thesis
    by (cases ls rule: rev_cases) (auto simp: line_marks_def is_old_side_def is_new_side_def)
qed

lemma line_marks_lossy:
  assumes "line_marks eo en c ls"
  shows "line_marks eo en (sat_add32 c 1) (map_last (\<lambda>l. l\<lparr>pl_lossy := True\<rparr>) ls)"
    "line_marks eo en (sat_add32 c 1) ls"
proof -
  have "eof_ordered (map_last (\<lambda>l. l\<lparr>pl_lossy := True\<rparr>) ls)"
    using assms by (intro eof_ordered_map_last) (simp_all add: line_marks_def)
  with assms show "line_marks eo en (sat_add32 c 1) (map_last (\<lambda>l. l\<lparr>pl_lossy := True\<rparr>) ls)"
    by (cases ls rule: rev_cases) (auto simp: line_marks_def is_old_side_def is_new_side_def sat_add32_def)
  show "line_marks eo en (sat_add32 c 1) ls"
    using assms by (auto simp: line_marks_def sat_add32_def)
qed

lemma line_marks_snoc:
  assumes "line_marks eo en c ls" "\<not> pl_no_newline l" "\<not> pl_lossy l"
    "is_old_side l \<Longrightarrow> \<not> eo" "is_new_side l \<Longrightarrow> \<not> en"
  shows "line_marks eo en c (ls @ [l])"
  using assms by (auto simp: line_marks_def eof_ordered_snoc shares_side_def)

lemma marks_inv_eof:
  assumes "marks_inv L p"
  shows "marks_inv L (mark_eof p m n)"
proof (cases "pr_file p")
  case None
  with assms show ?thesis
    by (simp add: mark_eof_def Let_def update_last_body_line_def marks_inv_def)
next
  case (Some f)
  with assms have m: "marks_of f (section_lines f (pr_hunk p))" by (simp add: marks_inv_def)
  then have ne: "\<forall>h\<in>set (fb_hunks f). ph_lines h \<noteq> []" by (simp add: marks_of_def)
  let ?p1 = "update_last_body_line (\<lambda>l. l\<lparr>pl_no_newline := True\<rparr>) p"
  obtain f1 where f1: "pr_file ?p1 = Some f1" "pr_files ?p1 = pr_files p"
      "section_lines f1 (pr_hunk ?p1) = map_last (\<lambda>l. l\<lparr>pl_no_newline := True\<rparr>) (section_lines f (pr_hunk p))"
      "fb_eof_old f1 = fb_eof_old f" "fb_eof_new f1 = fb_eof_new f" "fb_lossy_lines f1 = fb_lossy_lines f"
      "\<forall>h\<in>set (fb_hunks f1). ph_lines h \<noteq> []"
    by (rule update_last_lines [OF Some ne])
  let ?k = "map_option pl_kind (last_body_line p)"
  let ?eo = "if ?k \<noteq> Some LkAdded then Some n else fb_eof_old f"
  let ?en = "if ?k \<noteq> Some LkRemoved then Some n else fb_eof_new f"
  have "line_marks (?eo \<noteq> None) (?en \<noteq> None) (fb_lossy_lines f)
      (map_last (\<lambda>l. l\<lparr>pl_no_newline := True\<rparr>) (section_lines f (pr_hunk p)))"
    using last_body_line_section [OF Some ne] m
    by (intro line_marks_eof [where eo = "fb_eof_old f \<noteq> None" and en = "fb_eof_new f \<noteq> None"])
      (auto simp: marks_of_def is_old_side_def is_new_side_def)
  moreover have "section_lines (f1\<lparr>fb_metadata := ms, fb_eof_old := a, fb_eof_new := b\<rparr>) ho = section_lines f1 ho"
    for ms a b ho by (simp add: section_lines_def)
  ultimately have "marks_of (f1\<lparr>fb_metadata := fb_metadata f1 @ [m], fb_eof_old := ?eo, fb_eof_new := ?en\<rparr>)
      (section_lines (f1\<lparr>fb_metadata := fb_metadata f1 @ [m], fb_eof_old := ?eo, fb_eof_new := ?en\<rparr>) (pr_hunk ?p1))"
    using f1 by (simp only: marks_of_def FileBuf.select_convs FileBuf.update_convs FileBuf.simps) simp
  moreover have "mark_eof p m n = ?p1\<lparr>pr_file := Some
      (f1\<lparr>fb_metadata := fb_metadata f1 @ [m], fb_eof_old := ?eo, fb_eof_new := ?en\<rparr>)\<rparr>"
    by (simp only: mark_eof_def Let_def f1 option.map)
  ultimately show ?thesis
    using assms f1(2) by (simp only: marks_inv_def) simp
qed

lemma marks_inv_lossy:
  assumes "marks_inv L p"
  shows "marks_inv L (mark_lossy p)"
proof (cases "pr_file p")
  case None
  with assms show ?thesis
    by (simp add: mark_lossy_def Let_def update_last_body_line_def marks_inv_def)
next
  case (Some f)
  with assms have m: "marks_of f (section_lines f (pr_hunk p))" by (simp add: marks_inv_def)
  then have ne: "\<forall>h\<in>set (fb_hunks f). ph_lines h \<noteq> []" by (simp add: marks_of_def)
  let ?g = "\<lambda>l :: PatchLine. l\<lparr>pl_lossy := True\<rparr>"
  let ?p1 = "update_last_body_line ?g p"
  obtain f1 where f1: "pr_file ?p1 = Some f1" "pr_files ?p1 = pr_files p"
      "section_lines f1 (pr_hunk ?p1) = map_last ?g (section_lines f (pr_hunk p))"
      "fb_eof_old f1 = fb_eof_old f" "fb_eof_new f1 = fb_eof_new f" "fb_lossy_lines f1 = fb_lossy_lines f"
      "\<forall>h\<in>set (fb_hunks f1). ph_lines h \<noteq> []"
    by (rule update_last_lines [OF Some ne])
  have "section_lines (f0\<lparr>fb_lossy_lines := c\<rparr>) ho = section_lines f0 ho" for f0 c ho
    by (simp add: section_lines_def)
  with assms Some f1 m line_marks_lossy show ?thesis
    by (cases "pr_can_mark_eof p") (simp_all add: mark_lossy_def Let_def marks_inv_def marks_of_def)
qed

lemma consume_body_snoc:
  assumes "consume_body h line n = Some (Inr h')"
  obtains l where "hb_lines h' = hb_lines h @ [l]" "\<not> pl_no_newline l" "\<not> pl_lossy l"
    "is_old_side l \<longleftrightarrow> \<not> starts_with ''+'' line" "is_new_side l \<longleftrightarrow> \<not> starts_with ''-'' line"
  using assms
  by (cases line) (auto simp: consume_body_def Let_def body_line_def is_old_side_def is_new_side_def split: if_splits)

lemma marks_inv_body:
  assumes "marks_inv L p" "pr_hunk p = Some h" "consume_body h line n = Some (Inr h')"
    "Option.bind (pr_file p) (\<lambda>f. ended_side f line) = None"
  shows "marks_inv L (p\<lparr>pr_hunk := Some h'\<rparr>)"
proof -
  obtain f where f: "pr_file p = Some f" "marks_of f (section_lines f (Some h))"
    using assms(1,2) by (auto simp: marks_inv_def)
  obtain l where l: "hb_lines h' = hb_lines h @ [l]" "\<not> pl_no_newline l" "\<not> pl_lossy l"
      "is_old_side l \<longleftrightarrow> \<not> starts_with ''+'' line" "is_new_side l \<longleftrightarrow> \<not> starts_with ''-'' line"
    by (rule consume_body_snoc [OF assms(3)])
  have "\<not> (starts_with ''-'' line \<and> starts_with ''+'' line)" by (cases line) auto
  then have "is_old_side l \<longrightarrow> fb_eof_old f = None" "is_new_side l \<longrightarrow> fb_eof_new f = None"
    using assms(4) f(1) l(4,5)
    by (auto simp: ended_side_def opt_or_def split: if_splits option.splits)
  moreover have "section_lines f (Some h') = section_lines f (Some h) @ [l]"
    by (simp add: section_lines_def l(1))
  ultimately have "marks_of f (section_lines f (Some h'))"
    using f(2) l(2,3) by (auto simp: marks_of_def intro!: line_marks_snoc)
  with assms(1) f(1) show ?thesis by (simp add: marks_inv_def)
qed

lemma marks_inv_close:
  assumes "marks_inv L p" "close_hunk p n = Inr p'"
  shows "marks_inv L p'"
proof (cases "pr_hunk p")
  case None
  with assms show ?thesis by (simp add: close_hunk_def)
next
  case (Some h)
  then obtain f where f: "pr_file p = Some f" "marks_of f (section_lines f (Some h))"
    using assms(1) by (cases "pr_file p") (auto simp: marks_inv_def)
  have p': "p' = p\<lparr>pr_hunk := None, pr_file := Some (f\<lparr>fb_hunks := fb_hunks f @ [closed_hunk h]\<rparr>)\<rparr>"
    and ne: "hb_lines h \<noteq> []"
    using assms(2) Some f by (auto simp: close_hunk_def split: if_splits)
  have "section_lines (f\<lparr>fb_hunks := fb_hunks f @ [closed_hunk h]\<rparr>) None = section_lines f (Some h)"
    by (simp add: section_lines_def all_lines_def closed_hunk_def)
  with assms(1) f(2) ne show ?thesis
    by (auto simp: p' marks_inv_def marks_of_def closed_hunk_def)
qed

lemma marks_inv_step:
  assumes "marks_inv L p" "pstep L p p'"
  shows "marks_inv L p'"
  using assms(2,1)
proof (induction rule: pstep.induct)
  case (flags p p')
  then show ?case by (simp add: marks_inv_def same_content_def)
next
  case (body p h line n h')
  then show ?case by (blast intro: marks_inv_body)
next
  case (close p n p')
  then show ?case by (blast intro: marks_inv_close)
next
  case (flush p p')
  then show ?case
    by (auto simp: flush_file_def marks_inv_def marks_of_def section_lines_def twin_marks_ok_def Let_def
        line_marks_def res_elims flush_file_buf_keeps split: option.splits)
next
  case (fresh p f)
  then show ?case
    by (simp add: marks_inv_def marks_of_def section_lines_def fresh_file_def same_body_def
        FileBuf_default_def all_lines_def line_marks_def eof_ordered_def)
next
  case (header p f f')
  then show ?case by (simp add: marks_inv_def marks_of_def section_lines_def same_body_def)
next
  case (opened p f line hh)
  then show ?case by (simp add: marks_inv_def section_lines_def opened_hunk_def)
next
  case (meta p f line n f')
  then show ?case
    using try_metadata_file_keeps [OF meta(2)] by (simp add: marks_inv_def marks_of_def section_lines_def)
qed (simp_all add: marks_inv_eof marks_inv_lossy)

interpretation mark_machine: parser_invariant marks_inv marks_result
proof unfold_locales
  show "marks_inv L (Parser_default\<lparr>pr_unterminated_last := u\<rparr>)" for L u
    by (simp add: marks_inv_def Parser_default_def)
  show "marks_inv L p \<Longrightarrow> pstep L p p' \<Longrightarrow> marks_inv L p'" for L p p' by (rule marks_inv_step)
  show "marks_inv L p \<Longrightarrow> pr_file p = None \<Longrightarrow> pr_hunk p = None \<Longrightarrow> marks_result L (pr_files p)" for L p
    by (simp add: marks_inv_def marks_result_def)
qed

end
