(* ===== verification/Render_Steps.thy ===== *)
theory Render_Steps
  imports Render Section_Inv Mark_Inv
begin

text \<open>
  What the parser does with each line of a rendered section, as forward rules over a predicate on
  the parser state. They are composed into the round trip in \<open>Render_Roundtrip\<close>.
\<close>

fun feed_lines :: "nat \<Rightarrow> string list \<Rightarrow> Parser \<Rightarrow> PatchParseError + Parser" where
  "feed_lines i [] p = Inr p"
| "feed_lines i (l # ls) p = res_bind (feed p l (i + 1) False) (feed_lines (i + 1) ls)"

lemma parse_loop_feed_lines:
  "i + length ls \<le> DEFAULT_LINE_BUDGET \<Longrightarrow> parse_loop None i [] ls p = feed_lines i ls p"
proof (induction ls arbitrary: i p)
  case (Cons l ls)
  have "\<not> DEFAULT_LINE_BUDGET \<le> i" using Cons.prems by simp
  moreover have "(\<lambda>p. parse_loop None (i + 1) [] ls p) = feed_lines (i + 1) ls"
    using Cons by (intro ext) simp
  ultimately show ?case by simp
qed simp

lemma feed_lines_append:
  "feed_lines i (xs @ ys) p = res_bind (feed_lines i xs p) (feed_lines (i + length xs) ys)"
proof (induction xs arbitrary: i p)
  case (Cons x xs)
  then show ?case by (cases "feed p x (i + 1) False") simp_all
qed simp

text \<open>The state inside a section: the files read, the next hunk identifier, the section without its
  end-of-file line numbers, whether each side has ended, and the open hunk.\<close>

definition fcore :: "FileBuf \<Rightarrow> FileBuf" where
  "fcore f = f\<lparr>fb_eof_old := None, fb_eof_new := None\<rparr>"

definition secstate ::
  "ReviewFile list \<Rightarrow> nat \<Rightarrow> FileBuf \<Rightarrow> bool \<Rightarrow> bool \<Rightarrow> HunkBuf option \<Rightarrow> Parser \<Rightarrow> bool" where
  "secstate fs n F eo en ho p \<longleftrightarrow>
     pr_files p = fs \<and> pr_next_hunk_id p = n \<and> pr_unterminated_last p = None \<and> \<not> pr_p0 p
     \<and> pr_hunk p = ho
     \<and> (\<exists>f. pr_file p = Some f \<and> fcore f = F \<and> (fb_eof_old f \<noteq> None) = eo \<and> (fb_eof_new f \<noteq> None) = en)"

definition push_line :: "HunkBuf \<Rightarrow> PatchLine \<Rightarrow> HunkBuf" where
  "push_line h l =
     h\<lparr>hb_lines := hb_lines h @ [l],
       hb_old_line := (if is_old_side l then sat_add32 (hb_old_line h) 1 else hb_old_line h),
       hb_new_line := (if is_new_side l then sat_add32 (hb_new_line h) 1 else hb_new_line h),
       hb_rem_old := (if is_old_side l then hb_rem_old h - 1 else hb_rem_old h),
       hb_rem_new := (if is_new_side l then hb_rem_new h - 1 else hb_rem_new h)\<rparr>"

definition fits :: "HunkBuf \<Rightarrow> PatchLine \<Rightarrow> bool" where
  "fits h l \<longleftrightarrow>
     (if is_old_side l then 0 < hb_rem_old h \<and> pl_old_line l = Some (hb_old_line h) else pl_old_line l = None)
     \<and> (if is_new_side l then 0 < hb_rem_new h \<and> pl_new_line l = Some (hb_new_line h) else pl_new_line l = None)
     \<and> \<not> pl_lossy l"

lemma consume_body_fits:
  assumes "fits h l"
  shows "consume_body h (line_marker (pl_kind l) # pl_text l) i =
    Some (Inr (push_line h (l\<lparr>pl_no_newline := False\<rparr>)))"
proof -
  have l: "l\<lparr>pl_no_newline := False\<rparr> = body_line (pl_kind l) (pl_old_line l) (pl_new_line l) (pl_text l)"
    using assms by (simp add: fits_def body_line_def)
  show ?thesis
    unfolding l using assms
    by (cases "pl_kind l") (simp_all add: consume_body_def fits_def push_line_def is_old_side_def
        is_new_side_def body_line_def)
qed

definition hunk_done :: "HunkBuf \<Rightarrow> bool" where
  "hunk_done h \<longleftrightarrow> hb_rem_old h = 0 \<and> hb_rem_new h = 0"

definition add_hunk :: "HunkBuf \<Rightarrow> FileBuf \<Rightarrow> FileBuf" where
  "add_hunk h f = (if hunk_done h then f\<lparr>fb_hunks := fb_hunks f @ [closed_hunk h]\<rparr> else f)"

lemma feed_body_line:
  assumes s: "secstate fs n F eo en (Some h) p" and l: "fits h l" "\<not> pl_no_newline l"
    and sides: "is_old_side l \<longrightarrow> \<not> eo" "is_new_side l \<longrightarrow> \<not> en"
    and change: "hunk_done (push_line h l) \<longrightarrow> (\<exists>x\<in>set (hb_lines h @ [l]). pl_kind x \<noteq> LkContext)"
  shows "\<exists>q. feed p (line_marker (pl_kind l) # pl_text l) i False = Inr q
    \<and> secstate fs n (add_hunk (push_line h l) F) eo en
        (if hunk_done (push_line h l) then None else Some (push_line h l)) q
    \<and> pr_can_mark_eof q \<and> (hunk_done (push_line h l) \<longrightarrow> pr_hunk_may_open q)"
proof -
  obtain f where f: "pr_file p = Some f" "fcore f = F" "(fb_eof_old f \<noteq> None) = eo" "(fb_eof_new f \<noteq> None) = en"
    using s by (auto simp: secstate_def)
  let ?line = "line_marker (pl_kind l) # pl_text l"
  have flag: "l\<lparr>pl_no_newline := False\<rparr> = l" using l(2) by simp
  have c: "consume_body h ?line i = Some (Inr (push_line h l))"
    using consume_body_fits [OF l(1)] by (simp only: flag)
  have open_h: "0 < hb_rem_old h \<or> 0 < hb_rem_new h"
    using l(1) by (cases "pl_kind l") (auto simp: fits_def is_old_side_def is_new_side_def)
  have nb: "\<not> starts_with [BACKSLASH] ?line" by (cases "pl_kind l") simp_all
  have nend: "ended_side f ?line = None"
    using sides f(3,4)
    by (cases "pl_kind l") (auto simp: ended_side_def opt_or_def is_old_side_def is_new_side_def)
  let ?p1 = "p\<lparr>pr_last_line := i, pr_can_mark_eof := False, pr_hunk_may_open := False\<rparr>"
  have feed: "feed p ?line i False = feed_body ?p1 (push_line h l) ?line i"
    using s nb open_h c by (simp add: feed_def Let_def secstate_def)
  show ?thesis
  proof (cases "hunk_done (push_line h l)")
    case True
    then have "\<not> (\<forall>x\<in>set (hb_lines (push_line h l)). pl_kind x = LkContext)"
      using change by (auto simp: push_line_def)
    with True f s show ?thesis
      unfolding feed
      by (simp add: feed_body_def nend Let_def hunk_done_def close_hunk_def add_hunk_def secstate_def fcore_def)
        auto
  next
    case False
    with f s show ?thesis
      unfolding feed
      by (auto simp add: feed_body_def nend Let_def hunk_done_def add_hunk_def secstate_def fcore_def)
  qed
qed

definition body_lines :: "PatchLine \<Rightarrow> string list" where
  "body_lines l = (line_marker (pl_kind l) # pl_text l) # (if pl_no_newline l then [eof_marker] else [])"

definition note_eof :: "bool \<Rightarrow> FileBuf \<Rightarrow> FileBuf" where
  "note_eof b f = (if b then f\<lparr>fb_metadata := fb_metadata f @ [eof_marker]\<rparr> else f)"

lemma push_line_flag:
  "push_line h l = (push_line h (l\<lparr>pl_no_newline := b\<rparr>))
     \<lparr>hb_lines := map_last (\<lambda>x. x\<lparr>pl_no_newline := pl_no_newline l\<rparr>) (hb_lines (push_line h (l\<lparr>pl_no_newline := b\<rparr>)))\<rparr>"
  "hunk_done (push_line h (l\<lparr>pl_no_newline := b\<rparr>)) = hunk_done (push_line h l)"
  by (simp_all add: push_line_def hunk_done_def is_old_side_def is_new_side_def)

lemma map_last_closed_add:
  "map_last_closed g (f\<lparr>fb_hunks := hs @ [closed_hunk h]\<rparr>) =
     f\<lparr>fb_hunks := hs @ [closed_hunk (h\<lparr>hb_lines := map_last g (hb_lines h)\<rparr>)]\<rparr>"
  by (simp add: map_last_closed_def closed_hunk_def)

lemma starts_eof_marker [simp]: "starts_with [BACKSLASH] eof_marker"
  by (simp add: eof_marker_def)

lemma feed_eof_marker:
  assumes "pr_can_mark_eof p"
  shows "feed p eof_marker i False = Inr
    ((mark_eof (p\<lparr>pr_last_line := i, pr_can_mark_eof := False, pr_hunk_may_open := False\<rparr>) eof_marker i)
       \<lparr>pr_hunk_may_open := pr_hunk_may_open p\<rparr>)"
  using assms by (simp add: feed_def Let_def)

lemma feed_eof_open:
  assumes s: "secstate fs n F eo en (Some h) p" and e: "pr_can_mark_eof p" and l: "hb_lines h \<noteq> []"
  shows "\<exists>q. feed p eof_marker i False = Inr q
    \<and> secstate fs n (note_eof True F) (eo \<or> is_old_side (last (hb_lines h))) (en \<or> is_new_side (last (hb_lines h)))
        (Some (h\<lparr>hb_lines := map_last (\<lambda>x. x\<lparr>pl_no_newline := True\<rparr>) (hb_lines h)\<rparr>)) q"
proof -
  obtain f where f: "pr_file p = Some f" "fcore f = F" "(fb_eof_old f \<noteq> None) = eo" "(fb_eof_new f \<noteq> None) = en"
    using s by (auto simp: secstate_def)
  show ?thesis
    using s f l unfolding feed_eof_marker [OF e]
    by (auto simp: secstate_def mark_eof_def Let_def last_body_line_def update_last_body_line_def
        note_eof_def fcore_def is_old_side_def is_new_side_def)
qed

lemma feed_eof_closed:
  assumes s: "secstate fs n (F\<lparr>fb_hunks := hs @ [closed_hunk h]\<rparr>) eo en None p"
    and e: "pr_can_mark_eof p" and l: "hb_lines h \<noteq> []"
  shows "\<exists>q. feed p eof_marker i False = Inr q
    \<and> secstate fs n (note_eof True (F\<lparr>fb_hunks := hs @
          [closed_hunk (h\<lparr>hb_lines := map_last (\<lambda>x. x\<lparr>pl_no_newline := True\<rparr>) (hb_lines h)\<rparr>)]\<rparr>))
        (eo \<or> is_old_side (last (hb_lines h))) (en \<or> is_new_side (last (hb_lines h))) None q
    \<and> pr_hunk_may_open q = pr_hunk_may_open p"
proof -
  obtain f where f: "pr_file p = Some f" "fcore f = F\<lparr>fb_hunks := hs @ [closed_hunk h]\<rparr>"
      "(fb_eof_old f \<noteq> None) = eo" "(fb_eof_new f \<noteq> None) = en"
    using s by (auto simp: secstate_def)
  have h: "fb_hunks f = hs @ [closed_hunk h]"
    using arg_cong [OF f(2), of fb_hunks] by (simp add: fcore_def)
  have core: "fcore (f\<lparr>fb_hunks := X, fb_metadata := M, fb_eof_old := A, fb_eof_new := B\<rparr>)
      = F\<lparr>fb_hunks := X, fb_metadata := M\<rparr>" for X M A B
  proof -
    have "fcore (f\<lparr>fb_hunks := X, fb_metadata := M, fb_eof_old := A, fb_eof_new := B\<rparr>)
        = (fcore f)\<lparr>fb_hunks := X, fb_metadata := M\<rparr>" by (simp add: fcore_def)
    then show ?thesis by (simp add: f(2))
  qed
  have meta: "fb_metadata f = fb_metadata F" using arg_cong [OF f(2), of fb_metadata] by (simp add: fcore_def)
  show ?thesis
    using s f(1,3,4) h l unfolding feed_eof_marker [OF e]
    by (auto simp: secstate_def mark_eof_def Let_def last_body_line_def update_last_body_line_def
        map_last_closed_def note_eof_def core meta closed_hunk_def is_old_side_def is_new_side_def)
qed

lemma feed_marked_line:
  assumes s: "secstate fs n F eo en (Some h) p" and l: "fits h l"
    and sides: "is_old_side l \<longrightarrow> \<not> eo" "is_new_side l \<longrightarrow> \<not> en"
    and change: "hunk_done (push_line h l) \<longrightarrow> (\<exists>x\<in>set (hb_lines h @ [l]). pl_kind x \<noteq> LkContext)"
  shows "\<exists>q. feed_lines i (body_lines l) p = Inr q
    \<and> secstate fs n (note_eof (pl_no_newline l) (add_hunk (push_line h l) F))
        (eo \<or> pl_no_newline l \<and> is_old_side l) (en \<or> pl_no_newline l \<and> is_new_side l)
        (if hunk_done (push_line h l) then None else Some (push_line h l)) q
    \<and> (hunk_done (push_line h l) \<longrightarrow> pr_hunk_may_open q)"
proof (cases "pl_no_newline l")
  case False
  then show ?thesis
    using feed_body_line [OF s l False sides change, of "i + 1"] by (auto simp: body_lines_def note_eof_def)
next
  case True
  define l0 where "l0 = l\<lparr>pl_no_newline := False\<rparr>"
  define h0 where "h0 = push_line h l0"
  have l0: "fits h l0" "\<not> pl_no_newline l0" "is_old_side l0 = is_old_side l" "is_new_side l0 = is_new_side l"
      "pl_kind l0 = pl_kind l" "pl_text l0 = pl_text l"
    using l by (simp_all add: l0_def fits_def is_old_side_def is_new_side_def)
  have fin: "hunk_done h0 = hunk_done (push_line h l)" by (simp add: h0_def l0_def push_line_flag(2))
  have lines: "hb_lines h0 \<noteq> []" "last (hb_lines h0) = l0" by (simp_all add: h0_def push_line_def)
  have upd: "h0\<lparr>hb_lines := map_last (\<lambda>x. x\<lparr>pl_no_newline := True\<rparr>) (hb_lines h0)\<rparr> = push_line h l"
    using push_line_flag(1) [of h l False] True by (simp add: h0_def l0_def)
  have ch0: "hunk_done (push_line h l0) \<longrightarrow> (\<exists>x\<in>set (hb_lines h @ [l0]). pl_kind x \<noteq> LkContext)"
    using change fin by (auto simp: h0_def [symmetric] l0(5))
  obtain q where q: "feed p (line_marker (pl_kind l) # pl_text l) (i + 1) False = Inr q"
      "secstate fs n (add_hunk h0 F) eo en (if hunk_done h0 then None else Some h0) q" "pr_can_mark_eof q"
      "hunk_done h0 \<longrightarrow> pr_hunk_may_open q"
    using feed_body_line [OF s l0(1,2), of "i + 1"] sides ch0 unfolding l0 h0_def by blast
  show ?thesis
  proof (cases "hunk_done h0")
    case False
    then obtain q' where "feed q eof_marker (i + 2) False = Inr q'"
        "secstate fs n (note_eof True F) (eo \<or> is_old_side l) (en \<or> is_new_side l) (Some (push_line h l)) q'"
      using feed_eof_open [of fs n F eo en h0 q "i + 2"] q(2,3) lines upd
      by (auto simp: add_hunk_def l0)
    with False fin True q(1) show ?thesis by (auto simp: body_lines_def add_hunk_def)
  next
    case fin0: True
    then have sc: "secstate fs n (F\<lparr>fb_hunks := fb_hunks F @ [closed_hunk h0]\<rparr>) eo en None q"
      using q(2) by (simp add: add_hunk_def)
    obtain q' where "feed q eof_marker (i + 2) False = Inr q'"
        "secstate fs n (note_eof True (F\<lparr>fb_hunks := fb_hunks F @ [closed_hunk (push_line h l)]\<rparr>))
           (eo \<or> is_old_side l) (en \<or> is_new_side l) None q'"
        "pr_hunk_may_open q' = pr_hunk_may_open q"
      using feed_eof_closed [OF sc q(3) lines(1), of "i + 2"] unfolding upd lines l0 by blast
    with fin0 fin True q(1,4) show ?thesis by (auto simp: body_lines_def add_hunk_def)
  qed
qed

text \<open>A whole body, line by line.\<close>

definition push_lines :: "HunkBuf \<Rightarrow> PatchLine list \<Rightarrow> HunkBuf" where
  "push_lines h ls = foldl push_line h ls"

fun all_fit :: "HunkBuf \<Rightarrow> PatchLine list \<Rightarrow> bool" where
  "all_fit h [] \<longleftrightarrow> True"
| "all_fit h (l # ls) \<longleftrightarrow> fits h l \<and> all_fit (push_line h l) ls"

definition eof_count :: "PatchLine list \<Rightarrow> nat" where
  "eof_count ls = length (filter pl_no_newline ls)"

lemma push_lines_simps [simp]:
  "push_lines h [] = h" "push_lines h (l # ls) = push_lines (push_line h l) ls"
  by (simp_all add: push_lines_def)

lemma push_lines_fields:
  "hb_lines (push_lines h ls) = hb_lines h @ ls" "hb_id (push_lines h ls) = hb_id h"
  "hb_section (push_lines h ls) = hb_section h" "hb_old_start (push_lines h ls) = hb_old_start h"
  "hb_new_start (push_lines h ls) = hb_new_start h"
  by (induction ls arbitrary: h) (simp_all add: push_line_def)

definition with_body :: "FileBuf \<Rightarrow> PatchHunk list \<Rightarrow> nat \<Rightarrow> FileBuf" where
  "with_body F hs k =
     F\<lparr>fb_hunks := fb_hunks F @ hs, fb_metadata := fb_metadata F @ replicate k eof_marker\<rparr>"

lemma with_body_simps:
  "with_body F [] 0 = F" "with_body (with_body F hs k) hs' k' = with_body F (hs @ hs') (k + k')"
  "note_eof b F = with_body F [] (if b then 1 else 0)"
  "add_hunk h F = with_body F (if hunk_done h then [closed_hunk h] else []) 0"
  by (cases F; simp add: with_body_def note_eof_def add_hunk_def replicate_add)+

lemma feed_body_run:
  assumes "secstate fs n F eo en (Some h) p" "all_fit h ls" "ls \<noteq> []" "eof_ordered ls"
    "eo \<longrightarrow> (\<forall>l\<in>set ls. \<not> is_old_side l)" "en \<longrightarrow> (\<forall>l\<in>set ls. \<not> is_new_side l)"
    "\<exists>x\<in>set (hb_lines h @ ls). pl_kind x \<noteq> LkContext"
    "hb_rem_old h = length (old_side ls)" "hb_rem_new h = length (new_side ls)"
  shows "\<exists>q. feed_lines i (concat (map body_lines ls)) p = Inr q
    \<and> secstate fs n (with_body F [closed_hunk (push_lines h ls)] (eof_count ls))
        (eo \<or> (\<exists>l\<in>set ls. pl_no_newline l \<and> is_old_side l)) (en \<or> (\<exists>l\<in>set ls. pl_no_newline l \<and> is_new_side l)) None q
    \<and> pr_hunk_may_open q"
  using assms
proof (induction ls arbitrary: F eo en h p i)
  case (Cons l ls)
  let ?k = "if pl_no_newline l then 1 else 0"
  let ?eo = "eo \<or> pl_no_newline l \<and> is_old_side l" and ?en = "en \<or> pl_no_newline l \<and> is_new_side l"
  have fit: "fits h l" "all_fit (push_line h l) ls" using Cons.prems(2) by simp_all
  have rem: "hb_rem_old (push_line h l) = length (old_side ls)" "hb_rem_new (push_line h l) = length (new_side ls)"
    using Cons.prems(8,9) by (auto simp: push_line_def is_old_side_def is_new_side_def)
  have fin: "hunk_done (push_line h l) \<longleftrightarrow> ls = []"
    unfolding hunk_done_def rem by (cases ls; cases "pl_kind (hd ls)") simp_all
  obtain q where q: "feed_lines i (body_lines l) p = Inr q"
      "secstate fs n (with_body F (if ls = [] then [closed_hunk (push_line h l)] else []) ?k) ?eo ?en
        (if ls = [] then None else Some (push_line h l)) q"
      "ls = [] \<longrightarrow> pr_hunk_may_open q"
  proof -
    have "is_old_side l \<longrightarrow> \<not> eo" "is_new_side l \<longrightarrow> \<not> en" using Cons.prems(5,6) by auto
    moreover have "hunk_done (push_line h l) \<longrightarrow> (\<exists>x\<in>set (hb_lines h @ [l]). pl_kind x \<noteq> LkContext)"
      using Cons.prems(7) unfolding fin by auto
    ultimately obtain q where "feed_lines i (body_lines l) p = Inr q"
        "secstate fs n (note_eof (pl_no_newline l) (add_hunk (push_line h l) F)) ?eo ?en
          (if ls = [] then None else Some (push_line h l)) q" "ls = [] \<longrightarrow> pr_hunk_may_open q"
      using feed_marked_line [OF Cons.prems(1) fit(1), of i] unfolding fin by blast
    then show thesis by (intro that [of q]) (simp_all add: with_body_simps fin)
  qed
  show ?case
  proof (cases "ls = []")
    case True
    with q show ?thesis
      unfolding True by (cases "pl_no_newline l") (simp_all add: eof_count_def)
  next
    case False
    have ord: "eof_ordered ls" "\<And>b. b \<in> set ls \<Longrightarrow> pl_no_newline l \<Longrightarrow> \<not> shares_side l b"
      using Cons.prems(4) by (auto simp: eof_ordered_def)
    have s: "secstate fs n (with_body F [] ?k) ?eo ?en (Some (push_line h l)) q" using q(2) False by simp
    have eo: "?eo \<longrightarrow> (\<forall>l\<in>set ls. \<not> is_old_side l)" and en: "?en \<longrightarrow> (\<forall>l\<in>set ls. \<not> is_new_side l)"
      using ord(2) Cons.prems(5,6) by (auto simp: shares_side_def)
    have ch: "\<exists>x\<in>set (hb_lines (push_line h l) @ ls). pl_kind x \<noteq> LkContext"
      using Cons.prems(7) by (auto simp: push_line_def)
    have step: "feed_lines i (concat (map body_lines (l # ls))) p
        = feed_lines (i + length (body_lines l)) (concat (map body_lines ls)) q"
      using q(1) by (simp add: feed_lines_append)
    have cnt: "eof_count (l # ls) = ?k + eof_count ls" by (simp add: eof_count_def)
    have ends: "(eo \<or> (\<exists>x\<in>set (l # ls). pl_no_newline x \<and> is_old_side x))
         = (?eo \<or> (\<exists>x\<in>set ls. pl_no_newline x \<and> is_old_side x))"
      "(en \<or> (\<exists>x\<in>set (l # ls). pl_no_newline x \<and> is_new_side x))
         = (?en \<or> (\<exists>x\<in>set ls. pl_no_newline x \<and> is_new_side x))" by auto
    show ?thesis
      using Cons.IH [OF s fit(2) False ord(1) eo en ch rem, of "i + length (body_lines l)"]
      unfolding step cnt ends with_body_simps push_lines_simps by simp
  qed
qed simp

end
