(* ===== verification/Render_Roundtrip.thy ===== *)
theory Render_Roundtrip
  imports Render_Steps
begin

text \<open>
  The round trip: a review of plain text sections, rendered and parsed again, is the same review
  less its hunk headings, which the renderer drops.
\<close>

subsection \<open>Plain sections\<close>

definition plain_path :: "string \<Rightarrow> bool" where
  "plain_path p \<longleftrightarrow> p \<noteq> [] \<and> utf8_valid p \<and> NUL \<notin> set p \<and> no_double_slash p"

definition mode_line :: "string \<Rightarrow> string \<Rightarrow> bool" where
  "mode_line p m \<longleftrightarrow> (case strip_prefix p m of None \<Rightarrow> False | Some mode \<Rightarrow> parse_mode mode \<noteq> None)"

definition plain_meta :: "FileStatus \<Rightarrow> string \<Rightarrow> bool" where
  "plain_meta st m \<longleftrightarrow>
     LF \<notin> set m \<and> trim_end_char CR m = m
     \<and> (starts_with ''index '' m
        \<or> (st = FsModified \<and> (mode_line ''old mode '' m \<or> mode_line ''new mode '' m))
        \<or> (st = FsAdded \<and> mode_line ''new file mode '' m)
        \<or> (st = FsDeleted \<and> mode_line ''deleted file mode '' m))"

definition header_meta :: "ReviewFile \<Rightarrow> string list" where
  "header_meta rf = filter (\<lambda>m. \<not> starts_with [BACKSLASH] m) (pt_metadata (rf_patch_twin rf))"

definition plain_file :: "ReviewFile \<Rightarrow> bool" where
  "plain_file rf \<longleftrightarrow>
     plain_path (rf_path rf)
     \<and> (rf_status rf = FsModified
        \<or> (rf_status rf = FsAdded \<and> (\<exists>m\<in>set (header_meta rf). mode_line ''new file mode '' m))
        \<or> (rf_status rf = FsDeleted \<and> (\<exists>m\<in>set (header_meta rf). mode_line ''deleted file mode '' m)))
     \<and> pt_hunks (rf_patch_twin rf) \<noteq> [] \<and> pt_binary_body (rf_patch_twin rf) = []
     \<and> pt_lossy_lines (rf_patch_twin rf) = 0 \<and> rf_semantic_twin rf = None
     \<and> rf_planner rf = \<lparr>pd_strategy = DsLine, pd_fallback = None, pd_notes = []\<rparr>
     \<and> (\<forall>m\<in>set (header_meta rf). plain_meta (rf_status rf) m)
     \<and> pt_metadata (rf_patch_twin rf) =
         header_meta rf @ replicate (eof_count (all_lines (pt_hunks (rf_patch_twin rf)))) eof_marker"

definition drop_heading :: "PatchHunk \<Rightarrow> PatchHunk" where
  "drop_heading h = h\<lparr>ph_section := None\<rparr>"

definition drop_headings :: "ReviewFile \<Rightarrow> ReviewFile" where
  "drop_headings rf =
     rf\<lparr>rf_patch_twin := (rf_patch_twin rf)\<lparr>pt_hunks := map drop_heading (pt_hunks (rf_patch_twin rf))\<rparr>\<rparr>"

subsection \<open>The rendering, line by line\<close>

definition hunk_head :: "PatchHunk \<Rightarrow> string" where
  "hunk_head h =
     ''@@ -'' @ show_nat (the (ph_old_start h)) @ '','' @ show_nat (length (old_side (ph_lines h)))
     @ '' +'' @ show_nat (the (ph_new_start h)) @ '','' @ show_nat (length (new_side (ph_lines h))) @ '' @@''"

definition hunk_lines :: "PatchHunk \<Rightarrow> string list" where
  "hunk_lines h = hunk_head h # concat (map body_lines (ph_lines h))"

definition old_name_line :: "FileStatus \<Rightarrow> string \<Rightarrow> string" where
  "old_name_line st p = ''--- '' @ (if st = FsAdded then dev_null else quote (''a/'' @ p))"

definition new_name_line :: "FileStatus \<Rightarrow> string \<Rightarrow> string" where
  "new_name_line st p = ''+++ '' @ (if st = FsDeleted then dev_null else quote (''b/'' @ p))"

definition git_line :: "string \<Rightarrow> string" where
  "git_line p = ''diff --git '' @ quote (''a/'' @ p) @ '' '' @ quote (''b/'' @ p)"

definition file_lines :: "ReviewFile \<Rightarrow> string list" where
  "file_lines rf =
     git_line (rf_path rf) # header_meta rf
     @ old_name_line (rf_status rf) (rf_path rf) # new_name_line (rf_status rf) (rf_path rf)
     # concat (map hunk_lines (pt_hunks (rf_patch_twin rf)))"

lemma unlines_concat: "unlines (concat xss) = concat (map unlines xss)"
  by (induction xss) auto

lemma render_hunk_lines:
  assumes "ph_old_start h \<noteq> None" "ph_new_start h \<noteq> None"
  shows "render_hunk h = unlines (hunk_lines h)"
proof -
  have f: "filter (\<lambda>l. pl_kind l = LkContext \<or> pl_kind l = LkRemoved) ls = old_side ls"
    "filter (\<lambda>l. pl_kind l = LkContext \<or> pl_kind l = LkAdded) ls = new_side ls" for ls
    by (auto simp: old_side_def new_side_def is_old_side_def is_new_side_def intro!: filter_cong)
      (metis PatchLineKind.exhaust)+
  have l: "unlines (body_lines l) = render_line l" for l by (simp add: body_lines_def render_line_def)
  show ?thesis
    using assms by (auto simp: render_hunk_def hunk_lines_def hunk_head_def f unlines_concat l o_def)
qed

lemma plain_meta_no_move:
  "plain_meta st m \<Longrightarrow> strip_prefix ''rename from '' m = None \<and> strip_prefix ''copy from '' m = None
     \<and> \<not> starts_with ''rename '' m \<and> \<not> starts_with ''copy '' m \<and> \<not> starts_with ''Binary '' m \<and> \<not> starts_with ''GIT '' m"
  by (auto simp: plain_meta_def mode_line_def starts_with_iff strip_prefix_None strip_prefix_Some split: option.splits)

lemma find_map_all_None: "\<forall>x\<in>set xs. f x = None \<Longrightarrow> find_map f xs = None"
  by (simp add: find_map_None)

lemma plain_old_path: "plain_file rf \<Longrightarrow> old_path rf = None"
proof -
  assume "plain_file rf"
  then have m: "\<forall>m\<in>set (header_meta rf). plain_meta (rf_status rf) m"
    and e: "pt_metadata (rf_patch_twin rf) = header_meta rf
        @ replicate (eof_count (all_lines (pt_hunks (rf_patch_twin rf)))) eof_marker"
    by (simp_all add: plain_file_def)
  have "strip_prefix ''rename from '' x = None \<and> strip_prefix ''copy from '' x = None"
    if "x \<in> set (pt_metadata (rf_patch_twin rf))" for x
    using that m unfolding e by (auto simp: plain_meta_no_move eof_marker_def)
  then show "old_path rf = None"
    unfolding old_path_def by (intro find_map_all_None) (simp add: opt_or_def)
qed

lemma concat_filter_unlines:
  "concat (map (\<lambda>m. if P m then [] else m @ [LF]) ms) = unlines (filter (\<lambda>m. \<not> P m) ms)"
  by (induction ms) auto

lemma render_file_lines:
  assumes "plain_file rf"
    "\<forall>h\<in>set (pt_hunks (rf_patch_twin rf)). ph_old_start h \<noteq> None \<and> ph_new_start h \<noteq> None"
  shows "render_file rf = unlines (file_lines rf)"
proof -
  let ?t = "rf_patch_twin rf"
  have ne: "pt_hunks ?t \<noteq> []" "pt_binary_body ?t = []" using assms(1) by (simp_all add: plain_file_def)
  have mode: "rf_status rf = FsAdded \<Longrightarrow> \<exists>m\<in>set (pt_metadata ?t). starts_with ''new file mode '' m"
    "rf_status rf = FsDeleted \<Longrightarrow> \<exists>m\<in>set (pt_metadata ?t). starts_with ''deleted file mode '' m"
    using assms(1) by (auto simp: plain_file_def header_meta_def mode_line_def starts_with_def split: option.splits)
  have hs: "concat (map render_hunk (pt_hunks ?t)) = unlines (concat (map hunk_lines (pt_hunks ?t)))"
    unfolding unlines_concat using assms(2) render_hunk_lines by (simp add: o_def cong: map_cong)
  show ?thesis
    using ne mode plain_old_path [OF assms(1)] hs
    by (auto simp: render_file_def Let_def old_label_def file_lines_def git_line_def old_name_line_def
        new_name_line_def dev_null_def header_meta_def concat_filter_unlines)
qed

subsection \<open>Reading the header lines\<close>

definition sec_buf ::
  "string option \<Rightarrow> string option \<Rightarrow> nat \<Rightarrow> string option \<Rightarrow> string option \<Rightarrow> string list \<Rightarrow> PatchHunk list \<Rightarrow> bool \<Rightarrow> bool \<Rightarrow> FileBuf"
  where
  "sec_buf gold gnew i old new ms hs await past =
     \<lparr>fb_git_old = gold, fb_git_new = gnew, fb_old_raw = old, fb_new_raw = new,
      fb_rename_from = None, fb_rename_to = None, fb_metadata = ms, fb_binary_body = [],
      fb_in_binary_body = False, fb_hunks = hs, fb_lossy_lines = 0,
      fb_awaiting_new_header = await, fb_past_headers = past, fb_header_ended = False,
      fb_eof_old = None, fb_eof_new = None, fb_git = True, fb_p0 = False, fb_old_epoch = False,
      fb_traditional_path = None, fb_first_line = i\<rparr>"

definition ready :: "ReviewFile list \<Rightarrow> nat \<Rightarrow> Parser \<Rightarrow> bool" where
  "ready fs n p \<longleftrightarrow>
     pr_hunk p = None \<and> \<not> pr_p0 p \<and> pr_unterminated_last p = None \<and> pr_next_hunk_id p = n
     \<and> (\<forall>k. \<exists>q. flush_file (p\<lparr>pr_last_line := k\<rparr>) = Inr q \<and> pr_files q = fs)"

lemma quote_starts:
  "starts_with [DQUOTE] (quote p) \<longleftrightarrow> (\<exists>b\<in>set p. needs_quoting b)"
proof (cases "\<exists>b\<in>set p. needs_quoting b")
  case False
  then show ?thesis using quote_not_quoted [OF False] by (simp add: quote_def)
qed (simp add: quote_def)

lemma quote_clean: "TAB \<notin> set (quote p)" "CR \<notin> set (quote p)" "LF \<notin> set (quote p)"
  using quote_printable [of TAB p] quote_printable [of CR p] quote_printable [of LF p] by auto

lemma plain_prefixed:
  assumes "plain_path p"
  shows "utf8_valid (''a/'' @ p)" "utf8_valid (''b/'' @ p)" "NUL \<notin> set (''a/'' @ p)" "NUL \<notin> set (''b/'' @ p)"
    "p_name (''a/'' @ p) False = p" "p_name (''b/'' @ p) False = p"
proof -
  have "utf8_valid ''a/''" "utf8_valid ''b/''" by code_simp+
  with assms show "utf8_valid (''a/'' @ p)" "utf8_valid (''b/'' @ p)"
    by (simp_all only: utf8_valid_append plain_path_def simp_thms)
qed (use assms in \<open>simp_all add: plain_path_def p_name_def squash_id\<close>)

lemma plain_no_quoting [simp]:
  "\<not> needs_quoting (CHR ''a'')" "\<not> needs_quoting (CHR ''b'')" "\<not> needs_quoting SLASH"
  by (simp_all add: needs_quoting_def)

lemma prefixed_quoting: "(\<exists>b\<in>set (c # SLASH # p). needs_quoting b) \<longleftrightarrow> (\<exists>b\<in>set p. needs_quoting b)"
  if "c = CHR ''a'' \<or> c = CHR ''b''"
  using that by auto

lemma trim_start_quoted: "trim_start (SPACE # DQUOTE # s) = DQUOTE # s"
proof -
  have "utf8_head (SPACE # DQUOTE # s) = (True, 1)" "utf8_head (DQUOTE # s) = (True, 1)"
    by (simp_all add: utf8_width_def)
  then show ?thesis
    by (simp add: trim_start.simps [of "SPACE # DQUOTE # s"] trim_start.simps [of "DQUOTE # s"]
        utf8_code_def is_whitespace_def)
qed

lemma header_name_quote:
  assumes "utf8_valid q" "NUL \<notin> set q" "q = CHR ''a'' # SLASH # p \<or> q = CHR ''b'' # SLASH # p"
  shows "header_name (quote q) False = Some q"
proof -
  have t: "takeWhile (\<lambda>c. c \<noteq> TAB) (quote q) = quote q" "takeWhile (\<lambda>c. c \<noteq> TAB \<and> c \<noteq> CR) (quote q) = quote q"
    using quote_clean [of q] by (auto simp: takeWhile_eq_all_conv)
  have "\<not> starts_with dev_null (quote q)"
    using assms(3) by (cases "\<exists>b\<in>set q. needs_quoting b") (auto simp: quote_def dev_null_def)
  then have "strip_prefix dev_null (quote q) = None" by (simp add: starts_with_def)
  then show ?thesis by (simp add: header_name_def t decode_path_quote [OF assms(1,2)])
qed

lemma header_name_dev_null: "header_name dev_null b = Some dev_null"
  by (simp add: header_name_def dev_null_def)

lemma git_header_names_plain:
  assumes "plain_path p"
  shows "\<exists>go gn. git_header_names (quote (''a/'' @ p) @ '' '' @ quote (''b/'' @ p)) False i = Inr (Some (go, gn))"
proof (cases "\<exists>b\<in>set p. needs_quoting b")
  case True
  then have qa: "\<exists>b\<in>set (''a/'' @ p). needs_quoting b" and qb: "\<exists>b\<in>set (''b/'' @ p). needs_quoting b" by auto
  have "starts_with [DQUOTE] (quote (''a/'' @ p) @ '' '' @ quote (''b/'' @ p))"
    using qa by (simp add: quote_def)
  moreover have "trim_start ('' '' @ quote (''b/'' @ p)) = quote (''b/'' @ p)"
    using qb by (simp add: quote_def trim_start_quoted)
  ultimately show ?thesis
    using decode_quote_prefix [OF plain_prefixed(1) [OF assms] qa]
      decode_path_quote [OF plain_prefixed(2,4) [OF assms]]
    by (simp add: git_header_names_def)
next
  case False
  then have q: "quote (''a/'' @ p) = ''a/'' @ p" "quote (''b/'' @ p) = ''b/'' @ p"
    using prefixed_quoting [of "CHR ''a''" p] prefixed_quoting [of "CHR ''b''" p] by (simp_all add: quote_def)
  have n: "SPACE \<notin> set p" "TAB \<notin> set p" "DQUOTE \<notin> set p"
    using False needs_quoting_def [of SPACE] needs_quoting_def [of TAB] needs_quoting_def [of DQUOTE] by auto
  have "same_name_halves (''a'' @ SLASH # p @ SPACE # ''b'' @ SLASH # p) False = Some p"
    by (rule same_name_halves_complete) (use n in simp_all)
  moreover have "decode_path p = Some p"
    using quote_not_quoted [OF False] by (simp add: decode_path_def)
  ultimately show ?thesis unfolding q by (simp add: git_header_names_def)
qed

lemma feed_header:
  assumes "pr_hunk p = None" "\<not> starts_with [BACKSLASH] line" "pr_unterminated_last p = None"
    "dispatch_non_body (p\<lparr>pr_last_line := i, pr_can_mark_eof := False, pr_hunk_may_open := False\<rparr>)
       line i (pr_hunk_may_open p) = Inr (Interpreted, q)" "pr_unterminated_last q = None"
  shows "feed p line i False = Inr q"
  using assms by (simp add: feed_def Let_def feed_non_body_def)

lemma feed_git_line:
  assumes "ready fs n p" "plain_path path"
  shows "\<exists>q go gn. feed p (git_line path) i False = Inr q
    \<and> secstate fs n (sec_buf go gn i None None [] [] False False) False False None q"
proof -
  let ?p1 = "p\<lparr>pr_last_line := i, pr_can_mark_eof := False, pr_hunk_may_open := False\<rparr>"
  let ?rest = "quote (''a/'' @ path) @ '' '' @ quote (''b/'' @ path)"
  obtain q0 where q0: "flush_file (p\<lparr>pr_last_line := i\<rparr>) = Inr q0" "pr_files q0 = fs"
    using assms(1) by (auto simp: ready_def)
  have fl: "flush_file ?p1 = Inr (q0\<lparr>pr_can_mark_eof := False, pr_hunk_may_open := False\<rparr>)"
    using q0(1) by (cases "pr_file p") (auto simp: flush_file_def res_elims)
  have same: "pr_hunk q0 = None" "\<not> pr_p0 q0" "pr_unterminated_last q0 = None" "pr_next_hunk_id q0 = n"
    using q0(1) assms(1) by (auto simp: flush_file_def res_elims ready_def split: option.splits)
  obtain go gn where names: "git_header_names ?rest False i = Inr (Some (go, gn))"
    using git_header_names_plain [OF assms(2)] by blast
  let ?q = "q0\<lparr>pr_can_mark_eof := False, pr_hunk_may_open := False,
      pr_file := Some (sec_buf (Some go) (Some gn) i None None [] [] False False)\<rparr>"
  have st: "start_git_file ?p1 ?rest i = Inr ?q"
    using assms(1) fl names same
    by (simp add: start_git_file_def close_hunk_def ready_def sec_buf_def FileBuf_default_def)
  have "dispatch_non_body ?p1 (git_line path) i (pr_hunk_may_open p) = Inr (Interpreted, ?q)"
    using st by (simp add: dispatch_non_body_def git_line_def)
  then have "feed p (git_line path) i False = Inr ?q"
    using assms(1) same by (intro feed_header) (simp_all add: ready_def git_line_def)
  moreover have "secstate fs n (sec_buf (Some go) (Some gn) i None None [] [] False False) False False None ?q"
    using same q0(2) by (simp add: secstate_def sec_buf_def fcore_def)
  ultimately show ?thesis by blast
qed

lemma plain_meta_taken:
  assumes "plain_meta st m"
  shows "is_meta_line m" "\<not> bad_mode_line m" "m \<noteq> ''GIT binary patch''"
    "\<not> starts_with ''diff --cc '' m" "\<not> starts_with ''diff --combined '' m" "strip_prefix ''diff --git '' m = None"
    "strip_prefix ''--- '' m = None" "strip_prefix ''+++ '' m = None" "\<not> starts_with ''@@'' m"
    "\<not> starts_with [BACKSLASH] m" "strip_prefix ''rename to '' m = None" "strip_prefix ''copy to '' m = None"
  using assms
  by (auto simp: plain_meta_def mode_line_def is_meta_line_def META_PREFIXES_def bad_mode_line_def
      MODE_PREFIXES_def starts_with_iff strip_prefix_None strip_prefix_Some split: option.splits)

lemma try_metadata_plain:
  assumes "plain_meta st m" "\<not> fb_past_headers f" "\<not> fb_header_ended f"
  shows "try_metadata_file f m i = Inr (Some (push_meta m f))"
proof -
  have n: "\<not> starts_with ''rename old '' m" "\<not> starts_with ''rename new '' m"
    using plain_meta_no_move [OF assms(1)] by (auto simp: starts_with_iff)
  show ?thesis
    using plain_meta_no_move [OF assms(1)] plain_meta_taken [OF assms(1)] assms(2,3) n
    by (simp add: try_metadata_file_def opt_or_def)
qed

lemma feed_meta_line:
  assumes s: "secstate fs n (sec_buf go gn k None None ms [] False False) False False None p"
    and m: "plain_meta st m"
  shows "\<exists>q. feed p m i False = Inr q
    \<and> secstate fs n (sec_buf go gn k None None (ms @ [m]) [] False False) False False None q"
proof -
  obtain f where f: "pr_file p = Some f" "fcore f = sec_buf go gn k None None ms [] False False"
      "fb_eof_old f = None" "fb_eof_new f = None"
    using s by (auto simp: secstate_def)
  then have f': "f = sec_buf go gn k None None ms [] False False"
    by (cases f) (simp add: fcore_def sec_buf_def)
  have p: "pr_hunk p = None" "pr_unterminated_last p = None" using s by (simp_all add: secstate_def)
  have cr: "trim_end_char CR m = m" using m by (simp add: plain_meta_def)
  let ?q = "p\<lparr>pr_last_line := i, pr_can_mark_eof := False, pr_hunk_may_open := True,
      pr_file := Some (sec_buf go gn k None None (ms @ [m]) [] False False)\<rparr>"
  have "try_metadata_file f m i = Inr (Some (push_meta m f))"
    using try_metadata_plain [OF m] by (simp add: f' sec_buf_def)
  then have "dispatch_non_body (p\<lparr>pr_last_line := i, pr_can_mark_eof := False, pr_hunk_may_open := False\<rparr>)
       m i (pr_hunk_may_open p) = Inr (Interpreted, ?q)"
    using f(1) plain_meta_taken [OF m] cr
    by (simp add: dispatch_non_body_def dispatch_header_def file_is_def try_metadata_def f' push_meta_def sec_buf_def)
  then have "feed p m i False = Inr ?q"
    using p plain_meta_taken [OF m] by (intro feed_header) simp_all
  moreover have "secstate fs n (sec_buf go gn k None None (ms @ [m]) [] False False) False False None ?q"
    using s by (auto simp: secstate_def sec_buf_def fcore_def)
  ultimately show ?thesis by blast
qed

lemma feed_meta_lines:
  assumes "secstate fs n (sec_buf go gn k None None ms [] False False) False False None p"
    "\<forall>m\<in>set ns. plain_meta st m"
  shows "\<exists>q. feed_lines i ns p = Inr q
    \<and> secstate fs n (sec_buf go gn k None None (ms @ ns) [] False False) False False None q"
  using assms
proof (induction ns arbitrary: i ms p)
  case (Cons m ns)
  obtain q where q: "feed p m (i + 1) False = Inr q"
      "secstate fs n (sec_buf go gn k None None (ms @ [m]) [] False False) False False None q"
    using feed_meta_line [OF Cons.prems(1)] Cons.prems(2) by force
  show ?case using Cons.IH [OF q(2), of "i + 1"] Cons.prems(2) q(1) by simp
qed simp

definition old_name :: "FileStatus \<Rightarrow> string \<Rightarrow> string" where
  "old_name st p = (if st = FsAdded then dev_null else ''a/'' @ p)"

definition new_name :: "FileStatus \<Rightarrow> string \<Rightarrow> string" where
  "new_name st p = (if st = FsDeleted then dev_null else ''b/'' @ p)"

lemma name_lines:
  assumes "plain_path p"
  shows "header_name (if st = FsAdded then dev_null else quote (''a/'' @ p)) False = Some (old_name st p)"
    "header_name (if st = FsDeleted then dev_null else quote (''b/'' @ p)) False = Some (new_name st p)"
  using header_name_quote [OF plain_prefixed(1,3) [OF assms]] header_name_quote [OF plain_prefixed(2,4) [OF assms]]
  by (simp_all add: old_name_def new_name_def header_name_dev_null)

lemma trim_end_clean: "c \<notin> set s \<Longrightarrow> trim_end_char c s = s"
  by (rule trim_end_char_id) (metis last_in_set)

lemma name_lines_clean:
  "trim_end_char CR (old_name_line st p) = old_name_line st p"
  "trim_end_char CR (new_name_line st p) = new_name_line st p"
  using quote_clean by (intro trim_end_clean; auto simp: old_name_line_def new_name_line_def dev_null_def)+

lemma feed_old_name:
  assumes s: "secstate fs n (sec_buf go gn k None None ms [] False False) False False None p"
    and path: "plain_path path"
  shows "\<exists>q. feed p (old_name_line st path) i False = Inr q
    \<and> secstate fs n (sec_buf go gn k (Some (old_name st path)) None ms [] True True) False False None q"
proof -
  obtain f where f: "pr_file p = Some f" "fcore f = sec_buf go gn k None None ms [] False False"
      "fb_eof_old f = None" "fb_eof_new f = None"
    using s by (auto simp: secstate_def)
  then have f': "f = sec_buf go gn k None None ms [] False False"
    by (cases f) (simp add: fcore_def sec_buf_def)
  have p: "pr_hunk p = None" "pr_unterminated_last p = None" using s by (simp_all add: secstate_def)
  let ?p1 = "p\<lparr>pr_last_line := i, pr_can_mark_eof := False, pr_hunk_may_open := False\<rparr>"
  let ?q = "?p1\<lparr>pr_file := Some (sec_buf go gn k (Some (old_name st path)) None ms [] True True)\<rparr>"
  have "on_old_header ?p1 (if st = FsAdded then dev_null else quote (''a/'' @ path)) b i = Inr ?q" for b
    using f(1) p name_lines(1) [OF path, of st] unfolding on_old_header_def
    by (simp add: close_hunk_def f' sec_buf_def)
  then have "dispatch_non_body ?p1 (old_name_line st path) i (pr_hunk_may_open p) = Inr (Interpreted, ?q)"
    unfolding dispatch_non_body_def dispatch_header_def name_lines_clean
    using f(1) by (simp add: old_name_line_def file_is_def f' sec_buf_def)
  then have "feed p (old_name_line st path) i False = Inr ?q"
    using p by (intro feed_header) (simp_all add: old_name_line_def)
  moreover have "secstate fs n (sec_buf go gn k (Some (old_name st path)) None ms [] True True) False False None ?q"
    using s by (auto simp: secstate_def sec_buf_def fcore_def)
  ultimately show ?thesis by blast
qed

lemma feed_new_name:
  assumes s: "secstate fs n (sec_buf go gn k old None ms [] True True) False False None p"
    and path: "plain_path path"
  shows "\<exists>q. feed p (new_name_line st path) i False = Inr q \<and> pr_hunk_may_open q
    \<and> secstate fs n (sec_buf go gn k old (Some (new_name st path)) ms [] False True) False False None q"
proof -
  obtain f where f: "pr_file p = Some f" "fcore f = sec_buf go gn k old None ms [] True True"
      "fb_eof_old f = None" "fb_eof_new f = None"
    using s by (auto simp: secstate_def)
  then have f': "f = sec_buf go gn k old None ms [] True True"
    by (cases f) (simp add: fcore_def sec_buf_def)
  have p: "pr_hunk p = None" "pr_unterminated_last p = None" "\<not> pr_p0 p" using s by (simp_all add: secstate_def)
  let ?p1 = "p\<lparr>pr_last_line := i, pr_can_mark_eof := False, pr_hunk_may_open := False\<rparr>"
  let ?q = "?p1\<lparr>pr_p0 := False, pr_file := Some (sec_buf go gn k old (Some (new_name st path)) ms [] False True)\<rparr>"
  have "on_new_header ?p1 (if st = FsDeleted then dev_null else quote (''b/'' @ path)) b i = Inr ?q" for b
    using f(1) p name_lines(2) [OF path, of st] unfolding on_new_header_def
    by (simp add: f' sec_buf_def)
  then have "dispatch_non_body ?p1 (new_name_line st path) i (pr_hunk_may_open p)
      = Inr (Interpreted, ?q\<lparr>pr_hunk_may_open := True\<rparr>)"
    unfolding dispatch_non_body_def dispatch_header_def name_lines_clean
    using f(1) by (simp add: new_name_line_def file_is_def f' sec_buf_def)
  then have "feed p (new_name_line st path) i False = Inr (?q\<lparr>pr_hunk_may_open := True\<rparr>)"
    using p by (intro feed_header) (simp_all add: new_name_line_def)
  moreover have "secstate fs n (sec_buf go gn k old (Some (new_name st path)) ms [] False True) False False None
      (?q\<lparr>pr_hunk_may_open := True\<rparr>)"
    using s by (auto simp: secstate_def sec_buf_def fcore_def)
  ultimately show ?thesis by force
qed

subsection \<open>Reading the hunks\<close>

text \<open>What the round trip needs of a hunk: the starts and counts fit their fields, its lines are
  numbered from the starts, carry no replaced bytes and no line feed, and one of them is a change.\<close>

definition plain_hunk :: "PatchHunk \<Rightarrow> bool" where
  "plain_hunk h \<longleftrightarrow>
     (\<exists>os ns. ph_old_start h = Some os \<and> ph_new_start h = Some ns \<and> os \<le> u32_max \<and> ns \<le> u32_max
        \<and> hunk_numbered os ns (ph_lines h))
     \<and> length (old_side (ph_lines h)) \<le> u32_max \<and> length (new_side (ph_lines h)) \<le> u32_max
     \<and> (\<forall>l\<in>set (ph_lines h). LF \<notin> set (pl_text l) \<and> \<not> pl_lossy l)
     \<and> (\<exists>l\<in>set (ph_lines h). pl_kind l \<noteq> LkContext)"

definition head_of :: "PatchHunk \<Rightarrow> HunkHeader" where
  "head_of h =
     \<lparr>hh_old_start = the (ph_old_start h), hh_old_count = length (old_side (ph_lines h)),
      hh_new_start = the (ph_new_start h), hh_new_count = length (new_side (ph_lines h)), hh_section = None\<rparr>"

lemma parse_hunk_head:
  assumes "plain_hunk h" shows "parse_hunk_header (hunk_head h) = Some (head_of h)"
proof -
  have "is_range (show_nat (the (ph_old_start h)) @ '','' @ show_nat (length (old_side (ph_lines h))))
      (the (ph_old_start h)) (length (old_side (ph_lines h)))"
    "is_range (show_nat (the (ph_new_start h)) @ '','' @ show_nat (length (new_side (ph_lines h))))
      (the (ph_new_start h)) (length (new_side (ph_lines h)))"
    using assms by (auto simp only: plain_hunk_def option.sel intro!: is_range_show)
  then have "hunk_header_grammar (hunk_head h) (head_of h)"
    unfolding hunk_header_grammar_def hunk_head_def head_of_def
    by (intro exI [where x = "[]"] exI conjI) (auto simp: heading_of_def)
  then show ?thesis by (rule parse_hunk_header_complete)
qed

lemma hunk_head_clean: "trim_end_char CR (hunk_head h) = hunk_head h" "LF \<notin> set (hunk_head h)"
proof -
  have d: "CR \<notin> set (show_nat n)" "LF \<notin> set (show_nat n)" for n
    using show_nat_digits [of n] by (auto simp: is_ascii_digit_def)
  then show "trim_end_char CR (hunk_head h) = hunk_head h" by (intro trim_end_clean) (simp add: hunk_head_def)
  show "LF \<notin> set (hunk_head h)" using d by (simp add: hunk_head_def)
qed

lemma feed_hunk_head:
  assumes s: "secstate fs n F eo en None p" and h: "plain_hunk h" and may: "pr_hunk_may_open p"
    and F: "fb_past_headers F" "\<not> fb_awaiting_new_header F" "\<not> fb_in_binary_body F"
  shows "\<exists>q. feed p (hunk_head h) i False = Inr q
    \<and> secstate fs (n + 1) F eo en (Some (opened_hunk n (head_of h))) q"
proof -
  obtain f where f: "pr_file p = Some f" "fcore f = F" "(fb_eof_old f \<noteq> None) = eo" "(fb_eof_new f \<noteq> None) = en"
    using s by (auto simp: secstate_def)
  have ff: "fb_past_headers f" "\<not> fb_awaiting_new_header f" "\<not> fb_in_binary_body f"
    using F unfolding f(2) [symmetric] by (simp_all add: fcore_def)
  then have upd: "f\<lparr>fb_past_headers := True\<rparr> = f" by (cases f) simp
  have p: "pr_hunk p = None" "pr_unterminated_last p = None" "pr_next_hunk_id p = n" using s by (simp_all add: secstate_def)
  let ?p1 = "p\<lparr>pr_last_line := i, pr_can_mark_eof := False, pr_hunk_may_open := False\<rparr>"
  let ?q = "?p1\<lparr>pr_file := Some f, pr_next_hunk_id := n + 1, pr_hunk := Some (opened_hunk n (head_of h))\<rparr>"
  have "open_hunk ?p1 (hunk_head h) i True = Inr ?q"
    unfolding open_hunk_def by (simp add: parse_hunk_head [OF h] f(1) upd p opened_hunk_def)
  then have "dispatch_non_body ?p1 (hunk_head h) i (pr_hunk_may_open p) = Inr (Interpreted, ?q)"
    unfolding dispatch_non_body_def dispatch_header_def hunk_head_clean
    using f(1) ff may by (simp add: hunk_head_def file_is_def)
  then have "feed p (hunk_head h) i False = Inr ?q"
    using p by (intro feed_header) (simp_all add: hunk_head_def)
  moreover have "secstate fs (n + 1) F eo en (Some (opened_hunk n (head_of h))) ?q"
    using s f by (auto simp: secstate_def)
  ultimately show ?thesis by blast
qed

lemma numbered_fits:
  assumes "hunk_numbered os ns ls" "\<forall>l\<in>set ls. \<not> pl_lossy l"
    "hb_old_line h = min os u32_max" "hb_new_line h = min ns u32_max"
    "hb_rem_old h = length (old_side ls)" "hb_rem_new h = length (new_side ls)"
  shows "all_fit h ls"
  using assms
proof (induction ls arbitrary: h os ns)
  case (Cons l ls)
  define os' where "os' = (if is_old_side l then Suc os else os)"
  define ns' where "ns' = (if is_new_side l then Suc ns else ns)"
  have fit: "fits h l" using Cons.prems
    by (cases "pl_kind l") (simp_all add: fits_def is_old_side_def is_new_side_def hunk_numbered_def upt_conv_Cons del: upt_Suc)
  have "hunk_numbered os' ns' ls"
    using Cons.prems(1)
    by (cases "pl_kind l") (simp_all add: os'_def ns'_def is_old_side_def is_new_side_def hunk_numbered_def
        upt_conv_Cons map_Suc_upt [symmetric] o_def del: upt_Suc)
  then have "all_fit (push_line h l) ls"
    using Cons.prems
    by (intro Cons.IH) (auto simp: os'_def ns'_def push_line_def is_old_side_def is_new_side_def sat_add32_min [simplified])
  with fit show ?case by simp
qed simp

definition ends_old :: "PatchLine list \<Rightarrow> bool" where
  "ends_old ls \<longleftrightarrow> (\<exists>l\<in>set ls. pl_no_newline l \<and> is_old_side l)"

definition ends_new :: "PatchLine list \<Rightarrow> bool" where
  "ends_new ls \<longleftrightarrow> (\<exists>l\<in>set ls. pl_no_newline l \<and> is_new_side l)"

definition side_free :: "bool \<Rightarrow> bool \<Rightarrow> PatchLine list \<Rightarrow> bool" where
  "side_free eo en ls \<longleftrightarrow> (eo \<longrightarrow> (\<forall>l\<in>set ls. \<not> is_old_side l)) \<and> (en \<longrightarrow> (\<forall>l\<in>set ls. \<not> is_new_side l))"

lemma eof_ordered_append:
  "eof_ordered (a @ b) \<longleftrightarrow> eof_ordered a \<and> eof_ordered b \<and> side_free (ends_old a) (ends_new a) b"
  by (auto simp: eof_ordered_def sorted_wrt_append side_free_def ends_old_def ends_new_def shares_side_def)

lemma side_free_append:
  "side_free eo en (a @ b) \<longleftrightarrow> side_free eo en a \<and> side_free eo en b"
  "side_free (eo \<or> eo') (en \<or> en') b \<longleftrightarrow> side_free eo en b \<and> side_free eo' en' b"
  by (auto simp: side_free_def)

lemma closed_opened:
  "plain_hunk h \<Longrightarrow> closed_hunk (push_lines (opened_hunk (ph_id h) (head_of h)) (ph_lines h)) = drop_heading h"
  by (cases h) (auto simp: plain_hunk_def closed_hunk_def push_lines_fields opened_hunk_def head_of_def drop_heading_def)

lemma feed_hunk_lines:
  assumes s: "secstate fs n F eo en None p" and h: "plain_hunk h" "ph_id h = n" and may: "pr_hunk_may_open p"
    and F: "fb_past_headers F" "\<not> fb_awaiting_new_header F" "\<not> fb_in_binary_body F"
    and eof: "eof_ordered (ph_lines h)" "side_free eo en (ph_lines h)"
  shows "\<exists>q. feed_lines i (hunk_lines h) p = Inr q
    \<and> secstate fs (n + 1) (with_body F [drop_heading h] (eof_count (ph_lines h)))
        (eo \<or> ends_old (ph_lines h)) (en \<or> ends_new (ph_lines h)) None q
    \<and> pr_hunk_may_open q"
proof -
  obtain q where q: "feed p (hunk_head h) (i + 1) False = Inr q"
      "secstate fs (n + 1) F eo en (Some (opened_hunk n (head_of h))) q"
    using feed_hunk_head [OF s h(1) may F] by blast
  obtain os ns where n: "hunk_numbered os ns (ph_lines h)" "ph_old_start h = Some os" "ph_new_start h = Some ns"
      "os \<le> u32_max" "ns \<le> u32_max"
    using h(1) by (auto simp: plain_hunk_def)
  have fit: "all_fit (opened_hunk n (head_of h)) (ph_lines h)"
    using n(1) by (rule numbered_fits) (use h(1) n in \<open>auto simp: plain_hunk_def opened_hunk_def head_of_def\<close>)
  have ne: "ph_lines h \<noteq> []" and ch: "\<exists>x\<in>set (hb_lines (opened_hunk n (head_of h)) @ ph_lines h). pl_kind x \<noteq> LkContext"
    using h(1) by (auto simp: plain_hunk_def)
  have rem: "hb_rem_old (opened_hunk n (head_of h)) = length (old_side (ph_lines h))"
    "hb_rem_new (opened_hunk n (head_of h)) = length (new_side (ph_lines h))"
    by (simp_all add: opened_hunk_def head_of_def)
  show ?thesis
    using feed_body_run [OF q(2) fit ne eof(1) _ _ ch rem, of "i + 1"] eof(2) q(1)
      closed_opened [OF h(1)] h(2)
    by (auto simp: hunk_lines_def side_free_def ends_old_def ends_new_def)
qed

lemma feed_hunks:
  assumes "secstate fs n F eo en None p" "\<forall>h\<in>set hs. plain_hunk h" "map ph_id hs = [n..<n + length hs]"
    "pr_hunk_may_open p" "fb_past_headers F" "\<not> fb_awaiting_new_header F" "\<not> fb_in_binary_body F"
    "eof_ordered (all_lines hs)" "side_free eo en (all_lines hs)"
  shows "\<exists>q. feed_lines i (concat (map hunk_lines hs)) p = Inr q
    \<and> (\<exists>eo' en'. secstate fs (n + length hs) (with_body F (map drop_heading hs) (eof_count (all_lines hs))) eo' en' None q)"
  using assms
proof (induction hs arbitrary: n F eo en p i)
  case Nil
  have "F\<lparr>fb_hunks := fb_hunks F, fb_metadata := fb_metadata F\<rparr> = F" by (cases F) simp
  with Nil show ?case by (auto simp: all_lines_def eof_count_def with_body_def)
next
  case (Cons h hs)
  have al: "all_lines (h # hs) = ph_lines h @ all_lines hs" by (simp add: all_lines_def)
  have eof: "eof_ordered (ph_lines h)" "eof_ordered (all_lines hs)"
      "side_free (ends_old (ph_lines h)) (ends_new (ph_lines h)) (all_lines hs)"
      "side_free eo en (ph_lines h)" "side_free eo en (all_lines hs)"
    using Cons.prems(8,9) unfolding al eof_ordered_append side_free_append by auto
  have ids: "ph_id h = n" "map ph_id hs = [n + 1..<n + 1 + length hs]"
    using Cons.prems(3) by (simp_all add: upt_conv_Cons del: upt_Suc)
  obtain q where q: "feed_lines i (hunk_lines h) p = Inr q"
      "secstate fs (n + 1) (with_body F [drop_heading h] (eof_count (ph_lines h)))
        (eo \<or> ends_old (ph_lines h)) (en \<or> ends_new (ph_lines h)) None q" "pr_hunk_may_open q"
    using feed_hunk_lines [OF Cons.prems(1) _ ids(1) Cons.prems(4-7) eof(1,4)] Cons.prems(2) by force
  have "\<exists>q'. feed_lines (i + length (hunk_lines h)) (concat (map hunk_lines hs)) q = Inr q'
    \<and> (\<exists>eo' en'. secstate fs (n + 1 + length hs)
         (with_body (with_body F [drop_heading h] (eof_count (ph_lines h))) (map drop_heading hs) (eof_count (all_lines hs)))
         eo' en' None q')"
    using q(2) _ ids(2) q(3)
    by (rule Cons.IH) (use Cons.prems(2,5-7) eof in \<open>simp_all add: with_body_def side_free_append\<close>)
  then show ?case
    using q(1) unfolding with_body_simps al by (simp add: feed_lines_append eof_count_def)
qed

subsection \<open>Ending the section\<close>

lemma metadata_says_plain:
  assumes ms: "\<forall>m\<in>set ms. plain_meta st m" and f: "fb_metadata f = ms @ replicate k eof_marker"
  shows "\<not> metadata_says f ''rename from ''" "\<not> metadata_says f ''rename to ''"
    "\<not> metadata_says f ''copy from ''" "\<not> metadata_says f ''copy to ''"
    "\<not> metadata_says f ''Binary files ''" "\<not> metadata_says f ''GIT binary patch''"
proof -
  have no: "\<not> starts_with ''rename '' m \<and> \<not> starts_with ''copy '' m \<and> \<not> starts_with ''Binary '' m \<and> \<not> starts_with ''GIT '' m"
    if "m \<in> set (fb_metadata f)" for m
    using that ms unfolding f by (auto simp: plain_meta_no_move eof_marker_def)
  show "\<not> metadata_says f ''rename from ''" "\<not> metadata_says f ''rename to ''"
    "\<not> metadata_says f ''copy from ''" "\<not> metadata_says f ''copy to ''"
    "\<not> metadata_says f ''Binary files ''" "\<not> metadata_says f ''GIT binary patch''"
    using no by (auto simp: metadata_says_def starts_with_iff)
qed

lemma metadata_says_mode:
  assumes ms: "\<forall>m\<in>set ms. plain_meta st m" and f: "fb_metadata f = ms @ replicate k eof_marker"
  shows "metadata_says f ''new file mode '' \<Longrightarrow> st = FsAdded"
    "metadata_says f ''deleted file mode '' \<Longrightarrow> st = FsDeleted"
    "\<exists>m\<in>set ms. mode_line ''new file mode '' m \<Longrightarrow> metadata_says f ''new file mode ''"
    "\<exists>m\<in>set ms. mode_line ''deleted file mode '' m \<Longrightarrow> metadata_says f ''deleted file mode ''"
proof -
  have e: "\<not> starts_with ''new file mode '' eof_marker" "\<not> starts_with ''deleted file mode '' eof_marker"
    by (simp_all add: eof_marker_def)
  have p: "plain_meta st m \<Longrightarrow> starts_with ''new file mode '' m \<Longrightarrow> st = FsAdded"
    "plain_meta st m \<Longrightarrow> starts_with ''deleted file mode '' m \<Longrightarrow> st = FsDeleted" for m
    by (auto simp: plain_meta_def mode_line_def starts_with_iff strip_prefix_Some split: option.splits)
  show "metadata_says f ''new file mode '' \<Longrightarrow> st = FsAdded"
    "metadata_says f ''deleted file mode '' \<Longrightarrow> st = FsDeleted"
    using e p ms by (auto simp: metadata_says_def f)
  show "\<exists>m\<in>set ms. mode_line ''new file mode '' m \<Longrightarrow> metadata_says f ''new file mode ''"
    "\<exists>m\<in>set ms. mode_line ''deleted file mode '' m \<Longrightarrow> metadata_says f ''deleted file mode ''"
    by (auto simp: metadata_says_def f mode_line_def starts_with_def split: option.splits)
qed

lemma declared_old_ok_plain:
  "\<forall>m\<in>set ms. strip_prefix ''rename from '' m = None \<and> strip_prefix ''copy from '' m = None \<Longrightarrow>
   declared_old_ok f d ms"
  by (induction ms) (auto simp: opt_or_def)

lemma names_distinct [simp]: "CHR ''a'' # SLASH # p \<noteq> dev_null" "CHR ''b'' # SLASH # p \<noteq> dev_null"
  by (simp_all add: dev_null_def)

definition plain_section :: "FileStatus \<Rightarrow> string \<Rightarrow> string list \<Rightarrow> nat \<Rightarrow> FileBuf \<Rightarrow> bool" where
  "plain_section st path ms k f \<longleftrightarrow>
     fb_old_raw f = Some (old_name st path) \<and> fb_new_raw f = Some (new_name st path)
     \<and> fb_rename_from f = None \<and> fb_rename_to f = None \<and> fb_traditional_path f = None
     \<and> fb_metadata f = ms @ replicate k eof_marker \<and> fb_binary_body f = [] \<and> fb_lossy_lines f = 0
     \<and> \<not> fb_awaiting_new_header f \<and> fb_git f \<and> \<not> fb_p0 f \<and> fb_hunks f \<noteq> []"

lemma plain_section_resolves:
  assumes f: "plain_section st path ms k f" and path: "plain_path path"
    and ms: "\<forall>m\<in>set ms. plain_meta st m"
    and st: "st = FsModified \<or> (st = FsAdded \<and> (\<exists>m\<in>set ms. mode_line ''new file mode '' m))
        \<or> (st = FsDeleted \<and> (\<exists>m\<in>set ms. mode_line ''deleted file mode '' m))"
  shows "resolve_status f = st" "resolve_path f = path"
proof -
  have meta: "fb_metadata f = ms @ replicate k eof_marker" using f by (simp add: plain_section_def)
  note says = metadata_says_plain [OF ms meta] metadata_says_mode [OF ms meta]
  have "metadata_says f ''new file mode '' \<longleftrightarrow> st = FsAdded" "metadata_says f ''deleted file mode '' \<longleftrightarrow> st = FsDeleted"
    using says(7-10) st by auto
  then show "resolve_status f = st"
    using f says(1-6) st
    by (auto simp: resolve_status_def Let_def plain_section_def old_name_def new_name_def)
  show "resolve_path f = path"
    using f plain_prefixed(5,6) [OF path]
    by (auto simp: resolve_path_def plain_section_def raw_side_def new_name_def old_name_def opt_or_def
        split: if_splits)
qed

lemma plain_section_flush:
  assumes f: "plain_section st path ms k f" and path: "plain_path path"
    and ms: "\<forall>m\<in>set ms. plain_meta st m"
    and st: "st = FsModified \<or> (st = FsAdded \<and> (\<exists>m\<in>set ms. mode_line ''new file mode '' m))
        \<or> (st = FsDeleted \<and> (\<exists>m\<in>set ms. mode_line ''deleted file mode '' m))"
    and add: "st = FsAdded \<Longrightarrow> \<forall>l\<in>set (all_lines (fb_hunks f)). pl_kind l = LkAdded"
    and del: "st = FsDeleted \<Longrightarrow> \<forall>l\<in>set (all_lines (fb_hunks f)). pl_kind l = LkRemoved"
  shows "flush_file_buf f n = Inr (into_review_file f)"
proof -
  have meta: "fb_metadata f = ms @ replicate k eof_marker" using f by (simp add: plain_section_def)
  note says = metadata_says_plain [OF ms meta] and mode = metadata_says_mode [OF ms meta]
  note res = plain_section_resolves [OF f path ms st]
  have nomove: "\<not> is_moved f" using says by (simp add: is_moved_def)
  have cons: "\<not> inconsistent_headers f"
    unfolding inconsistent_headers_def Let_def res
    using f nomove mode st add del
    by (auto simp: plain_section_def old_name_def new_name_def)
  have move: "complete_move_headers f = Some f" using says by (simp add: complete_move_headers_def)
  have implied: "record_implied_rename f = Some f"
    using f plain_prefixed(5,6) [OF path]
    by (auto simp: record_implied_rename_def plain_section_def raw_side_def old_name_def new_name_def)
  have decl: "declared_old_ok f None (fb_metadata f)"
    by (rule declared_old_ok_plain) (use says in \<open>auto simp: metadata_says_def starts_with_def\<close>)
  have bin: "\<not> (\<exists>m\<in>set (fb_metadata f). m = ''GIT binary patch'' \<or> starts_with ''Binary files '' m)"
    using says(5,6) by (auto simp: metadata_says_def)
  have full: "refuse_empty_section f n = Inr ()"
    using f path res by (auto simp: refuse_empty_section_def plain_section_def plain_path_def only_an_unchanged_mode_def Let_def)
  show ?thesis
    using f nomove cons move implied decl bin full by (simp add: flush_file_buf_def plain_section_def)
qed

lemma plain_section_file:
  assumes "plain_section st path ms k f" "fb_hunks f = map drop_heading (pt_hunks (rf_patch_twin rf))"
    "plain_file rf" "st = rf_status rf" "path = rf_path rf" "ms = header_meta rf"
    "k = eof_count (all_lines (pt_hunks (rf_patch_twin rf)))"
  shows "into_review_file f = drop_headings rf"
proof -
  have st: "st = FsModified \<or> (st = FsAdded \<and> (\<exists>m\<in>set ms. mode_line ''new file mode '' m))
        \<or> (st = FsDeleted \<and> (\<exists>m\<in>set ms. mode_line ''deleted file mode '' m))"
    and ms: "\<forall>m\<in>set ms. plain_meta st m" and path: "plain_path path"
    using assms by (auto simp: plain_file_def)
  note res = plain_section_resolves [OF assms(1) path ms st]
  have meta: "fb_metadata f = pt_metadata (rf_patch_twin rf)"
    using assms(1,3,6,7) by (simp add: plain_file_def plain_section_def)
  have bin: "st \<noteq> FsBinaryChanged" using st by auto
  show ?thesis
    using assms(1,2,3) bin unfolding into_review_file_def Let_def res drop_headings_def meta
    by (cases rf; cases "rf_patch_twin rf") (auto simp: assms(4,5) plain_file_def plain_section_def)
qed

subsection \<open>The round trip\<close>

lemma secstate_ready:
  assumes s: "secstate fs n F eo en None p" and F: "F = with_body (sec_buf go gn k (Some (old_name st path))
        (Some (new_name st path)) ms [] False True) (map drop_heading (pt_hunks (rf_patch_twin rf))) c"
    and rf: "plain_file rf" "st = rf_status rf" "path = rf_path rf" "ms = header_meta rf"
      "c = eof_count (all_lines (pt_hunks (rf_patch_twin rf)))"
    and add: "st = FsAdded \<Longrightarrow> \<forall>l\<in>set (all_lines (pt_hunks (rf_patch_twin rf))). pl_kind l = LkAdded"
    and del: "st = FsDeleted \<Longrightarrow> \<forall>l\<in>set (all_lines (pt_hunks (rf_patch_twin rf))). pl_kind l = LkRemoved"
  shows "ready (fs @ [drop_headings rf]) n p"
proof -
  obtain f where f: "pr_file p = Some f" "fcore f = F" using s by (auto simp: secstate_def)
  have hs: "fb_hunks f = map drop_heading (pt_hunks (rf_patch_twin rf))"
    using arg_cong [OF f(2), of fb_hunks] by (simp add: fcore_def F with_body_def sec_buf_def)
  have sec: "plain_section st path ms c f"
    using f(2) hs rf(1) unfolding F
    by (cases f) (simp add: fcore_def with_body_def sec_buf_def plain_section_def plain_file_def)
  have conds: "st = FsModified \<or> (st = FsAdded \<and> (\<exists>m\<in>set ms. mode_line ''new file mode '' m))
        \<or> (st = FsDeleted \<and> (\<exists>m\<in>set ms. mode_line ''deleted file mode '' m))"
      "\<forall>m\<in>set ms. plain_meta st m" "plain_path path"
    using rf by (auto simp: plain_file_def)
  have "flush_file_buf f i = Inr (drop_headings rf)" for i
    using plain_section_flush [OF sec conds(3,2,1)] add del plain_section_file [OF sec hs rf]
    by (auto simp: hs all_lines_def drop_heading_def)
  then show ?thesis using s f(1) by (auto simp: ready_def secstate_def flush_file_def)
qed

definition plain_entry :: "ReviewFile \<Rightarrow> bool" where
  "plain_entry rf \<longleftrightarrow>
     plain_file rf \<and> (\<forall>h\<in>set (pt_hunks (rf_patch_twin rf)). plain_hunk h)
     \<and> eof_ordered (all_lines (pt_hunks (rf_patch_twin rf)))
     \<and> (rf_status rf = FsAdded \<longrightarrow> (\<forall>l\<in>set (all_lines (pt_hunks (rf_patch_twin rf))). pl_kind l = LkAdded))
     \<and> (rf_status rf = FsDeleted \<longrightarrow> (\<forall>l\<in>set (all_lines (pt_hunks (rf_patch_twin rf))). pl_kind l = LkRemoved))"

lemma feed_file:
  assumes r: "ready fs n p" and rf: "plain_entry rf"
    and ids: "map ph_id (pt_hunks (rf_patch_twin rf)) = [n..<n + length (pt_hunks (rf_patch_twin rf))]"
  shows "\<exists>q. feed_lines i (file_lines rf) p = Inr q
    \<and> ready (fs @ [drop_headings rf]) (n + length (pt_hunks (rf_patch_twin rf))) q"
proof -
  let ?path = "rf_path rf" and ?st = "rf_status rf" and ?hs = "pt_hunks (rf_patch_twin rf)" and ?ms = "header_meta rf"
  have path: "plain_path ?path" and meta: "\<forall>m\<in>set ?ms. plain_meta ?st m" and pf: "plain_file rf"
    using rf by (auto simp: plain_entry_def plain_file_def)
  obtain q1 go gn where q1: "feed p (git_line ?path) (i + 1) False = Inr q1"
      "secstate fs n (sec_buf go gn (i + 1) None None [] [] False False) False False None q1"
    using feed_git_line [OF r path] by blast
  obtain q2 where q2: "feed_lines (i + 1) ?ms q1 = Inr q2"
      "secstate fs n (sec_buf go gn (i + 1) None None ?ms [] False False) False False None q2"
    using feed_meta_lines [OF q1(2) meta] by auto
  define j where "j = i + 1 + length ?ms"
  obtain q3 where q3: "feed q2 (old_name_line ?st ?path) (j + 1) False = Inr q3"
      "secstate fs n (sec_buf go gn (i + 1) (Some (old_name ?st ?path)) None ?ms [] True True) False False None q3"
    using feed_old_name [OF q2(2) path] by blast
  obtain q4 where q4: "feed q3 (new_name_line ?st ?path) (j + 2) False = Inr q4" "pr_hunk_may_open q4"
      "secstate fs n (sec_buf go gn (i + 1) (Some (old_name ?st ?path)) (Some (new_name ?st ?path)) ?ms [] False True)
        False False None q4"
    using feed_new_name [OF q3(2) path] by blast
  obtain q5 eo en where q5: "feed_lines (j + 2) (concat (map hunk_lines ?hs)) q4 = Inr q5"
      "secstate fs (n + length ?hs) (with_body (sec_buf go gn (i + 1) (Some (old_name ?st ?path))
        (Some (new_name ?st ?path)) ?ms [] False True) (map drop_heading ?hs) (eof_count (all_lines ?hs))) eo en None q5"
    using feed_hunks [OF q4(3) _ ids q4(2), of "j + 2"] rf
    by (auto simp: plain_entry_def sec_buf_def side_free_def)
  have "ready (fs @ [drop_headings rf]) (n + length ?hs) q5"
    using q5(2) by (rule secstate_ready) (use rf in \<open>auto simp: plain_entry_def\<close>)
  moreover have "feed_lines i (file_lines rf) p = Inr q5"
    using q1(1) q2(1) q3(1) q4(1) q5(1) by (simp add: file_lines_def feed_lines_append j_def)
  ultimately show ?thesis by blast
qed

lemma feed_files:
  assumes "ready gs n p" "\<forall>rf\<in>set fs. plain_entry rf" "review_ids fs = [n..<n + length (review_ids fs)]"
  shows "\<exists>q m. feed_lines i (concat (map file_lines fs)) p = Inr q \<and> ready (gs @ map drop_headings fs) m q"
  using assms
proof (induction fs arbitrary: gs n p i)
  case (Cons rf fs)
  let ?k = "length (pt_hunks (rf_patch_twin rf))"
  have split: "review_ids (rf # fs) = map ph_id (pt_hunks (rf_patch_twin rf)) @ review_ids fs"
    by (simp add: review_ids_def)
  have app: "[n..<n + length (review_ids (rf # fs))] = [n..<n + ?k] @ [n + ?k..<n + ?k + length (review_ids fs)]"
    unfolding split by (simp only: length_append length_map add.assoc [symmetric])
      (rule upt_add_eq_append, simp)
  have eq: "map ph_id (pt_hunks (rf_patch_twin rf)) @ review_ids fs
      = [n..<n + ?k] @ [n + ?k..<n + ?k + length (review_ids fs)]"
    using Cons.prems(3) app split by metis
  have len: "length (map ph_id (pt_hunks (rf_patch_twin rf))) = length [n..<n + ?k]" by simp
  have ids: "map ph_id (pt_hunks (rf_patch_twin rf)) = [n..<n + ?k]"
    "review_ids fs = [n + ?k..<n + ?k + length (review_ids fs)]"
    using eq append_eq_append_conv [OF disjI1, OF len] by blast+
  obtain q where q: "feed_lines i (file_lines rf) p = Inr q" "ready (gs @ [drop_headings rf]) (n + ?k) q"
    using feed_file [OF Cons.prems(1) _ ids(1)] Cons.prems(2) by force
  show ?case
    using Cons.IH [OF q(2) _ ids(2), of "i + length (file_lines rf)"] Cons.prems(2) q(1)
    by (simp add: feed_lines_append)
qed auto

lemma body_lines_clean: "plain_hunk h \<Longrightarrow> l \<in> set (ph_lines h) \<Longrightarrow> x \<in> set (body_lines l) \<Longrightarrow> LF \<notin> set x"
  by (cases "pl_kind l") (auto simp: plain_hunk_def body_lines_def eof_marker_def split: if_splits)

lemma file_lines_clean:
  assumes "plain_entry rf" "x \<in> set (file_lines rf)"
  shows "LF \<notin> set x"
  using assms quote_clean body_lines_clean
  by (auto simp: plain_entry_def plain_file_def file_lines_def git_line_def old_name_line_def new_name_line_def
      dev_null_def plain_meta_def hunk_lines_def hunk_head_clean split: if_splits)

lemma plain_hunk_starts: "plain_hunk h \<Longrightarrow> ph_old_start h \<noteq> None \<and> ph_new_start h \<noteq> None"
  by (auto simp: plain_hunk_def)

lemma render_unified_lines:
  assumes "\<forall>rf\<in>set fs. plain_entry rf"
  shows "render_unified fs = unlines (concat (map file_lines fs))"
proof -
  have "render_file rf = unlines (file_lines rf)" if "rf \<in> set fs" for rf
    using assms that plain_hunk_starts by (intro render_file_lines) (auto simp: plain_entry_def)
  then have "map render_file fs = map (\<lambda>rf. unlines (file_lines rf)) fs" by simp
  then show ?thesis by (simp only: render_unified_def unlines_concat map_map o_def)
qed

lemma parse_render_unified:
  assumes fs: "\<forall>rf\<in>set fs. plain_entry rf" "review_ids fs = [0..<length (review_ids fs)]"
    and bytes: "length (render_unified fs) \<le> DEFAULT_BYTE_BUDGET"
    and budget: "length (split_terminator LF (render_unified fs)) \<le> DEFAULT_LINE_BUDGET"
  shows "parse (render_unified fs) = Inr (map drop_headings fs)"
proof -
  let ?ls = "concat (map file_lines fs)" and ?in = "render_unified fs"
  have r: "?in = unlines ?ls" using render_unified_lines [OF fs(1)] .
  have split: "split_terminator LF ?in = ?ls"
    unfolding r using fs(1) file_lines_clean by (intro split_terminator_unlines) auto
  have lines: "length ?ls \<le> DEFAULT_LINE_BUDGET" using budget unfolding split .
  have ended: "?in \<noteq> [] \<Longrightarrow> ends_with [LF] ?in"
    unfolding r by (rule unlines_ends) (metis unlines_simps(1))
  have init: "ready [] 0 (Parser_default\<lparr>pr_unterminated_last := None\<rparr>)"
    by (simp add: ready_def Parser_default_def flush_file_def)
  obtain q m where q: "feed_lines 0 ?ls (Parser_default\<lparr>pr_unterminated_last := None\<rparr>) = Inr q"
      "ready (map drop_headings fs) m q"
    using feed_files [OF init fs(1), of 0] fs(2) by auto
  have "finish q = Inr (map drop_headings fs)"
    using q(2) by (auto simp: ready_def finish_def close_hunk_def dest: spec [of _ "pr_last_line q"])
  then show ?thesis
    using bytes ended q(1) parse_loop_feed_lines [of 0 ?ls] lines
    by (auto simp add: parse_def parse_with_def ParseOptions_default_def parse_lines_def split)
qed

text \<open>A parsed review whose sections are plain satisfies the rest by the invariants of the parser.\<close>

lemma parsed_plain_hunk:
  assumes "hunk_ok L h" "\<forall>line\<in>L. LF \<notin> set line" "\<forall>l\<in>set (ph_lines h). \<not> pl_lossy l"
  shows "plain_hunk h"
proof -
  obtain hh where hh: "declared_by L hh" "ph_old_start h = Some (hh_old_start hh)"
      "ph_new_start h = Some (hh_new_start hh)" "PatchHunk_counts h = (hh_old_count hh, hh_new_count hh)"
      "hunk_numbered (hh_old_start hh) (hh_new_start hh) (ph_lines h)"
    using assms(1) by (auto simp: hunk_ok_def)
  obtain line where "parse_hunk_header line = Some hh" using hh(1) by (auto simp: declared_by_def)
  then have "hunk_header_grammar line hh" by (rule parse_hunk_header_sound)
  then have "hh_old_start hh \<le> u32_max" "hh_new_start hh \<le> u32_max" "hh_old_count hh \<le> u32_max" "hh_new_count hh \<le> u32_max"
    by (auto simp: hunk_header_grammar_def is_range_def)
  moreover have "LF \<notin> set (pl_text l)" if "l \<in> set (ph_lines h)" for l
  proof -
    have "line_from L l" using assms(1) that by (simp add: hunk_ok_def)
    then show ?thesis using assms(2) by (auto simp: line_from_def)
  qed
  ultimately show ?thesis
    using hh assms(1,3) by (auto simp: plain_hunk_def counts_sides hunk_ok_def)
qed

lemma parsed_plain_entry:
  assumes "parse_lines input len lossy opts = Inr fs" "rf \<in> set fs" "plain_file rf"
  shows "plain_entry rf"
proof -
  let ?L = "set (split_terminator LF input)"
  have h: "hunks_result ?L fs" and s: "sections_result ?L fs" and m: "marks_result ?L fs"
    using assms(1) by (rule hunk_machine.I_parse_lines, rule section_machine.I_parse_lines, rule mark_machine.I_parse_lines)
  have "twin_marks_ok rf" "section_ok rf" using s m assms(2) by (simp_all add: sections_result_def marks_result_def)
  moreover have "pt_lossy_lines (rf_patch_twin rf) = 0" using assms(3) by (simp add: plain_file_def)
  ultimately have eof: "eof_ordered (all_lines (pt_hunks (rf_patch_twin rf)))"
    and lossy: "\<forall>l\<in>set (all_lines (pt_hunks (rf_patch_twin rf))). \<not> pl_lossy l"
    by (auto simp: twin_marks_ok_def Let_def lossy_count_def u32_max_def min_def filter_empty_conv split: if_splits)
  have "plain_hunk x" if "x \<in> set (pt_hunks (rf_patch_twin rf))" for x
  proof (rule parsed_plain_hunk)
    show "hunk_ok ?L x" using h that assms(2) by (auto simp: hunks_result_def hunks_ok_def)
    show "\<forall>line\<in>?L. LF \<notin> set line" using split_terminator_no_sep by blast
    show "\<forall>l\<in>set (ph_lines x). \<not> pl_lossy l" using lossy that by (auto simp: all_lines_def)
  qed
  with eof \<open>section_ok rf\<close> assms(3) show ?thesis by (auto simp: plain_entry_def section_ok_def)
qed

lemma parsed_render_roundtrip:
  assumes "parse_lines input len lossy opts = Inr fs" "\<forall>rf\<in>set fs. plain_file rf"
    "length (render_unified fs) \<le> DEFAULT_BYTE_BUDGET"
    "length (split_terminator LF (render_unified fs)) \<le> DEFAULT_LINE_BUDGET"
  shows "parse (render_unified fs) = Inr (map drop_headings fs)"
proof (rule parse_render_unified)
  show "\<forall>rf\<in>set fs. plain_entry rf" using parsed_plain_entry [OF assms(1)] assms(2) by blast
  show "review_ids fs = [0..<length (review_ids fs)]"
    using hunk_machine.I_parse_lines [OF assms(1)] by (simp add: hunks_result_def)
qed fact+

end
