(* ===== verification/Decode.thy ===== *)
theory Decode
  imports Parser
begin

text \<open>
  Patch bytes to parser text: \<open>src/crates/deep-diff-forge-patch/src/decode.rs\<close> and
  \<open>parse_decoded\<close> of \<open>parser.rs\<close>. An invalid line is decoded lossily and its number recorded; the
  lines of the text are the lines of the bytes, so the numbers agree with the parser's.
\<close>

record DecodedPatch =
  dp_text :: string
  dp_byte_len :: nat
  dp_lossy_lines :: "nat list"

definition is_exact :: "DecodedPatch \<Rightarrow> bool" where
  "is_exact d \<longleftrightarrow> dp_lossy_lines d = []"

text \<open>\<open>slice::split_inclusive\<close>: each part keeps its terminator.\<close>

fun split_inclusive :: "char \<Rightarrow> string \<Rightarrow> string list" where
  "split_inclusive c [] = []"
| "split_inclusive c (x # s) =
     (if x = c then [x] # split_inclusive c s
      else case split_inclusive c s of [] \<Rightarrow> [[x]] | p # ps \<Rightarrow> (x # p) # ps)"

fun decode_loop :: "nat \<Rightarrow> string list \<Rightarrow> string \<Rightarrow> nat list \<Rightarrow> string \<times> nat list" where
  "decode_loop index [] text lossy = (text, lossy)"
| "decode_loop index (line # ls) text lossy =
     (if utf8_valid line then decode_loop (index + 1) ls (text @ line) lossy
      else decode_loop (index + 1) ls (text @ from_utf8_lossy line) (lossy @ [index + 1]))"

definition decode :: "string \<Rightarrow> DecodedPatch" where
  "decode bytes =
     (if utf8_valid bytes
      then \<lparr>dp_text = bytes, dp_byte_len = length bytes, dp_lossy_lines = []\<rparr>
      else let (text, lossy) = decode_loop 0 (split_inclusive LF bytes) [] [] in
        \<lparr>dp_text = text, dp_byte_len = length bytes, dp_lossy_lines = lossy\<rparr>)"

definition parse_decoded :: "DecodedPatch \<Rightarrow> ParseOptions \<Rightarrow> PatchParseError + ReviewFile list" where
  "parse_decoded decoded options =
     parse_lines (dp_text decoded) (dp_byte_len decoded) (dp_lossy_lines decoded) options"

subsection \<open>A line feed ends a character\<close>

lemma conts_LF: "conts k (s @ LF # t) = conts k s"
  by (induction k s rule: conts.induct) (auto simp: is_cont_def)

lemma utf8_head_LF: "s \<noteq> [] \<Longrightarrow> utf8_head (s @ LF # t) = utf8_head s"
  by (cases s) (auto simp: utf8_head.simps Let_def conts_LF second_ok_def is_cont_def split: list.splits)

lemma LF_ascii: "utf8_head (LF # t) = (True, 1)"
  by (simp add: utf8_width_def)

lemma utf8_valid_LF: "utf8_valid (s @ LF # t) \<longleftrightarrow> utf8_valid s \<and> utf8_valid t"
proof (induction s rule: utf8_valid.induct)
  case (1 s)
  show ?case
  proof (cases "s = []")
    case True
    then show ?thesis by simp
  next
    case False
    with 1 show ?thesis
      by (simp add: utf8_valid.simps [of "s @ LF # t"] utf8_valid.simps [of s] utf8_head_LF utf8_head_length)
  qed
qed

lemma from_utf8_lossy_LF: "from_utf8_lossy (s @ LF # t) = from_utf8_lossy s @ LF # from_utf8_lossy t"
proof (induction s rule: from_utf8_lossy.induct)
  case (1 s)
  show ?case
  proof (cases "s = []")
    case True
    then show ?thesis by (simp add: from_utf8_lossy.simps [of "LF # t"] LF_ascii)
  next
    case False
    with 1 show ?thesis
      by (simp add: from_utf8_lossy.simps [of "s @ LF # t"] from_utf8_lossy.simps [of s] utf8_head_LF utf8_head_length)
  qed
qed

lemma set_from_utf8_lossy: "set (from_utf8_lossy s) \<subseteq> set s \<union> {CHR 0xEF, CHR 0xBF, CHR 0xBD}"
proof (induction s rule: from_utf8_lossy.induct)
  case (1 s)
  show ?case
  proof (cases "s = []")
    case False
    have "set (from_utf8_lossy (drop (snd (utf8_head s)) s)) \<subseteq> set s \<union> {CHR 0xEF, CHR 0xBF, CHR 0xBD}"
      using 1 [OF False] set_drop_subset [of "snd (utf8_head s)" s] by blast
    with False show ?thesis
      using set_take_subset [of "snd (utf8_head s)" s]
      by (subst from_utf8_lossy.simps) auto
  qed simp
qed

lemma from_utf8_lossy_no_LF: "LF \<notin> set s \<Longrightarrow> LF \<notin> set (from_utf8_lossy s)"
  using set_from_utf8_lossy [of s] by auto

subsection \<open>Lines of the text and lines of the bytes\<close>

text \<open>The lines of a byte string with their terminators, and the last line without one.\<close>

lemma lines_form:
  obtains ls r where "s = unlines ls @ r" "\<forall>l\<in>set ls. LF \<notin> set l" "LF \<notin> set r"
proof (induction s arbitrary: thesis rule: rev_induct)
  case Nil
  then show ?case by (metis append_Nil2 empty_iff list.set(1) unlines_simps(1))
next
  case (snoc c s)
  obtain ls r where s: "s = unlines ls @ r" "\<forall>l\<in>set ls. LF \<notin> set l" "LF \<notin> set r" by (rule snoc.IH)
  show ?case
  proof (cases "c = LF")
    case True
    with s show ?thesis by (intro snoc.prems [of "ls @ [r]" "[]"]) auto
  next
    case False
    with s show ?thesis by (intro snoc.prems [of ls "r @ [c]"]) auto
  qed
qed

lemma split_inclusive_line:
  "LF \<notin> set l \<Longrightarrow> split_inclusive LF (l @ LF # s) = (l @ [LF]) # split_inclusive LF s"
  by (induction l) auto

lemma split_inclusive_last: "LF \<notin> set r \<Longrightarrow> split_inclusive LF r = (if r = [] then [] else [r])"
  by (induction r) auto

lemma split_inclusive_lines:
  "\<forall>l\<in>set ls. LF \<notin> set l \<Longrightarrow> LF \<notin> set r \<Longrightarrow>
   split_inclusive LF (unlines ls @ r) = map (\<lambda>l. l @ [LF]) ls @ (if r = [] then [] else [r])"
  by (induction ls) (auto simp: split_inclusive_line split_inclusive_last)

lemma split_terminator_lines:
  "\<forall>l\<in>set ls. LF \<notin> set l \<Longrightarrow> LF \<notin> set r \<Longrightarrow>
   split_terminator LF (unlines ls @ r) = ls @ (if r = [] then [] else [r])"
proof -
  assume "\<forall>l\<in>set ls. LF \<notin> set l" "LF \<notin> set r"
  then have "split_char LF (unlines ls @ r) = ls @ [r]"
    by (induction ls) (auto simp: split_char_append_sep split_char_no_sep)
  then show ?thesis by (simp add: split_terminator_def)
qed

lemma decode_loop_result:
  "decode_loop i ls acc lossy =
     (acc @ concat (map from_utf8_lossy ls),
      lossy @ map (\<lambda>k. i + k + 1) (filter (\<lambda>k. \<not> utf8_valid (ls ! k)) [0..<length ls]))"
proof (induction ls arbitrary: i acc lossy)
  case (Cons l ls)
  have "filter (\<lambda>k. \<not> utf8_valid ((l # ls) ! k)) [0..<length (l # ls)] =
      (if utf8_valid l then [] else [0]) @ map Suc (filter (\<lambda>k. \<not> utf8_valid (ls ! k)) [0..<length ls])"
    by (simp add: upt_conv_Cons map_Suc_upt [symmetric] filter_map o_def del: upt_Suc)
  then show ?case by (simp add: Cons from_utf8_lossy_valid o_def del: upt_Suc)
qed simp

lemma lossy_lines_text:
  "concat (map from_utf8_lossy (map (\<lambda>l. l @ [LF]) ls @ (if r = [] then [] else [r])))
     = unlines (map from_utf8_lossy ls) @ from_utf8_lossy r"
  by (induction ls) (auto simp: from_utf8_lossy_LF)

lemma utf8_valid_lines:
  "utf8_valid (unlines ls @ r) \<longleftrightarrow> (\<forall>l\<in>set ls. utf8_valid l) \<and> utf8_valid r"
  by (induction ls) (auto simp: utf8_valid_LF)

lemma from_utf8_lossy_eq_Nil: "from_utf8_lossy s = [] \<longleftrightarrow> s = []"
proof (cases "s = []")
  case False
  then show ?thesis
    using utf8_head_pos [OF False] by (subst from_utf8_lossy.simps) (auto split: if_splits)
qed simp

lemma decode_spec:
  "split_terminator LF (dp_text (decode b)) = map from_utf8_lossy (split_terminator LF b)
   \<and> dp_lossy_lines (decode b) =
       map Suc (filter (\<lambda>k. \<not> utf8_valid (split_terminator LF b ! k)) [0..<length (split_terminator LF b)])
   \<and> dp_byte_len (decode b) = length b \<and> utf8_valid (dp_text (decode b))
   \<and> (is_exact (decode b) \<longleftrightarrow> utf8_valid b) \<and> (utf8_valid b \<longrightarrow> dp_text (decode b) = b)"
proof -
  obtain ls r where b: "b = unlines ls @ r" "\<forall>l\<in>set ls. LF \<notin> set l" "LF \<notin> set r" by (rule lines_form)
  have st: "split_terminator LF b = ls @ (if r = [] then [] else [r])" (is "_ = ?ls")
    unfolding b(1) using b(2,3) by (rule split_terminator_lines)
  have si: "split_inclusive LF b = map (\<lambda>l. l @ [LF]) ls @ (if r = [] then [] else [r])" (is "_ = ?si")
    unfolding b(1) using b(2,3) by (rule split_inclusive_lines)
  have valid: "utf8_valid b \<longleftrightarrow> (\<forall>l\<in>set ?ls. utf8_valid l)" unfolding b(1) utf8_valid_lines by auto
  show ?thesis
  proof (cases "utf8_valid b")
    case True
    then have "map from_utf8_lossy (split_terminator LF b) = split_terminator LF b"
      unfolding st using valid by (intro map_idI) (simp add: from_utf8_lossy_valid)
    moreover have "filter (\<lambda>k. \<not> utf8_valid (split_terminator LF b ! k)) [0..<length (split_terminator LF b)] = []"
      unfolding st using valid True by (auto simp: filter_empty_conv simp del: set_append)
    ultimately show ?thesis using True by (simp add: decode_def is_exact_def)
  next
    case False
    have txt': "dp_text (decode b) = unlines (map from_utf8_lossy ls) @ from_utf8_lossy r"
      using False unfolding decode_def by (simp only: si decode_loop_result lossy_lines_text) simp
    have "split_terminator LF (dp_text (decode b)) = map from_utf8_lossy ls @ (if from_utf8_lossy r = [] then [] else [from_utf8_lossy r])"
      unfolding txt' by (rule split_terminator_lines) (use b from_utf8_lossy_no_LF in auto)
    moreover have idx: "(\<not> utf8_valid (?si ! k)) = (\<not> utf8_valid (?ls ! k))" if "k < length ?ls" for k
      using that by (auto simp: nth_append utf8_valid_LF)
    have lossy: "dp_lossy_lines (decode b) =
        map Suc (filter (\<lambda>k. \<not> utf8_valid (?ls ! k)) [0..<length ?ls])"
    proof -
      have "filter (\<lambda>k. \<not> utf8_valid (?si ! k)) [0..<length ?si] = filter (\<lambda>k. \<not> utf8_valid (?ls ! k)) [0..<length ?ls]"
        using idx by (intro filter_cong) auto
      then show ?thesis using False unfolding decode_def by (simp only: si decode_loop_result) simp
    qed
    moreover have "dp_lossy_lines (decode b) \<noteq> []"
    proof -
      obtain k where "k < length ?ls" "\<not> utf8_valid (?ls ! k)"
        using False valid by (metis in_set_conv_nth)
      then show ?thesis unfolding lossy by (simp only: map_is_Nil_conv filter_empty_conv) auto
    qed
    moreover have "utf8_valid (dp_text (decode b))"
      unfolding txt' utf8_valid_lines by (auto simp: utf8_valid_from_utf8_lossy)
    ultimately show ?thesis
      using False by (simp add: st from_utf8_lossy_eq_Nil is_exact_def decode_def Let_def split: prod.splits)
  qed
qed

end
