(* ===== verification/Seal.thy ===== *)
theory Seal
  imports Core_Model
begin

text \<open>
  SHA-256 and the input seal: \<open>src/crates/deep-diff-forge-core/src/seal.rs\<close>. Words are
  \<^typ>\<open>32 word\<close>s, so \<open>wrapping_add\<close> is \<open>+\<close>; a byte is a \<^typ>\<open>char\<close>. The array \<open>v\<close> the rounds
  rotate is a list of eight words.
\<close>

unbundle bit_operations_syntax

definition SHA_K :: "32 word list" where
  "SHA_K = concat
    [[0x428a2f98, 0x71374491, 0xb5c0fbcf, 0xe9b5dba5], [0x3956c25b, 0x59f111f1, 0x923f82a4, 0xab1c5ed5],
     [0xd807aa98, 0x12835b01, 0x243185be, 0x550c7dc3], [0x72be5d74, 0x80deb1fe, 0x9bdc06a7, 0xc19bf174],
     [0xe49b69c1, 0xefbe4786, 0x0fc19dc6, 0x240ca1cc], [0x2de92c6f, 0x4a7484aa, 0x5cb0a9dc, 0x76f988da],
     [0x983e5152, 0xa831c66d, 0xb00327c8, 0xbf597fc7], [0xc6e00bf3, 0xd5a79147, 0x06ca6351, 0x14292967],
     [0x27b70a85, 0x2e1b2138, 0x4d2c6dfc, 0x53380d13], [0x650a7354, 0x766a0abb, 0x81c2c92e, 0x92722c85],
     [0xa2bfe8a1, 0xa81a664b, 0xc24b8b70, 0xc76c51a3], [0xd192e819, 0xd6990624, 0xf40e3585, 0x106aa070],
     [0x19a4c116, 0x1e376c08, 0x2748774c, 0x34b0bcb5], [0x391c0cb3, 0x4ed8aa4a, 0x5b9cca4f, 0x682e6ff3],
     [0x748f82ee, 0x78a5636f, 0x84c87814, 0x8cc70208], [0x90befffa, 0xa4506ceb, 0xbef9a3f7, 0xc67178f2]]"

definition SHA_H0 :: "32 word list" where
  "SHA_H0 =
    [0x6a09e667, 0xbb67ae85, 0x3c6ef372, 0xa54ff53a, 0x510e527f, 0x9b05688c, 0x1f83d9ab, 0x5be0cd19]"

text \<open>\<open>u32::from_be_bytes\<close> and \<open>to_be_bytes\<close>.\<close>

definition be_word :: "string \<Rightarrow> 32 word" where
  "be_word bs = word_of_nat (foldl (\<lambda>acc b. acc * 256 + byte b) 0 bs)"

definition be_bytes :: "nat \<Rightarrow> nat \<Rightarrow> string" where
  "be_bytes k n = map (\<lambda>i. char_of (n div 256 ^ (k - 1 - i) mod 256)) [0..<k]"

text \<open>\<open>as_chunks::<N>()\<close>: the whole chunks and the remainder.\<close>

function as_chunks :: "nat \<Rightarrow> 'a list \<Rightarrow> 'a list list \<times> 'a list" where
  "as_chunks n xs =
     (if n = 0 \<or> length xs < n then ([], xs)
      else let (cs, r) = as_chunks n (drop n xs) in (take n xs # cs, r))"
  by pat_completeness auto
termination
  by (relation "measure (\<lambda>(n, xs). length xs)") auto

declare as_chunks.simps [simp del]

definition schedule_word :: "32 word list \<Rightarrow> nat \<Rightarrow> 32 word" where
  "schedule_word w i =
     (let s0 = word_rotr 7 (w ! (i - 15)) XOR word_rotr 18 (w ! (i - 15)) XOR drop_bit 3 (w ! (i - 15));
          s1 = word_rotr 17 (w ! (i - 2)) XOR word_rotr 19 (w ! (i - 2)) XOR drop_bit 10 (w ! (i - 2))
      in w ! (i - 16) + s0 + w ! (i - 7) + s1)"

definition schedule :: "string \<Rightarrow> 32 word list" where
  "schedule block =
     foldl (\<lambda>w i. w[i := schedule_word w i])
       (map be_word (fst (as_chunks 4 block)) @ replicate 48 0) [16..<64]"

definition rotate_right1 :: "'a list \<Rightarrow> 'a list" where
  "rotate_right1 xs = (if xs = [] then [] else last xs # butlast xs)"

definition sha_round :: "32 word list \<Rightarrow> 32 word \<times> 32 word \<Rightarrow> 32 word list" where
  "sha_round v kw =
     (case kw of (round_k, round_w) \<Rightarrow>
      let big_s1 = word_rotr 6 (v ! 4) XOR word_rotr 11 (v ! 4) XOR word_rotr 25 (v ! 4);
          ch = (v ! 4 AND v ! 5) XOR (NOT (v ! 4) AND v ! 6);
          t1 = v ! 7 + big_s1 + ch + round_k + round_w;
          big_s0 = word_rotr 2 (v ! 0) XOR word_rotr 13 (v ! 0) XOR word_rotr 22 (v ! 0);
          maj = (v ! 0 AND v ! 1) XOR (v ! 0 AND v ! 2) XOR (v ! 1 AND v ! 2);
          t2 = big_s0 + maj;
          v1 = rotate_right1 v;
          v2 = v1[4 := v1 ! 4 + t1]
      in v2[0 := t1 + t2])"

definition compress :: "32 word list \<Rightarrow> string \<Rightarrow> 32 word list" where
  "compress state block =
     map2 (+) state (foldl sha_round state (zip SHA_K (schedule block)))"

definition sha256 :: "string \<Rightarrow> string" where
  "sha256 bytes =
     (let (blocks, rem) = as_chunks 64 bytes;
          state = foldl compress SHA_H0 blocks;
          tail_len = (if length rem < 56 then 64 else 128);
          bit_len = push_bit 3 (word_of_nat (length bytes) :: 64 word);
          tail = (rem @ [CHR 0x80] @ replicate (128 - length rem - 1) NUL);
          tail' = take (tail_len - 8) tail @ be_bytes 8 (unat bit_len) @ drop tail_len tail;
          state' = foldl compress state (fst (as_chunks 64 (take tail_len tail')))
      in concat (map (\<lambda>w. be_bytes 4 (unat w)) state'))"

definition hex_digit :: "nat \<Rightarrow> char" where
  "hex_digit n = (if n < 10 then char_of (n + 48) else char_of (n + 87))"

definition sha256_hex :: "string \<Rightarrow> string" where
  "sha256_hex bytes = concat (map (\<lambda>b. [hex_digit (byte b div 16), hex_digit (byte b mod 16)]) (sha256 bytes))"

record InputSeal =
  is_input_sha256 :: string
  is_tool_version :: string

definition InputSeal_of :: "string \<Rightarrow> string \<Rightarrow> InputSeal" where
  "InputSeal_of input tool_version = \<lparr>is_input_sha256 = sha256_hex input, is_tool_version = tool_version\<rparr>"

subsection \<open>FIPS 180-4\<close>

text \<open>The standard's own formulation: the padded message, the message schedule as a recurrence and
  the rounds over the working variables \<open>a\<close> to \<open>h\<close>.\<close>

definition fips_pad :: "string \<Rightarrow> string" where
  "fips_pad m =
     m @ [CHR 0x80] @ replicate ((119 - length m mod 64) mod 64) NUL @ be_bytes 8 (8 * length m mod 2 ^ 64)"

definition fips_s0 :: "32 word \<Rightarrow> 32 word" where
  "fips_s0 x = word_rotr 7 x XOR word_rotr 18 x XOR drop_bit 3 x"

definition fips_s1 :: "32 word \<Rightarrow> 32 word" where
  "fips_s1 x = word_rotr 17 x XOR word_rotr 19 x XOR drop_bit 10 x"

fun fips_W :: "string \<Rightarrow> nat \<Rightarrow> 32 word" where
  "fips_W block t =
     (if t < 16 then be_word (take 4 (drop (4 * t) block))
      else fips_s1 (fips_W block (t - 2)) + fips_W block (t - 7) + fips_s0 (fips_W block (t - 15))
        + fips_W block (t - 16))"

declare fips_W.simps [simp del]

type_synonym fips_vars =
  "32 word \<times> 32 word \<times> 32 word \<times> 32 word \<times> 32 word \<times> 32 word \<times> 32 word \<times> 32 word"

fun fips_round :: "string \<Rightarrow> fips_vars \<Rightarrow> nat \<Rightarrow> fips_vars" where
  "fips_round block (a, b, c, d, e, f, g, h) t =
     (let T1 = h + (word_rotr 6 e XOR word_rotr 11 e XOR word_rotr 25 e)
               + ((e AND f) XOR (NOT e AND g)) + SHA_K ! t + fips_W block t;
          T2 = (word_rotr 2 a XOR word_rotr 13 a XOR word_rotr 22 a)
               + ((a AND b) XOR (a AND c) XOR (b AND c))
      in (T1 + T2, a, b, c, d + T1, e, f, g))"

fun fips_block :: "fips_vars \<Rightarrow> string \<Rightarrow> fips_vars" where
  "fips_block (a, b, c, d, e, f, g, h) block =
     (let (a', b', c', d', e', f', g', h') = foldl (fips_round block) (a, b, c, d, e, f, g, h) [0..<64]
      in (a' + a, b' + b, c' + c, d' + d, e' + e, f' + f, g' + g, h' + h))"

fun var_list :: "fips_vars \<Rightarrow> 32 word list" where
  "var_list (a, b, c, d, e, f, g, h) = [a, b, c, d, e, f, g, h]"

definition fips_H0 :: fips_vars where
  "fips_H0 =
     (0x6a09e667, 0xbb67ae85, 0x3c6ef372, 0xa54ff53a, 0x510e527f, 0x9b05688c, 0x1f83d9ab, 0x5be0cd19)"

definition fips_sha256 :: "string \<Rightarrow> string" where
  "fips_sha256 m =
     concat (map (\<lambda>w. be_bytes 4 (unat w)) (var_list (foldl fips_block fips_H0
       (map (\<lambda>i. take 64 (drop (64 * i) (fips_pad m))) [0..<length (fips_pad m) div 64]))))"

subsection \<open>Chunks\<close>

lemma as_chunks_append:
  "as_chunks n (xs @ ys) =
     (let (cs, r) = as_chunks n xs; (ds, r') = as_chunks n (r @ ys) in (cs @ ds, r'))"
proof (induction n xs rule: as_chunks.induct)
  case (1 n xs)
  show ?case
  proof (cases "n = 0 \<or> length xs < n")
    case True
    then show ?thesis by (simp add: as_chunks.simps [of n xs] split: prod.splits)
  next
    case False
    then have "as_chunks n (xs @ ys) = (let (cs, r) = as_chunks n (drop n xs @ ys) in (take n xs # cs, r))"
      by (simp add: as_chunks.simps [of n "xs @ ys"])
    with False 1 show ?thesis
      by (simp add: as_chunks.simps [of n xs] split: prod.splits)
  qed
qed

lemma as_chunks_eq:
  assumes "0 < n"
  shows "as_chunks n xs = (map (\<lambda>i. take n (drop (n * i) xs)) [0..<length xs div n], drop (n * (length xs div n)) xs)"
  using assms
proof (induction n xs rule: as_chunks.induct)
  case (1 n xs)
  show ?case
  proof (cases "length xs < n")
    case True
    then show ?thesis by (simp add: as_chunks.simps [of n xs])
  next
    case False
    then have d: "length xs div n = Suc ((length xs - n) div n)" using 1(2) by (simp add: le_div_geq)
    have IH: "as_chunks n (drop n xs) = (map (\<lambda>i. take n (drop (n * i) (drop n xs))) [0..<(length xs - n) div n],
        drop (n * ((length xs - n) div n)) (drop n xs))"
      using 1 False by simp
    have "[0..<Suc k] = 0 # map Suc [0..<k]" for k by (simp add: upt_conv_Cons map_Suc_upt del: upt_Suc)
    then show ?thesis
      using False 1(2) IH
      by (simp add: as_chunks.simps [of n xs] d o_def algebra_simps del: upt_Suc)
  qed
qed

lemma length_be_bytes [simp]: "length (be_bytes k n) = k"
  by (simp add: be_bytes_def)

subsection \<open>The code computes the standard's digest\<close>

lemma sha_round_fips:
  "sha_round (var_list v) (SHA_K ! t, fips_W block t) = var_list (fips_round block v t)"
  by (cases v rule: var_list.cases) (simp add: sha_round_def rotate_right1_def Let_def add.commute)

lemma schedule_prefix:
  assumes "length block = 64" "16 \<le> m" "m \<le> 64"
  defines "w0 \<equiv> map be_word (fst (as_chunks 4 block)) @ replicate 48 0"
  shows "length (foldl (\<lambda>w i. w[i := schedule_word w i]) w0 [16..<m]) = 64
    \<and> (\<forall>t<m. foldl (\<lambda>w i. w[i := schedule_word w i]) w0 [16..<m] ! t = fips_W block t)"
  using assms(2,3)
proof (induction m rule: dec_induct)
  case base
  have w0: "w0 = map (\<lambda>i. be_word (take 4 (drop (4 * i) block))) [0..<16] @ replicate 48 0"
    using assms(1) by (simp add: w0_def as_chunks_eq del: upt_rec_numeral)
  have "fips_W block t = be_word (take 4 (drop (4 * t) block))" if "t < 16" for t
    using that by (subst fips_W.simps) simp
  then show ?case unfolding w0 by (simp add: nth_append)
next
  case (step m)
  let ?w = "foldl (\<lambda>w i. w[i := schedule_word w i]) w0 [16..<m]"
  have w: "length ?w = 64" "\<forall>t<m. ?w ! t = fips_W block t" using step by auto
  have "schedule_word ?w m = fips_W block m"
    using w(2) step(1) unfolding schedule_word_def Let_def
    by (subst fips_W.simps) (simp add: fips_s0_def fips_s1_def ac_simps)
  with w step show ?case by (auto simp: nth_list_update less_Suc_eq)
qed

lemma schedule_fips:
  assumes "length block = 64" shows "schedule block = map (fips_W block) [0..<64]"
  using schedule_prefix [OF assms, of 64] unfolding schedule_def
  by (intro nth_equalityI) (simp_all del: upt_rec_numeral)

lemma length_SHA_K: "length SHA_K = 64"
  by (simp add: SHA_K_def)

lemma zip_schedule:
  assumes "length block = 64"
  shows "zip SHA_K (schedule block) = map (\<lambda>t. (SHA_K ! t, fips_W block t)) [0..<64]"
  unfolding schedule_fips [OF assms]
  by (rule nth_equalityI) (simp_all add: length_SHA_K del: upt_rec_numeral)

lemma rounds_fips:
  "foldl sha_round (var_list v) (map (\<lambda>t. (SHA_K ! t, fips_W block t)) ts) = var_list (foldl (fips_round block) v ts)"
  by (induction ts arbitrary: v) (simp_all add: sha_round_fips)

lemma compress_fips:
  assumes "length block = 64"
  shows "compress (var_list v) block = var_list (fips_block v block)"
proof -
  obtain a b c d e f g h where v: "v = (a, b, c, d, e, f, g, h)" by (cases v rule: var_list.cases)
  obtain a' b' c' d' e' f' g' h' where r: "foldl (fips_round block) v [0..<64] = (a', b', c', d', e', f', g', h')"
    by (cases "foldl (fips_round block) v [0..<64]" rule: var_list.cases)
  have "compress (var_list v) block = map2 (+) (var_list v) (var_list (a', b', c', d', e', f', g', h'))"
    unfolding compress_def zip_schedule [OF assms] rounds_fips r ..
  then show ?thesis using r by (simp add: v add.commute del: upt_rec_numeral)
qed

lemma blocks_fips:
  "\<forall>b\<in>set bs. length b = 64 \<Longrightarrow> foldl compress (var_list v) bs = var_list (foldl fips_block v bs)"
  by (induction bs arbitrary: v) (simp_all add: compress_fips)

lemma bit_length: "unat (push_bit 3 (word_of_nat n :: 64 word)) = 8 * n mod 2 ^ 64"
proof -
  have "push_bit 3 (word_of_nat n :: 64 word) = word_of_nat (8 * n)"
    by (simp add: push_bit_eq_mult mult.commute)
  then show ?thesis by (simp only: unsigned_of_nat take_bit_eq_mod) simp
qed

text \<open>The tail buffer is the remainder with the standard's padding.\<close>

lemma tail_pad:
  assumes "length r < 64" "length be = 8"
  defines "n \<equiv> (if length r < 56 then 64 else (128 :: nat))"
  shows "take n (take (n - 8) (r @ [CHR 0x80] @ replicate (128 - length r - 1) NUL) @ be
      @ drop n (r @ [CHR 0x80] @ replicate (128 - length r - 1) NUL))
    = r @ [CHR 0x80] @ replicate ((119 - length r) mod 64) NUL @ be"
proof -
  have "(119 - length r) mod 64 = n - 8 - length r - 1"
    using assms(1) by (auto simp: n_def mod_if)
  with assms show ?thesis by (auto simp: n_def take_Cons')
qed

lemma length_fips_pad: "length (fips_pad m) mod 64 = 0"
proof -
  define q where "q = length m div 64"
  define r where "r = length m mod 64"
  have l: "length m = 64 * q + r" "r < 64" by (simp_all add: q_def r_def)
  obtain c where c: "r + 1 + (119 - r) mod 64 + 8 = 64 * c"
  proof (cases "r < 56")
    case True
    then have "(119 - r) mod 64 = 55 - r" by (simp add: mod_if)
    with True that [of 1] show thesis by simp
  next
    case False
    then have "(119 - r) mod 64 = 119 - r" using l(2) by simp
    with False l(2) that [of 2] show thesis by simp
  qed
  have "length (fips_pad m) = 64 * q + (r + 1 + (119 - r) mod 64 + 8)"
    using l by (simp add: fips_pad_def)
  then show ?thesis unfolding c by simp
qed

lemma sha256_blocks:
  "sha256 m = concat (map (\<lambda>w. be_bytes 4 (unat w)) (foldl compress SHA_H0 (fst (as_chunks 64 (fips_pad m)))))"
proof -
  obtain bs r where c: "as_chunks 64 m = (bs, r)" by (cases "as_chunks 64 m")
  have r: "length r = length m mod 64" "length r < 64"
    using c by (auto simp: as_chunks_eq minus_mult_div_eq_mod mult.commute)
  let ?p = "r @ [CHR 0x80] @ replicate ((119 - length r) mod 64) NUL @ be_bytes 8 (8 * length m mod 2 ^ 64)"
  have "fst (as_chunks 64 (fips_pad m)) = bs @ fst (as_chunks 64 ?p)"
    using as_chunks_append [of 64 m "[CHR 0x80] @ replicate ((119 - length r) mod 64) NUL @ be_bytes 8 (8 * length m mod 2 ^ 64)"]
    by (simp add: fips_pad_def c r(1) split: prod.splits)
  moreover have "sha256 m = concat (map (\<lambda>w. be_bytes 4 (unat w)) (foldl compress (foldl compress SHA_H0 bs) (fst (as_chunks 64 ?p))))"
    using tail_pad [OF r(2), of "be_bytes 8 (8 * length m mod 2 ^ 64)"]
    unfolding sha256_def c Let_def prod.case bit_length by simp
  ultimately show ?thesis by simp
qed

lemma sha256_fips: "sha256 m = fips_sha256 m"
proof -
  let ?bs = "map (\<lambda>i. take 64 (drop (64 * i) (fips_pad m))) [0..<length (fips_pad m) div 64]"
  have "\<forall>b\<in>set ?bs. length b = 64"
  proof
    fix b assume "b \<in> set ?bs"
    then obtain i where i: "b = take 64 (drop (64 * i) (fips_pad m))" "i < length (fips_pad m) div 64" by auto
    then have "64 * i + 64 \<le> length (fips_pad m)"
      using length_fips_pad [of m] by (metis add.commute div_mult_mod_eq add_0_right mult.commute mult_Suc_right mult_le_mono1 Suc_leI)
    then show "length b = 64" unfolding i(1) by simp
  qed
  moreover have "SHA_H0 = var_list fips_H0" by (simp add: SHA_H0_def fips_H0_def)
  ultimately have "foldl compress SHA_H0 ?bs = var_list (foldl fips_block fips_H0 ?bs)"
    using blocks_fips by metis
  then show ?thesis
    by (simp add: sha256_blocks fips_sha256_def as_chunks_eq del: upt_rec_numeral)
qed

lemma length_var_list [simp]: "length (var_list v) = 8"
  by (cases v rule: var_list.cases) simp

lemma length_sha256: "length (sha256 m) = 32"
  by (simp add: sha256_fips fips_sha256_def length_concat o_def sum_list_triv)

lemma sha256_hex_form:
  "length (sha256_hex m) = 64 \<and> (\<forall>c\<in>set (sha256_hex m). is_ascii_digit c \<or> c \<in> set ''abcdef'')"
proof -
  have d: "is_ascii_digit (hex_digit n) \<or> hex_digit n \<in> set ''abcdef''" if "n < 16" for n
  proof (cases "n < 10")
    case False
    then have "n \<in> {10, 11, 12, 13, 14, 15}" using that by auto
    moreover have "hex_digit 10 = CHR ''a''" "hex_digit 11 = CHR ''b''" "hex_digit 12 = CHR ''c''"
      "hex_digit 13 = CHR ''d''" "hex_digit 14 = CHR ''e''" "hex_digit 15 = CHR ''f''" by code_simp+
    ultimately show ?thesis by auto
  qed (simp add: hex_digit_def)
  have lt: "byte b div 16 < 16" "byte b mod 16 < 16" for b
    using byte_less [of b] by (auto simp: less_mult_imp_div_less)
  show ?thesis
    using length_sha256 [of m] d lt by (auto simp: sha256_hex_def length_concat o_def sum_list_triv)
qed

text \<open>A digest and its hexadecimal form determine each other.\<close>

lemma hex_digit_inj: "hex_digit a = hex_digit b \<Longrightarrow> a < 16 \<Longrightarrow> b < 16 \<Longrightarrow> a = b"
  by (auto simp: hex_digit_def split: if_splits dest!: arg_cong [where f = byte])

lemma hex_inj:
  "concat (map (\<lambda>b. [hex_digit (byte b div 16), hex_digit (byte b mod 16)]) xs)
     = concat (map (\<lambda>b. [hex_digit (byte b div 16), hex_digit (byte b mod 16)]) ys) \<Longrightarrow> xs = ys"
proof (induction xs arbitrary: ys)
  case (Cons x xs)
  then obtain y ys' where ys: "ys = y # ys'" by (cases ys) auto
  have lt: "byte b div 16 < 16" "byte b mod 16 < 16" for b
    using byte_less [of b] by (auto simp: less_mult_imp_div_less)
  have "byte x div 16 = byte y div 16" "byte x mod 16 = byte y mod 16"
    using Cons.prems lt by (auto simp: ys intro: hex_digit_inj)
  then have "x = y" by (metis byte_eq_iff div_mod_decomp)
  with Cons ys show ?case by simp
qed (use in \<open>auto split: list.splits\<close>)

lemma sha256_hex_inj: "sha256_hex a = sha256_hex b \<longleftrightarrow> sha256 a = sha256 b"
  using hex_inj by (auto simp: sha256_hex_def)

end
