(* ===== verification/Sealed_Review.thy ===== *)
theory Sealed_Review
  imports Decode Seal
begin

text \<open>
  From input bytes to a sealed review: the input contracts of
  \<open>src/crates/deep-diff-forge-patch/src/guards.rs\<close>, \<open>SealedReview\<close> of \<open>sealed.rs\<close> and
  \<open>CapturedPatch\<close> of \<open>lib.rs\<close>.
\<close>

record InputGuards =
  ig_files :: bool
  ig_hunks :: bool

definition has_reviewable_hunks :: "ReviewFile list \<Rightarrow> bool" where
  "has_reviewable_hunks files \<longleftrightarrow>
     (\<exists>f\<in>set files. \<exists>h\<in>set (pt_hunks (rf_patch_twin f)). \<exists>l\<in>set (ph_lines h).
        pl_kind l = LkAdded \<or> pl_kind l = LkRemoved)"

definition refusal :: "InputGuards \<Rightarrow> ReviewFile list \<Rightarrow> string option" where
  "refusal g files =
     (if ig_files g \<and> files = [] then Some ''0 files in input (--require-files)''
      else if ig_hunks g \<and> \<not> has_reviewable_hunks files then Some ''0 hunks in input (--require-hunks)''
      else None)"

datatype ReviewError = ReParse PatchParseError | ReRefused string

record SealedReview =
  sr_files :: "ReviewFile list"
  sr_seal :: InputSeal

definition SealedReview_new :: "string \<Rightarrow> InputGuards \<Rightarrow> string \<Rightarrow> ReviewError + SealedReview" where
  "SealedReview_new input guards version =
     (case parse_decoded (decode input) ParseOptions_default of
        Inl e \<Rightarrow> Inl (ReParse e)
      | Inr files \<Rightarrow>
          (case refusal guards files of
             Some reason \<Rightarrow> Inl (ReRefused reason)
           | None \<Rightarrow> Inr \<lparr>sr_files = files, sr_seal = InputSeal_of input version\<rparr>))"

definition SealedReview_from_capture :: "ReviewFile list \<Rightarrow> string \<Rightarrow> string \<Rightarrow> SealedReview" where
  "SealedReview_from_capture files input version = \<lparr>sr_files = files, sr_seal = InputSeal_of input version\<rparr>"

record CapturedPatch =
  cp_raw :: string
  cp_bytes :: "string option"
  cp_digest :: string
  cp_files :: "ReviewFile list"

text \<open>\<open>capture\<close> takes a \<open>String\<close>: its argument is well-formed UTF-8 wherever the code calls it.\<close>

definition capture :: "string \<Rightarrow> PatchParseError + CapturedPatch" where
  "capture raw =
     res_bind (parse raw) (\<lambda>files.
     Inr \<lparr>cp_raw = raw, cp_bytes = None, cp_digest = sha256_hex raw, cp_files = files\<rparr>)"

definition capture_bytes :: "string \<Rightarrow> PatchParseError + CapturedPatch" where
  "capture_bytes bytes =
     (if utf8_valid bytes then capture bytes
      else let decoded = decode bytes in
        res_bind (parse_decoded decoded ParseOptions_default) (\<lambda>files.
        Inr \<lparr>cp_raw = dp_text decoded, cp_bytes = Some bytes, cp_digest = sha256_hex bytes,
             cp_files = files\<rparr>))"

definition original_bytes :: "CapturedPatch \<Rightarrow> string" where
  "original_bytes c = (case cp_bytes c of None \<Rightarrow> cp_raw c | Some b \<Rightarrow> b)"

definition CapturedPatch_is_exact :: "CapturedPatch \<Rightarrow> bool" where
  "CapturedPatch_is_exact c \<longleftrightarrow> cp_bytes c = None"

subsection \<open>What a capture and a sealed review promise\<close>

lemma decode_exact: "utf8_valid b \<Longrightarrow> parse_decoded (decode b) ParseOptions_default = parse b"
  by (simp add: decode_def parse_decoded_def parse_def parse_with_def)

lemma capture_bytes_parts:
  "capture_bytes b = res_bind (parse_decoded (decode b) ParseOptions_default) (\<lambda>files.
     Inr \<lparr>cp_raw = dp_text (decode b), cp_bytes = (if utf8_valid b then None else Some b),
          cp_digest = sha256_hex b, cp_files = files\<rparr>)"
proof (cases "utf8_valid b")
  case True
  then have "dp_text (decode b) = b" by (simp add: decode_def)
  with True decode_exact [OF True] show ?thesis by (simp add: capture_bytes_def capture_def)
qed (simp add: capture_bytes_def Let_def)

lemma sealed_review_parts:
  "SealedReview_new b g v = Inr r \<longleftrightarrow>
     parse_decoded (decode b) ParseOptions_default = Inr (sr_files r)
     \<and> refusal g (sr_files r) = None \<and> sr_seal r = InputSeal_of b v"
  by (cases r) (auto simp: SealedReview_new_def split: sum.splits option.splits)

lemma refusal_None_iff:
  "refusal g fs = None \<longleftrightarrow> (ig_files g \<longrightarrow> fs \<noteq> []) \<and> (ig_hunks g \<longrightarrow> has_reviewable_hunks fs)"
  by (simp add: refusal_def)

lemma refusal_order:
  "refusal g fs = Some r \<longleftrightarrow>
     (ig_files g \<and> fs = [] \<and> r = ''0 files in input (--require-files)'')
     \<or> (\<not> (ig_files g \<and> fs = []) \<and> ig_hunks g \<and> \<not> has_reviewable_hunks fs
        \<and> r = ''0 hunks in input (--require-hunks)'')"
  by (auto simp: refusal_def)

end
