(* ===== verification/Core_Text.thy ===== *)
theory Core_Text
  imports Utf8
begin

text \<open>
  Untrusted text on its way out: \<open>src/crates/deep-diff-forge-core/src/util.rs\<close>. A Rust \<open>char\<close> is a
  code point (\<^typ>\<open>nat\<close>); \<open>String::push\<close> appends its encoding. A borrowed and an owned \<open>Cow\<close> are
  the same string.
\<close>

text \<open>\<open>{:0w$x}\<close>: lower-case hexadecimal, at least \<open>w\<close> digits.\<close>

definition lower_hex_digit :: "nat \<Rightarrow> char" where
  "lower_hex_digit n = (if n < 10 then char_of (n + 48) else char_of (n + 87))"

fun show_hex :: "nat \<Rightarrow> string" where
  "show_hex n = (if n < 16 then [lower_hex_digit n] else show_hex (n div 16) @ [lower_hex_digit (n mod 16)])"

declare show_hex.simps [simp del]

definition show_hex_pad :: "nat \<Rightarrow> nat \<Rightarrow> string" where
  "show_hex_pad w n = replicate (w - length (show_hex n)) (CHR ''0'') @ show_hex n"

definition is_control :: "nat \<Rightarrow> bool" where
  "is_control c \<longleftrightarrow> c \<le> 0x1F \<or> (0x7F \<le> c \<and> c \<le> 0x9F)"

definition in_range :: "nat \<Rightarrow> nat \<Rightarrow> nat \<Rightarrow> bool" where
  "in_range a b c \<longleftrightarrow> a \<le> c \<and> c \<le> b"

subsection \<open>JSON\<close>

definition json_escape_char :: "nat \<Rightarrow> string" where
  "json_escape_char c =
     (if c = 0x22 then [BACKSLASH, DQUOTE]
      else if c = 0x5C then [BACKSLASH, BACKSLASH]
      else if c = 0x0A then [BACKSLASH, CHR ''n'']
      else if c = 0x0D then [BACKSLASH, CHR ''r'']
      else if c = 0x09 then [BACKSLASH, CHR ''t'']
      else if c = 0x08 then [BACKSLASH, CHR ''b'']
      else if c = 0x0C then [BACKSLASH, CHR ''f'']
      else if c < 0x20 \<or> in_range 0x7F 0x9F c \<or> c = 0x2028 \<or> c = 0x2029
      then [BACKSLASH, CHR ''u''] @ show_hex_pad 4 c
      else utf8_encode c)"

definition json_escape :: "string \<Rightarrow> string" where
  "json_escape value = [DQUOTE] @ concat (map json_escape_char (chars value)) @ [DQUOTE]"

definition needs_line_safe_escape :: "nat \<Rightarrow> bool" where
  "needs_line_safe_escape c \<longleftrightarrow> in_range 0x7F 0x9F c \<or> c = 0x2028 \<or> c = 0x2029"

text \<open>\<open>json_line_safe\<close>: the copy up to the first character to escape is the encoding of the
  characters before it, so the loop is written over all of them.\<close>

definition json_line_safe :: "string \<Rightarrow> string" where
  "json_line_safe json =
     (if \<not> (\<exists>c\<in>set (chars json). needs_line_safe_escape c) then json
      else concat (map (\<lambda>c. if needs_line_safe_escape c then [BACKSLASH, CHR ''u''] @ show_hex_pad 4 c
                            else utf8_encode c) (chars json)))"

subsection \<open>Hazards\<close>

definition is_terminal_unsafe :: "nat \<Rightarrow> bool" where
  "is_terminal_unsafe c \<longleftrightarrow> is_control c \<and> c \<noteq> 0x09"

definition is_bidi :: "nat \<Rightarrow> bool" where
  "is_bidi c \<longleftrightarrow>
     in_range 0x202A 0x202E c \<or> in_range 0x2066 0x2069 c \<or> c = 0x200E \<or> c = 0x200F \<or> c = 0x061C"

definition is_invisible :: "nat \<Rightarrow> bool" where
  "is_invisible c \<longleftrightarrow>
     in_range 0x200B 0x200D c \<or> c = 0xFEFF \<or> in_range 0x2060 0x2065 c \<or> in_range 0x206A 0x206F c
     \<or> c = 0x00AD \<or> c = 0x034F \<or> c = 0x17B4 \<or> c = 0x17B5 \<or> in_range 0x180B 0x180F c
     \<or> c = 0x115F \<or> c = 0x1160 \<or> c = 0x3164 \<or> c = 0xFFA0 \<or> in_range 0xFE00 0xFE0F c
     \<or> in_range 0xFFF0 0xFFF8 c \<or> in_range 0xFFF9 0xFFFB c \<or> in_range 0x1BCA0 0x1BCA3 c
     \<or> in_range 0x1D173 0x1D17A c \<or> in_range 0xE0000 0xE0FFF c"

definition is_line_separator :: "nat \<Rightarrow> bool" where
  "is_line_separator c \<longleftrightarrow> c = 0x2028 \<or> c = 0x2029"

definition is_bidi_or_invisible :: "nat \<Rightarrow> bool" where
  "is_bidi_or_invisible c \<longleftrightarrow> is_bidi c \<or> is_invisible c \<or> is_line_separator c"

definition is_unsafe_in_untrusted_text :: "nat \<Rightarrow> bool" where
  "is_unsafe_in_untrusted_text c \<longleftrightarrow>
     (is_control c \<and> c \<noteq> 0x0A \<and> c \<noteq> 0x09) \<or> is_bidi_or_invisible c"

definition char_hazards :: "string \<Rightarrow> string list" where
  "char_hazards s =
     (if \<exists>c\<in>set (chars s). is_bidi c then [''bidi_control''] else [])
     @ (if \<exists>c\<in>set (chars s). is_invisible c then [''invisible''] else [])
     @ (if \<exists>c\<in>set (chars s). is_terminal_unsafe c \<or> is_line_separator c then [''control''] else [])"

definition text_hazards :: "string \<Rightarrow> string list" where
  "text_hazards s = char_hazards (if ends_with [CR] s then butlast s else s)"

definition path_hazards :: "string \<Rightarrow> string list" where
  "path_hazards path =
     char_hazards path
     @ (if starts_with [SLASH] path \<or> ''..'' \<in> set (split_char SLASH path) then [''path_traversal''] else [])
     @ (if \<exists>c\<in>set (split_char SLASH path). eq_ignore_ascii_case c ''.git'' then [''git_internal''] else [])"

subsection \<open>Terminal output\<close>

definition display_char :: "nat \<Rightarrow> string" where
  "display_char c =
     (if is_terminal_unsafe c then [BACKSLASH, CHR ''x''] @ show_hex_pad 2 c
      else if is_bidi_or_invisible c then [BACKSLASH, CHR ''u'', CHR 0x7B] @ show_hex_pad 4 c @ [CHR 0x7D]
      else utf8_encode c)"

definition display_safe :: "string \<Rightarrow> string" where
  "display_safe value =
     (if \<not> (\<exists>c\<in>set (chars value). is_terminal_unsafe c \<or> is_bidi_or_invisible c) then value
      else concat (map display_char (chars value)))"

fun display_bounded_loop :: "nat \<Rightarrow> nat list \<Rightarrow> string \<Rightarrow> nat \<Rightarrow> string \<times> nat" where
  "display_bounded_loop max_bytes [] out consumed = (out, consumed)"
| "display_bounded_loop max_bytes (c # cs) out consumed =
     (if max_bytes < sat_add_usize (length out) (length (display_char c)) then (out, consumed)
      else display_bounded_loop max_bytes cs (out @ display_char c) (consumed + length (utf8_encode c)))"

definition display_safe_bounded :: "string \<Rightarrow> nat \<Rightarrow> string" where
  "display_safe_bounded value max_bytes =
     (let (out, consumed) = display_bounded_loop max_bytes (chars value) [] 0 in
      out @ (if consumed < length value
             then ''... ['' @ show_nat (length value - consumed) @ '' bytes omitted]'' else []))"

subsection \<open>Characters and their encodings\<close>

lemma digit64:
  fixes x y :: nat
  assumes "y < 64" shows "(x * 64 + y) div 64 = x" "(x * 64 + y) mod 64 = y"
  using assms by simp_all

lemma digits64:
  fixes x y z w :: nat
  shows "y < 64 \<Longrightarrow> z < 64 \<Longrightarrow> ((x * 64 + y) * 64 + z) div 4096 = x"
    "y < 64 \<Longrightarrow> z < 64 \<Longrightarrow> w < 64 \<Longrightarrow> (((x * 64 + y) * 64 + z) * 64 + w) div 262144 = x"
proof -
  have d: "n div 4096 = n div 64 div 64" "n div 262144 = n div 64 div 64 div 64" for n :: nat
    by (simp_all add: div_mult2_eq [symmetric])
  show "y < 64 \<Longrightarrow> z < 64 \<Longrightarrow> ((x * 64 + y) * 64 + z) div 4096 = x"
    "y < 64 \<Longrightarrow> z < 64 \<Longrightarrow> w < 64 \<Longrightarrow> (((x * 64 + y) * 64 + z) * 64 + w) div 262144 = x"
    unfolding d by (simp_all only: digit64)
qed

lemma cont_byte: "is_cont b \<Longrightarrow> \<exists>y. b = char_of (0x80 + y) \<and> byte b = 0x80 + y \<and> y < 64"
proof -
  assume "is_cont b"
  then have r: "0x80 \<le> byte b" "byte b \<le> 0xBF" by (auto simp: is_cont_def)
  then have "b = char_of (0x80 + (byte b - 0x80))" by simp
  with r show ?thesis by (intro exI [of _ "byte b - 0x80"]) simp
qed

lemma lead_byte: "k \<le> byte a \<Longrightarrow> \<exists>x. a = char_of (k + x) \<and> byte a = k + x"
  by (rule exI [of _ "byte a - k"]) simp

lemma conts_Suc: "conts n s = n \<Longrightarrow> 0 < n \<Longrightarrow> \<exists>c t. s = c # t \<and> is_cont c \<and> conts (n - 1) t = n - 1"
  by (cases s) (auto split: if_splits)

lemma utf8_head_cases:
  assumes "fst (utf8_head s)"
  obtains c where "is_scalar c" "take (snd (utf8_head s)) s = utf8_encode c"
proof -
  obtain a t where s: "s = a # t" using assms by (cases s) (auto simp: utf8_head.simps)
  consider "utf8_width a = 1" | "utf8_width a = 2" | "utf8_width a = 3" | "utf8_width a = 4"
    using assms unfolding s by (auto simp: utf8_head.simps Let_def utf8_width_def split: if_splits list.splits)
  then show thesis
  proof cases
    case 1
    then have "byte a < 128" by (auto simp: utf8_width_def split: if_splits)
    then show thesis
      by (intro that [of "byte a"]) (simp_all add: s is_scalar_def utf8_encode_def)
  next
    case 2
    then obtain b u where t: "t = b # u" "second_ok a b"
      using assms unfolding s by (auto simp: utf8_head.simps split: if_splits list.splits)
    obtain x where x: "a = char_of (0xC0 + x)" "byte a = 0xC0 + x" "2 \<le> x" "x < 32"
      using 2 lead_byte [of "0xC0" a] by (auto simp: utf8_width_def split: if_splits)
    obtain y where y: "b = char_of (0x80 + y)" "byte b = 0x80 + y" "y < 64"
      using t(2) cont_byte by (auto simp: second_ok_def)
    have "utf8_encode (x * 64 + y) = [a, b]"
      using x y by (simp add: utf8_encode_def digit64 digits64)
    then show thesis using x y 2 t by (intro that [of "x * 64 + y"]) (simp_all add: s is_scalar_def utf8_head.simps)
  next
    case 3
    then obtain b u where t: "t = b # u" "second_ok a b" "conts 1 u = 1"
      using assms unfolding s by (auto simp: utf8_head.simps Let_def split: if_splits list.splits)
    then obtain d v where u: "u = d # v" "is_cont d" using conts_Suc [of 1 u] by auto
    obtain x where x: "a = char_of (0xE0 + x)" "byte a = 0xE0 + x" "x < 16"
      using 3 lead_byte [of "0xE0" a] by (auto simp: utf8_width_def split: if_splits)
    obtain y where y: "b = char_of (0x80 + y)" "byte b = 0x80 + y" "y < 64"
      using t(2) cont_byte by (auto simp: second_ok_def)
    obtain z :: nat where z: "d = char_of (0x80 + z)" "z < 64" using u(2) cont_byte by blast
    have r: "x = 0 \<Longrightarrow> 32 \<le> y" "x = 13 \<Longrightarrow> y < 32" using t(2) x y by (auto simp: second_ok_def)
    define n where "n = (x * 64 + y) * 64 + z"
    have dig: "n div 4096 = x" "n div 64 = x * 64 + y" "n mod 64 = z"
      unfolding n_def by (simp_all only: digit64 digits64 y(3) z(2))
    consider "x = 0" "32 \<le> y" | "1 \<le> x" "x \<le> 12" | "x = 13" "y < 32" | "14 \<le> x" using r by linarith
    then have "0x800 \<le> n \<and> n < 0x10000 \<and> \<not> (0xD800 \<le> n \<and> n < 0xE000)"
      using x(3) y(3) z(2) unfolding n_def by cases simp_all
    then have c: "0x800 \<le> n \<and> n < 0x10000 \<and> is_scalar n" by (auto simp: is_scalar_def)
    then have "utf8_encode n = [a, b, d]"
      using x y z by (simp add: utf8_encode_def dig)
    then show thesis using c 3 t u by (intro that [of n]) (simp_all add: s utf8_head.simps)
  next
    case 4
    then obtain b u where t: "t = b # u" "second_ok a b" "conts 2 u = 2"
      using assms unfolding s by (auto simp: utf8_head.simps Let_def split: if_splits list.splits)
    then obtain d v where u: "u = d # v" "is_cont d" "conts 1 v = 1" using conts_Suc [of 2 u] by auto
    then obtain e v' where v: "v = e # v'" "is_cont e" using conts_Suc [of 1 v] by auto
    obtain x where x: "a = char_of (0xF0 + x)" "byte a = 0xF0 + x" "x \<le> 4"
      using 4 lead_byte [of "0xF0" a] by (auto simp: utf8_width_def split: if_splits)
    obtain y where y: "b = char_of (0x80 + y)" "byte b = 0x80 + y" "y < 64"
      using t(2) cont_byte by (auto simp: second_ok_def)
    obtain z :: nat where z: "d = char_of (0x80 + z)" "z < 64" using u(2) cont_byte by blast
    obtain w :: nat where w: "e = char_of (0x80 + w)" "w < 64" using v(2) cont_byte by blast
    have r: "x = 0 \<Longrightarrow> 16 \<le> y" "x = 4 \<Longrightarrow> y < 16" using t(2) x y by (auto simp: second_ok_def)
    define n where "n = ((x * 64 + y) * 64 + z) * 64 + w"
    have dig: "n div 262144 = x" "n div 4096 = x * 64 + y" "n div 64 mod 64 = z" "n mod 64 = w"
      unfolding n_def by (simp_all only: digit64 digits64 y(3) z(2) w(2))
    consider "x = 0" "16 \<le> y" | "1 \<le> x" "x \<le> 3" | "x = 4" "y < 16" using r x(3) by linarith
    then have c: "0x10000 \<le> n \<and> n < 0x110000"
      using y(3) z(2) w(2) unfolding n_def by cases simp_all
    then have "utf8_encode n = [a, b, d, e]"
      using x y z w by (simp add: utf8_encode_def dig)
    then show thesis using c 4 t u v by (intro that [of n]) (simp_all add: s utf8_head.simps is_scalar_def)
  qed
qed

lemma chars_scalar: "\<forall>c\<in>set (chars s). is_scalar c"
proof (induction s rule: chars.induct)
  case (1 s)
  show ?case
  proof (cases "s = []")
    case False
    have "is_scalar (if fst (utf8_head s) then utf8_code (take (snd (utf8_head s)) s) else 0xFFFD)"
    proof (cases "fst (utf8_head s)")
      case True
      obtain c where "is_scalar c" "take (snd (utf8_head s)) s = utf8_encode c" using utf8_head_cases [OF True] .
      with True show ?thesis by (simp add: utf8_code_encode)
    qed (simp add: is_scalar_def)
    moreover have "chars s = (if fst (utf8_head s) then utf8_code (take (snd (utf8_head s)) s) else 0xFFFD)
        # chars (drop (snd (utf8_head s)) s)" using False by (simp only: chars.simps [of s] if_False)
    ultimately show ?thesis using 1 [OF False] by (simp only: list.set ball_simps)
  qed simp
qed

lemma encode_chars: "utf8_valid s \<Longrightarrow> concat (map utf8_encode (chars s)) = s"
proof (induction s rule: chars.induct)
  case (1 s)
  show ?case
  proof (cases "s = []")
    case False
    with 1(2) have ok: "fst (utf8_head s)" and v: "utf8_valid (drop (snd (utf8_head s)) s)"
      by (simp_all add: utf8_valid.simps [of s] split: if_splits)
    obtain c where "is_scalar c" "take (snd (utf8_head s)) s = utf8_encode c" using utf8_head_cases [OF ok] .
    then have "utf8_encode (utf8_code (take (snd (utf8_head s)) s)) = take (snd (utf8_head s)) s"
      by (simp add: utf8_code_encode)
    moreover have "chars s = utf8_code (take (snd (utf8_head s)) s) # chars (drop (snd (utf8_head s)) s)"
      using False ok by (simp only: chars.simps [of s] if_False if_True)
    ultimately show ?thesis
      using 1(1) [OF False v] by (simp only: list.map concat.simps append_take_drop_id)
  qed simp
qed

lemma utf8_valid_ascii_all: "\<forall>c\<in>set s. byte c < 128 \<Longrightarrow> utf8_valid s \<and> chars s = map byte s"
  by (induction s) auto

lemma chars_concat_map:
  "\<forall>c\<in>set cs. utf8_valid (f c) \<Longrightarrow>
     utf8_valid (concat (map f cs)) \<and> chars (concat (map f cs)) = concat (map (\<lambda>c. chars (f c)) cs)"
  by (induction cs) (auto simp: utf8_valid_append chars_append)

lemma encode_single: "is_scalar c \<Longrightarrow> utf8_valid (utf8_encode c) \<and> chars (utf8_encode c) = [c]"
  using utf8_valid_encode [of c "[]"] chars_encode [of c "[]"] by simp

subsection \<open>Hexadecimal\<close>

definition hex_value :: "nat \<Rightarrow> nat option" where
  "hex_value c =
     (if 48 \<le> c \<and> c \<le> 57 then Some (c - 48)
      else if 97 \<le> c \<and> c \<le> 102 then Some (c - 87)
      else if 65 \<le> c \<and> c \<le> 70 then Some (c - 55) else None)"

definition is_hex :: "char \<Rightarrow> bool" where
  "is_hex c \<longleftrightarrow> is_ascii_digit c \<or> (97 \<le> byte c \<and> byte c \<le> 102)"

lemma lower_hex: "n < 16 \<Longrightarrow> is_hex (lower_hex_digit n) \<and> hex_value (byte (lower_hex_digit n)) = Some n"
  by (auto simp: lower_hex_digit_def is_hex_def hex_value_def)

lemma show_hex_is_hex: "\<forall>c\<in>set (show_hex n). is_hex c"
proof (induction n rule: show_hex.induct)
  case (1 n)
  then show ?case by (subst show_hex.simps) (auto simp: lower_hex)
qed

lemma show_hex_pad_is_hex: "\<forall>c\<in>set (show_hex_pad w n). is_hex c"
  using show_hex_is_hex by (auto simp: show_hex_pad_def is_hex_def is_ascii_digit_def)

lemma is_hex_ascii: "is_hex c \<Longrightarrow> 48 \<le> byte c \<and> byte c \<le> 102"
  by (auto simp: is_hex_def is_ascii_digit_def)

lemma show_hex_small: "n < 16 \<Longrightarrow> show_hex n = [lower_hex_digit n]"
  by (simp add: show_hex.simps [of n])

lemma show_hex_step: "16 \<le> n \<Longrightarrow> show_hex n = show_hex (n div 16) @ [lower_hex_digit (n mod 16)]"
  by (simp add: show_hex.simps [of n])

lemma show_hex_pad4:
  assumes "n < 0x10000"
  shows "show_hex_pad 4 n = [lower_hex_digit (n div 4096), lower_hex_digit (n div 256 mod 16),
    lower_hex_digit (n div 16 mod 16), lower_hex_digit (n mod 16)]"
proof -
  have z: "lower_hex_digit 0 = CHR ''0''" by code_simp
  have rep: "replicate 3 (CHR ''0'') = ''000''" "replicate 2 (CHR ''0'') = ''00''"
    by (simp_all add: numeral_3_eq_3 numeral_2_eq_2)
  have d: "n div 256 = n div 16 div 16" "n div 4096 = n div 16 div 16 div 16"
    by (simp_all add: div_mult2_eq [symmetric])
  have lt: "n div 16 div 16 div 16 < 16"
    using assms by (simp add: div_mult2_eq [symmetric] less_mult_imp_div_less)
  consider "n < 16" | "16 \<le> n" "n div 16 < 16" | "16 \<le> n div 16" "n div 16 div 16 < 16"
    | "16 \<le> n div 16 div 16" "n div 16 div 16 div 16 < 16"
    using lt by (meson not_le_imp_less)
  then show ?thesis
  proof cases
    case 1
    then show ?thesis by (simp add: show_hex_pad_def show_hex_small z rep)
  next
    case 2
    then show ?thesis by (simp add: show_hex_pad_def show_hex_small show_hex_step d z rep)
  next
    case 3
    then have "16 \<le> n" by simp
    with 3 show ?thesis by (simp add: show_hex_pad_def show_hex_small show_hex_step d z rep)
  next
    case 4
    then have "16 \<le> n" "16 \<le> n div 16" by simp_all
    with 4 show ?thesis by (simp add: show_hex_pad_def show_hex_small show_hex_step d)
  qed
qed

lemma hex4_value:
  fixes n :: nat
  assumes "n < 0x10000"
  shows "n div 4096 * 4096 + n div 256 mod 16 * 256 + n div 16 mod 16 * 16 + n mod 16 = n"
    "n div 4096 < 16"
proof -
  have d: "n div 256 = n div 16 div 16" "n div 4096 = n div 16 div 16 div 16"
    by (simp_all add: div_mult2_eq [symmetric])
  have "n = n div 16 * 16 + n mod 16" "n div 16 = n div 256 * 16 + n div 16 mod 16"
    "n div 256 = n div 4096 * 16 + n div 256 mod 16" unfolding d by simp_all
  then show "n div 4096 * 4096 + n div 256 mod 16 * 256 + n div 16 mod 16 * 16 + n mod 16 = n" by linarith
  show "n div 4096 < 16" using assms by (simp add: less_mult_imp_div_less)
qed

subsection \<open>JSON strings\<close>

text \<open>A reader of JSON string literals (RFC 8259, section 7) over code points; an escape names one
  code point of the basic plane.\<close>

definition json_simple :: "nat \<Rightarrow> nat option" where
  "json_simple e =
     (if e = 0x22 \<or> e = 0x5C \<or> e = 0x2F then Some e
      else if e = 0x62 then Some 0x08 else if e = 0x66 then Some 0x0C
      else if e = 0x6E then Some 0x0A else if e = 0x72 then Some 0x0D
      else if e = 0x74 then Some 0x09 else None)"

fun json_read :: "nat list \<Rightarrow> nat list option" where
  "json_read [] = None"
| "json_read (c # cs) =
     (if c = 0x22 then (if cs = [] then Some [] else None)
      else if c = 0x5C then
        (case cs of
           [] \<Rightarrow> None
         | e # r \<Rightarrow>
             (case json_simple e of
                Some v \<Rightarrow> map_option ((#) v) (json_read r)
              | None \<Rightarrow>
                  (case r of
                     a # b # c # d # r' \<Rightarrow>
                       (case (hex_value a, hex_value b, hex_value c, hex_value d) of
                          (Some x, Some y, Some z, Some w) \<Rightarrow>
                            if e = 0x75
                            then map_option ((#) (x * 4096 + y * 256 + z * 16 + w)) (json_read r') else None
                        | _ \<Rightarrow> None)
                   | _ \<Rightarrow> None)))
      else if c < 0x20 then None
      else map_option ((#) c) (json_read cs))"

declare json_read.simps [simp del]

definition json_literal :: "nat list \<Rightarrow> nat list option" where
  "json_literal s = (case s of [] \<Rightarrow> None | q # cs \<Rightarrow> if q = 0x22 then json_read cs else None)"

lemma json_read_simple:
  "json_simple e = Some v \<Longrightarrow> json_read (0x5C # e # r) = map_option ((#) v) (json_read r)"
  by (simp add: json_read.simps(2) [of "0x5C"])

lemma json_read_hex:
  assumes "n < 0x10000"
  shows "json_read (0x5C # 0x75 # map byte (show_hex_pad 4 n) @ r) = map_option ((#) n) (json_read r)"
  using hex4_value [OF assms]
  by (simp add: json_read.simps(2) [of "0x5C"] json_simple_def show_hex_pad4 [OF assms] lower_hex)

lemma json_read_plain: "c \<noteq> 0x22 \<Longrightarrow> c \<noteq> 0x5C \<Longrightarrow> 0x20 \<le> c \<Longrightarrow> json_read (c # r) = map_option ((#) c) (json_read r)"
  by (simp add: json_read.simps(2) [of c])

lemma json_escape_char_read:
  assumes "is_scalar c"
  shows "utf8_valid (json_escape_char c) \<and> json_read (chars (json_escape_char c) @ r) = map_option ((#) c) (json_read r)"
proof (cases "c \<noteq> 0x22 \<and> c \<noteq> 0x5C \<and> c \<noteq> 0x0A \<and> c \<noteq> 0x0D \<and> c \<noteq> 0x09 \<and> c \<noteq> 0x08 \<and> c \<noteq> 0x0C")
  case False
  then show ?thesis by (auto simp: json_escape_char_def json_read_simple json_simple_def)
next
  case simple: True
  show ?thesis
  proof (cases "c < 0x20 \<or> in_range 0x7F 0x9F c \<or> c = 0x2028 \<or> c = 0x2029")
    case True
    then have e: "json_escape_char c = BACKSLASH # CHR ''u'' # show_hex_pad 4 c" and n: "c < 0x10000"
      using simple by (auto simp: json_escape_char_def in_range_def)
    have "\<forall>x\<in>set (json_escape_char c). byte x < 128"
      using show_hex_pad_is_hex [of 4 c] is_hex_ascii unfolding e by fastforce
    then show ?thesis using json_read_hex [OF n, of r] utf8_valid_ascii_all [of "json_escape_char c"] by (simp add: e)
  next
    case False
    then show ?thesis using simple encode_single [OF assms]
      by (simp add: json_escape_char_def json_read_plain)
  qed
qed

lemma json_escape_read: "json_literal (chars (json_escape v)) = Some (chars v)"
proof -
  have run: "\<forall>c\<in>set cs. is_scalar c \<Longrightarrow>
      json_read (concat (map (\<lambda>c. chars (json_escape_char c)) cs) @ [0x22]) = Some cs" for cs
    by (induction cs) (simp_all add: json_escape_char_read json_read.simps)
  have "\<forall>c\<in>set (chars v). utf8_valid (json_escape_char c)"
    using chars_scalar json_escape_char_read by blast
  then have "utf8_valid (concat (map json_escape_char (chars v)))"
    "chars (concat (map json_escape_char (chars v))) = concat (map (\<lambda>c. chars (json_escape_char c)) (chars v))"
    using chars_concat_map by blast+
  then have "chars (json_escape v) = 0x22 # concat (map (\<lambda>c. chars (json_escape_char c)) (chars v)) @ [0x22]"
    by (simp add: json_escape_def chars_append)
  then show ?thesis using run [OF chars_scalar] by (simp add: json_literal_def)
qed

subsection \<open>Nothing unsafe reaches the terminal\<close>

definition display_unsafe :: "nat \<Rightarrow> bool" where
  "display_unsafe c \<longleftrightarrow> is_terminal_unsafe c \<or> is_bidi_or_invisible c"

lemma printable_safe: "0x20 \<le> c \<Longrightarrow> c < 0x7F \<Longrightarrow> \<not> display_unsafe c"
  by (auto simp: display_unsafe_def is_terminal_unsafe_def is_control_def is_bidi_or_invisible_def is_bidi_def
      is_invisible_def is_line_separator_def in_range_def)

lemma display_char_ok:
  assumes "is_scalar c"
  shows "utf8_valid (display_char c)" "\<forall>x\<in>set (chars (display_char c)). \<not> display_unsafe x"
    "\<not> display_unsafe c \<Longrightarrow> display_char c = utf8_encode c"
proof -
  show plain: "\<not> display_unsafe c \<Longrightarrow> display_char c = utf8_encode c"
    by (simp add: display_unsafe_def display_char_def)
  have "utf8_valid (display_char c) \<and> (\<forall>x\<in>set (chars (display_char c)). \<not> display_unsafe x)"
  proof (cases "display_unsafe c")
    case False
    with plain encode_single [OF assms] show ?thesis by simp
  next
    case True
    have a: "\<forall>x\<in>set (display_char c). 0x20 \<le> byte x \<and> byte x < 0x7F"
      using True show_hex_pad_is_hex is_hex_ascii
      by (fastforce simp: display_unsafe_def display_char_def split: if_splits)
    then have "utf8_valid (display_char c) \<and> chars (display_char c) = map byte (display_char c)"
      by (intro utf8_valid_ascii_all) auto
    with a show ?thesis by (auto simp: printable_safe)
  qed
  then show "utf8_valid (display_char c)" "\<forall>x\<in>set (chars (display_char c)). \<not> display_unsafe x" by blast+
qed

lemma display_concat:
  assumes "\<forall>c\<in>set cs. is_scalar c"
  shows "utf8_valid (concat (map display_char cs))"
    "\<forall>x\<in>set (chars (concat (map display_char cs))). \<not> display_unsafe x"
proof -
  have "\<forall>c\<in>set cs. utf8_valid (display_char c)" using assms display_char_ok by blast
  then have c: "utf8_valid (concat (map display_char cs))"
    "chars (concat (map display_char cs)) = concat (map (\<lambda>c. chars (display_char c)) cs)"
    using chars_concat_map by blast+
  show "utf8_valid (concat (map display_char cs))" by (rule c)
  show "\<forall>x\<in>set (chars (concat (map display_char cs))). \<not> display_unsafe x"
  proof
    fix x assume "x \<in> set (chars (concat (map display_char cs)))"
    then obtain c where "c \<in> set cs" "x \<in> set (chars (display_char c))" unfolding c(2) by auto
    with assms display_char_ok(2) show "\<not> display_unsafe x" by blast
  qed
qed

lemma display_safe_concat: "utf8_valid v \<Longrightarrow> display_safe v = concat (map display_char (chars v))"
proof (cases "\<exists>c\<in>set (chars v). display_unsafe c")
  case True
  then show ?thesis by (auto simp: display_safe_def display_unsafe_def)
next
  case False
  assume "utf8_valid v"
  moreover have "map display_char (chars v) = map utf8_encode (chars v)"
    using False chars_scalar display_char_ok(3) by (intro map_cong) auto
  ultimately have "concat (map display_char (chars v)) = v" using encode_chars by metis
  with False show ?thesis by (auto simp: display_safe_def display_unsafe_def)
qed

lemma display_safe_ok: "\<forall>c\<in>set (chars (display_safe v)). \<not> display_unsafe c"
  using display_concat(2) [OF chars_scalar] by (auto simp: display_safe_def display_unsafe_def)

lemma display_safe_id: "(\<forall>c\<in>set (chars v). \<not> display_unsafe c) \<Longrightarrow> display_safe v = v"
  by (auto simp: display_safe_def display_unsafe_def)

lemma display_bounded_loop_prefix:
  assumes "m < usize_max"
  shows "length out \<le> m \<Longrightarrow> \<exists>k\<le>length cs.
     display_bounded_loop m cs out n =
       (out @ concat (map display_char (take k cs)), n + length (concat (map utf8_encode (take k cs))))
     \<and> length (out @ concat (map display_char (take k cs))) \<le> m
     \<and> (k < length cs \<longrightarrow> m < length (out @ concat (map display_char (take (Suc k) cs))))"
proof (induction cs arbitrary: out n)
  case (Cons c cs)
  show ?case
  proof (cases "m < length out + length (display_char c)")
    case True
    then have "m < sat_add_usize (length out) (length (display_char c))"
      using assms by (simp add: sat_add_usize_def)
    with True Cons.prems show ?thesis by (intro exI [of _ 0]) simp
  next
    case False
    then have step: "\<not> m < sat_add_usize (length out) (length (display_char c))" by (simp add: sat_add_usize_def)
    have le: "length (out @ display_char c) \<le> m" using False by simp
    obtain k where k: "k \<le> length cs"
      "display_bounded_loop m cs (out @ display_char c) (n + length (utf8_encode c)) =
        ((out @ display_char c) @ concat (map display_char (take k cs)),
         n + length (utf8_encode c) + length (concat (map utf8_encode (take k cs))))"
      "length ((out @ display_char c) @ concat (map display_char (take k cs))) \<le> m"
      "k < length cs \<longrightarrow> m < length ((out @ display_char c) @ concat (map display_char (take (Suc k) cs)))"
      using Cons.IH [OF le, of "n + length (utf8_encode c)"] by blast
    then show ?thesis using step by (intro exI [of _ "Suc k"]) simp
  qed
qed simp

lemma display_safe_bounded_prefix:
  assumes "m < usize_max" "utf8_valid v"
  shows "\<exists>k\<le>length (chars v).
     (let shown = concat (map display_char (take k (chars v)));
          left = length v - length (concat (map utf8_encode (take k (chars v))))
      in length shown \<le> m
         \<and> display_safe_bounded v m =
             (if k = length (chars v) then display_safe v
              else shown @ ''... ['' @ show_nat left @ '' bytes omitted]'')
         \<and> (k < length (chars v) \<longrightarrow> m < length (concat (map display_char (take (Suc k) (chars v))))))"
proof -
  let ?cs = "chars v"
  obtain k where k: "k \<le> length ?cs"
      "display_bounded_loop m ?cs [] 0 = (concat (map display_char (take k ?cs)), length (concat (map utf8_encode (take k ?cs))))"
      "length (concat (map display_char (take k ?cs))) \<le> m"
      "k < length ?cs \<longrightarrow> m < length (concat (map display_char (take (Suc k) ?cs)))"
    using display_bounded_loop_prefix [OF assms(1), of "[]" ?cs 0] by auto
  have v: "v = concat (map utf8_encode (take k ?cs)) @ concat (map utf8_encode (drop k ?cs))"
    using encode_chars [OF assms(2)] by (metis append_take_drop_id concat_append map_append)
  have "concat (map utf8_encode (drop k ?cs)) = [] \<longleftrightarrow> k = length ?cs"
    using k(1) by (auto simp: concat_eq_Nil_conv)
  then have "length (concat (map utf8_encode (take k ?cs))) < length v \<longleftrightarrow> k \<noteq> length ?cs"
    by (subst v) simp
  with k display_safe_concat [OF assms(2)] show ?thesis
    by (intro exI [of _ k]) (auto simp: display_safe_bounded_def Let_def)
qed

end
