(* ===== verification/Patch_Claims.thy ===== *)
theory Patch_Claims
  imports Render_Roundtrip Sealed_Review Core_Text
begin

text \<open>
  The properties of the patch and core crates, with the parsed inputs their instances use.
\<close>

subsection \<open>A sample patch\<close>

definition sample_patch :: string where
  "sample_patch = unlines
     [''diff --git a/src/lib.rs b/src/lib.rs'', ''index 1111111..2222222 100644'',
      ''--- a/src/lib.rs'', ''+++ b/src/lib.rs'', ''@@ -1,2 +1,2 @@ fn main'', '' a'', ''-b'', ''+c'',
      ''diff --git a/old b/new'', ''similarity index 90%'', ''rename from old'', ''rename to new'',
      ''--- a/old'', ''+++ b/new'', ''@@ -3 +3 @@'', ''-x'', eof_marker, ''+y'']"

definition sample_plain :: string where
  "sample_plain = unlines
     [''diff --git a/src/lib.rs b/src/lib.rs'', ''index 1111111..2222222 100644'',
      ''--- a/src/lib.rs'', ''+++ b/src/lib.rs'', ''@@ -1,2 +1,2 @@ fn main'', '' a'', ''-b'', ''+c'']"

lemma sample_parses: "is_ok (parse sample_patch)"
  by code_simp

lemma sample_plain_parses: "is_ok (parse sample_plain)"
  by code_simp

lemma sample_plain_plain: "case parse sample_plain of Inl _ \<Rightarrow> False | Inr fs \<Rightarrow> list_all plain_file fs
   \<and> length (render_unified fs) \<le> DEFAULT_BYTE_BUDGET \<and> length (split_terminator LF (render_unified fs)) \<le> DEFAULT_LINE_BUDGET"
  by code_simp

subsection \<open>The patch parser\<close>

lemma parse_sample:
  obtains fs where "parse_lines sample_patch (length sample_patch) [] ParseOptions_default = Inr fs"
  using sample_parses by (auto simp: is_ok_iff parse_def parse_with_def)

text \<open>C1: rendering a parsed review and parsing the rendering again gives the same review, less the
  hunk headings the renderer drops, for every parsed review whose sections are all plain
  (\<open>plain_file\<close>) and whose rendering is within the parser's default byte and line budgets. A plain section has a
  nonempty UTF-8 path with no NUL and no double slash; it is a modified file, or an added (deleted)
  file that carries its \<open>new file mode\<close> (\<open>deleted file mode\<close>) line (for an added or deleted file without one the
  renderer writes a mode line, so such a section is not claimed to come back the same); it has hunks, no binary
  body, no lossily decoded line, no semantic twin and the line strategy's planner record; and its metadata are \<open>index\<close>
  lines and valid mode lines of its status (no line feed in them, no carriage return at their end), followed by one
  end-of-file marker for each line without a line feed.\<close>

theorem render_parse_roundtrip:
  assumes "parse_lines input len lossy opts = Inr fs" "\<forall>rf\<in>set fs. plain_file rf"
    "length (render_unified fs) \<le> DEFAULT_BYTE_BUDGET"
    "length (split_terminator LF (render_unified fs)) \<le> DEFAULT_LINE_BUDGET"
  shows "parse (render_unified fs) = Inr (map drop_headings fs)"
  using assms by (rule parsed_render_roundtrip)

theorem render_parse_roundtrip_witness:
  "parse (render_unified (projr (parse sample_plain))) = Inr (map drop_headings (projr (parse sample_plain)))"
proof -
  obtain fs where "parse sample_plain = Inr fs" using sample_plain_parses by (auto simp: is_ok_iff)
  then show ?thesis
    using sample_plain_plain render_parse_roundtrip [of sample_plain "length sample_plain" "[]" ParseOptions_default fs]
    by (simp add: parse_def parse_with_def list_all_iff)
qed

text \<open>C2: every hunk of a parsed review is declared by a hunk header line of the input with exactly
  the old and new line counts its body has, its lines are lines of the input numbered consecutively
  from the declared starts (saturating at \<open>u32::MAX\<close>), at least one of them is a change, and the
  identifiers number the hunks of the review 0, 1, 2 and so on.\<close>

theorem parsed_hunks_exact:
  assumes "parse_lines input len lossy opts = Inr fs"
  shows "(\<forall>rf\<in>set fs. \<forall>h\<in>set (pt_hunks (rf_patch_twin rf)). hunk_ok (set (split_terminator LF input)) h)
    \<and> review_ids fs = [0..<length (review_ids fs)]"
  using hunk_machine.I_parse_lines [OF assms] by (simp add: hunks_result_def hunks_ok_def)

theorem parsed_hunks_exact_witness:
  "review_ids (projr (parse sample_patch)) = [0..<length (review_ids (projr (parse sample_patch)))]"
  by (rule parse_sample) (use parsed_hunks_exact in \<open>fastforce simp: parse_def parse_with_def\<close>)

text \<open>C3: a line marked as having no line feed is the last line of its side of the file: no later
  line of the section, in its hunk or a later one, is on the same side.\<close>

theorem parsed_eof_is_last:
  assumes "parse_lines input len lossy opts = Inr fs" "rf \<in> set fs"
    "i < j" "j < length (all_lines (pt_hunks (rf_patch_twin rf)))"
    "pl_no_newline (all_lines (pt_hunks (rf_patch_twin rf)) ! i)"
  shows "\<not> shares_side (all_lines (pt_hunks (rf_patch_twin rf)) ! i) (all_lines (pt_hunks (rf_patch_twin rf)) ! j)"
  using mark_machine.I_parse_lines [OF assms(1)] assms(2-5)
  by (auto simp: marks_result_def twin_marks_ok_def Let_def eof_ordered_def sorted_wrt_iff_nth_less)

theorem parsed_eof_is_last_witness:
  "\<not> shares_side (all_lines (pt_hunks (rf_patch_twin (projr (parse sample_patch) ! 1))) ! 0)
     (all_lines (pt_hunks (rf_patch_twin (projr (parse sample_patch) ! 1))) ! 1)"
proof -
  obtain fs where fs: "parse sample_patch = Inr fs" using sample_parses by (auto simp: is_ok_iff)
  have "length (projr (parse sample_patch)) = 2
      \<and> length (all_lines (pt_hunks (rf_patch_twin (projr (parse sample_patch) ! 1)))) = 2
      \<and> pl_no_newline (all_lines (pt_hunks (rf_patch_twin (projr (parse sample_patch) ! 1))) ! 0)"
    by code_simp
  then show ?thesis
    using fs parsed_eof_is_last [of sample_patch "length sample_patch" "[]" ParseOptions_default fs "fs ! 1" 0 1]
    by (simp add: parse_def parse_with_def)
qed

text \<open>C4: each section of a parsed review names a path, carries a hunk or a header, an added file has
  added lines only and a deleted one removed lines only, and a section with a binary body or notice
  has no text hunk.\<close>

theorem parsed_sections_consistent:
  assumes "parse_lines input len lossy opts = Inr fs" "rf \<in> set fs"
  shows "rf_path rf \<noteq> []
    \<and> (pt_hunks (rf_patch_twin rf) = [] \<longrightarrow> pt_metadata (rf_patch_twin rf) \<noteq> [])
    \<and> (''GIT binary patch'' \<in> set (pt_metadata (rf_patch_twin rf)) \<or> twin_says rf ''Binary files ''
          \<longrightarrow> pt_hunks (rf_patch_twin rf) = [])
    \<and> (rf_status rf = FsAdded \<longrightarrow> (\<forall>l\<in>set (all_lines (pt_hunks (rf_patch_twin rf))). pl_kind l = LkAdded))
    \<and> (rf_status rf = FsDeleted \<longrightarrow> (\<forall>l\<in>set (all_lines (pt_hunks (rf_patch_twin rf))). pl_kind l = LkRemoved))"
  using section_machine.I_parse_lines [OF assms(1)] assms(2) by (auto simp: sections_result_def section_ok_def)

theorem parsed_sections_consistent_witness: "rf_path (hd (projr (parse sample_patch))) \<noteq> []"
proof -
  obtain fs where fs: "parse sample_patch = Inr fs" using sample_parses by (auto simp: is_ok_iff)
  have "projr (parse sample_patch) \<noteq> []" by code_simp
  then show ?thesis
    using fs parsed_sections_consistent [of sample_patch "length sample_patch" "[]" ParseOptions_default fs "List.hd fs"]
    by (simp add: parse_def parse_with_def)
qed

text \<open>C5: a file reported as renamed goes to a path Git would write (not empty, not absolute, no
  \<open>.\<close>, \<open>..\<close> or \<open>.git\<close> component), and the review carries both the \<open>rename from\<close> and the
  \<open>rename to\<close> header, whether Git wrote them or the parser recorded an implied move.\<close>

theorem parsed_renames_safe:
  assumes "parse_lines input len lossy opts = Inr fs" "rf \<in> set fs" "rf_status rf = FsRenamed"
  shows "\<not> git_refuses_path (rf_path rf) \<and> twin_says rf ''rename from '' \<and> twin_says rf ''rename to ''"
  using section_machine.I_parse_lines [OF assms(1)] assms(2,3) by (auto simp: sections_result_def section_ok_def)

theorem parsed_renames_safe_witness: "\<not> git_refuses_path (rf_path (projr (parse sample_patch) ! 1))"
proof -
  obtain fs where fs: "parse sample_patch = Inr fs" using sample_parses by (auto simp: is_ok_iff)
  have "length (projr (parse sample_patch)) = 2 \<and> rf_status (projr (parse sample_patch) ! 1) = FsRenamed" by code_simp
  then show ?thesis
    using fs parsed_renames_safe [of sample_patch "length sample_patch" "[]" ParseOptions_default fs "fs ! 1"]
    by (simp add: parse_def parse_with_def)
qed

text \<open>Every line that was read from replaced bytes is accounted for: a section's lossy line count
  is at least the number of its lines marked lossy, up to saturation at \<open>u32::MAX\<close>; in particular a
  section that counts none has no lossy line.\<close>

theorem parsed_lossy_accounted:
  assumes "parse_lines input len lossy opts = Inr fs" "rf \<in> set fs"
  shows "min (length (filter pl_lossy (all_lines (pt_hunks (rf_patch_twin rf))))) u32_max
      \<le> pt_lossy_lines (rf_patch_twin rf)"
  using mark_machine.I_parse_lines [OF assms(1)] assms(2)
  by (auto simp: marks_result_def twin_marks_ok_def Let_def lossy_count_def)

theorem parsed_lossy_accounted_witness:
  "min (length (filter pl_lossy (all_lines (pt_hunks (rf_patch_twin (hd (projr (parse_decoded (decode
     (sample_plain @ [CHR 0xE9, LF])) ParseOptions_default)))))))) u32_max
   \<le> pt_lossy_lines (rf_patch_twin (hd (projr (parse_decoded (decode (sample_plain @ [CHR 0xE9, LF]))
        ParseOptions_default))))"
proof -
  let ?d = "decode (sample_plain @ [CHR 0xE9, LF])"
  have "is_ok (parse_decoded ?d ParseOptions_default) \<and> projr (parse_decoded ?d ParseOptions_default) \<noteq> []" by code_simp
  then obtain fs where "parse_decoded ?d ParseOptions_default = Inr fs" "fs \<noteq> []" by (auto simp: is_ok_iff)
  then show ?thesis
    using parsed_lossy_accounted [of "dp_text ?d" "dp_byte_len ?d" "dp_lossy_lines ?d" ParseOptions_default fs "List.hd fs"]
    by (simp add: parse_decoded_def)
qed

text \<open>C27: a hunk header is accepted exactly when it is in Git's grammar
  \<open>@@ -a[,b] +c[,d] @@[ heading]\<close> with single spaces, digits only, every number within \<open>u32\<close> and an
  omitted count read as one; the numbers read are the numbers written.\<close>

theorem hunk_header_exact_grammar:
  "parse_hunk_header line = Some h \<longleftrightarrow>
     (\<exists>r1 r2 s. line = ''@@ -'' @ r1 @ '' +'' @ r2 @ '' @@'' @ s
        \<and> is_range r1 (hh_old_start h) (hh_old_count h)
        \<and> is_range r2 (hh_new_start h) (hh_new_count h)
        \<and> heading_of (hh_section h) s)"
  by (simp add: parse_hunk_header_iff hunk_header_grammar_def)

text \<open>C25: decoding a Git path inverts quoting it, for every UTF-8 path without a NUL byte.\<close>

theorem path_quoting_roundtrip:
  assumes "utf8_valid p" "NUL \<notin> set p"
  shows "decode_path (quote p) = Some p"
  using assms by (rule decode_path_quote)

theorem path_quoting_roundtrip_witness:
  "decode_path (quote [CHR 0x61, TAB, DQUOTE, CHR 0xC3, CHR 0xA9]) = Some [CHR 0x61, TAB, DQUOTE, CHR 0xC3, CHR 0xA9]"
  by (rule path_quoting_roundtrip) (code_simp, simp)

text \<open>The single forward scan that finds the two equal halves of a \<open>diff --git\<close> line gives what
  the plain search does, which tries every blank and looks for the second half's slash afresh.\<close>

theorem same_name_scan_equals_search:
  "snh_loop p0 name 0 (blank_positions name) = snh_ref p0 name (blank_positions name)"
  by (rule same_name_halves_linear)

text \<open>When the halves of an unquoted \<open>diff --git\<close> line are found, the line really is
  \<open>X/NAME Y/NAME\<close> with one blank between them.\<close>

theorem same_name_halves_split:
  assumes "same_name_halves rest False = Some n" "DQUOTE \<notin> set rest"
  shows "\<exists>a b sep. rest = a @ SLASH # n @ sep # b @ SLASH # n \<and> a \<noteq> [] \<and> b \<noteq> []
     \<and> SLASH \<notin> set a \<and> SLASH \<notin> set b \<and> (sep = SPACE \<or> sep = TAB)"
  using assms by (rule same_name_halves_sound)

theorem same_name_halves_split_witness:
  "\<exists>a b sep. ''a/x y b/x y'' = a @ SLASH # ''x y'' @ sep # b @ SLASH # ''x y'' \<and> a \<noteq> [] \<and> b \<noteq> []
     \<and> SLASH \<notin> set a \<and> SLASH \<notin> set b \<and> (sep = SPACE \<or> sep = TAB)"
  by (rule same_name_halves_split) (code_simp, simp)

text \<open>A timestamp found at the end of a traditional header ends the name at a tab or a space and
  never reaches past the line.\<close>

theorem timestamp_starts_at_blank:
  assumes "0 < timestamp_len line"
  shows "timestamp_len line \<le> length line \<and> line ! (length line - timestamp_len line) \<in> {TAB, SPACE}"
  using assms by (rule timestamp_len_boundary)

theorem timestamp_starts_at_blank_witness:
  "(''a/x'' @ [TAB] @ ''1970-01-01 00:00:00 +0000'') ! (length (''a/x'' @ [TAB] @ ''1970-01-01 00:00:00 +0000'')
     - timestamp_len (''a/x'' @ [TAB] @ ''1970-01-01 00:00:00 +0000'')) \<in> {TAB, SPACE}"
proof -
  have "0 < timestamp_len (''a/x'' @ [TAB] @ ''1970-01-01 00:00:00 +0000'')" by code_simp
  from timestamp_starts_at_blank [OF this] show ?thesis by (rule conjunct2)
qed

text \<open>Canonicalising a mode gives one of Git's five modes, changes nothing when repeated, and
  keeps the object type of every mode that has one of Git's four.\<close>

theorem canon_mode_canonical:
  "canon_mode m \<in> {0x81ED, 0x81A4, 0xA000, 0x4000, 0xE000} \<and> canon_mode (canon_mode m) = canon_mode m
   \<and> (object_type m \<in> {0x8000, 0xA000, 0x4000, 0xE000} \<longrightarrow> object_type (canon_mode m) = object_type m)"
  using canon_mode_range canon_mode_idem object_type_canon by blast

theorem canon_mode_canonical_witness: "object_type (canon_mode 0x81B4) = (0x8000 :: 32 word)"
proof -
  have "object_type 0x81B4 = (0x8000 :: 32 word)" by (simp add: object_type_def)
  then show ?thesis using canon_mode_canonical [of "0x81B4"] by simp
qed

text \<open>C38: an input over the byte budget is refused before any line is read, whatever it holds, and
  the refusal names the limit and the size; an input with more lines than the line budget never
  parses.\<close>

theorem budgets_refuse:
  "(po_byte_budget opts < len \<longrightarrow> parse_lines input len lossy opts = Inl (BudgetExceeded (po_byte_budget opts) len))
   \<and> (DEFAULT_LINE_BUDGET < length (split_terminator LF input) \<longrightarrow> \<not> is_ok (parse_lines input len lossy opts))"
proof -
  have "length (split_terminator LF input) \<le> DEFAULT_LINE_BUDGET" if "parse_lines input len lossy opts = Inr fs" for fs
    using that parse_loop_within_budget [where i = 0] by (fastforce simp: parse_lines_def Let_def res_elims split: if_splits)
  then have "DEFAULT_LINE_BUDGET < length (split_terminator LF input) \<Longrightarrow> \<not> is_ok (parse_lines input len lossy opts)"
    unfolding is_ok_iff by (meson not_less)
  then show ?thesis by (simp add: parse_lines_def)
qed

theorem budgets_refuse_witness:
  "parse_with ''diff'' \<lparr>po_byte_budget = 3\<rparr> = Inl (BudgetExceeded 3 4)"
  using budgets_refuse [of "\<lparr>po_byte_budget = 3\<rparr>" 4 "''diff''" "[]"] by (simp add: parse_with_def numeral_eq_Suc)

subsection \<open>From bytes to a sealed review\<close>

text \<open>Decoding patch bytes keeps their lines: the lines of the text are the lines of the bytes,
  each the line itself when it is UTF-8 and its lossy decoding otherwise; the recorded line numbers
  are exactly those of the invalid lines; the byte length is that of the input; the text is always
  UTF-8, and it is the input itself exactly when the input is UTF-8.\<close>

theorem decode_keeps_lines:
  "split_terminator LF (dp_text (decode b)) = map from_utf8_lossy (split_terminator LF b)
   \<and> dp_lossy_lines (decode b) =
       map Suc (filter (\<lambda>k. \<not> utf8_valid (split_terminator LF b ! k)) [0..<length (split_terminator LF b)])
   \<and> dp_byte_len (decode b) = length b \<and> utf8_valid (dp_text (decode b))
   \<and> (is_exact (decode b) \<longleftrightarrow> utf8_valid b) \<and> (utf8_valid b \<longrightarrow> dp_text (decode b) = b)"
  by (rule decode_spec)

theorem decode_keeps_lines_witness: "dp_text (decode ''+a'') = ''+a''"
proof -
  have "utf8_valid ''+a''" by code_simp
  then show ?thesis using decode_keeps_lines [of "''+a''"] by blast
qed

text \<open>A sealed review is made exactly when the bytes parse and break no requested contract, and
  then its files are what those same bytes parse to and its seal is the digest of those same
  bytes.\<close>

theorem sealed_review_same_bytes:
  "SealedReview_new b g v = Inr r \<longleftrightarrow>
     parse_decoded (decode b) ParseOptions_default = Inr (sr_files r)
     \<and> (ig_files g \<longrightarrow> sr_files r \<noteq> []) \<and> (ig_hunks g \<longrightarrow> has_reviewable_hunks (sr_files r))
     \<and> is_input_sha256 (sr_seal r) = sha256_hex b \<and> is_tool_version (sr_seal r) = v"
  unfolding sealed_review_parts refusal_None_iff by (cases "sr_seal r") (auto simp: InputSeal_of_def)

theorem sealed_review_same_bytes_witness:
  "is_input_sha256 (sr_seal (projr (SealedReview_new [] \<lparr>ig_files = False, ig_hunks = False\<rparr> ''0''))) = sha256_hex []"
proof -
  have p: "parse_decoded (decode []) ParseOptions_default = Inr []" by code_simp
  then have r: "SealedReview_new [] \<lparr>ig_files = False, ig_hunks = False\<rparr> ''0''
      = Inr \<lparr>sr_files = [], sr_seal = InputSeal_of [] ''0''\<rparr>"
    by (simp add: SealedReview_new_def refusal_def)
  from iffD1 [OF sealed_review_same_bytes r] show ?thesis unfolding r by simp
qed

text \<open>A captured patch keeps the exact input bytes and their digest, and its files are those of
  a sealed review of the same bytes with no contract; it reports itself exact only for UTF-8.\<close>

theorem capture_keeps_input:
  assumes "capture_bytes b = Inr c"
  shows "original_bytes c = b \<and> cp_digest c = sha256_hex b \<and> (CapturedPatch_is_exact c \<longleftrightarrow> utf8_valid b)
    \<and> SealedReview_new b \<lparr>ig_files = False, ig_hunks = False\<rparr> v =
        Inr \<lparr>sr_files = cp_files c, sr_seal = \<lparr>is_input_sha256 = cp_digest c, is_tool_version = v\<rparr>\<rparr>"
proof -
  obtain fs where fs: "parse_decoded (decode b) ParseOptions_default = Inr fs"
    and c: "c = \<lparr>cp_raw = dp_text (decode b), cp_bytes = (if utf8_valid b then None else Some b),
          cp_digest = sha256_hex b, cp_files = fs\<rparr>"
    using assms unfolding capture_bytes_parts by (auto simp: res_elims)
  have "utf8_valid b \<Longrightarrow> dp_text (decode b) = b" using decode_spec [of b] by blast
  then show ?thesis
    using fs by (simp add: c original_bytes_def CapturedPatch_is_exact_def SealedReview_new_def refusal_def InputSeal_of_def)
qed

theorem capture_keeps_input_witness: "original_bytes (projr (capture_bytes sample_plain)) = sample_plain"
proof -
  have "utf8_valid sample_plain" by code_simp
  then obtain c where "capture_bytes sample_plain = Inr c"
    using sample_plain_parses by (auto simp: is_ok_iff capture_bytes_def capture_def)
  then show ?thesis using capture_keeps_input [of sample_plain c v] by simp
qed

text \<open>The contract on hunks, applied to a parsed patch, refuses exactly the reviews with no hunk
  at all, since every hunk the parser accepts changes a line.\<close>

theorem hunk_contract_on_parsed:
  assumes "parse_lines input len lossy opts = Inr fs"
  shows "has_reviewable_hunks fs \<longleftrightarrow> (\<exists>rf\<in>set fs. pt_hunks (rf_patch_twin rf) \<noteq> [])"
proof
  show "has_reviewable_hunks fs \<Longrightarrow> \<exists>rf\<in>set fs. pt_hunks (rf_patch_twin rf) \<noteq> []"
    unfolding has_reviewable_hunks_def by (metis empty_iff empty_set)
next
  assume "\<exists>rf\<in>set fs. pt_hunks (rf_patch_twin rf) \<noteq> []"
  then obtain rf h where "rf \<in> set fs" "h \<in> set (pt_hunks (rf_patch_twin rf))"
    by (metis list.set_intros(1) neq_Nil_conv)
  moreover from this have "\<exists>l\<in>set (ph_lines h). pl_kind l \<noteq> LkContext"
    using hunk_machine.I_parse_lines [OF assms] by (auto simp: hunks_result_def hunks_ok_def hunk_ok_def)
  ultimately show "has_reviewable_hunks fs"
    by (auto simp: has_reviewable_hunks_def) (metis PatchLineKind.exhaust)
qed

theorem hunk_contract_on_parsed_witness: "has_reviewable_hunks (projr (parse sample_plain))"
proof -
  obtain fs where fs: "parse sample_plain = Inr fs" using sample_plain_parses by (auto simp: is_ok_iff)
  have "projr (parse sample_plain) \<noteq> [] \<and> pt_hunks (rf_patch_twin (List.hd (projr (parse sample_plain)))) \<noteq> []" by code_simp
  then show ?thesis
    using fs hunk_contract_on_parsed [of sample_plain "length sample_plain" "[]" ParseOptions_default fs]
    by (auto simp: parse_def parse_with_def intro!: bexI [of _ "List.hd fs"])
qed

text \<open>C24: the digest the code computes is FIPS 180-4's SHA-256, for inputs of every length: the
  message padded to whole blocks with the bit length modulo 2 to the 64, the message schedule as the
  standard's recurrence and the rounds over its eight working variables.\<close>

theorem sha256_is_fips_180_4: "sha256 m = fips_sha256 m"
  by (rule sha256_fips)

text \<open>The wire form of a digest is 64 lower-case hexadecimal digits and determines the digest.\<close>

theorem sha256_hex_wire_form:
  "length (sha256_hex a) = 64 \<and> (\<forall>c\<in>set (sha256_hex a). is_ascii_digit c \<or> c \<in> set ''abcdef'')
   \<and> (sha256_hex a = sha256_hex b \<longleftrightarrow> sha256 a = sha256 b)"
  using sha256_hex_form sha256_hex_inj by blast

theorem sha256_hex_wire_form_witness: "length (sha256_hex ''abc'') = 64"
  using sha256_hex_wire_form by blast

subsection \<open>Untrusted text\<close>

text \<open>The JSON string written for any text reads back, by RFC 8259's rules, as the characters of
  that text.\<close>

theorem json_escape_roundtrip: "json_literal (chars (json_escape v)) = Some (chars v)"
  by (rule json_escape_read)

text \<open>C36: nothing printed through \<open>display_safe\<close> holds a control character other than a tab, a bidi
  control, an invisible character or a Unicode line separator, and text that holds none is printed
  as it is.\<close>

theorem display_safe_is_safe:
  "(\<forall>c\<in>set (chars (display_safe v)). \<not> is_terminal_unsafe c \<and> \<not> is_bidi_or_invisible c)
   \<and> ((\<forall>c\<in>set (chars v). \<not> is_terminal_unsafe c \<and> \<not> is_bidi_or_invisible c) \<longrightarrow> display_safe v = v)"
  using display_safe_ok [of v] display_safe_id [of v] by (simp add: display_unsafe_def)

theorem display_safe_is_safe_witness: "display_safe ''let x = 1;'' = ''let x = 1;''"
proof -
  have "\<forall>c\<in>set (chars ''let x = 1;''). \<not> is_terminal_unsafe c \<and> \<not> is_bidi_or_invisible c" by code_simp
  then show ?thesis using display_safe_is_safe by blast
qed

text \<open>The bounded form shows the longest run of whole characters whose safe rendering fits the
  bound, and says how many source bytes it left out; text that fits is shown as \<open>display_safe\<close>
  shows it.\<close>

theorem display_safe_bounded_fits:
  assumes "m < usize_max" "utf8_valid v"
  shows "\<exists>k\<le>length (chars v).
     (let shown = concat (map display_char (take k (chars v)));
          left = length v - length (concat (map utf8_encode (take k (chars v))))
      in length shown \<le> m
         \<and> display_safe_bounded v m =
             (if k = length (chars v) then display_safe v
              else shown @ ''... ['' @ show_nat left @ '' bytes omitted]'')
         \<and> (k < length (chars v) \<longrightarrow> m < length (concat (map display_char (take (Suc k) (chars v))))))"
  using assms by (rule display_safe_bounded_prefix)

theorem display_safe_bounded_fits_witness:
  "\<exists>k\<le>length (chars ''abc''). length (concat (map display_char (take k (chars ''abc'')))) \<le> 2"
proof -
  have "(2 :: nat) < usize_max \<and> utf8_valid ''abc''" by code_simp
  then show ?thesis using display_safe_bounded_fits [of 2 "''abc''"] by (auto simp: Let_def)
qed

subsection \<open>Exit codes\<close>

text \<open>Every refusal of the parser has an exit code the registry lists for the engine; it is
  never success, and only a header that is not UTF-8 is reported as an environment problem.\<close>

theorem parse_errors_registered:
  "\<exists>e. exit_lookup ''engine'' (PatchParseError_exit_code err) = Some e
     \<and> ec_code e = PatchParseError_exit_code err \<and> ec_code e \<noteq> SUCCESS
     \<and> (may_be_transient (ec_action e) \<longleftrightarrow> (\<exists>n. err = LossyHeader n))"
proof -
  have "exit_lookup ''engine'' EXIT_IO \<noteq> None \<and> exit_lookup ''engine'' INVALID_INPUT \<noteq> None
      \<and> ec_code (the (exit_lookup ''engine'' EXIT_IO)) = EXIT_IO
      \<and> ec_code (the (exit_lookup ''engine'' INVALID_INPUT)) = INVALID_INPUT
      \<and> ec_action (the (exit_lookup ''engine'' EXIT_IO)) = CheckEnvironment
      \<and> ec_action (the (exit_lookup ''engine'' INVALID_INPUT)) = ChangeInput
      \<and> EXIT_IO \<noteq> SUCCESS \<and> INVALID_INPUT \<noteq> SUCCESS" by code_simp
  then show ?thesis by (cases err) (auto simp: may_be_transient_def)
qed

text \<open>No family of the registry lists a code twice.\<close>

theorem exit_codes_distinct: "distinct (map (\<lambda>e. (ec_family e, ec_code e)) EXIT_CODES)"
  by code_simp

subsection \<open>A finding\<close>

text \<open>A metadata line that only begins with \<open>GIT binary patch\<close> makes the section a binary change
  but is neither the start of a binary body nor counted when text hunks in a binary section are
  refused: this patch parses to a file reported as a binary change that carries a text hunk.\<close>

lemma binary_status_with_text_hunk:
  "case parse (unlines [''diff --git a/x b/x'', ''GIT binary patch!'', ''--- a/x'', ''+++ b/x'',
      ''@@ -1 +1 @@'', ''-a'', ''+b'']) of
     Inl _ \<Rightarrow> False
   | Inr fs \<Rightarrow> map rf_status fs = [FsBinaryChanged] \<and> map (\<lambda>f. length (pt_hunks (rf_patch_twin f))) fs = [1]"
  by code_simp

end
