(* ===== verification/Std_Text.thy ===== *)
theory Std_Text
  imports Utf8
begin

text \<open>
  More of the standard library the scanners call: the ASCII classes of a byte, trimming, words,
  suffixes, indexing with \<open>get\<close>, and \<open>str::match_indices\<close> (left to right, without overlap).
\<close>

subsection \<open>Bytes\<close>

definition is_ascii_whitespace :: "char \<Rightarrow> bool" where
  "is_ascii_whitespace b \<longleftrightarrow> b = SPACE \<or> b = TAB \<or> b = LF \<or> b = CHR 0x0C \<or> b = CR"

definition is_ascii_uppercase :: "char \<Rightarrow> bool" where
  "is_ascii_uppercase b \<longleftrightarrow> 65 \<le> byte b \<and> byte b \<le> 90"

definition is_ascii_lowercase :: "char \<Rightarrow> bool" where
  "is_ascii_lowercase b \<longleftrightarrow> 97 \<le> byte b \<and> byte b \<le> 122"

definition is_ascii_alphanumeric :: "char \<Rightarrow> bool" where
  "is_ascii_alphanumeric b \<longleftrightarrow> is_ascii_uppercase b \<or> is_ascii_lowercase b \<or> is_ascii_digit b"

subsection \<open>Slices and strings\<close>

definition nth_get :: "'a list \<Rightarrow> nat \<Rightarrow> 'a option" where
  "nth_get xs i = (if i < length xs then Some (xs ! i) else None)"

definition last_get :: "'a list \<Rightarrow> 'a option" where
  "last_get xs = (if xs = [] then None else Some (last xs))"

definition opt_is_none_or :: "('a \<Rightarrow> bool) \<Rightarrow> 'a option \<Rightarrow> bool" where
  "opt_is_none_or p x = (case x of None \<Rightarrow> True | Some y \<Rightarrow> p y)"

definition opt_is_some_and :: "('a \<Rightarrow> bool) \<Rightarrow> 'a option \<Rightarrow> bool" where
  "opt_is_some_and p x = (case x of None \<Rightarrow> False | Some y \<Rightarrow> p y)"

definition trim_ascii_end :: "string \<Rightarrow> string" where
  "trim_ascii_end s = rev (dropWhile is_ascii_whitespace (rev s))"

definition trim_end :: "string \<Rightarrow> string" where
  "trim_end s = concat (map utf8_encode (rev (dropWhile is_whitespace (rev (chars s)))))"

definition str_trim :: "string \<Rightarrow> string" where
  "str_trim s = trim_end (trim_start s)"

definition strip_suffix :: "string \<Rightarrow> string \<Rightarrow> string option" where
  "strip_suffix p s = (if ends_with p s then Some (take (length s - length p) s) else None)"

text \<open>\<open>split_whitespace().next()\<close> and \<open>rsplit(c).next()\<close>, which always has a part.\<close>

definition first_word :: "string \<Rightarrow> string option" where
  "first_word s =
     (let w = takeWhile (\<lambda>c. \<not> is_whitespace c) (dropWhile is_whitespace (chars s)) in
      if w = [] then None else Some (concat (map utf8_encode w)))"

definition rsplit_first :: "char \<Rightarrow> string \<Rightarrow> string" where
  "rsplit_first c s = last (split_char c s)"

text \<open>\<open>match_indices\<close> for a pattern that is not empty; \<open>skip\<close> counts the bytes of the last match
  still to be passed over.\<close>

fun match_loop :: "string \<Rightarrow> nat \<Rightarrow> nat \<Rightarrow> string \<Rightarrow> nat list" where
  "match_loop p skip i [] = []"
| "match_loop p skip i (c # s) =
     (if 0 < skip then match_loop p (skip - 1) (i + 1) s
      else if starts_with p (c # s) then i # match_loop p (length p - 1) (i + 1) s
      else match_loop p 0 (i + 1) s)"

definition match_indices :: "string \<Rightarrow> string \<Rightarrow> nat list" where
  "match_indices p s = match_loop p 0 0 s"

lemma match_loop_at:
  assumes "k \<in> set (match_loop p skip i s)"
  shows "i \<le> k \<and> k < i + length s \<and> starts_with p (drop (k - i) s)"
  using assms
proof (induction p skip i s rule: match_loop.induct)
  case (2 p skip i c s)
  consider "k = i" "starts_with p (c # s)" | sk where "k \<in> set (match_loop p sk (i + 1) s)" "sk = skip - 1 \<and> 0 < skip \<or> sk = length p - 1 \<and> skip = 0 \<and> starts_with p (c # s) \<or> sk = 0 \<and> skip = 0 \<and> \<not> starts_with p (c # s)"
    using 2(4) by (auto split: if_splits)
  then show ?case
  proof cases
    case 2
    then have "i + 1 \<le> k \<and> k < i + 1 + length s \<and> starts_with p (drop (k - (i + 1)) s)"
      using "2.IH" by auto
    then show ?thesis by (auto simp: drop_Cons' Suc_diff_Suc)
  qed auto
qed simp

lemma match_indices_at:
  "k \<in> set (match_indices p s) \<Longrightarrow> k < length s \<and> starts_with p (drop k s)"
  using match_loop_at [of k p 0 0 s] by (simp add: match_indices_def)

lemma nth_get_Some: "nth_get xs i = Some x \<longleftrightarrow> i < length xs \<and> xs ! i = x"
  by (simp add: nth_get_def)

lemma trim_ascii_end_prefix: "\<exists>t. s = trim_ascii_end s @ t"
proof
  show "s = trim_ascii_end s @ rev (takeWhile is_ascii_whitespace (rev s))"
    unfolding trim_ascii_end_def by (metis rev_append rev_rev_ident takeWhile_dropWhile_id)
qed

end
