(* ===== verification/Lexical.thy ===== *)
theory Lexical
  imports Std_Text
begin

text \<open>
  The line-lexical code view of deep-diff-forge-graph/src/lexical.rs: what is left of a source line
  once its comments and string contents are blanked. A line is scanned byte by byte with a stack of
  open constructs; the state carried to the next line of a hunk holds one or more readings. The
  stack is a list with the innermost frame first (the source keeps it last).
\<close>

subsection \<open>Languages\<close>

datatype Language = Rust | Python | JavaScript | Go | Shell | Yaml

definition of_shebang :: "string \<Rightarrow> Language option" where
  "of_shebang line =
     (case strip_prefix ''#!'' line of
        None \<Rightarrow> None
      | Some rest \<Rightarrow>
          (let interpreter = str_trim rest;
               named = (case strip_prefix ''/usr/bin/env'' interpreter of
                          None \<Rightarrow> interpreter | Some r \<Rightarrow> trim_start r) in
           case first_word named of
             None \<Rightarrow> None
           | Some word \<Rightarrow>
               (let program = rsplit_first SLASH word in
                if program \<in> set [''sh'', ''bash'', ''zsh'', ''dash'', ''ksh''] then Some Shell
                else if starts_with ''python'' program then Some Python
                else if program \<in> set [''node'', ''deno'', ''bun''] then Some JavaScript
                else None)))"

definition language_of_extension :: "string \<Rightarrow> Language option" where
  "language_of_extension ext =
     (if ext = ''rs'' then Some Rust
      else if ext \<in> set [''py'', ''pyi''] then Some Python
      else if ext \<in> set [''js'', ''mjs'', ''cjs'', ''jsx'', ''ts'', ''mts'', ''cts'', ''tsx''] then Some JavaScript
      else if ext = ''go'' then Some Go
      else if ext \<in> set [''sh'', ''bash'', ''zsh'', ''mk''] then Some Shell
      else if ext \<in> set [''yml'', ''yaml''] then Some Yaml
      else None)"

definition Language_of :: "string \<Rightarrow> string option \<Rightarrow> Language option" where
  "Language_of path first_line =
     (let name = rsplit_first SLASH path in
      if name = ''Dockerfile'' \<or> starts_with ''Dockerfile.'' name \<or> name = ''Makefile'' then Some Shell
      else case Option.bind (rsplit_once (CHR ''.'') name) (\<lambda>(_, ext). language_of_extension ext) of
             Some l \<Rightarrow> Some l
           | None \<Rightarrow> Option.bind first_line of_shebang)"

definition c_like :: "Language \<Rightarrow> bool" where
  "c_like l \<longleftrightarrow> l \<in> set [Rust, JavaScript, Go]"

abbreviation SQUOTE :: char where "SQUOTE \<equiv> CHR 0x27"
abbreviation BTICK :: char where "BTICK \<equiv> CHR 0x60"
abbreviation HASH :: char where "HASH \<equiv> CHR 0x23"

fun opens_string :: "Language \<Rightarrow> char \<Rightarrow> bool" where
  "opens_string Rust b \<longleftrightarrow> b = DQUOTE"
| "opens_string Python b \<longleftrightarrow> b = DQUOTE \<or> b = SQUOTE"
| "opens_string Shell b \<longleftrightarrow> b = DQUOTE \<or> b = SQUOTE"
| "opens_string Yaml b \<longleftrightarrow> b = DQUOTE \<or> b = SQUOTE"
| "opens_string Go b \<longleftrightarrow> b = DQUOTE \<or> b = SQUOTE \<or> b = BTICK"
| "opens_string JavaScript b \<longleftrightarrow> b = DQUOTE \<or> b = SQUOTE \<or> b = BTICK"

definition raw_quote :: "Language \<Rightarrow> char \<Rightarrow> bool" where
  "raw_quote l quote \<longleftrightarrow> (l = Go \<and> quote = BTICK) \<or> (l = Yaml \<and> quote = SQUOTE)"

subsection \<open>Frames, readings and the scan state\<close>

record StrFrame =
  sf_quote :: char
  sf_start :: nat
  sf_triple :: bool
  sf_fstring :: bool
  sf_ansi :: bool
  sf_raw :: "nat option"
  sf_escaped :: bool

record CodeFrame =
  cf_open :: "char option"
  cf_close :: char
  cf_depth :: nat
  cf_cases :: nat
  cf_brackets :: nat
  cf_spec :: bool

datatype Frame = FrStr StrFrame | FrCode CodeFrame | FrComment

record Reading =
  rd_in_block_comment :: bool
  rd_in_triple :: "char option"
  rd_js_last :: "char option"
  rd_in_string :: "StrFrame option"

definition Reading_default :: Reading where
  "Reading_default = \<lparr>rd_in_block_comment = False, rd_in_triple = None, rd_js_last = None, rd_in_string = None\<rparr>"

text \<open>\<open>more\<close> is an array of \<open>MORE_READINGS\<close> optional slots filled from the front; the list holds the
  filled ones.\<close>

record ScanState =
  ss_plain :: Reading
  ss_more :: "Reading list"

definition ScanState_default :: ScanState where
  "ScanState_default = \<lparr>ss_plain = Reading_default, ss_more = []\<rparr>"

definition MORE_READINGS :: nat where
  "MORE_READINGS = 3"

definition readings :: "ScanState \<Rightarrow> Reading list" where
  "readings s = ss_plain s # ss_more s"

text \<open>The loop of \<open>from_readings\<close>: \<open>seen\<close> is \<open>readings[..i]\<close>, \<open>slots\<close> the free slots.\<close>

fun fill_slots :: "Reading list \<Rightarrow> nat \<Rightarrow> Reading list \<Rightarrow> Reading list" where
  "fill_slots seen slots [] = []"
| "fill_slots seen slots (r # rs) =
     (if r \<in> set seen then fill_slots (seen @ [r]) slots rs
      else if slots = 0 then []
      else r # fill_slots (seen @ [r]) (slots - 1) rs)"

definition from_readings :: "Reading list \<Rightarrow> ScanState" where
  "from_readings rs =
     \<lparr>ss_plain = (case rs of [] \<Rightarrow> Reading_default | r # _ \<Rightarrow> r),
      ss_more = fill_slots (take 1 rs) MORE_READINGS (drop 1 rs)\<rparr>"

definition code_frame :: "char option \<Rightarrow> char \<Rightarrow> CodeFrame" where
  "code_frame opener closer =
     \<lparr>cf_open = opener, cf_close = closer, cf_depth = 1, cf_cases = 0, cf_brackets = 0, cf_spec = False\<rparr>"

definition interpolation :: "Language \<Rightarrow> char \<Rightarrow> bool \<Rightarrow> string \<Rightarrow> (CodeFrame \<times> nat) option" where
  "interpolation language quote fstring rest =
     (if language = Shell \<and> quote = DQUOTE \<and> starts_with ''$('' rest
      then Some (code_frame (Some (CHR ''('')) (CHR '')''), 2)
      else if language = Shell \<and> quote = DQUOTE \<and> nth_get rest 0 = Some BTICK
      then Some (code_frame None BTICK, 1)
      else if ((language = JavaScript \<and> quote = BTICK) \<or> (language = Shell \<and> quote = DQUOTE))
        \<and> starts_with ''${'' rest
      then Some (code_frame (Some (CHR ''{'')) (CHR ''}''), 2)
      else if language = Python \<and> fstring \<and> nth_get rest 0 = Some (CHR ''{'')
      then Some (code_frame (Some (CHR ''{'')) (CHR ''}''), 1)
      else None)"

subsection \<open>Byte tests\<close>

definition is_ident :: "char \<Rightarrow> bool" where
  "is_ident b \<longleftrightarrow> is_ascii_alphanumeric b \<or> b = CHR ''_''"

definition is_boundary_blocker :: "char \<Rightarrow> bool" where
  "is_boundary_blocker b \<longleftrightarrow> is_ident b \<or> b = CHR ''.'' \<or> b = CHR ''$''"

definition has_token :: "string \<Rightarrow> string \<Rightarrow> bool" where
  "has_token text token \<longleftrightarrow>
     (let ends_in_ident = opt_is_some_and is_ident (last_get token) in
      \<exists>start\<in>set (match_indices token text).
        (start = 0 \<or> \<not> is_boundary_blocker (text ! (start - 1)))
        \<and> (\<not> ends_in_ident \<or> opt_is_none_or (\<lambda>b. \<not> is_ident b) (nth_get text (start + length token))))"

text \<open>\<open>rposition\<close> of the last ch that is not in the class, and the bytes after it.\<close>

definition trailing_run :: "(char \<Rightarrow> bool) \<Rightarrow> string \<Rightarrow> string" where
  "trailing_run p s = rev (takeWhile p (rev s))"

definition is_interpolating_prefix :: "string \<Rightarrow> bool" where
  "is_interpolating_prefix prior =
     (let prefix = trailing_run (\<lambda>b. b \<in> set ''fFtTrRbBuU'') prior;
          start = length prior - length prefix in
      length prefix \<le> 2
      \<and> (\<exists>b\<in>set prefix. b \<in> set ''fFtT'')
      \<and> (start = 0 \<or> \<not> is_ident (prior ! (start - 1))))"

definition shell_word_at :: "string \<Rightarrow> nat \<Rightarrow> string \<Rightarrow> bool" where
  "shell_word_at bytes i word \<longleftrightarrow>
     starts_with word (drop i bytes)
     \<and> (i = 0 \<or> is_ascii_whitespace (bytes ! (i - 1)) \<or> bytes ! (i - 1) \<in> set '';&|({`!)'')
     \<and> opt_is_none_or (\<lambda>b. is_ascii_whitespace b \<or> b \<in> set '';&|)'') (nth_get bytes (i + length word))"

definition ends_with_word :: "string \<Rightarrow> string \<Rightarrow> bool" where
  "ends_with_word prior word \<longleftrightarrow>
     ends_with word prior
     \<and> (length prior < length word + 1 \<or> \<not> is_ident (prior ! (length prior - (length word + 1))))"

definition in_command_position :: "string \<Rightarrow> nat \<Rightarrow> bool \<Rightarrow> bool" where
  "in_command_position bytes i in_case =
     (let prior = trim_ascii_end (take i bytes) in
      case last_get prior of
        None \<Rightarrow> True
      | Some b \<Rightarrow>
          if b \<in> set '';|&(`!'' then True
          else if b = CHR ''{'' then length prior < 2 \<or> prior ! (length prior - 2) \<noteq> CHR ''$''
          else if b = CHR '')'' then in_case
          else \<exists>word\<in>set [''then'', ''do'', ''else'', ''if'', ''elif'', ''while'', ''until'', ''time''].
                 ends_with_word prior word)"

definition opens_case_pattern :: "string \<Rightarrow> nat \<Rightarrow> bool" where
  "opens_case_pattern bytes i =
     (let prior = trim_ascii_end (take i bytes) in
      ends_with '';;'' prior \<or> ends_with '';&'' prior \<or> ends_with_word prior ''in'')"

definition JS_OPERAND_KEYWORDS :: "string list" where
  "JS_OPERAND_KEYWORDS =
     [''return'', ''typeof'', ''void'', ''delete'', ''in'', ''of'', ''instanceof'', ''new'', ''throw'',
      ''case'', ''do'', ''else'', ''yield'', ''await'']"

definition trailing_word :: "string \<Rightarrow> string" where
  "trailing_word prior = trailing_run is_ident prior"

definition ends_with_operand_keyword :: "string \<Rightarrow> bool" where
  "ends_with_operand_keyword prior =
     (let word = trailing_word prior in
      word \<in> set JS_OPERAND_KEYWORDS
      \<and> \<not> ends_with ''.'' (take (length prior - length word) prior))"

definition starts_regex :: "string \<Rightarrow> char option \<Rightarrow> bool" where
  "starts_regex out previous_line =
     (let prior = (case (trim_ascii_end out, previous_line) of
                      ([], Some b) \<Rightarrow> [b] | (t, _) \<Rightarrow> t) in
      if ends_with ''++'' prior \<or> ends_with ''--'' prior then False
      else if prior = [] \<or> ends_with ''=>'' prior then True
      else if 2 \<le> length prior \<and> last prior = CHR ''!''
        \<and> (is_ident (prior ! (length prior - 2)) \<or> prior ! (length prior - 2) \<in> set '')]'')
      then False
      else if last prior \<in> set ''(,=:[!&|?{};+-*%~^'' then True
      else ends_with_operand_keyword prior)"

definition rust_raw_hashes :: "string \<Rightarrow> nat option" where
  "rust_raw_hashes prior =
     (let hashes = length (takeWhile (\<lambda>b. b = HASH) (rev prior));
          prefix = take (length prior - hashes) prior in
      case strip_suffix ''r'' prefix of
        None \<Rightarrow> None
      | Some rest \<Rightarrow>
          (let rest' = (case strip_suffix ''b'' rest of Some r \<Rightarrow> r
                        | None \<Rightarrow> (case strip_suffix ''c'' rest of Some r \<Rightarrow> r | None \<Rightarrow> rest)) in
           if opt_is_none_or (\<lambda>b. \<not> is_ident b) (last_get rest') then Some hashes else None))"

fun regex_loop :: "bool \<Rightarrow> bool \<Rightarrow> nat \<Rightarrow> string \<Rightarrow> nat option" where
  "regex_loop in_class escaped j [] = None"
| "regex_loop in_class escaped j (b # rest) =
     (if escaped then regex_loop in_class False (j + 1) rest
      else if b = BACKSLASH then regex_loop in_class True (j + 1) rest
      else if b = CHR ''['' then regex_loop True escaped (j + 1) rest
      else if b = CHR '']'' then regex_loop False escaped (j + 1) rest
      else if b = SLASH \<and> \<not> in_class then Some (j + 1)
      else regex_loop in_class escaped (j + 1) rest)"

definition regex_len :: "string \<Rightarrow> nat option" where
  "regex_len rest = regex_loop False False 1 (drop 1 rest)"

definition is_comment_start :: "Language \<Rightarrow> string \<Rightarrow> nat \<Rightarrow> bool" where
  "is_comment_start language bytes i =
     (let word_start = (i = 0 \<or> is_ascii_whitespace (bytes ! (i - 1))) in
      case language of
        Python \<Rightarrow> True
      | Shell \<Rightarrow> word_start \<or> bytes ! (i - 1) \<in> set '';&|(''
      | Yaml \<Rightarrow> word_start
      | _ \<Rightarrow> False)"

subsection \<open>One line's scan\<close>

record Scan =
  sc_language :: Language
  sc_bytes :: string
  sc_out :: string
  sc_stack :: "Frame list"
  sc_blank :: nat
  sc_copy :: nat
  sc_no_regex :: bool

definition push_out :: "char \<Rightarrow> Scan \<Rightarrow> Scan" where
  "push_out b s = s\<lparr>sc_out := sc_out s @ [b]\<rparr>"

definition str_frame :: "char \<Rightarrow> nat \<Rightarrow> StrFrame" where
  "str_frame quote start =
     \<lparr>sf_quote = quote, sf_start = start, sf_triple = False, sf_fstring = False, sf_ansi = False,
      sf_raw = None, sf_escaped = False\<rparr>"

text \<open>\<open>Scan::in_string\<close>: the frame on top of the stack is the string \<open>f\<close>.\<close>

definition string_closes :: "StrFrame \<Rightarrow> string \<Rightarrow> bool" where
  "string_closes f rest =
     (let hashes = (case sf_raw f of None \<Rightarrow> 0 | Some n \<Rightarrow> n) in
      rest ! 0 = sf_quote f
      \<and> (\<not> sf_triple f \<or> starts_with (replicate 3 (sf_quote f)) rest)
      \<and> hashes < length rest \<and> (\<forall>b\<in>set (take hashes (drop 1 rest)). b = HASH))"

definition string_escapes :: "Language \<Rightarrow> StrFrame \<Rightarrow> string \<Rightarrow> bool" where
  "string_escapes language f rest \<longleftrightarrow>
     rest ! 0 = BACKSLASH \<and> sf_raw f = None
     \<and> \<not> (language = Shell \<and> sf_quote f = SQUOTE \<and> \<not> sf_ansi f)
     \<and> \<not> (sf_fstring f \<and> nth_get rest 1 = Some (CHR ''{''))"

definition in_string :: "Scan \<Rightarrow> StrFrame \<Rightarrow> string \<Rightarrow> Scan" where
  "in_string s f rest =
     (let ch = rest ! 0;
          hashes = (case sf_raw f of None \<Rightarrow> 0 | Some n \<Rightarrow> n);
          blanked = push_out (if sc_language s = Yaml then ch else SPACE);
          below = tl (sc_stack s) in
      if sf_escaped f then blanked (s\<lparr>sc_stack := FrStr (f\<lparr>sf_escaped := False\<rparr>) # below\<rparr>)
      else if string_closes f rest then
        push_out ch (s\<lparr>sc_stack := below, sc_copy := if sf_triple f then 2 else hashes\<rparr>)
      else if sf_fstring f \<and> starts_with ''{{'' rest then blanked (s\<lparr>sc_blank := 1\<rparr>)
      else case interpolation (sc_language s) (sf_quote f) (sf_fstring f) rest of
        Some (code, len) \<Rightarrow>
          push_out ch (s\<lparr>sc_stack := FrCode code # sc_stack s, sc_copy := len - 1\<rparr>)
      | None \<Rightarrow>
          if string_escapes (sc_language s) f rest
          then blanked (s\<lparr>sc_stack := FrStr (f\<lparr>sf_escaped := True\<rparr>) # below\<rparr>)
          else blanked s)"

text \<open>\<open>Scan::track_code\<close>: the shell \<open>case\<close> count, the Python brackets and format spec, then the
  nesting of the innermost interpolation.\<close>

definition track_cases :: "string \<Rightarrow> nat \<Rightarrow> nat \<Rightarrow> nat" where
  "track_cases bytes i cases =
     (if shell_word_at bytes i ''case'' \<and> in_command_position bytes i (0 < cases) then cases + 1
      else if shell_word_at bytes i ''esac'' \<and> in_command_position bytes i True
        \<and> \<not> ends_with ''|'' (trim_ascii_end (take i bytes))
      then cases - 1 else cases)"

definition track_python :: "char \<Rightarrow> CodeFrame \<Rightarrow> CodeFrame" where
  "track_python ch c =
     (if ch = CHR ''('' \<or> ch = CHR ''['' then c\<lparr>cf_brackets := cf_brackets c + 1\<rparr>
      else if ch = CHR '')'' \<or> ch = CHR '']'' then c\<lparr>cf_brackets := cf_brackets c - 1\<rparr>
      else if ch = CHR '':'' \<and> cf_depth c = 1 \<and> cf_brackets c = 0 then c\<lparr>cf_spec := True\<rparr>
      else c)"

definition track_frame :: "Language \<Rightarrow> string \<Rightarrow> nat \<Rightarrow> CodeFrame \<Rightarrow> CodeFrame option" where
  "track_frame language bytes i c0 =
     (let ch = bytes ! i;
          c1 = (if language = Shell then c0\<lparr>cf_cases := track_cases bytes i (cf_cases c0)\<rparr> else c0);
          pattern_paren = (language = Shell \<and> ch = CHR ''('' \<and> 0 < cf_cases c1 \<and> opens_case_pattern bytes i);
          c = (if language = Python then track_python ch c1 else c1) in
      if cf_open c = Some ch \<and> \<not> pattern_paren then Some (c\<lparr>cf_depth := cf_depth c + 1\<rparr>)
      else if ch = cf_close c \<and> \<not> (ch = CHR '')'' \<and> 0 < cf_cases c)
      then (if cf_depth c - 1 = 0 then None else Some (c\<lparr>cf_depth := cf_depth c - 1\<rparr>))
      else Some c)"

definition track_code :: "Scan \<Rightarrow> nat \<Rightarrow> Scan" where
  "track_code s i =
     (case sc_stack s of
        FrCode c # below \<Rightarrow>
          s\<lparr>sc_stack := (case track_frame (sc_language s) (sc_bytes s) i c of
                           None \<Rightarrow> below | Some c' \<Rightarrow> FrCode c' # below)\<rparr>
      | _ \<Rightarrow> s)"

text \<open>\<open>Scan::in_code\<close>: \<open>False\<close> when the rest of the line is a comment. The second definition is the
  part after the regex probe.\<close>

definition opened_string :: "Language \<Rightarrow> string \<Rightarrow> nat \<Rightarrow> StrFrame" where
  "opened_string language bytes i =
     (let ch = bytes ! i in
      (str_frame ch i)\<lparr>
        sf_fstring := language = Python \<and> is_interpolating_prefix (take i bytes),
        sf_ansi := language = Shell \<and> ch = SQUOTE \<and> 0 < i \<and> bytes ! (i - 1) = CHR ''$'',
        sf_raw := (if raw_quote language ch then Some 0
                   else if language = Rust \<and> ch = DQUOTE then rust_raw_hashes (take i bytes)
                   else None)\<rparr>)"

definition after_word :: "Language \<Rightarrow> string \<Rightarrow> nat \<Rightarrow> bool" where
  "after_word language bytes i \<longleftrightarrow>
     0 < i \<and> is_ident (bytes ! (i - 1))
     \<and> (case language of
          JavaScript \<Rightarrow> bytes ! i \<noteq> BTICK \<and> \<not> ends_with_operand_keyword (take i bytes)
        | Yaml \<Rightarrow> True
        | _ \<Rightarrow> False)"

definition in_code_tail :: "Scan \<Rightarrow> nat \<Rightarrow> Reading \<Rightarrow> bool \<times> Scan \<times> Reading" where
  "in_code_tail s i state =
     (let language = sc_language s; bytes = sc_bytes s; ch = bytes ! i; rest = drop i bytes;
          nested = (sc_stack s \<noteq> []);
          close = (if nth_get rest 1 = Some BACKSLASH then 3 else 2) in
      if \<not> nested \<and> ch = HASH \<and> is_comment_start language bytes i then (False, s, state)
      else if language = Python \<and> (ch = DQUOTE \<or> ch = SQUOTE) \<and> starts_with (replicate 3 ch) rest then
        (if nested
         then (True, push_out ch (s\<lparr>sc_stack := FrStr ((str_frame ch i)\<lparr>sf_triple := True\<rparr>) # sc_stack s,
                                      sc_copy := 2\<rparr>), state)
         else (True, push_out ch (s\<lparr>sc_copy := 2\<rparr>), state\<lparr>rd_in_triple := Some ch\<rparr>))
      else if language = Rust \<and> ch = SQUOTE \<and> nth_get rest close = Some SQUOTE then
        (True, push_out SPACE (s\<lparr>sc_blank := close\<rparr>), state)
      else if opens_string language ch \<and> \<not> after_word language bytes i then
        (True, push_out ch (s\<lparr>sc_stack := FrStr (opened_string language bytes i) # sc_stack s\<rparr>), state)
      else (True, push_out ch (track_code s i), state))"

definition in_code :: "Scan \<Rightarrow> nat \<Rightarrow> Reading \<Rightarrow> bool \<times> Scan \<times> Reading" where
  "in_code s i state =
     (let language = sc_language s; bytes = sc_bytes s; ch = bytes ! i; rest = drop i bytes;
          nested = (sc_stack s \<noteq> []) in
      if ch = BACKSLASH \<and> (nested \<or> language = Shell \<or> language = JavaScript) then
        (True, push_out ch (s\<lparr>sc_copy := 1\<rparr>), state)
      else if c_like language \<and> starts_with ''//'' rest then (False, s, state)
      else if c_like language \<and> starts_with ''/*'' rest then
        (if nested then (True, push_out SPACE (s\<lparr>sc_stack := FrComment # sc_stack s, sc_blank := 1\<rparr>), state)
         else (True, push_out SPACE (s\<lparr>sc_blank := 1\<rparr>), state\<lparr>rd_in_block_comment := True\<rparr>))
      else if language = JavaScript \<and> ch = SLASH \<and> \<not> sc_no_regex s
        \<and> starts_regex (sc_out s) (rd_js_last state) then
        (case regex_len rest of
           Some len \<Rightarrow> (True, push_out ch (s\<lparr>sc_blank := len - 2, sc_copy := 1\<rparr>), state)
         | None \<Rightarrow> in_code_tail (s\<lparr>sc_no_regex := True\<rparr>) i state)
      else in_code_tail s i state)"

text \<open>\<open>Scan::step\<close>.\<close>

definition in_spec :: "Scan \<Rightarrow> string \<Rightarrow> Scan" where
  "in_spec s rest =
     (case interpolation (sc_language s) DQUOTE True rest of
        Some (code, _) \<Rightarrow> push_out (rest ! 0) (s\<lparr>sc_stack := FrCode code # sc_stack s\<rparr>)
      | None \<Rightarrow>
          if rest ! 0 = CHR ''}'' then push_out (rest ! 0) (s\<lparr>sc_stack := tl (sc_stack s)\<rparr>)
          else push_out SPACE s)"

definition scan_step :: "Scan \<Rightarrow> nat \<Rightarrow> Reading \<Rightarrow> bool \<times> Scan \<times> Reading" where
  "scan_step s i state =
     (let ch = sc_bytes s ! i; rest = drop i (sc_bytes s) in
      if 0 < sc_blank s then (True, push_out SPACE (s\<lparr>sc_blank := sc_blank s - 1\<rparr>), state)
      else if 0 < sc_copy s then (True, push_out ch (s\<lparr>sc_copy := sc_copy s - 1\<rparr>), state)
      else if rd_in_block_comment state then
        (if starts_with ''*/'' rest
         then (True, push_out SPACE (s\<lparr>sc_blank := 1\<rparr>), state\<lparr>rd_in_block_comment := False\<rparr>)
         else (True, push_out SPACE s, state))
      else case rd_in_triple state of
        Some q \<Rightarrow>
          if starts_with (replicate 3 q) rest
          then (True, push_out ch (s\<lparr>sc_copy := 2\<rparr>), state\<lparr>rd_in_triple := None\<rparr>)
          else (True, push_out SPACE s, state)
      | None \<Rightarrow>
          (case sc_stack s of
             FrComment # below \<Rightarrow>
               (True, push_out SPACE (if starts_with ''*/'' rest then s\<lparr>sc_stack := below, sc_blank := 1\<rparr> else s), state)
           | FrStr f # _ \<Rightarrow> (True, in_string s f rest, state)
           | FrCode c # _ \<Rightarrow> if cf_spec c then (True, in_spec s rest, state) else in_code s i state
           | [] \<Rightarrow> in_code s i state))"

definition outer_string :: "Frame list \<Rightarrow> StrFrame option" where
  "outer_string stack = find_map (\<lambda>f. case f of FrStr sf \<Rightarrow> Some sf | _ \<Rightarrow> None) (rev stack)"

text \<open>\<open>Scan::finish\<close>: the bytes of the view, what is carried to the next line, and the view, which is
  empty when \<open>String::from_utf8\<close> refuses the bytes.\<close>

definition finish_out :: "Scan \<Rightarrow> string" where
  "finish_out s =
     (case outer_string (sc_stack s) of
        Some f \<Rightarrow> if sc_language s \<noteq> Rust
                  then take (sf_start f) (sc_out s) @ drop (sf_start f) (sc_bytes s) else sc_out s
      | None \<Rightarrow> sc_out s)"

definition finish_state :: "Scan \<Rightarrow> Reading \<Rightarrow> Reading" where
  "finish_state s state =
     (let state1 = (case (sc_language s, last_get (trim_ascii_end (sc_out s))) of
                      (JavaScript, Some b) \<Rightarrow> state\<lparr>rd_js_last := Some b\<rparr> | _ \<Rightarrow> state) in
      case sc_stack s of
        [FrStr f] \<Rightarrow> state1\<lparr>rd_in_string := Some (f\<lparr>sf_start := 0, sf_escaped := False\<rparr>)\<rparr>
      | _ \<Rightarrow> state1)"

definition utf8_or_default :: "string \<Rightarrow> string" where
  "utf8_or_default out = (if utf8_valid out then out else [])"

definition scan_finish :: "Scan \<Rightarrow> Reading \<Rightarrow> string \<times> Reading" where
  "scan_finish s state = (utf8_or_default (finish_out s), finish_state s state)"

fun scan_loop :: "nat list \<Rightarrow> Scan \<Rightarrow> Reading \<Rightarrow> Scan \<times> Reading" where
  "scan_loop [] s state = (s, state)"
| "scan_loop (i # is) s state =
     (case scan_step s i state of
        (True, s', state') \<Rightarrow> scan_loop is s' state'
      | (False, s', state') \<Rightarrow> (s', state'))"

definition scan_start :: "Language \<Rightarrow> string \<Rightarrow> StrFrame option \<Rightarrow> Scan" where
  "scan_start language line opened =
     \<lparr>sc_language = language, sc_bytes = line, sc_out = [],
      sc_stack = (case opened of None \<Rightarrow> [] | Some f \<Rightarrow> [FrStr f]),
      sc_blank = 0, sc_copy = 0, sc_no_regex = False\<rparr>"

definition scan_line :: "Language \<Rightarrow> string \<Rightarrow> Reading \<Rightarrow> StrFrame option \<Rightarrow> string \<times> Reading" where
  "scan_line language line state opened =
     (let (s, state') = scan_loop [0..<length line] (scan_start language line opened) state
      in scan_finish s state')"

definition view_keeps :: "string \<Rightarrow> nat \<Rightarrow> bool" where
  "view_keeps view i \<longleftrightarrow> opt_is_some_and (\<lambda>c. c \<noteq> SPACE) (nth_get view i)"

definition union_bytes :: "string \<Rightarrow> string list \<Rightarrow> string" where
  "union_bytes line views =
     (let n = foldl max 0 (map length views) in
      map (\<lambda>i. if \<exists>view\<in>set views. view_keeps view i then line ! i else SPACE) [0..<min n (length line)])"

definition union_views :: "string \<Rightarrow> string list \<Rightarrow> string" where
  "union_views line views = utf8_or_default (union_bytes line views)"

text \<open>\<open>code_view\<close>: every reading is scanned plainly and, when it left a string open, once more
  inside it.\<close>

fun code_readings :: "Language \<Rightarrow> string \<Rightarrow> Reading list \<Rightarrow> (string \<times> Reading) list" where
  "code_readings language line [] = []"
| "code_readings language line (start # rs) =
     (let closed = start\<lparr>rd_in_string := None\<rparr> in
      scan_line language line closed None
        # (case rd_in_string start of None \<Rightarrow> [] | Some f \<Rightarrow> [scan_line language line closed (Some f)])
        @ code_readings language line rs)"

definition code_view :: "Language \<Rightarrow> string \<Rightarrow> ScanState \<Rightarrow> string \<times> ScanState" where
  "code_view language line state =
     (let rs = code_readings language line (readings state) in
      (union_views line (map fst rs), from_readings (map snd rs)))"

end
