(* ===== verification/Utf8_Whole.thy ===== *)
theory Utf8_Whole
  imports Std_Text
begin

text \<open>
  Blanking text by whole characters: the shape of a well-formed sequence, an induction rule over the
  characters of a valid string, and the criterion under which a string made of another by replacing
  bytes with spaces, and cut short, is still valid UTF-8.
\<close>

definition is_ascii :: "char \<Rightarrow> bool" where
  "is_ascii b \<longleftrightarrow> byte b < 128"

definition cont_at :: "string \<Rightarrow> nat \<Rightarrow> bool" where
  "cont_at line j \<longleftrightarrow> j < length line \<and> is_cont (line ! j)"

definition whole_chars :: "string \<Rightarrow> string \<Rightarrow> bool" where
  "whole_chars line view \<longleftrightarrow>
     length view \<le> length line \<and> \<not> cont_at line (length view)
     \<and> (\<forall>j<length view. view ! j = line ! j \<or> view ! j = SPACE)
     \<and> (\<forall>j. Suc j < length view \<and> cont_at line (Suc j) \<longrightarrow> (view ! j = SPACE \<longleftrightarrow> view ! Suc j = SPACE))"

lemma conts_all: "conts n s = n \<Longrightarrow> j < n \<Longrightarrow> j < length s \<and> is_cont (s ! j)"
proof (induction n s arbitrary: j rule: conts.induct)
  case (2 n c s)
  then show ?case by (cases j) (auto split: if_splits)
qed simp

lemma ascii_not_cont: "is_cont b \<Longrightarrow> \<not> is_ascii b"
  by (simp add: is_cont_def is_ascii_def)

lemma utf8_head_shape:
  assumes "utf8_head s = (True, w)"
  shows "1 \<le> w \<and> w \<le> length s \<and> \<not> is_cont (s ! 0) \<and> (1 < w \<longrightarrow> \<not> is_ascii (s ! 0))
    \<and> (\<forall>j. 0 < j \<and> j < w \<longrightarrow> is_cont (s ! j))"
proof (cases s)
  case (Cons c t)
  show ?thesis
  proof (cases "utf8_width c = 1")
    case True
    then show ?thesis
      using assms Cons by (auto simp: utf8_head.simps Let_def utf8_width_def is_cont_def split: if_splits)
  next
    case False
    then obtain d t' where t: "t = d # t'" and d: "second_ok c d" and k: "conts (utf8_width c - 2) t' = utf8_width c - 2"
      and w: "w = 2 + (utf8_width c - 2)" and nz: "utf8_width c \<noteq> 0"
      using assms Cons by (auto simp: utf8_head.simps Let_def split: list.splits if_splits)
    have c: "\<not> is_cont c \<and> \<not> is_ascii c"
      using False nz by (auto simp: utf8_width_def is_cont_def is_ascii_def split: if_splits)
    have "is_cont (s ! j)" if "0 < j" "j < w" for j
      using that d conts_all [OF k, of "j - 2"] Cons t w
      by (cases j; cases "j - 1") (auto simp: second_ok_def)
    moreover have "w \<le> length s" using utf8_head_length [of s] assms by simp
    ultimately show ?thesis using c w Cons by simp
  qed
qed (use assms in \<open>simp add: utf8_head.simps\<close>)

lemma utf8_valid_induct [consumes 1, case_names Nil char]:
  assumes "utf8_valid s" "P []"
    "\<And>w s. \<lbrakk>s \<noteq> []; utf8_head s = (True, w); utf8_valid (drop w s); P (drop w s)\<rbrakk> \<Longrightarrow> P s"
  shows "P s"
  using assms(1)
proof (induction s rule: utf8_valid.induct)
  case (1 s)
  show ?case
  proof (cases "s = []")
    case False
    with 1(2) have "fst (utf8_head s)" "utf8_valid (drop (snd (utf8_head s)) s)"
      by (simp_all add: utf8_valid.simps [of s] split: if_splits)
    then show ?thesis
      using False assms(3) [of s "snd (utf8_head s)"] 1(1) by (metis prod.collapse)
  qed (simp add: assms(2))
qed

lemma valid_first: "utf8_valid s \<Longrightarrow> \<not> cont_at s 0"
  by (cases rule: utf8_valid_induct) (auto simp: cont_at_def dest: utf8_head_shape)

lemma valid_prev:
  assumes "utf8_valid s" "cont_at s (Suc j)"
  shows "\<not> is_ascii (s ! j)"
  using assms
proof (induction arbitrary: j rule: utf8_valid_induct)
  case (char w s)
  note sh = utf8_head_shape [OF char.hyps(2)]
  show ?case
  proof (cases "j < w")
    case True
    have "Suc j \<noteq> w" using valid_first [OF char.hyps(3)] char.prems by (auto simp: cont_at_def)
    then show ?thesis using True sh ascii_not_cont [of "s ! j"] by (cases j) auto
  next
    case False
    then have "cont_at (drop w s) (Suc (j - w))" using char.prems False sh by (auto simp: cont_at_def Suc_diff_le [symmetric])
    then show ?thesis using char.IH [of "j - w"] False sh by simp
  qed
qed (simp add: cont_at_def)

lemma valid_spaces: "utf8_valid (replicate n SPACE @ s) \<longleftrightarrow> utf8_valid s"
  by (induction n) simp_all

lemma whole_charsD:
  assumes "whole_chars line view"
  shows "length view \<le> length line" "\<not> cont_at line (length view)"
    "\<And>j. j < length view \<Longrightarrow> view ! j = line ! j \<or> view ! j = SPACE"
    "\<And>j. \<lbrakk>Suc j < length view; cont_at line (Suc j)\<rbrakk> \<Longrightarrow> view ! j = SPACE \<longleftrightarrow> view ! Suc j = SPACE"
  using assms by (auto simp: whole_chars_def)

lemma whole_chars_drop:
  assumes "whole_chars line view" "w \<le> length view"
  shows "whole_chars (drop w line) (drop w view)"
proof -
  note W = whole_charsD [OF assms(1)]
  have "view ! (w + j) = SPACE \<longleftrightarrow> view ! Suc (w + j) = SPACE"
    if "Suc j < length view - w" "cont_at (drop w line) (Suc j)" for j
    using that W(1) W(4) [of "w + j"] by (simp add: cont_at_def)
  moreover have "drop w view ! j = drop w line ! j \<or> drop w view ! j = SPACE" if "j < length (drop w view)" for j
    using that W(1) W(3) [of "w + j"] by simp
  moreover have "\<not> cont_at (drop w line) (length (drop w view))"
    using W(1,2) assms(2) by (auto simp: cont_at_def)
  ultimately show ?thesis using W(1) assms(2) by (auto simp: whole_chars_def)
qed

lemma whole_chars_head:
  assumes "whole_chars line view" "utf8_head line = (True, w)" "view \<noteq> []"
  shows "w \<le> length view \<and> (take w view = take w line \<or> take w view = replicate w SPACE)"
proof -
  note W = whole_charsD [OF assms(1)] and sh = utf8_head_shape [OF assms(2)]
  have len: "w \<le> length view"
    using W(1,2) sh assms(3) by (auto simp: cont_at_def not_le intro: ccontr)
  have same: "j < w \<Longrightarrow> view ! j = SPACE \<longleftrightarrow> view ! 0 = SPACE" for j
  proof (induction j)
    case (Suc j)
    then show ?case using W(1) W(4) [of j] sh len by (auto simp: cont_at_def)
  qed simp
  show ?thesis
  proof (cases "view ! 0 = SPACE")
    case True
    then have "take w view = replicate w SPACE" using same len by (intro nth_equalityI) auto
    then show ?thesis using len by simp
  next
    case False
    then have "view ! j = line ! j" if "j < w" for j using same [OF that] W(3) [of j] that len by auto
    then have "take w view = take w line" using len W(1) by (intro nth_equalityI) auto
    then show ?thesis using len by simp
  qed
qed

lemma whole_chars_valid:
  assumes "utf8_valid line" "whole_chars line view"
  shows "utf8_valid view"
  using assms
proof (induction arbitrary: view rule: utf8_valid_induct)
  case (char w s)
  show ?case
  proof (cases "view = []")
    case False
    note hd = whole_chars_head [OF char.prems char.hyps(2) False]
    then have rest: "utf8_valid (drop w view)" using char.IH [of "drop w view"] whole_chars_drop [OF char.prems] by simp
    have "utf8_valid (take w s)" using utf8_valid_take_head [of s "[]"] char.hyps by simp
    then have "utf8_valid (take w view @ drop w view)"
      using hd rest utf8_valid_append [of "take w s" "drop w view"] valid_spaces [of w "drop w view"] by metis
    then show ?thesis by (simp only: append_take_drop_id)
  qed simp
next
  case Nil
  then show ?case using whole_charsD(1) by fastforce
qed

end
