(* ===== verification/Lexical_Props.thy ===== *)
theory Lexical_Props
  imports Lexical Utf8_Whole
begin

text \<open>
  The scanner's invariants. The locale \<open>scan_invariant\<close> lifts a property of the steps to the scan of
  a line; it is interpreted twice: the view is aligned with its line and the open frames are
  well-formed, and a view blanks or keeps whole characters.
\<close>

subsection \<open>The loop over a line\<close>

locale scan_invariant =
  fixes I :: "Language \<Rightarrow> string \<Rightarrow> nat \<Rightarrow> Scan \<Rightarrow> Reading \<Rightarrow> bool"
    and F :: "Language \<Rightarrow> string \<Rightarrow> nat \<Rightarrow> Scan \<Rightarrow> Reading \<Rightarrow> bool"
  assumes step: "\<lbrakk>I language line i s state; i < length line; scan_step s i state = (True, s', state')\<rbrakk>
      \<Longrightarrow> I language line (Suc i) s' state'"
    and stop: "\<lbrakk>I language line i s state; i < length line; scan_step s i state = (False, s', state')\<rbrakk>
      \<Longrightarrow> F language line i s' state'"
    and finished: "I language line (length line) s state \<Longrightarrow> F language line (length line) s state"
begin

lemma loop:
  assumes "I language line i s state" "i \<le> length line"
    "scan_loop [i..<length line] s state = (s', state')"
  shows "\<exists>m \<le> length line. F language line m s' state'"
  using assms
proof (induction "length line - i" arbitrary: i s state)
  case 0
  then show ?case using finished by auto
next
  case (Suc k)
  then have "i < length line" by simp
  then have upt: "[i..<length line] = i # [Suc i..<length line]" by (rule upt_conv_Cons)
  obtain go t state1 where st: "scan_step s i state = (go, t, state1)" by (cases "scan_step s i state")
  show ?case
  proof (cases go)
    case True
    then show ?thesis
      using Suc.hyps(1) [of "Suc i" t state1] Suc.hyps(2) Suc.prems step [of language line i s state t state1] st upt \<open>i < length line\<close>
      by auto
  next
    case False
    then show ?thesis
      using stop [of language line i s state t state1] st upt Suc.prems \<open>i < length line\<close>
      by (auto intro!: exI [of _ i])
  qed
qed

lemma line_end:
  assumes "I language line 0 (scan_start language line opened) state"
    "scan_loop [0..<length line] (scan_start language line opened) state = (s', state')"
  shows "\<exists>m \<le> length line. F language line m s' state'"
  using loop [OF assms(1) _ assms(2)] by simp

end

subsection \<open>What one step does\<close>

lemma push_out_simps [simp]:
  "sc_language (push_out b s) = sc_language s" "sc_bytes (push_out b s) = sc_bytes s"
  "sc_out (push_out b s) = sc_out s @ [b]" "sc_stack (push_out b s) = sc_stack s"
  "sc_blank (push_out b s) = sc_blank s" "sc_copy (push_out b s) = sc_copy s"
  "sc_no_regex (push_out b s) = sc_no_regex s"
  by (simp_all add: push_out_def)

lemma drop_nth_0 [simp]: "i < length xs \<Longrightarrow> drop i xs ! 0 = xs ! i"
  by simp

text \<open>The bytes and the language never change, and a step that goes on adds the byte or a space.\<close>

definition emits :: "Scan \<Rightarrow> char \<Rightarrow> Scan \<Rightarrow> bool" where
  "emits s b s' \<longleftrightarrow> sc_language s' = sc_language s \<and> sc_bytes s' = sc_bytes s
     \<and> (sc_out s' = sc_out s @ [b] \<or> sc_out s' = sc_out s @ [SPACE])"

lemma in_string_emits: "emits s (rest ! 0) (in_string s f rest)"
  by (simp add: emits_def in_string_def Let_def split: option.split)

lemma in_spec_emits: "emits s (rest ! 0) (in_spec s rest)"
  by (simp add: emits_def in_spec_def split: option.split)

lemma track_code_same [simp]:
  "sc_language (track_code s i) = sc_language s" "sc_bytes (track_code s i) = sc_bytes s"
  "sc_out (track_code s i) = sc_out s" "sc_blank (track_code s i) = sc_blank s" "sc_copy (track_code s i) = sc_copy s"
  by (simp_all add: track_code_def split: list.split Frame.split)

lemma in_code_tail_emits:
  "in_code_tail s i state = (go, s', state') \<Longrightarrow>
     (if go then emits s (sc_bytes s ! i) s' else s' = s \<and> state' = state)"
  by (auto simp: in_code_tail_def emits_def Let_def split: if_splits)

lemma in_code_emits:
  assumes "in_code s i state = (go, s', state')"
  shows "if go then emits s (sc_bytes s ! i) s'
    else sc_language s' = sc_language s \<and> sc_bytes s' = sc_bytes s \<and> sc_out s' = sc_out s
       \<and> sc_stack s' = sc_stack s \<and> state' = state"
proof -
  have tail: "in_code_tail (s\<lparr>sc_no_regex := True\<rparr>) i state = (go, s', state') \<Longrightarrow> ?thesis"
    using in_code_tail_emits [of "s\<lparr>sc_no_regex := True\<rparr>" i state go s' state']
    by (auto simp: emits_def split: if_splits)
  show ?thesis
    using assms tail in_code_tail_emits [of s i state go s' state']
    by (auto simp: in_code_def emits_def Let_def split: if_splits option.splits)
qed

lemma scan_step_emits:
  assumes "scan_step s i state = (go, s', state')" "i < length (sc_bytes s)"
  shows "if go then emits s (sc_bytes s ! i) s'
    else sc_language s' = sc_language s \<and> sc_bytes s' = sc_bytes s \<and> sc_out s' = sc_out s
       \<and> sc_stack s' = sc_stack s \<and> state' = state"
  using assms in_code_emits [of s i state go s' state'] in_string_emits [of s "drop i (sc_bytes s)"]
    in_spec_emits [of s "drop i (sc_bytes s)"]
  by (auto simp: scan_step_def Let_def emits_def split: if_splits option.splits list.splits Frame.splits)

subsection \<open>Alignment and well-formed frames\<close>

definition is_quote :: "char \<Rightarrow> bool" where
  "is_quote b \<longleftrightarrow> b = DQUOTE \<or> b = SQUOTE \<or> b = BTICK"

text \<open>A string opened on this line starts at a quote of the line already scanned, a carried one
  starts at 0; the nesting depth of an interpolation is never zero, so decreasing it cannot wrap.\<close>

fun frame_ok :: "string \<Rightarrow> nat \<Rightarrow> Frame \<Rightarrow> bool" where
  "frame_ok line n (FrStr f) \<longleftrightarrow>
     is_quote (sf_quote f) \<and> (sf_start f = 0 \<or> sf_start f < n \<and> is_quote (line ! sf_start f))"
| "frame_ok line n (FrCode c) \<longleftrightarrow> 1 \<le> cf_depth c \<and> is_ascii (cf_close c) \<and> (\<forall>b. cf_open c = Some b \<longrightarrow> is_ascii b)"
| "frame_ok line n FrComment \<longleftrightarrow> True"

definition frames_ok :: "string \<Rightarrow> nat \<Rightarrow> Frame list \<Rightarrow> bool" where
  "frames_ok line n stack \<longleftrightarrow> (\<forall>fr\<in>set stack. frame_ok line n fr)"

definition reading_ok :: "Reading \<Rightarrow> bool" where
  "reading_ok r \<longleftrightarrow> (\<forall>q. rd_in_triple r = Some q \<longrightarrow> is_quote q)
     \<and> (\<forall>f. rd_in_string r = Some f \<longrightarrow> is_quote (sf_quote f) \<and> sf_start f = 0)"

definition aligned :: "string \<Rightarrow> string \<Rightarrow> bool" where
  "aligned line view \<longleftrightarrow>
     length view \<le> length line \<and> (\<forall>j<length view. view ! j = line ! j \<or> view ! j = SPACE)"

definition frames_inv :: "Language \<Rightarrow> string \<Rightarrow> nat \<Rightarrow> Scan \<Rightarrow> Reading \<Rightarrow> bool" where
  "frames_inv language line i s state \<longleftrightarrow>
     sc_language s = language \<and> sc_bytes s = line \<and> length (sc_out s) = i \<and> aligned line (sc_out s)
     \<and> frames_ok line i (sc_stack s) \<and> reading_ok state"

lemma frames_ok_simps [simp]:
  "frames_ok line n []" "frames_ok line n (fr # frs) \<longleftrightarrow> frame_ok line n fr \<and> frames_ok line n frs"
  by (simp_all add: frames_ok_def)

lemma frame_ok_Suc: "frame_ok line n fr \<Longrightarrow> frame_ok line (Suc n) fr"
  by (cases fr) auto

lemma frames_ok_Suc: "frames_ok line n frs \<Longrightarrow> frames_ok line (Suc n) frs"
  by (auto simp: frames_ok_def intro: frame_ok_Suc)

lemma frames_ok_tl: "frames_ok line n frs \<Longrightarrow> frames_ok line n (tl frs)"
  by (cases frs) simp_all

lemma quote_ascii: "is_quote b \<Longrightarrow> is_ascii b"
  by (auto simp: is_quote_def is_ascii_def)

lemma opens_string_quote: "opens_string l b \<Longrightarrow> is_quote b"
  by (cases l) (auto simp: is_quote_def)

lemma interpolation_frame:
  assumes "interpolation language quote fstring rest = Some (c, n)"
  shows "frame_ok line k (FrCode c) \<and> \<not> cf_spec c"
  using assms by (auto simp: interpolation_def code_frame_def is_ascii_def split: if_splits)

lemma starts_two: "starts_with [a, b] rest \<Longrightarrow> \<exists>r. rest = a # b # r"
  by (simp add: starts_with_iff)

lemma interpolation_opener:
  assumes "interpolation language quote fstring rest = Some (c, n)"
  shows "(n = 1 \<or> n = 2) \<and> n \<le> length rest \<and> (\<forall>j<n. is_ascii (rest ! j))"
proof -
  consider "n = 2" "\<exists>a b. starts_with [a, b] rest \<and> is_ascii a \<and> is_ascii b" | "n = 1" "\<exists>a. nth_get rest 0 = Some a \<and> is_ascii a"
    using assms by (force simp: interpolation_def is_ascii_def split: if_splits)
  then show ?thesis
  proof cases
    case 1
    then obtain a b r where "rest = a # b # r" "is_ascii a" "is_ascii b" using starts_two by blast
    then show ?thesis using \<open>n = 2\<close> by (auto simp: less_2_cases_iff)
  next
    case 2
    then show ?thesis by (cases rest) (auto simp: nth_get_def)
  qed
qed

lemma track_python_same [simp]:
  "cf_open (track_python ch c) = cf_open c" "cf_close (track_python ch c) = cf_close c"
  "cf_depth (track_python ch c) = cf_depth c"
  by (simp_all add: track_python_def)

lemma track_frame_cases:
  assumes "track_frame language bytes i c = Some c'"
  obtains d where "cf_open d = cf_open c" "cf_close d = cf_close c" "cf_depth d = cf_depth c"
    "c' = d \<or> c' = d\<lparr>cf_depth := cf_depth d + 1\<rparr> \<or> cf_depth d - 1 \<noteq> 0 \<and> c' = d\<lparr>cf_depth := cf_depth d - 1\<rparr>"
proof -
  define c1 where "c1 = (if language = Shell then c\<lparr>cf_cases := track_cases bytes i (cf_cases c)\<rparr> else c)"
  define d where "d = (if language = Python then track_python (bytes ! i) c1 else c1)"
  have same: "cf_open d = cf_open c" "cf_close d = cf_close c" "cf_depth d = cf_depth c"
    by (simp_all add: c1_def d_def)
  have "c' = d \<or> c' = d\<lparr>cf_depth := cf_depth d + 1\<rparr> \<or> cf_depth d - 1 \<noteq> 0 \<and> c' = d\<lparr>cf_depth := cf_depth d - 1\<rparr>"
    using assms unfolding track_frame_def Let_def c1_def [symmetric] d_def [symmetric]
    by (simp split: if_splits)
  with that same show ?thesis by blast
qed

lemma track_frame_ok:
  assumes "frame_ok line k (FrCode c)" "track_frame language bytes i c = Some c'"
  shows "frame_ok line k (FrCode c')"
  using assms(2) by (rule track_frame_cases) (use assms(1) in auto)

lemma track_code_frames:
  assumes "frames_ok line k (sc_stack s)"
  shows "frames_ok line k (sc_stack (track_code s i))"
proof (cases "sc_stack s")
  case (Cons fr below)
  show ?thesis
  proof (cases fr)
    case (FrCode c)
    then show ?thesis
      using assms Cons track_frame_ok [of line k c "sc_language s" "sc_bytes s" i]
      by (cases "track_frame (sc_language s) (sc_bytes s) i c") (simp_all add: track_code_def)
  qed (use assms Cons in \<open>simp_all add: track_code_def\<close>)
qed (simp add: track_code_def)

lemma opened_string_simps [simp]:
  "sf_quote (opened_string l bytes i) = bytes ! i" "sf_start (opened_string l bytes i) = i"
  "\<not> sf_escaped (opened_string l bytes i)" "\<not> sf_triple (opened_string l bytes i)"
  by (simp_all add: opened_string_def str_frame_def Let_def)

lemma str_frame_simps [simp]: "sf_quote (str_frame q i) = q" "sf_start (str_frame q i) = i"
  by (simp_all add: str_frame_def)

lemma in_string_frames:
  assumes "sc_stack s = FrStr f # below" "frames_ok line k (sc_stack s)"
  shows "frames_ok line k (sc_stack (in_string s f rest))"
  using assms interpolation_frame [of "sc_language s" "sf_quote f" "sf_fstring f" rest _ _ line k]
  by (auto simp: in_string_def Let_def split: option.split)

lemma in_spec_frames:
  assumes "frames_ok line k (sc_stack s)"
  shows "frames_ok line k (sc_stack (in_spec s rest))"
  using assms interpolation_frame [of "sc_language s" DQUOTE True rest _ _ line k]
  by (auto simp: in_spec_def intro: frames_ok_tl split: option.split)

lemma in_code_tail_frames:
  assumes "in_code_tail s i state = (go, s', state')" "frames_ok line i (sc_stack s)" "reading_ok state"
    "sc_bytes s = line"
  shows "frames_ok line (Suc i) (sc_stack s') \<and> reading_ok state'"
  using assms track_code_frames [of line i s i] opens_string_quote [of "sc_language s" "line ! i"]
  by (auto simp: in_code_tail_def Let_def reading_ok_def is_quote_def intro: frames_ok_Suc split: if_splits)

lemma in_code_frames:
  assumes "in_code s i state = (go, s', state')" "frames_ok line i (sc_stack s)" "reading_ok state"
    "sc_bytes s = line"
  shows "frames_ok line (Suc i) (sc_stack s') \<and> reading_ok state'"
  using assms in_code_tail_frames [of s i state go s' state' line]
    in_code_tail_frames [of "s\<lparr>sc_no_regex := True\<rparr>" i state go s' state' line]
  by (auto simp: in_code_def Let_def reading_ok_def intro: frames_ok_Suc split: if_splits option.splits)

lemma scan_step_cases:
  assumes "scan_step s i state = (go, s', state')"
  obtains
    (blank) "0 < sc_blank s" "go" "s' = push_out SPACE (s\<lparr>sc_blank := sc_blank s - 1\<rparr>)" "state' = state"
  | (copy) "sc_blank s = 0" "0 < sc_copy s" "go"
      "s' = push_out (sc_bytes s ! i) (s\<lparr>sc_copy := sc_copy s - 1\<rparr>)" "state' = state"
  | (block_end) "sc_blank s = 0" "sc_copy s = 0" "rd_in_block_comment state" "starts_with ''*/'' (drop i (sc_bytes s))"
      "go" "s' = push_out SPACE (s\<lparr>sc_blank := 1\<rparr>)" "state' = state\<lparr>rd_in_block_comment := False\<rparr>"
  | (block) "sc_blank s = 0" "sc_copy s = 0" "rd_in_block_comment state" "go" "s' = push_out SPACE s" "state' = state"
  | (triple_end) q where "sc_blank s = 0" "sc_copy s = 0" "rd_in_triple state = Some q"
      "starts_with (replicate 3 q) (drop i (sc_bytes s))"
      "go" "s' = push_out (sc_bytes s ! i) (s\<lparr>sc_copy := 2\<rparr>)" "state' = state\<lparr>rd_in_triple := None\<rparr>"
  | (triple) q where "sc_blank s = 0" "sc_copy s = 0" "rd_in_triple state = Some q"
      "go" "s' = push_out SPACE s" "state' = state"
  | (comment_end) below where "sc_blank s = 0" "sc_copy s = 0" "sc_stack s = FrComment # below"
      "starts_with ''*/'' (drop i (sc_bytes s))"
      "go" "s' = push_out SPACE (s\<lparr>sc_stack := below, sc_blank := 1\<rparr>)" "state' = state"
  | (comment) below where "sc_blank s = 0" "sc_copy s = 0" "sc_stack s = FrComment # below"
      "go" "s' = push_out SPACE s" "state' = state"
  | (string) f below where "sc_blank s = 0" "sc_copy s = 0" "\<not> rd_in_block_comment state" "rd_in_triple state = None"
      "sc_stack s = FrStr f # below" "go" "s' = in_string s f (drop i (sc_bytes s))" "state' = state"
  | (spec) c below where "sc_blank s = 0" "sc_copy s = 0" "\<not> rd_in_block_comment state" "rd_in_triple state = None"
      "sc_stack s = FrCode c # below" "cf_spec c" "go" "s' = in_spec s (drop i (sc_bytes s))" "state' = state"
  | (code) "sc_blank s = 0" "sc_copy s = 0" "\<not> rd_in_block_comment state" "rd_in_triple state = None"
      "case sc_stack s of [] \<Rightarrow> True | FrCode c # _ \<Rightarrow> \<not> cf_spec c | _ \<Rightarrow> False"
      "in_code s i state = (go, s', state')"
proof (cases "0 < sc_blank s \<or> 0 < sc_copy s")
  case active: True
  show ?thesis
  proof (cases "0 < sc_blank s")
    case True
    show ?thesis by (rule blank) (use assms True in \<open>auto simp: scan_step_def Let_def\<close>)
  next
    case False
    show ?thesis by (rule copy) (use assms active False in \<open>auto simp: scan_step_def Let_def\<close>)
  qed
next
  case idle: False
  show ?thesis
  proof (cases "rd_in_block_comment state")
    case b: True
    show ?thesis
    proof (cases "starts_with ''*/'' (drop i (sc_bytes s))")
      case True
      show ?thesis by (rule block_end) (use assms idle b True in \<open>auto simp: scan_step_def Let_def\<close>)
    next
      case False
      show ?thesis by (rule block) (use assms idle b False in \<open>auto simp: scan_step_def Let_def\<close>)
    qed
  next
    case nb: False
    show ?thesis
    proof (cases "rd_in_triple state")
      case t: (Some q)
      show ?thesis
      proof (cases "starts_with (replicate 3 q) (drop i (sc_bytes s))")
        case True
        show ?thesis by (rule triple_end) (use assms idle nb t True in \<open>auto simp: scan_step_def Let_def\<close>)
      next
        case False
        show ?thesis by (rule triple) (use assms idle nb t False in \<open>auto simp: scan_step_def Let_def\<close>)
      qed
    next
      case n: None
      consider "sc_stack s = []" | below where "sc_stack s = FrComment # below"
        | f below where "sc_stack s = FrStr f # below" | c below where "sc_stack s = FrCode c # below"
        by (metis Frame.exhaust list.exhaust)
      then show ?thesis
      proof cases
        case 1
        show ?thesis by (rule code) (use assms idle nb n 1 in \<open>auto simp: scan_step_def Let_def\<close>)
      next
        case (2 below)
        show ?thesis
        proof (cases "starts_with ''*/'' (drop i (sc_bytes s))")
          case True
          show ?thesis by (rule comment_end) (use assms idle nb n 2 True in \<open>auto simp: scan_step_def Let_def\<close>)
        next
          case False
          show ?thesis by (rule comment) (use assms idle nb n 2 False in \<open>auto simp: scan_step_def Let_def\<close>)
        qed
      next
        case (3 f below)
        show ?thesis by (rule string) (use assms idle nb n 3 in \<open>auto simp: scan_step_def Let_def\<close>)
      next
        case (4 c below)
        show ?thesis
        proof (cases "cf_spec c")
          case True
          show ?thesis by (rule spec) (use assms idle nb n 4 True in \<open>auto simp: scan_step_def Let_def\<close>)
        next
          case False
          show ?thesis by (rule code) (use assms idle nb n 4 False in \<open>auto simp: scan_step_def Let_def\<close>)
        qed
      qed
    qed
  qed
qed

lemma scan_step_frames:
  assumes "scan_step s i state = (go, s', state')" "frames_ok line i (sc_stack s)" "reading_ok state"
    "sc_bytes s = line"
  shows "frames_ok line (Suc i) (sc_stack s') \<and> reading_ok state'"
  using assms(1)
proof (cases rule: scan_step_cases)
  case code
  then show ?thesis using in_code_frames [OF _ assms(2-4)] by blast
next
  case string
  then show ?thesis using in_string_frames [OF _ assms(2)] frames_ok_Suc assms(3) by simp
next
  case spec
  then show ?thesis using in_spec_frames [OF assms(2)] frames_ok_Suc assms(3) by simp
qed (use assms(2-4) frames_ok_Suc in \<open>auto simp: reading_ok_def\<close>)

lemma aligned_snoc:
  assumes "aligned line view" "length view < length line" "b = line ! length view \<or> b = SPACE"
  shows "aligned line (view @ [b])"
  using assms by (auto simp: aligned_def nth_append less_Suc_eq)

lemma frames_inv_step:
  assumes "frames_inv language line i s state" "i < length line" "scan_step s i state = (True, s', state')"
  shows "frames_inv language line (Suc i) s' state'"
proof -
  have inv: "sc_language s = language" "sc_bytes s = line" "length (sc_out s) = i" "aligned line (sc_out s)"
    "frames_ok line i (sc_stack s)" "reading_ok state" using assms(1) by (simp_all add: frames_inv_def)
  have em: "emits s (line ! i) s'" using scan_step_emits [OF assms(3)] inv assms(2) by simp
  have "frames_ok line (Suc i) (sc_stack s') \<and> reading_ok state'"
    using scan_step_frames [OF assms(3) inv(5) inv(6) inv(2)] .
  moreover obtain b where b: "sc_out s' = sc_out s @ [b]" "b = line ! i \<or> b = SPACE"
    using em by (auto simp: emits_def)
  moreover have "aligned line (sc_out s @ [b])" using aligned_snoc [OF inv(4)] inv(3) assms(2) b(2) by simp
  ultimately show ?thesis using em inv by (simp add: frames_inv_def emits_def)
qed

lemma frames_inv_stop:
  assumes "frames_inv language line i s state" "i < length line" "scan_step s i state = (False, s', state')"
  shows "frames_inv language line i s' state'"
  using scan_step_emits [OF assms(3)] assms(1,2) by (simp add: frames_inv_def)

interpretation frames: scan_invariant frames_inv frames_inv
  by unfold_locales (erule frames_inv_step frames_inv_stop; assumption)+

subsection \<open>The end of a line\<close>

lemma outer_string_in: "outer_string stack = Some f \<Longrightarrow> FrStr f \<in> set stack"
  by (auto simp: outer_string_def split: Frame.splits dest: find_map_Some)

lemma aligned_resume:
  assumes "aligned line out" "k \<le> length out"
  shows "aligned line (take k out @ drop k line)"
  using assms by (auto simp: aligned_def nth_append)

lemma frames_start:
  assumes "frames_inv language line m s state" "outer_string (sc_stack s) = Some f"
  shows "sf_start f \<le> m \<and> (sf_start f = 0 \<or> is_quote (line ! sf_start f))"
  using assms outer_string_in [of "sc_stack s" f] by (force simp: frames_inv_def frames_ok_def)

lemma finish_out_aligned:
  assumes "frames_inv language line m s state"
  shows "aligned line (finish_out s)"
  using assms aligned_resume [of line "sc_out s"] frames_start [OF assms]
  by (auto simp: finish_out_def frames_inv_def split: option.split)

lemma finish_state_ok:
  assumes "frames_inv language line m s state"
  shows "reading_ok (finish_state s state)"
  using assms by (auto simp: finish_state_def frames_inv_def reading_ok_def Let_def split: list.splits Frame.splits option.splits Language.splits)

definition opened_ok :: "StrFrame option \<Rightarrow> bool" where
  "opened_ok opened \<longleftrightarrow> (\<forall>f. opened = Some f \<longrightarrow> is_quote (sf_quote f) \<and> sf_start f = 0)"

lemma frames_start_line:
  assumes "reading_ok state" "opened_ok opened"
  shows "frames_inv language line 0 (scan_start language line opened) state"
  using assms by (auto simp: frames_inv_def scan_start_def aligned_def opened_ok_def split: option.split)

end
