(* ===== verification/Lexical_Whole.thy ===== *)
theory Lexical_Whole
  imports Lexical_Props
begin

text \<open>
  A scan of valid UTF-8 keeps or blanks whole characters, so the view is valid UTF-8 and
  \<open>String::from_utf8(..).unwrap_or_default()\<close> never replaces it by the empty string; and the view of a
  hunk keeps at least what a scan that carries no string from line to line keeps.
\<close>

subsection \<open>What happens to a byte outside ASCII\<close>

text \<open>Whether the scan keeps a byte that opens or closes nothing.\<close>

definition keeps :: "Language \<Rightarrow> Frame list \<Rightarrow> Reading \<Rightarrow> bool" where
  "keeps language stack state \<longleftrightarrow>
     \<not> rd_in_block_comment state \<and> rd_in_triple state = None
     \<and> (case stack of [] \<Rightarrow> True | FrComment # _ \<Rightarrow> False | FrStr f # _ \<Rightarrow> language = Yaml | FrCode c # _ \<Rightarrow> \<not> cf_spec c)"

lemma not_ascii_neq: "\<not> is_ascii b \<Longrightarrow> is_ascii c \<Longrightarrow> b \<noteq> c"
  by auto

lemma ascii_chars [simp]:
  "is_ascii DQUOTE" "is_ascii SQUOTE" "is_ascii BTICK" "is_ascii BACKSLASH" "is_ascii SLASH" "is_ascii HASH" "is_ascii SPACE"
  "is_ascii (CHR ''$'')" "is_ascii (CHR ''{'')" "is_ascii (CHR ''}'')" "is_ascii (CHR ''('')" "is_ascii (CHR '')'')"
  "is_ascii (CHR ''['')" "is_ascii (CHR '']'')" "is_ascii (CHR '':'')" "is_ascii (CHR ''*'')" "is_ascii (CHR ''c'')" "is_ascii (CHR ''e'')"
  by (simp_all add: is_ascii_def)

lemma foreign_starts: "\<lbrakk>\<not> is_ascii (rest ! 0); is_ascii c\<rbrakk> \<Longrightarrow> \<not> starts_with (c # p) rest"
  by (auto simp: starts_with_iff)

lemma foreign_drop:
  assumes "\<not> is_ascii (bytes ! i)" "is_ascii c"
  shows "\<not> starts_with (c # p) (drop i bytes)"
proof (cases "i < length bytes")
  case True
  then show ?thesis using assms foreign_starts [of "drop i bytes"] by simp
qed simp

lemma foreign_get: "\<lbrakk>\<not> is_ascii (rest ! 0); is_ascii c\<rbrakk> \<Longrightarrow> nth_get rest 0 \<noteq> Some c"
  by (auto simp: nth_get_Some)

lemma foreign_interpolation:
  assumes "\<not> is_ascii (rest ! 0)"
  shows "interpolation language quote fstring rest = None"
  using assms by (cases language) (simp_all add: interpolation_def foreign_starts foreign_get)

lemma foreign_in_string:
  assumes "\<not> is_ascii (rest ! 0)" "is_quote (sf_quote f)" "sc_stack s = FrStr f # below"
  shows "\<exists>f'. in_string s f rest = push_out (if sc_language s = Yaml then rest ! 0 else SPACE) (s\<lparr>sc_stack := FrStr f' # below\<rparr>)"
proof -
  have "rest ! 0 \<noteq> sf_quote f" using assms(1,2) quote_ascii [of "sf_quote f"] by auto
  then have "\<not> string_closes f rest" unfolding string_closes_def Let_def by blast
  moreover have "\<not> starts_with ''{{'' rest" using assms(1) by (simp add: foreign_starts)
  moreover have "rest ! 0 \<noteq> BACKSLASH" using assms(1) by auto
  then have "\<not> string_escapes l f rest" for l unfolding string_escapes_def by blast
  ultimately have "in_string s f rest = push_out (if sc_language s = Yaml then rest ! 0 else SPACE)
      (s\<lparr>sc_stack := FrStr (if sf_escaped f then f\<lparr>sf_escaped := False\<rparr> else f) # below\<rparr>)"
    using assms(3) foreign_interpolation [OF assms(1)] by (simp add: in_string_def Let_def)
  then show ?thesis by blast
qed

lemma foreign_track_frame:
  assumes "\<not> is_ascii (bytes ! i)" "frame_ok line k (FrCode c)"
  shows "track_frame language bytes i c = Some c"
proof -
  have "\<not> shell_word_at bytes i ''case''" "\<not> shell_word_at bytes i ''esac''"
    using assms(1) by (simp_all add: shell_word_at_def foreign_drop)
  then have "track_cases bytes i n = n" for n by (simp add: track_cases_def)
  moreover have "track_python (bytes ! i) c = c" using assms(1) by (auto simp: track_python_def)
  moreover have "bytes ! i \<noteq> cf_close c" "cf_open c \<noteq> Some (bytes ! i)"
    using assms not_ascii_neq [of "bytes ! i" "cf_close c"] by auto
  ultimately show ?thesis by (cases language) (simp_all add: track_frame_def Let_def)
qed

lemma foreign_in_code:
  assumes "\<not> is_ascii (sc_bytes s ! i)" "i < length (sc_bytes s)" "frames_ok line k (sc_stack s)"
    "case sc_stack s of [] \<Rightarrow> True | FrCode c # _ \<Rightarrow> \<not> cf_spec c | _ \<Rightarrow> False"
  shows "in_code s i state = (True, push_out (sc_bytes s ! i) s, state)"
proof -
  have c: "\<not> starts_with (SLASH # p) (drop i (sc_bytes s))" for p using assms(1) by (simp add: foreign_drop)
  have o: "\<not> opens_string (sc_language s) (sc_bytes s ! i)" using assms(1) opens_string_quote quote_ascii by blast
  have "track_code s i = s"
    using assms foreign_track_frame [of "sc_bytes s" i line k _ "sc_language s"]
    by (auto simp: track_code_def split: list.splits Frame.splits)
  moreover have "sc_bytes s ! i \<notin> {BACKSLASH, SLASH, HASH, DQUOTE, SQUOTE}" using assms(1) by auto
  ultimately show ?thesis using c o by (auto simp: in_code_def in_code_tail_def Let_def)
qed

lemma foreign_step:
  assumes "scan_step s i state = (go, s', state')" "frames_inv language line i s state" "i < length line"
    "\<not> is_ascii (line ! i)" "sc_blank s = 0" "sc_copy s = 0"
  shows "go \<and> sc_blank s' = 0 \<and> sc_copy s' = 0 \<and> (keeps language (sc_stack s') state' \<longleftrightarrow> keeps language (sc_stack s) state)
    \<and> sc_out s' = sc_out s @ [if keeps language (sc_stack s) state then line ! i else SPACE]"
proof -
  have inv: "sc_language s = language" "sc_bytes s = line" "frames_ok line i (sc_stack s)" "reading_ok state"
    using assms(2) by (simp_all add: frames_inv_def)
  have r: "\<not> is_ascii (drop i line ! 0)" using assms(3,4) by simp
  show ?thesis using assms(1)
  proof (cases rule: scan_step_cases)
    case (triple_end q)
    then show ?thesis using inv foreign_starts [OF r, of q] quote_ascii [of q] by (simp add: reading_ok_def numeral_3_eq_3)
  next
    case (string f below)
    then have "is_quote (sf_quote f)" using inv by simp
    then obtain f' where "in_string s f (drop i line)
        = push_out (if language = Yaml then line ! i else SPACE) (s\<lparr>sc_stack := FrStr f' # below\<rparr>)"
      using foreign_in_string [OF r _ string(5)] inv(1) drop_nth_0 [OF assms(3)] by metis
    then show ?thesis using string assms(5,6) inv by (simp add: keeps_def)
  next
    case (spec c below)
    then have "s' = push_out SPACE s"
      using inv r foreign_interpolation [OF r] assms(3,4) by (auto simp: in_spec_def)
    then show ?thesis using spec assms(5,6) by (simp add: keeps_def)
  next
    case code
    then show ?thesis
      using inv foreign_in_code [of s i line i state] assms(3-6) by (auto simp: keeps_def split: list.splits Frame.splits)
  qed (use assms(5,6) inv r in \<open>auto simp: keeps_def foreign_starts\<close>)
qed

subsection \<open>What an ASCII byte may start\<close>

lemma starts_at:
  assumes "starts_with p (drop i line)" "j < length p"
  shows "i + j < length line \<and> line ! (i + j) = p ! j"
proof -
  obtain r where r: "drop i line = p @ r" using assms(1) by (auto simp: starts_with_iff)
  have len: "length (drop i line) = length p + length r" using r by simp
  then have "i + j < length line" using assms(2) by simp
  moreover have "drop i line ! j = p ! j" using r assms(2) by (simp add: nth_append)
  ultimately show ?thesis by simp
qed

lemma regex_loop_end:
  "regex_loop in_class escaped j rest = Some n \<Longrightarrow> j < n \<and> n \<le> j + length rest \<and> rest ! (n - 1 - j) = SLASH"
proof (induction in_class escaped j rest rule: regex_loop.induct)
  case (2 in_class escaped j b rest)
  have "n = j + 1 \<and> b = SLASH \<or> (\<exists>c e. regex_loop c e (j + 1) rest = Some n
      \<and> (j + 1 < n \<and> n \<le> j + 1 + length rest \<and> rest ! (n - 1 - (j + 1)) = SLASH))"
    using "2.prems" "2.IH" by (auto split: if_splits)
  then show ?case by (auto simp: nth_Cons' Suc_diff_Suc)
qed simp

lemma regex_len_end:
  "regex_len rest = Some n \<Longrightarrow> 2 \<le> n \<and> n \<le> length rest \<and> rest ! (n - 1) = SLASH"
  using regex_loop_end [of False False 1 "drop 1 rest" n] by (cases rest) (auto simp: regex_len_def nth_Cons')

text \<open>A region an ASCII byte starts ends at an ASCII byte, or in code that keeps what follows.\<close>

definition region_ok :: "Language \<Rightarrow> string \<Rightarrow> nat \<Rightarrow> Scan \<Rightarrow> Reading \<Rightarrow> bool" where
  "region_ok language line i s state \<longleftrightarrow>
     (0 < sc_blank s \<longrightarrow> (i + sc_blank s < length line \<and> is_ascii (line ! (i + sc_blank s)))
        \<or> (i + sc_blank s + 1 < length line \<and> is_ascii (line ! (i + sc_blank s + 1))))
     \<and> (0 < sc_copy s \<longrightarrow> (sc_blank s = 0 \<and> keeps language (sc_stack s) state)
          \<or> (i + sc_blank s + sc_copy s < length line \<and> is_ascii (line ! (i + sc_blank s + sc_copy s))))"

lemma region_idle: "sc_blank s = 0 \<Longrightarrow> sc_copy s = 0 \<Longrightarrow> region_ok language line i s state"
  by (simp add: region_ok_def)

lemma starts_triple:
  "starts_with (replicate 3 q) (drop i line) \<Longrightarrow> i + 2 < length line \<and> line ! (i + 2) = q"
  using starts_at [of "replicate 3 q" i line 2] by simp

lemma in_string_region:
  assumes "sc_stack s = FrStr f # below" "is_quote (sf_quote f)" "i < length line" "sc_blank s = 0" "sc_copy s = 0"
    "sc_bytes s = line"
  shows "region_ok language line i (in_string s f (drop i line)) state"
proof -
  let ?h = "case sf_raw f of None \<Rightarrow> 0 | Some n \<Rightarrow> n"
  have closes: "is_ascii (line ! (i + (if sf_triple f then 2 else ?h))) \<and> i + (if sf_triple f then 2 else ?h) < length line"
    if c: "string_closes f (drop i line)"
  proof (cases "sf_triple f")
    case True
    then show ?thesis using c starts_triple [of "sf_quote f" i line] quote_ascii [OF assms(2)] by (simp add: string_closes_def Let_def)
  next
    case False
    have h: "?h < length (drop i line)" "\<forall>b\<in>set (take ?h (drop 1 (drop i line))). b = HASH" "line ! i = sf_quote f"
      using c assms(3) by (simp_all add: string_closes_def Let_def)
    have "is_ascii (line ! (i + ?h))"
    proof (cases "?h = 0")
      case True
      then show ?thesis using h(3) quote_ascii [OF assms(2)] by simp
    next
      case False
      then have "take ?h (drop 1 (drop i line)) ! (?h - 1) = line ! (i + ?h)" using h(1) by (simp add: nth_drop)
      moreover have "take ?h (drop 1 (drop i line)) ! (?h - 1) \<in> set (take ?h (drop 1 (drop i line)))"
        using h(1) False by (intro nth_mem) auto
      ultimately have "line ! (i + ?h) = HASH" using h(2) by metis
      then show ?thesis by simp
    qed
    then show ?thesis using h(1) False by simp
  qed
  have braces: "i + 1 < length line \<and> is_ascii (line ! (i + 1))" if "starts_with ''{{'' (drop i line)"
    using starts_at [OF that, of 1] by simp
  have opener: "n = 1 \<or> n = 2 \<and> i + 1 < length line \<and> is_ascii (line ! (i + 1))"
    if "interpolation (sc_language s) (sf_quote f) (sf_fstring f) (drop i line) = Some (c, n)" for c n
    using interpolation_opener [OF that] by (auto dest: spec [of _ 1])
  show ?thesis
    using assms closes braces opener
    by (auto simp: in_string_def Let_def region_ok_def split: option.split)
qed

lemma in_spec_region:
  assumes "sc_blank s = 0" "sc_copy s = 0"
  shows "region_ok language line i (in_spec s rest) state"
  using assms by (auto simp: in_spec_def region_ok_def split: option.split)

lemma in_code_tail_region:
  assumes "in_code_tail s i state = (go, s', state')" "sc_bytes s = line" "sc_blank s = 0" "sc_copy s = 0"
  shows "region_ok language line i s' state'"
proof -
  have triple: "i + 2 < length line \<and> is_ascii (line ! (i + 2))"
    if "starts_with (replicate 3 (line ! i)) (drop i line)" "line ! i = DQUOTE \<or> line ! i = SQUOTE"
    using starts_triple [OF that(1)] that(2) by auto
  have "(sc_blank s' = 0 \<and> sc_copy s' = 0)
      \<or> (sc_blank s' = 0 \<and> sc_copy s' = 2 \<and> starts_with (replicate 3 (line ! i)) (drop i line) \<and> (line ! i = DQUOTE \<or> line ! i = SQUOTE))
      \<or> (sc_copy s' = 0 \<and> nth_get (drop i line) (sc_blank s') = Some SQUOTE)"
  proof -
    define close :: nat where "close = (if nth_get (drop i line) 1 = Some BACKSLASH then 3 else 2)"
    consider (hash) "sc_stack s = [] \<and> line ! i = HASH \<and> is_comment_start (sc_language s) line i"
      | (quotes) "\<not> (sc_stack s = [] \<and> line ! i = HASH \<and> is_comment_start (sc_language s) line i)"
          "sc_language s = Python \<and> (line ! i = DQUOTE \<or> line ! i = SQUOTE) \<and> starts_with (replicate 3 (line ! i)) (drop i line)"
      | (other) "\<not> (sc_stack s = [] \<and> line ! i = HASH \<and> is_comment_start (sc_language s) line i)"
          "\<not> (sc_language s = Python \<and> (line ! i = DQUOTE \<or> line ! i = SQUOTE) \<and> starts_with (replicate 3 (line ! i)) (drop i line))"
      by blast
    then show ?thesis
    proof cases
      case hash
      then show ?thesis using assms by (simp add: in_code_tail_def Let_def)
    next
      case quotes
      then have "sc_blank s' = 0 \<and> sc_copy s' = 2"
        using assms unfolding in_code_tail_def Let_def assms(2) by (simp only: if_P if_not_P simp_thms split: if_splits) auto
      with quotes show ?thesis by blast
    next
      case other
      let ?r = "if sc_language s = Rust \<and> line ! i = SQUOTE \<and> nth_get (drop i line) close = Some SQUOTE
          then (True, push_out SPACE (s\<lparr>sc_blank := close\<rparr>), state)
          else if opens_string (sc_language s) (line ! i) \<and> \<not> after_word (sc_language s) line i
          then (True, push_out (line ! i) (s\<lparr>sc_stack := FrStr (opened_string (sc_language s) line i) # sc_stack s\<rparr>), state)
          else (True, push_out (line ! i) (track_code s i), state)"
      have "in_code_tail s i state = ?r"
        using other unfolding in_code_tail_def Let_def assms(2) close_def by (simp only: if_not_P simp_thms not_False_eq_True)
      then have "?r = (go, s', state')" using assms(1) by simp
      then show ?thesis using assms(3,4) by (auto split: if_splits simp del: opens_string.simps)
    qed
  qed
  then show ?thesis
  proof (elim disjE conjE)
    assume "sc_copy s' = 0" "nth_get (drop i line) (sc_blank s') = Some SQUOTE"
    then show ?thesis by (auto simp: region_ok_def nth_get_Some)
  qed (use triple in \<open>auto simp: region_ok_def\<close>)
qed

lemma in_code_region:
  assumes "in_code s i state = (go, s', state')" "sc_bytes s = line" "sc_blank s = 0" "sc_copy s = 0"
    "keeps language (sc_stack s) state"
  shows "region_ok language line i s' state'"
proof -
  have block: "i + 1 < length line \<and> is_ascii (line ! (i + 1))" if "starts_with ''/*'' (drop i line)"
    using starts_at [OF that, of 1] by simp
  have regex: "2 \<le> n \<and> i + (n - 1) < length line \<and> is_ascii (line ! (i + (n - 1)))" if "regex_len (drop i line) = Some n" for n
    using regex_len_end [OF that] by auto
  show ?thesis
  proof (cases "in_code_tail s i state = (go, s', state') \<or> in_code_tail (s\<lparr>sc_no_regex := True\<rparr>) i state = (go, s', state')")
    case True
    then show ?thesis
      using in_code_tail_region [of s i state go s' state' line language]
        in_code_tail_region [of "s\<lparr>sc_no_regex := True\<rparr>" i state go s' state' line language] assms(2-4) by auto
  next
    case False
    then consider "s' = push_out (line ! i) (s\<lparr>sc_copy := 1\<rparr>)" "state' = state" | "s' = s"
      | "starts_with ''/*'' (drop i line)" "sc_blank s' = 1" "sc_copy s' = 0"
      | n where "regex_len (drop i line) = Some n" "sc_blank s' = n - 2" "sc_copy s' = 1"
      using assms(1-4) by (auto simp: in_code_def Let_def split: if_splits option.splits)
    then show ?thesis
    proof cases
      case (4 n)
      note r = regex [OF 4(1)]
      then have e: "i + sc_blank s' + 1 = i + (n - 1)" using 4(2) by linarith
      show ?thesis unfolding region_ok_def 4(3) e using r by blast
    qed (use assms(3-5) block in \<open>auto simp: region_ok_def\<close>)
  qed
qed

lemma ascii_step_region:
  assumes "scan_step s i state = (go, s', state')" "frames_inv language line i s state" "i < length line"
    "sc_blank s = 0" "sc_copy s = 0"
  shows "region_ok language line i s' state'"
proof -
  have inv: "sc_language s = language" "sc_bytes s = line" "frames_ok line i (sc_stack s)" "reading_ok state"
    using assms(2) by (simp_all add: frames_inv_def)
  have star: "i + 1 < length line \<and> is_ascii (line ! (i + 1))" if "starts_with ''*/'' (drop i line)"
    using starts_at [OF that, of 1] by simp
  show ?thesis using assms(1)
  proof (cases rule: scan_step_cases)
    case (triple_end q)
    then have "i + 2 < length line \<and> is_ascii (line ! (i + 2))"
      using inv starts_triple [of q i line] quote_ascii [of q] by (auto simp: reading_ok_def)
    then show ?thesis using triple_end by (simp add: region_ok_def)
  next
    case (string f below)
    then show ?thesis using in_string_region [OF string(5) _ assms(3-5) inv(2)] inv by simp
  next
    case (spec c below)
    then show ?thesis using in_spec_region assms(4,5) by simp
  next
    case code
    then have "keeps language (sc_stack s) state" by (auto simp: keeps_def split: list.splits Frame.splits)
    then show ?thesis using in_code_region [OF code(6) inv(2) assms(4,5)] by simp
  qed (use assms(4,5) inv star in \<open>auto simp: region_ok_def\<close>)
qed

subsection \<open>Whole characters\<close>

definition mode_ok :: "Language \<Rightarrow> string \<Rightarrow> nat \<Rightarrow> Scan \<Rightarrow> Reading \<Rightarrow> bool" where
  "mode_ok language line i s state \<longleftrightarrow>
     (cont_at line i \<longrightarrow>
        (if sc_out s ! (i - 1) = SPACE
         then 0 < sc_blank s \<or> sc_copy s = 0 \<and> \<not> keeps language (sc_stack s) state
         else sc_blank s = 0 \<and> (0 < sc_copy s \<or> keeps language (sc_stack s) state)))
     \<and> (0 < sc_blank s \<longrightarrow> \<not> cont_at line (i + sc_blank s))
     \<and> (sc_blank s = 0 \<and> 0 < sc_copy s \<and> cont_at line (i + sc_copy s) \<longrightarrow> keeps language (sc_stack s) state)
     \<and> (0 < sc_blank s \<and> 0 < sc_copy s \<longrightarrow> \<not> cont_at line (i + sc_blank s + sc_copy s))"

definition whole_so_far :: "string \<Rightarrow> string \<Rightarrow> bool" where
  "whole_so_far line out \<longleftrightarrow>
     (\<forall>j. Suc j < length out \<and> cont_at line (Suc j) \<longrightarrow> (out ! j = SPACE \<longleftrightarrow> out ! Suc j = SPACE))"

definition whole_inv :: "Language \<Rightarrow> string \<Rightarrow> nat \<Rightarrow> Scan \<Rightarrow> Reading \<Rightarrow> bool" where
  "whole_inv language line i s state \<longleftrightarrow>
     frames_inv language line i s state
     \<and> (utf8_valid line \<longrightarrow> whole_so_far line (sc_out s) \<and> mode_ok language line i s state)"

definition whole_end :: "Language \<Rightarrow> string \<Rightarrow> nat \<Rightarrow> Scan \<Rightarrow> Reading \<Rightarrow> bool" where
  "whole_end language line m s state \<longleftrightarrow>
     frames_inv language line m s state \<and> (utf8_valid line \<longrightarrow> whole_chars line (sc_out s))"

lemma after_ascii:
  assumes "utf8_valid line" "is_ascii (line ! j)"
  shows "\<not> cont_at line (Suc j)"
  using assms valid_prev by blast

lemma ascii_no_cont: "is_ascii (line ! j) \<Longrightarrow> \<not> cont_at line j"
  using ascii_not_cont by (auto simp: cont_at_def)

lemma region_mode:
  assumes "region_ok language line i s' state'" "utf8_valid line" "is_ascii (line ! i)"
  shows "mode_ok language line (Suc i) s' state'"
proof -
  have "\<not> cont_at line (Suc i)" using after_ascii assms(2,3) by blast
  moreover have "\<not> cont_at line (Suc i + sc_blank s')" if "0 < sc_blank s'"
    using assms(1) that after_ascii [OF assms(2), of "i + sc_blank s'"] ascii_no_cont [of line "i + sc_blank s' + 1"]
    by (auto simp: region_ok_def)
  moreover have "\<not> cont_at line (Suc i + sc_blank s' + sc_copy s') \<or> sc_blank s' = 0 \<and> keeps language (sc_stack s') state'"
    if "0 < sc_copy s'"
    using assms(1) that after_ascii [OF assms(2), of "i + sc_blank s' + sc_copy s'"] by (auto simp: region_ok_def)
  ultimately show ?thesis by (auto simp: mode_ok_def)
qed

lemma whole_so_far_snoc:
  assumes "whole_so_far line out" "cont_at line (length out) \<Longrightarrow> out ! (length out - 1) = SPACE \<longleftrightarrow> b = SPACE"
  shows "whole_so_far line (out @ [b])"
  unfolding whole_so_far_def
proof (intro allI impI, elim conjE)
  fix j assume j: "Suc j < length (out @ [b])" "cont_at line (Suc j)"
  show "(out @ [b]) ! j = SPACE \<longleftrightarrow> (out @ [b]) ! Suc j = SPACE"
  proof (cases "Suc j = length out")
    case True
    then have "j = length out - 1" by simp
    then show ?thesis using True j assms(2) by (simp add: nth_append)
  next
    case False
    then show ?thesis using j assms(1) by (simp add: nth_append whole_so_far_def)
  qed
qed

lemma mode_step:
  assumes "scan_step s i state = (True, s', state')" "frames_inv language line i s state" "i < length line"
    "utf8_valid line" "mode_ok language line i s state"
  shows "\<exists>b. sc_out s' = sc_out s @ [b] \<and> (cont_at line i \<longrightarrow> (sc_out s ! (i - 1) = SPACE \<longleftrightarrow> b = SPACE))
    \<and> mode_ok language line (Suc i) s' state'"
proof -
  have inv: "sc_bytes s = line" "length (sc_out s) = i" using assms(2) by (simp_all add: frames_inv_def)
  have foreign: "\<not> is_ascii (line ! i)" if "cont_at line i \<or> cont_at line (Suc i)"
    using that ascii_no_cont [of line i] after_ascii [OF assms(4), of i] by blast
  consider (blank) "0 < sc_blank s" | (copy) "sc_blank s = 0" "0 < sc_copy s"
    | (foreign) "sc_blank s = 0" "sc_copy s = 0" "\<not> is_ascii (line ! i)"
    | (ascii) "sc_blank s = 0" "sc_copy s = 0" "is_ascii (line ! i)" by blast
  then show ?thesis
  proof cases
    case blank
    then have e: "s' = push_out SPACE (s\<lparr>sc_blank := sc_blank s - 1\<rparr>)" "state' = state"
      using assms(1) by (simp_all add: scan_step_def Let_def)
    obtain n where "sc_blank s = Suc n" using blank by (cases "sc_blank s") simp_all
    then show ?thesis
      using e assms(5) inv
      by (cases n) (auto simp: mode_ok_def nth_append split: if_splits intro!: exI [of _ SPACE])
  next
    case copy
    then have e: "s' = push_out (line ! i) (s\<lparr>sc_copy := sc_copy s - 1\<rparr>)" "state' = state"
      using assms(1) inv by (simp_all add: scan_step_def Let_def)
    have "line ! i \<noteq> SPACE" if "cont_at line i \<or> cont_at line (Suc i)" using foreign [OF that] by auto
    moreover obtain n where "sc_copy s = Suc n" using copy by (cases "sc_copy s") simp_all
    ultimately show ?thesis
      using e assms(5) copy(1) inv
      by (cases n) (auto simp: mode_ok_def nth_append split: if_splits intro!: exI [of _ "line ! i"])
  next
    case foreign
    then have "line ! i \<noteq> SPACE" by auto
    then show ?thesis
      using foreign_step [OF assms(1-3) foreign(3,1,2)] assms(5) inv foreign(1,2)
      by (auto simp: mode_ok_def nth_append split: if_splits)
  next
    case ascii
    have "mode_ok language line (Suc i) s' state'"
      using region_mode [OF ascii_step_region [OF assms(1-3) ascii(1,2)] assms(4) ascii(3)] .
    moreover obtain b where "sc_out s' = sc_out s @ [b]"
      using scan_step_emits [OF assms(1)] inv assms(3) by (auto simp: emits_def)
    ultimately show ?thesis using ascii_no_cont [OF ascii(3)] by blast
  qed
qed

lemma whole_inv_step:
  assumes "whole_inv language line i s state" "i < length line" "scan_step s i state = (True, s', state')"
  shows "whole_inv language line (Suc i) s' state'"
proof -
  have f: "frames_inv language line i s state" using assms(1) by (simp add: whole_inv_def)
  have "whole_so_far line (sc_out s') \<and> mode_ok language line (Suc i) s' state'" if v: "utf8_valid line"
  proof -
    have w: "whole_so_far line (sc_out s)" "mode_ok language line i s state" using assms(1) v by (simp_all add: whole_inv_def)
    obtain b where b: "sc_out s' = sc_out s @ [b]" "cont_at line i \<longrightarrow> (sc_out s ! (i - 1) = SPACE \<longleftrightarrow> b = SPACE)"
      "mode_ok language line (Suc i) s' state'" using mode_step [OF assms(3) f assms(2) v w(2)] by blast
    moreover have "length (sc_out s) = i" using f by (simp add: frames_inv_def)
    ultimately show ?thesis using whole_so_far_snoc [OF w(1), of b] by simp
  qed
  then show ?thesis using frames_inv_step [OF f assms(2,3)] by (simp add: whole_inv_def)
qed

lemma whole_so_far_end:
  assumes "frames_inv language line m s state" "whole_so_far line (sc_out s)" "\<not> cont_at line m"
  shows "whole_chars line (sc_out s)"
  using assms by (auto simp: whole_chars_def whole_so_far_def frames_inv_def aligned_def)

lemma whole_inv_stop:
  assumes "whole_inv language line i s state" "i < length line" "scan_step s i state = (False, s', state')"
  shows "whole_end language line i s' state'"
proof -
  have f: "frames_inv language line i s state" using assms(1) by (simp add: whole_inv_def)
  have idle: "sc_blank s = 0" "sc_copy s = 0"
    using assms(3) by (auto simp: scan_step_def Let_def split: if_splits)
  then have "is_ascii (line ! i)" using foreign_step [OF assms(3) f assms(2)] by blast
  then have nc: "\<not> cont_at line i" by (rule ascii_no_cont)
  have "sc_out s' = sc_out s" using scan_step_emits [OF assms(3)] f assms(2) by (simp add: frames_inv_def)
  then have "whole_chars line (sc_out s')" if "utf8_valid line"
    using whole_so_far_end [OF f _ nc] assms(1) that by (simp add: whole_inv_def)
  then show ?thesis using frames_inv_stop [OF f assms(2,3)] by (simp add: whole_end_def)
qed

lemma whole_inv_end: "whole_inv language line (length line) s state \<Longrightarrow> whole_end language line (length line) s state"
  using whole_so_far_end [of language line "length line" s state] by (auto simp: whole_inv_def whole_end_def cont_at_def)

interpretation whole: scan_invariant whole_inv whole_end
  by unfold_locales (rule whole_inv_step whole_inv_stop whole_inv_end; assumption)+

subsection \<open>The view of a line\<close>

lemma cont_not_space:
  assumes "utf8_valid line" "cont_at line (Suc j)"
  shows "line ! j \<noteq> SPACE" "line ! Suc j \<noteq> SPACE"
proof -
  show "line ! j \<noteq> SPACE" using valid_prev [OF assms] by auto
  show "line ! Suc j \<noteq> SPACE" using assms(2) ascii_not_cont [of "line ! Suc j"] by (auto simp: cont_at_def)
qed

lemma whole_resume:
  assumes "whole_chars line out" "k \<le> length out" "\<not> cont_at line k" "utf8_valid line"
  shows "whole_chars line (take k out @ drop k line)"
proof -
  note W = whole_charsD [OF assms(1)]
  have nth: "(take k out @ drop k line) ! j = (if j < k then out ! j else line ! j)" if "j < length line" for j
    using assms(2) W(1) that by (auto simp: nth_append)
  have len: "length (take k out @ drop k line) = length line" using assms(2) W(1) by simp
  have "(if j < k then out ! j else line ! j) = SPACE \<longleftrightarrow> (if Suc j < k then out ! Suc j else line ! Suc j) = SPACE"
    if "cont_at line (Suc j)" for j
    using cont_not_space [OF assms(4) that] that W(4) [of j] assms(2,3) by (cases "Suc j = k") auto
  then show ?thesis
    using nth len W(3) assms(2) by (auto simp: whole_chars_def cont_at_def)
qed

lemma finish_out_whole:
  assumes "whole_end language line m s state" "utf8_valid line"
  shows "whole_chars line (finish_out s)"
proof -
  have f: "frames_inv language line m s state" and w: "whole_chars line (sc_out s)" using assms by (simp_all add: whole_end_def)
  show ?thesis
  proof (cases "outer_string (sc_stack s)")
    case None
    then show ?thesis using w by (simp add: finish_out_def)
  next
    case (Some g)
    have st: "sf_start g \<le> m" "sf_start g = 0 \<or> is_quote (line ! sf_start g)" using frames_start [OF f Some] by simp_all
    have "\<not> cont_at line (sf_start g)" using st(2) valid_first [OF assms(2)] quote_ascii ascii_no_cont by metis
    then have "whole_chars line (take (sf_start g) (sc_out s) @ drop (sf_start g) line)"
      using whole_resume [OF w _ _ assms(2)] st(1) f by (simp add: frames_inv_def)
    then show ?thesis using w Some f by (simp add: finish_out_def frames_inv_def)
  qed
qed

lemma whole_start_line:
  assumes "reading_ok state" "opened_ok opened"
  shows "whole_inv language line 0 (scan_start language line opened) state"
  using frames_start_line [OF assms, of language line] valid_first [of line]
  by (auto simp: whole_inv_def whole_so_far_def mode_ok_def scan_start_def)

lemma scan_line_whole:
  assumes "reading_ok state" "opened_ok opened" "utf8_valid line" "scan_line language line state opened = (view, state')"
  shows "whole_chars line view \<and> reading_ok state'"
proof -
  obtain s r where l: "scan_loop [0..<length line] (scan_start language line opened) state = (s, r)" by fastforce
  obtain m where e: "whole_end language line m s r" using whole.line_end [OF whole_start_line [OF assms(1,2)] l] by blast
  have w: "whole_chars line (finish_out s)" using finish_out_whole [OF e assms(3)] .
  moreover have "reading_ok (finish_state s r)" using e finish_state_ok by (auto simp: whole_end_def)
  moreover have "view = finish_out s" "state' = finish_state s r"
    using assms(4) l whole_chars_valid [OF assms(3) w] by (simp_all add: scan_line_def scan_finish_def utf8_or_default_def)
  ultimately show ?thesis by simp
qed

lemma view_keeps_iff: "view_keeps view i \<longleftrightarrow> i < length view \<and> view ! i \<noteq> SPACE"
  by (simp add: view_keeps_def opt_is_some_and_def nth_get_def)

lemma foldl_max_nat: "foldl max (k :: nat) ns = Max (set (k # ns))"
proof (induction ns arbitrary: k)
  case (Cons n ns)
  have "foldl max k (n # ns) = Max (set (max k n # ns))" using Cons [of "max k n"] by simp
  also have "\<dots> = Max (set (k # n # ns))" by (cases "ns = []") (simp_all add: max.assoc)
  finally show ?case .
qed simp

lemma union_bytes_nth:
  assumes "i < length (union_bytes line views)"
  shows "union_bytes line views ! i = (if \<exists>view\<in>set views. view_keeps view i then line ! i else SPACE)"
  using assms by (simp add: union_bytes_def Let_def)

lemma union_bytes_length:
  assumes "\<forall>view\<in>set views. whole_chars line view"
  shows "length (union_bytes line views) = Max (set (0 # map length views))"
proof -
  have "\<forall>n\<in>set (0 # map length views). n \<le> length line" using assms by (auto dest: whole_charsD(1))
  then have "Max (set (0 # map length views)) \<le> length line" by (subst Max_le_iff) auto
  then show ?thesis by (simp add: union_bytes_def Let_def foldl_max_nat)
qed

lemma union_bytes_whole:
  assumes "utf8_valid line" "\<forall>view\<in>set views. whole_chars line view"
  shows "whole_chars line (union_bytes line views)"
proof -
  let ?u = "union_bytes line views"
  have in_set: "length ?u \<in> set (0 # map length views)"
    using union_bytes_length [OF assms(2)] Max_in [of "set (0 # map length views)"] by simp
  have len: "length ?u \<le> length line \<and> \<not> cont_at line (length ?u)"
  proof (cases "length ?u = 0")
    case True
    then show ?thesis using valid_first [OF assms(1)] by simp
  next
    case False
    then obtain v where "v \<in> set views" "length ?u = length v" using in_set by auto
    then show ?thesis using assms(2) whole_charsD(1,2) [of line v] by auto
  qed
  have "view_keeps view j \<longleftrightarrow> view_keeps view (Suc j)"
    if "cont_at line (Suc j)" "view \<in> set views" for view j
  proof -
    note W = whole_charsD [of line view]
    have w: "whole_chars line view" using assms(2) that(2) by blast
    have "Suc j \<noteq> length view" using W(2) [OF w] that(1) by auto
    then show ?thesis using W(4) [OF w _ that(1)] by (auto simp: view_keeps_iff)
  qed
  then have "?u ! j = SPACE \<longleftrightarrow> ?u ! Suc j = SPACE" if "Suc j < length ?u" "cont_at line (Suc j)" for j
    using that cont_not_space [OF assms(1) that(2)] by (auto simp: union_bytes_nth)
  then show ?thesis using len by (auto simp: whole_chars_def union_bytes_nth)
qed

lemma union_keeps:
  assumes "\<forall>view\<in>set views. whole_chars line view" "view \<in> set views" "view_keeps view i"
  shows "view_keeps (union_bytes line views) i \<and> union_bytes line views ! i = line ! i"
proof -
  have i: "i < length view" "view ! i \<noteq> SPACE" using assms(3) by (simp_all add: view_keeps_iff)
  have "length view \<le> length (union_bytes line views)"
    unfolding union_bytes_length [OF assms(1)] using assms(2) by (intro Max_ge) auto
  moreover have "view ! i = line ! i" using whole_charsD(3) [of line view i] assms(1,2) i by blast
  ultimately show ?thesis using i assms(2,3) union_bytes_nth [of i line views] by (auto simp: view_keeps_iff)
qed

subsection \<open>Readings carried through a hunk\<close>

definition state_ok :: "ScanState \<Rightarrow> bool" where
  "state_ok st \<longleftrightarrow> (\<forall>r\<in>set (readings st). reading_ok r)"

lemma fill_slots_subset: "set (fill_slots seen n rs) \<subseteq> set rs"
  by (induction seen n rs rule: fill_slots.induct) auto

lemma fill_slots_length: "length (fill_slots seen n rs) \<le> n"
  by (induction seen n rs rule: fill_slots.induct) auto

lemma fill_slots_distinct: "distinct (fill_slots seen n rs) \<and> set (fill_slots seen n rs) \<inter> set seen = {}"
  by (induction seen n rs rule: fill_slots.induct) auto

lemma from_readings_readings:
  assumes "rs \<noteq> []"
  shows "set (readings (from_readings rs)) \<subseteq> set rs" "distinct (readings (from_readings rs))"
    "length (readings (from_readings rs)) \<le> Suc MORE_READINGS" "ss_plain (from_readings rs) = hd rs"
  using assms fill_slots_subset [of "take 1 rs" MORE_READINGS "drop 1 rs"] fill_slots_length [of "take 1 rs" MORE_READINGS "drop 1 rs"]
    fill_slots_distinct [of "take 1 rs" MORE_READINGS "drop 1 rs"]
  by (cases rs; auto simp: from_readings_def readings_def)+

lemma code_readings_ok:
  assumes "\<forall>r\<in>set rs. reading_ok r" "utf8_valid line" "(view, r') \<in> set (code_readings language line rs)"
  shows "whole_chars line view \<and> reading_ok r'"
  using assms(1,3)
proof (induction rs)
  case (Cons r rs)
  have ok: "reading_ok (r\<lparr>rd_in_string := None\<rparr>)" "opened_ok None" "opened_ok (rd_in_string r)"
    using Cons.prems(1) by (simp_all add: reading_ok_def opened_ok_def)
  consider "(view, r') \<in> set (code_readings language line rs)"
    | opened where "(view, r') = scan_line language line (r\<lparr>rd_in_string := None\<rparr>) opened" "opened = None \<or> opened = rd_in_string r"
    using Cons.prems(2) by (auto simp: Let_def split: option.splits)
  then show ?case
  proof cases
    case 2
    then show ?thesis using scan_line_whole [OF ok(1) _ assms(2), of opened language view r'] ok(2,3) by auto
  qed (use Cons in auto)
qed simp

lemma code_readings_not_Nil: "rs \<noteq> [] \<Longrightarrow> code_readings language line rs \<noteq> []"
  by (cases rs) (simp_all add: Let_def)

lemma code_view_whole:
  assumes "state_ok st" "utf8_valid line"
  shows "fst (code_view language line st) = union_bytes line (map fst (code_readings language line (readings st)))
    \<and> whole_chars line (fst (code_view language line st)) \<and> state_ok (snd (code_view language line st))
    \<and> (\<forall>view\<in>fst ` set (code_readings language line (readings st)). whole_chars line view)"
proof -
  let ?rs = "code_readings language line (readings st)"
  have ok: "\<forall>p\<in>set ?rs. whole_chars line (fst p) \<and> reading_ok (snd p)"
    using code_readings_ok [of "readings st" line _ _ language] assms by (auto simp: state_ok_def)
  have w: "whole_chars line (union_bytes line (map fst ?rs))" using union_bytes_whole [OF assms(2)] ok by auto
  have "?rs \<noteq> []" by (rule code_readings_not_Nil) (simp add: readings_def)
  then have "state_ok (from_readings (map snd ?rs))"
    using from_readings_readings(1) [of "map snd ?rs"] ok by (auto simp: state_ok_def)
  then show ?thesis
    using w whole_chars_valid [OF assms(2) w] ok
    by (auto simp: code_view_def Let_def union_views_def utf8_or_default_def)
qed

lemma code_view_plain:
  assumes "state_ok st" "utf8_valid line"
    "scan_line language line ((ss_plain st)\<lparr>rd_in_string := None\<rparr>) None = (pv, pr)"
    "code_view language line st = (v, st')"
  shows "ss_plain st' = pr \<and> (\<forall>i. view_keeps pv i \<longrightarrow> view_keeps v i \<and> v ! i = line ! i)"
proof -
  let ?rs = "code_readings language line (readings st)"
  obtain more where rs: "?rs = (pv, pr) # more" using assms(3) by (simp add: readings_def Let_def)
  have w: "\<forall>view\<in>set (map fst ?rs). whole_chars line view" "v = union_bytes line (map fst ?rs)"
    using code_view_whole [OF assms(1,2), of language] assms(4) by auto
  have "st' = from_readings (map snd ?rs)" using assms(4) by (simp add: code_view_def Let_def)
  then have "ss_plain st' = pr" using from_readings_readings(4) [of "map snd ?rs"] rs by simp
  then show ?thesis using union_keeps [OF w(1), of pv] w(2) rs by simp
qed

text \<open>A whole hunk side: the views the scanner gives, and those of a scan that never carries a
  string from one line to the next.\<close>

fun hunk_views :: "Language \<Rightarrow> ScanState \<Rightarrow> string list \<Rightarrow> string list" where
  "hunk_views language st [] = []"
| "hunk_views language st (line # lines) =
     (let (v, st') = code_view language line st in v # hunk_views language st' lines)"

fun plain_views :: "Language \<Rightarrow> Reading \<Rightarrow> string list \<Rightarrow> string list" where
  "plain_views language r [] = []"
| "plain_views language r (line # lines) =
     (let (v, r') = scan_line language line (r\<lparr>rd_in_string := None\<rparr>) None in v # plain_views language r' lines)"

lemma hunk_views_keep_plain:
  assumes "state_ok st" "\<forall>line\<in>set lines. utf8_valid line" "k < length lines"
    "view_keeps (plain_views language (ss_plain st) lines ! k) i"
  shows "view_keeps (hunk_views language st lines ! k) i \<and> hunk_views language st lines ! k ! i = lines ! k ! i"
  using assms
proof (induction lines arbitrary: st k)
  case (Cons line lines)
  obtain pv pr where p: "scan_line language line ((ss_plain st)\<lparr>rd_in_string := None\<rparr>) None = (pv, pr)" by fastforce
  obtain v st' where c: "code_view language line st = (v, st')" by fastforce
  have v: "utf8_valid line" using Cons.prems(2) by simp
  have st': "state_ok st'" using code_view_whole [OF Cons.prems(1) v, of language] c by simp
  show ?case
    using Cons.IH [OF st', of "k - 1"] Cons.prems code_view_plain [OF Cons.prems(1) v p c] p c
    by (cases k) auto
qed simp

lemma hunk_views_whole:
  assumes "state_ok st" "\<forall>line\<in>set lines. utf8_valid line" "k < length lines"
  shows "whole_chars (lines ! k) (hunk_views language st lines ! k)"
  using assms
proof (induction lines arbitrary: st k)
  case (Cons line lines)
  obtain v st' where c: "code_view language line st = (v, st')" by fastforce
  have v: "utf8_valid line" using Cons.prems(2) by simp
  show ?case
    using Cons.IH [of st' "k - 1"] Cons.prems code_view_whole [OF Cons.prems(1) v, of language] c by (cases k) auto
qed simp

lemma state_ok_default: "state_ok ScanState_default"
  by (simp add: state_ok_def ScanState_default_def readings_def Reading_default_def reading_ok_def)

end
