(* ===== verification/Hunk_Address.thy ===== *)
theory Hunk_Address
  imports Core_Model Seal
begin

text \<open>
  \<open>PatchHunk::body_sha256\<close> and \<open>PatchHunk::address\<close> of core/lib.rs, and what the hashed bytes determine.
\<close>

definition PatchHunk_body_sha256 :: "PatchHunk \<Rightarrow> string" where
  "PatchHunk_body_sha256 h = sha256_hex (PatchHunk_body_bytes h)"

definition address_bytes :: "PatchHunk \<Rightarrow> string \<Rightarrow> string" where
  "address_bytes h path =
     (let (old_count, new_count) = PatchHunk_counts h;
          header = show_nat (case ph_old_start h of None \<Rightarrow> 0 | Some n \<Rightarrow> n) @ '','' @ show_nat old_count
            @ [NUL] @ show_nat (case ph_new_start h of None \<Rightarrow> 0 | Some n \<Rightarrow> n) @ '','' @ show_nat new_count in
      ''ddf-hunk-v1'' @ [NUL] @ path @ [NUL] @ header @ [NUL] @ PatchHunk_body_bytes h)"

definition PatchHunk_address :: "PatchHunk \<Rightarrow> string \<Rightarrow> string" where
  "PatchHunk_address h path = sha256_hex (address_bytes h path)"

subsection \<open>The hashed bytes determine the hunk\<close>

definition line_content :: "PatchLine \<Rightarrow> PatchLineKind \<times> string \<times> bool" where
  "line_content l = (pl_kind l, pl_text l, pl_no_newline l)"

definition one_line :: "PatchHunk \<Rightarrow> bool" where
  "one_line h \<longleftrightarrow> (\<forall>l\<in>set (ph_lines h). LF \<notin> set (pl_text l))"

lemma append_sep_inj:
  assumes "a @ c # x = b @ c # y" "c \<notin> set a" "c \<notin> set b"
  shows "a = b \<and> x = y"
  using assms
proof (induction a arbitrary: b)
  case Nil
  then show ?case by (cases b) auto
next
  case (Cons d a)
  then show ?case by (cases b) auto
qed

lemma show_nat_not: "c \<in> {NUL, CHR '',''} \<Longrightarrow> c \<notin> set (show_nat n)"
  using show_nat_digits [of n] by (auto simp: is_ascii_digit_def)

lemma show_nat_inj: "show_nat a = show_nat b \<Longrightarrow> a = b"
  by (metis dec_value_show_nat)

lemma line_marker_inj: "line_marker a = line_marker b \<Longrightarrow> a = b"
  by (cases a; cases b) simp_all

definition body_of :: "PatchLine list \<Rightarrow> string" where
  "body_of ls = concat (map (\<lambda>l. line_marker (pl_kind l) # pl_text l @ [LF]
       @ (if pl_no_newline l then eof_marker @ [LF] else [])) ls)"

lemma body_of_no_marker: "body_of ls \<noteq> eof_marker @ [LF] @ r"
proof (cases ls)
  case (Cons l m)
  then show ?thesis by (cases "pl_kind l") (simp_all add: body_of_def eof_marker_def)
qed (simp add: body_of_def eof_marker_def)

lemma body_of_inj:
  assumes "body_of ls = body_of ms" "\<forall>l\<in>set ls \<union> set ms. LF \<notin> set (pl_text l)"
  shows "map line_content ls = map line_content ms"
  using assms
proof (induction ls arbitrary: ms)
  case Nil
  then show ?case by (cases ms) (simp_all add: body_of_def)
next
  case (Cons l ls)
  then obtain m ms' where ms: "ms = m # ms'" by (cases ms) (auto simp: body_of_def)
  let ?e = "\<lambda>l r. (if pl_no_newline l then eof_marker @ [LF] else []) @ r"
  have eq: "line_marker (pl_kind l) # pl_text l @ LF # ?e l (body_of ls) = line_marker (pl_kind m) # pl_text m @ LF # ?e m (body_of ms')"
    using Cons.prems(1) ms by (simp add: body_of_def)
  then have k: "pl_kind l = pl_kind m" and r: "pl_text l @ LF # ?e l (body_of ls) = pl_text m @ LF # ?e m (body_of ms')"
    using line_marker_inj by auto
  have t: "pl_text l = pl_text m \<and> ?e l (body_of ls) = ?e m (body_of ms')"
    using append_sep_inj [OF r] Cons.prems(2) ms by simp
  then have n: "pl_no_newline l = pl_no_newline m" "body_of ls = body_of ms'"
    using body_of_no_marker [of ls "body_of ms'"] body_of_no_marker [of ms' "body_of ls"] by (auto split: if_splits)
  then show ?case using Cons.IH [of ms'] Cons.prems(2) ms k t by (simp add: line_content_def)
qed

lemma address_bytes_inj:
  assumes "address_bytes h p = address_bytes g q" "NUL \<notin> set p" "NUL \<notin> set q" "one_line h" "one_line g"
  shows "p = q \<and> (case ph_old_start h of None \<Rightarrow> 0 | Some n \<Rightarrow> n) = (case ph_old_start g of None \<Rightarrow> 0 | Some n \<Rightarrow> n)
    \<and> (case ph_new_start h of None \<Rightarrow> 0 | Some n \<Rightarrow> n) = (case ph_new_start g of None \<Rightarrow> 0 | Some n \<Rightarrow> n)
    \<and> map line_content (ph_lines h) = map line_content (ph_lines g)"
proof -
  let ?s = "\<lambda>x. case x of None \<Rightarrow> 0 | Some n \<Rightarrow> n"
  let ?body = "\<lambda>h. body_of (ph_lines h)"
  have bytes: "address_bytes h p = ''ddf-hunk-v1'' @ NUL # p @ NUL # show_nat (?s (ph_old_start h)) @ CHR '','' #
      show_nat (fst (PatchHunk_counts h)) @ NUL # show_nat (?s (ph_new_start h)) @ CHR '','' #
      show_nat (snd (PatchHunk_counts h)) @ NUL # ?body h" for h p
    by (simp add: address_bytes_def body_of_def PatchHunk_body_bytes_def Let_def split: prod.split)
  have a: "p @ NUL # show_nat (?s (ph_old_start h)) @ CHR '','' # show_nat (fst (PatchHunk_counts h)) @ NUL #
        show_nat (?s (ph_new_start h)) @ CHR '','' # show_nat (snd (PatchHunk_counts h)) @ NUL # ?body h
      = q @ NUL # show_nat (?s (ph_old_start g)) @ CHR '','' # show_nat (fst (PatchHunk_counts g)) @ NUL #
        show_nat (?s (ph_new_start g)) @ CHR '','' # show_nat (snd (PatchHunk_counts g)) @ NUL # ?body g"
    using assms(1) unfolding bytes by simp
  note b = append_sep_inj [OF a assms(2,3)]
  note c = append_sep_inj [OF conjunct2 [OF b] show_nat_not show_nat_not, simplified]
  note d = append_sep_inj [OF conjunct2 [OF c] show_nat_not show_nat_not, simplified]
  note e = append_sep_inj [OF conjunct2 [OF d] show_nat_not show_nat_not, simplified]
  note f = append_sep_inj [OF conjunct2 [OF e] show_nat_not show_nat_not, simplified]
  show ?thesis
    using b c e f show_nat_inj body_of_inj [of "ph_lines h" "ph_lines g"] assms(4,5) by (auto simp: one_line_def)
qed

end
