(* ===== verification/Evidence.thy ===== *)
theory Evidence
  imports Lexical_Whole Hunk_Address
begin

text \<open>
  Code evidence, deep-diff-forge-graph/src/evidence.rs: what the changed lines of a patch do, found in
  the code view of each line and pointed at by hunk address and line number. The path classes it
  shares with the risk score (risk.rs) come first.
\<close>

subsection \<open>Path classes\<close>

definition basename :: "string \<Rightarrow> string" where
  "basename path = rsplit_first SLASH path"

definition is_public_api :: "string \<Rightarrow> bool" where
  "is_public_api path \<longleftrightarrow> basename path \<in> set [''lib.rs'', ''mod.rs''] \<or> contains_sub ''/api/'' path"

definition is_test :: "string \<Rightarrow> bool" where
  "is_test path \<longleftrightarrow>
     contains_sub ''/tests/'' path \<or> starts_with ''tests/'' path \<or> contains_sub ''/test/'' path
     \<or> contains_sub ''_test.'' (basename path) \<or> contains_sub ''.test.'' (basename path)"

definition is_config_or_lockfile :: "string \<Rightarrow> bool" where
  "is_config_or_lockfile path =
     (let base = basename path in
      base \<in> set [''Cargo.toml'', ''Cargo.lock'', ''package.json'', ''package-lock.json'', ''deny.toml'', ''rustfmt.toml'']
      \<or> rsplit_first (CHR ''.'') base \<in> set [''toml'', ''yaml'', ''yml'', ''ini'', ''cfg'', ''lock''])"

definition is_generated_or_vendored :: "string \<Rightarrow> bool" where
  "is_generated_or_vendored path \<longleftrightarrow>
     (\<exists>c\<in>set (split_char SLASH path). c \<in> set [''vendor'', ''node_modules'', ''target'', ''generated'', ''dist''])
     \<or> (\<exists>s\<in>set [''.min.js'', ''.pb.rs'', ''.pb.go'']. ends_with s path)"

subsection \<open>Signals and rules\<close>

definition MAX_EVIDENCE_PER_FILE :: nat where
  "MAX_EVIDENCE_PER_FILE = 32"

datatype EvidenceSignal =
    UnsafeAdded | ProcessSpawn | NetworkFetch | DynamicEval | CiPrivilege | BuildHook | SecretLike
  | CheckSuppressed | TestRemoved

definition EvidenceSignal_ALL :: "EvidenceSignal list" where
  "EvidenceSignal_ALL =
     [UnsafeAdded, ProcessSpawn, NetworkFetch, DynamicEval, CiPrivilege, BuildHook, SecretLike, CheckSuppressed,
      TestRemoved]"

fun EvidenceSignal_label :: "EvidenceSignal \<Rightarrow> string" where
  "EvidenceSignal_label UnsafeAdded = ''unsafe_added''"
| "EvidenceSignal_label ProcessSpawn = ''process_spawn''"
| "EvidenceSignal_label NetworkFetch = ''network_fetch''"
| "EvidenceSignal_label DynamicEval = ''dynamic_eval''"
| "EvidenceSignal_label CiPrivilege = ''ci_privilege''"
| "EvidenceSignal_label BuildHook = ''build_hook''"
| "EvidenceSignal_label SecretLike = ''secret_like''"
| "EvidenceSignal_label CheckSuppressed = ''check_suppressed''"
| "EvidenceSignal_label TestRemoved = ''test_removed''"

fun EvidenceSignal_weight :: "EvidenceSignal \<Rightarrow> nat" where
  "EvidenceSignal_weight SecretLike = 5"
| "EvidenceSignal_weight UnsafeAdded = 4"
| "EvidenceSignal_weight ProcessSpawn = 4"
| "EvidenceSignal_weight DynamicEval = 4"
| "EvidenceSignal_weight CiPrivilege = 4"
| "EvidenceSignal_weight NetworkFetch = 3"
| "EvidenceSignal_weight BuildHook = 3"
| "EvidenceSignal_weight TestRemoved = 3"
| "EvidenceSignal_weight CheckSuppressed = 2"

datatype Side = SideNew | SideOld

record Evidence =
  ev_signal :: EvidenceSignal
  ev_hunk :: nat
  ev_address :: string
  ev_side :: Side
  ev_line :: nat

datatype View = ViewCode | ViewRaw

datatype Scope = ScLanguages "Language list" | ScAny | ScCiWorkflow | ScBuildScript | ScPackageJson

datatype Match = MTokens "string list" | MAnyCode | MSecret | MImports "string list"

record Rule =
  ru_signal :: EvidenceSignal
  ru_side :: Side
  ru_view :: View
  ru_scope :: Scope
  ru_matches :: Match

definition rule_of :: "EvidenceSignal \<Rightarrow> Side \<Rightarrow> View \<Rightarrow> Scope \<Rightarrow> Match \<Rightarrow> Rule" where
  "rule_of signal side view scope m =
     \<lparr>ru_signal = signal, ru_side = side, ru_view = view, ru_scope = scope, ru_matches = m\<rparr>"

definition RULES :: "Rule list" where
  "RULES =
    [rule_of UnsafeAdded SideNew ViewCode (ScLanguages [Rust]) (MTokens [''unsafe'']),
     rule_of ProcessSpawn SideNew ViewCode (ScLanguages [Rust]) (MTokens [''Command::new'', ''process::Command'']),
     rule_of ProcessSpawn SideNew ViewCode (ScLanguages [Python])
       (MTokens [''subprocess.'', ''os.system('', ''os.popen('', ''os.exec*'', ''os.spawn*'', ''pty.spawn('']),
     rule_of ProcessSpawn SideNew ViewCode (ScLanguages [JavaScript])
       (MTokens [''child_process'', ''execSync('', ''spawnSync('', ''execFileSync('']),
     rule_of ProcessSpawn SideNew ViewCode (ScLanguages [JavaScript]) (MImports [''child_process'']),
     rule_of ProcessSpawn SideNew ViewCode (ScLanguages [Go])
       (MTokens [''exec.Command('', ''exec.CommandContext('', ''syscall.Exec('']),
     rule_of NetworkFetch SideNew ViewCode (ScLanguages [Rust])
       (MTokens [''reqwest::'', ''ureq::'', ''TcpStream::connect'', ''UdpSocket::bind'']),
     rule_of NetworkFetch SideNew ViewCode (ScLanguages [Python])
       (MTokens [''requests.'', ''urllib.request'', ''http.client'', ''socket.socket('']),
     rule_of NetworkFetch SideNew ViewCode (ScLanguages [JavaScript])
       (MTokens [''fetch('', ''XMLHttpRequest'', ''http.request('', ''https.request('']),
     rule_of NetworkFetch SideNew ViewCode (ScLanguages [Go])
       (MTokens [''http.Get('', ''http.Post('', ''http.NewRequest('', ''net.Dial('']),
     rule_of NetworkFetch SideNew ViewCode (ScLanguages [Shell, Yaml]) (MTokens [''curl'', ''wget'']),
     rule_of DynamicEval SideNew ViewCode (ScLanguages [Python])
       (MTokens [''eval('', ''exec('', ''compile('', ''__import__('']),
     rule_of DynamicEval SideNew ViewCode (ScLanguages [JavaScript]) (MTokens [''eval('', ''new Function('']),
     rule_of DynamicEval SideNew ViewCode (ScLanguages [Shell]) (MTokens [''eval'']),
     rule_of CiPrivilege SideNew ViewCode ScCiWorkflow
       (MTokens [''pull_request_target'', ''write-all'', ''contents: write'', ''id-token: write'', ''packages: write'',
                 ''actions: write'', ''secrets: inherit'']),
     rule_of BuildHook SideNew ViewCode ScBuildScript MAnyCode,
     rule_of BuildHook SideNew ViewRaw ScPackageJson
       (MTokens (map (\<lambda>w. DQUOTE # w @ [DQUOTE]) [''preinstall'', ''install'', ''postinstall'', ''prepare''])),
     rule_of SecretLike SideNew ViewRaw ScAny MSecret,
     rule_of CheckSuppressed SideNew ViewRaw (ScLanguages [Rust]) (MTokens [''#[allow('', ''#![allow('']),
     rule_of CheckSuppressed SideNew ViewRaw (ScLanguages [Python])
       (MTokens [''# noqa'', ''#noqa'', ''# type: ignore'', ''# nosec'', ''# pragma: no cover'']),
     rule_of CheckSuppressed SideNew ViewRaw (ScLanguages [JavaScript])
       (MTokens [''eslint-disable'', ''@ts-ignore'', ''@ts-nocheck'', ''@ts-expect-error'']),
     rule_of CheckSuppressed SideNew ViewRaw (ScLanguages [Go]) (MTokens [''//nolint'', ''// nolint'', ''#nosec'']),
     rule_of TestRemoved SideOld ViewCode (ScLanguages [Rust]) (MTokens [''#[test]'', ''#[tokio::test]'', ''#[rstest]'']),
     rule_of TestRemoved SideOld ViewCode (ScLanguages [Python]) (MTokens [''def test*'', ''async def test*'']),
     rule_of TestRemoved SideOld ViewCode (ScLanguages [JavaScript]) (MTokens [''it('', ''test('', ''describe('']),
     rule_of TestRemoved SideOld ViewCode (ScLanguages [Go]) (MTokens [''func Test*''])]"

record FileKind =
  fk_language :: "Language option"
  fk_ci_workflow :: bool
  fk_build_script :: bool
  fk_package_json :: bool

definition first_new_line :: "ReviewFile \<Rightarrow> string option" where
  "first_new_line file =
     (case pt_hunks (rf_patch_twin file) of
        [] \<Rightarrow> None
      | h # _ \<Rightarrow> if ph_new_start h = Some 1
                then map_option pl_text (find (\<lambda>l. pl_kind l \<noteq> LkRemoved) (ph_lines h)) else None)"

definition FileKind_of :: "ReviewFile \<Rightarrow> FileKind" where
  "FileKind_of file =
     (let path = rf_path file; name = rsplit_first SLASH path;
          yaml = (Language_of path None = Some Yaml);
          generated = is_generated_or_vendored path in
      \<lparr>fk_language = Language_of path (first_new_line file),
       fk_ci_workflow = ((starts_with ''.github/workflows/'' path \<or> contains_sub ''/.github/workflows/'' path) \<and> yaml)
         \<or> name = ''.gitlab-ci.yml'',
       fk_build_script = (name = ''build.rs'' \<or> name = ''setup.py'') \<and> \<not> generated,
       fk_package_json = (name = ''package.json'' \<and> \<not> generated)\<rparr>)"

fun admits :: "FileKind \<Rightarrow> Scope \<Rightarrow> bool" where
  "admits k ScAny \<longleftrightarrow> True"
| "admits k (ScLanguages ls) \<longleftrightarrow> opt_is_some_and (\<lambda>l. l \<in> set ls) (fk_language k)"
| "admits k ScCiWorkflow \<longleftrightarrow> fk_ci_workflow k"
| "admits k ScBuildScript \<longleftrightarrow> fk_build_script k"
| "admits k ScPackageJson \<longleftrightarrow> fk_package_json k"

subsection \<open>Matching\<close>

definition token_in :: "string \<Rightarrow> string \<Rightarrow> bool" where
  "token_in text token =
     (case strip_suffix ''*'' token of
        Some prefix \<Rightarrow> \<exists>i\<in>set (match_indices prefix text). i = 0 \<or> \<not> is_boundary_blocker (text ! (i - 1))
      | None \<Rightarrow> has_token text token)"

definition secret_tail :: "string \<Rightarrow> string \<Rightarrow> nat \<Rightarrow> (char \<Rightarrow> bool) \<Rightarrow> bool" where
  "secret_tail text prefix least ok \<longleftrightarrow>
     (\<exists>i\<in>set (match_indices prefix text).
        (i = 0 \<or> \<not> is_ascii_alphanumeric (text ! (i - 1)))
        \<and> least \<le> length (takeWhile ok (drop (i + length prefix) text)))"

definition looks_like_secret :: "string \<Rightarrow> bool" where
  "looks_like_secret text \<longleftrightarrow>
     (contains_sub ''-----BEGIN'' text \<and> contains_sub ''PRIVATE KEY'' text)
     \<or> secret_tail text ''AKIA'' 16 (\<lambda>b. is_ascii_uppercase b \<or> is_ascii_digit b)
     \<or> (\<exists>p\<in>set [''ghp_'', ''gho_'', ''ghs_'', ''ghu_'', ''ghr_'']. secret_tail text p 36 is_ascii_alphanumeric)
     \<or> (\<exists>p\<in>set [''xoxb-'', ''xoxp-'', ''xoxa-'', ''xoxr-''].
          secret_tail text p 10 (\<lambda>b. is_ascii_alphanumeric b \<or> b = CHR ''-''))
     \<or> secret_tail text ''sk_live_'' 16 is_ascii_alphanumeric"

text \<open>\<open>str::get(n..)\<close>: the rest from a character boundary.\<close>

definition get_from :: "string \<Rightarrow> nat \<Rightarrow> string option" where
  "get_from s n = (if n \<le> length s \<and> \<not> (n < length s \<and> is_cont (s ! n)) then Some (drop n s) else None)"

definition specifier_at :: "string \<Rightarrow> string \<Rightarrow> nat \<Rightarrow> string \<Rightarrow> string option" where
  "specifier_at code raw at keyword =
     (let prior = take at code;
          receiver_ok = (at = 0 \<or> \<not> is_boundary_blocker (code ! (at - 1))
                         \<or> (keyword = ''require'' \<and> ends_with ''module.'' prior));
          after = at + length keyword in
      if \<not> receiver_ok \<or> opt_is_some_and is_ident (nth_get code after)
        \<or> (keyword = ''import'' \<and> ends_with ''typeof'' (trim_end prior))
      then None
      else
        (let gap = takeWhile (\<lambda>b. is_ascii_whitespace b \<or> b = CHR ''('') (drop after code);
             q = after + length gap in
         if keyword = ''require'' \<and> CHR ''('' \<notin> set gap then None
         else case nth_get code q of
             None \<Rightarrow> None
           | Some quote \<Rightarrow>
               if quote \<noteq> DQUOTE \<and> quote \<noteq> SQUOTE \<and> quote \<noteq> BTICK then None
               else case get_from raw (q + 1) of
                   None \<Rightarrow> None
                 | Some name \<Rightarrow>
                     (case position (\<lambda>b. b = quote) name of
                        None \<Rightarrow> None
                      | Some n \<Rightarrow>
                          (let name' = take n name in
                           Some (case strip_prefix ''node:'' name' of Some r \<Rightarrow> r | None \<Rightarrow> name')))))"

definition import_hits :: "string \<Rightarrow> (nat \<times> string) list" where
  "import_hits code =
     sort_key fst (concat (map (\<lambda>keyword. map (\<lambda>at. (at, keyword)) (match_indices keyword code))
                             [''require'', ''import'', ''from'']))"

text \<open>The walk over the hits: \<open>start\<close> is where the current statement begins and \<open>type_only\<close> whether it
  is type-only, once that is known.\<close>

fun imports_loop ::
  "string \<Rightarrow> string \<Rightarrow> string list \<Rightarrow> nat \<Rightarrow> nat \<Rightarrow> bool option \<Rightarrow> (nat \<times> string) list \<Rightarrow> bool" where
  "imports_loop code raw modules seen start type_only [] = False"
| "imports_loop code raw modules seen start type_only ((at, keyword) # hits) =
     (let semi = rfind_sub '';'' (take (at - seen) (drop seen code));
          start' = (case semi of Some k \<Rightarrow> seen + k + 1 | None \<Rightarrow> start);
          type_only' = (case semi of Some _ \<Rightarrow> None | None \<Rightarrow> type_only);
          skip = (case type_only' of
                    Some b \<Rightarrow> b
                  | None \<Rightarrow> (let head = trim_start (drop start' code) in
                            starts_with ''import type '' head \<or> starts_with ''export type '' head)) in
      if \<not> skip \<and> opt_is_some_and (\<lambda>m. m \<in> set modules) (specifier_at code raw at keyword) then True
      else imports_loop code raw modules at start' (Some skip) hits)"

definition imports_module :: "string \<Rightarrow> string \<Rightarrow> string list \<Rightarrow> bool" where
  "imports_module code raw modules = imports_loop code raw modules 0 0 None (import_hits code)"

definition rule_hits :: "Rule \<Rightarrow> string option \<Rightarrow> string \<Rightarrow> bool" where
  "rule_hits r view raw =
     (let text = (case ru_view r of ViewRaw \<Rightarrow> raw | ViewCode \<Rightarrow> (case view of Some v \<Rightarrow> v | None \<Rightarrow> raw)) in
      case ru_matches r of
        MTokens tokens \<Rightarrow> \<exists>t\<in>set tokens. token_in text t
      | MAnyCode \<Rightarrow> str_trim text \<noteq> []
      | MSecret \<Rightarrow> looks_like_secret text
      | MImports modules \<Rightarrow> imports_module text raw modules)"

definition line_signals :: "Rule list \<Rightarrow> Side \<Rightarrow> string option \<Rightarrow> string \<Rightarrow> EvidenceSignal list" where
  "line_signals rules side view raw =
     filter (\<lambda>signal. \<exists>r\<in>set rules. ru_signal r = signal \<and> ru_side r = side \<and> rule_hits r view raw) EvidenceSignal_ALL"

definition view_for :: "Language option \<Rightarrow> string \<Rightarrow> ScanState \<Rightarrow> string option \<times> ScanState" where
  "view_for language text st =
     (case language of
        None \<Rightarrow> (None, st)
      | Some l \<Rightarrow> (let (v, st') = code_view l text st in (Some v, st')))"

fun hunk_matches_loop ::
  "Language option \<Rightarrow> Rule list \<Rightarrow> ScanState \<Rightarrow> ScanState \<Rightarrow> PatchLine list \<Rightarrow> (Side \<times> EvidenceSignal \<times> nat) list" where
  "hunk_matches_loop language rules old_state new_state [] = []"
| "hunk_matches_loop language rules old_state new_state (l # ls) =
     (case pl_kind l of
        LkContext \<Rightarrow>
          hunk_matches_loop language rules (snd (view_for language (pl_text l) old_state))
            (snd (view_for language (pl_text l) new_state)) ls
      | LkAdded \<Rightarrow>
          (let (view, new_state') = view_for language (pl_text l) new_state in
           (case pl_new_line l of
              None \<Rightarrow> []
            | Some number \<Rightarrow> map (\<lambda>s. (SideNew, s, number)) (line_signals rules SideNew view (pl_text l)))
           @ hunk_matches_loop language rules old_state new_state' ls)
      | LkRemoved \<Rightarrow>
          (let (view, old_state') = view_for language (pl_text l) old_state in
           (case pl_old_line l of
              None \<Rightarrow> []
            | Some number \<Rightarrow> map (\<lambda>s. (SideOld, s, number)) (line_signals rules SideOld view (pl_text l)))
           @ hunk_matches_loop language rules old_state' new_state ls))"

definition hunk_matches :: "PatchHunk \<Rightarrow> Language option \<Rightarrow> Rule list \<Rightarrow> (Side \<times> EvidenceSignal \<times> nat) list" where
  "hunk_matches hunk language rules =
     hunk_matches_loop language rules ScanState_default ScanState_default (ph_lines hunk)"

definition file_rules :: "FileKind \<Rightarrow> Rule list" where
  "file_rules kind = filter (\<lambda>r. admits kind (ru_scope r)) RULES"

definition file_evidence :: "ReviewFile \<Rightarrow> Evidence list" where
  "file_evidence file =
     (let kind = FileKind_of file; rules = file_rules kind in
      if rules = [] then []
      else concat (map (\<lambda>hunk.
        map (\<lambda>(side, signal, line).
               \<lparr>ev_signal = signal, ev_hunk = ph_id hunk, ev_address = PatchHunk_address hunk (rf_path file),
                ev_side = side, ev_line = line\<rparr>)
          (hunk_matches hunk (fk_language kind) rules)) (pt_hunks (rf_patch_twin file))))"

definition hunk_signals :: "ReviewFile \<Rightarrow> PatchHunk \<Rightarrow> EvidenceSignal list" where
  "hunk_signals file hunk =
     (let kind = FileKind_of file; found = hunk_matches hunk (fk_language kind) (file_rules kind) in
      filter (\<lambda>signal. \<exists>(_, s, _)\<in>set found. s = signal) EvidenceSignal_ALL)"

end
