(* ===== verification/Evidence_Props.thy ===== *)
theory Evidence_Props
  imports Evidence Hunk_Inv
begin

text \<open>
  What an evidence item says of its file, that items are distinct, that the hunk view agrees with the
  file's evidence, and that the lines of a parsed patch are valid UTF-8, as the code view needs.
\<close>

subsection \<open>Items point at changed lines\<close>

definition matched_line :: "Side \<Rightarrow> nat \<Rightarrow> PatchLine \<Rightarrow> bool" where
  "matched_line side n l \<longleftrightarrow>
     (case side of SideNew \<Rightarrow> pl_kind l = LkAdded \<and> pl_new_line l = Some n
      | SideOld \<Rightarrow> pl_kind l = LkRemoved \<and> pl_old_line l = Some n)"

lemma line_signals_rule:
  "s \<in> set (line_signals rules side view raw) \<Longrightarrow> \<exists>r\<in>set rules. ru_signal r = s \<and> ru_side r = side"
  by (auto simp: line_signals_def)

lemma EvidenceSignal_ALL_distinct: "distinct EvidenceSignal_ALL"
  by (simp add: EvidenceSignal_ALL_def)

lemma EvidenceSignal_ALL_UNIV: "set EvidenceSignal_ALL = UNIV"
proof -
  have "s \<in> set EvidenceSignal_ALL" for s by (cases s) (simp_all add: EvidenceSignal_ALL_def)
  then show ?thesis by blast
qed

lemma line_signals_distinct: "distinct (line_signals rules side view raw)"
  using EvidenceSignal_ALL_distinct by (simp add: line_signals_def)

text \<open>One line of the loop: the items it adds and the states it leaves.\<close>

definition line_items :: "Language option \<Rightarrow> Rule list \<Rightarrow> ScanState \<Rightarrow> ScanState \<Rightarrow> PatchLine \<Rightarrow> (Side \<times> EvidenceSignal \<times> nat) list" where
  "line_items language rules o1 n1 l =
     (case pl_kind l of
        LkContext \<Rightarrow> []
      | LkAdded \<Rightarrow> (case pl_new_line l of None \<Rightarrow> []
          | Some n \<Rightarrow> map (\<lambda>s. (SideNew, s, n)) (line_signals rules SideNew (fst (view_for language (pl_text l) n1)) (pl_text l)))
      | LkRemoved \<Rightarrow> (case pl_old_line l of None \<Rightarrow> []
          | Some n \<Rightarrow> map (\<lambda>s. (SideOld, s, n)) (line_signals rules SideOld (fst (view_for language (pl_text l) o1)) (pl_text l))))"

lemma hunk_matches_loop_Cons:
  "\<exists>o2 n2. hunk_matches_loop language rules o1 n1 (l # ls) = line_items language rules o1 n1 l @ hunk_matches_loop language rules o2 n2 ls"
  by (cases "pl_kind l") (auto simp: line_items_def Let_def case_prod_beta)

lemma line_items_found:
  assumes "(side, s, n) \<in> set (line_items language rules o1 n1 l)"
  shows "matched_line side n l \<and> (\<exists>r\<in>set rules. ru_signal r = s \<and> ru_side r = side)"
  using assms line_signals_rule
  by (cases "pl_kind l") (fastforce simp: line_items_def matched_line_def split: option.splits)+

lemma line_items_distinct: "distinct (line_items language rules o1 n1 l)"
  using line_signals_distinct
  by (cases "pl_kind l") (auto simp: line_items_def distinct_map inj_on_def split: option.split)

lemma hunk_matches_loop_found:
  assumes "(side, s, n) \<in> set (hunk_matches_loop language rules o1 n1 ls)"
  shows "(\<exists>l\<in>set ls. matched_line side n l) \<and> (\<exists>r\<in>set rules. ru_signal r = s \<and> ru_side r = side)"
  using assms
proof (induction ls arbitrary: o1 n1)
  case (Cons l ls)
  obtain o2 n2 where "hunk_matches_loop language rules o1 n1 (l # ls)
      = line_items language rules o1 n1 l @ hunk_matches_loop language rules o2 n2 ls"
    using hunk_matches_loop_Cons by blast
  then show ?case using Cons line_items_found [of side s n language rules o1 n1 l] by auto
qed simp

lemma hunk_matches_loop_distinct:
  assumes "distinct (map pl_new_line (filter (\<lambda>l. pl_kind l = LkAdded) ls))"
    "distinct (map pl_old_line (filter (\<lambda>l. pl_kind l = LkRemoved) ls))"
  shows "distinct (hunk_matches_loop language rules o1 n1 ls)"
  using assms
proof (induction ls arbitrary: o1 n1)
  case (Cons l ls)
  obtain o2 n2 where e: "hunk_matches_loop language rules o1 n1 (l # ls)
      = line_items language rules o1 n1 l @ hunk_matches_loop language rules o2 n2 ls"
    using hunk_matches_loop_Cons by blast
  have "\<not> matched_line side n m" if "matched_line side n l" "m \<in> set ls" for side n m
    using that Cons.prems by (cases side) (force simp: matched_line_def image_iff)+
  then have disj: "set (line_items language rules o1 n1 l) \<inter> set (hunk_matches_loop language rules o2 n2 ls) = {}"
  proof -
    have False if "x \<in> set (line_items language rules o1 n1 l)" "x \<in> set (hunk_matches_loop language rules o2 n2 ls)" for x
    proof -
      obtain side sig n where x: "x = (side, sig, n)" by (cases x)
      show False
        using line_items_found that(1) hunk_matches_loop_found that(2)
          \<open>\<And>side n m. matched_line side n l \<Longrightarrow> m \<in> set ls \<Longrightarrow> \<not> matched_line side n m\<close>
        unfolding x by blast
    qed
    then show ?thesis by blast
  qed
  moreover have "distinct (hunk_matches_loop language rules o2 n2 ls)" using Cons by (auto split: if_splits)
  ultimately show ?case unfolding e using line_items_distinct by simp
qed simp

lemma file_evidence_iff:
  "e \<in> set (file_evidence file) \<longleftrightarrow>
     (\<exists>h\<in>set (pt_hunks (rf_patch_twin file)). ev_hunk e = ph_id h \<and> ev_address e = PatchHunk_address h (rf_path file)
        \<and> (ev_side e, ev_signal e, ev_line e) \<in> set (hunk_matches h (fk_language (FileKind_of file)) (file_rules (FileKind_of file))))"
proof -
  have empty: "hunk_matches h l [] = []" for h l
  proof (rule ccontr)
    assume "hunk_matches h l [] \<noteq> []"
    then obtain x where x: "x \<in> set (hunk_matches h l [])" by (meson list.set_sel(1))
    obtain a b c where "x = (a, b, c)" by (cases x)
    then show False using hunk_matches_loop_found [of a b c l "[]"] x by (simp add: hunk_matches_def)
  qed
  show ?thesis
  proof (cases "file_rules (FileKind_of file) = []")
    case True
    then show ?thesis by (simp add: file_evidence_def Let_def empty)
  next
    case False
    then show ?thesis
      by (cases e) (force simp: file_evidence_def Let_def image_iff)
  qed
qed

subsection \<open>Parsed hunks\<close>

text \<open>The line numbers of the hunk do not reach the saturation point of \<open>u32\<close>.\<close>

definition lines_in_range :: "PatchHunk \<Rightarrow> bool" where
  "lines_in_range h \<longleftrightarrow>
     the (ph_old_start h) + fst (PatchHunk_counts h) \<le> u32_max \<and> the (ph_new_start h) + snd (PatchHunk_counts h) \<le> u32_max"

lemma numbered_distinct:
  assumes "start + n \<le> u32_max"
  shows "distinct (map (\<lambda>i. Some (min (start + i) u32_max)) [0..<n])"
  using assms by (auto simp: distinct_map inj_on_def)

lemma hunk_matches_distinct:
  assumes "hunk_ok L h" "lines_in_range h"
  shows "distinct (hunk_matches h language rules)"
proof -
  obtain hh :: HunkHeader where hh: "ph_old_start h = Some (hh_old_start hh)" "ph_new_start h = Some (hh_new_start hh)"
    "hunk_numbered (hh_old_start hh) (hh_new_start hh) (ph_lines h)"
    using assms(1) unfolding hunk_ok_def by blast
  have "distinct (map pl_old_line (old_side (ph_lines h)))" "distinct (map pl_new_line (new_side (ph_lines h)))"
    using hh assms(2) by (auto simp: hunk_numbered_def lines_in_range_def counts_sides intro!: numbered_distinct)
  moreover have "filter (\<lambda>l. pl_kind l = LkRemoved) (old_side (ph_lines h)) = filter (\<lambda>l. pl_kind l = LkRemoved) (ph_lines h)"
    "filter (\<lambda>l. pl_kind l = LkAdded) (new_side (ph_lines h)) = filter (\<lambda>l. pl_kind l = LkAdded) (ph_lines h)"
    by (auto simp: old_side_def new_side_def is_old_side_def is_new_side_def intro!: filter_cong)
  ultimately show ?thesis
    unfolding hunk_matches_def by (intro hunk_matches_loop_distinct) (metis distinct_map_filter)+
qed

lemma file_evidence_distinct:
  assumes "\<forall>h\<in>set (pt_hunks (rf_patch_twin file)). hunk_ok L h \<and> lines_in_range h"
    "distinct (map ph_id (pt_hunks (rf_patch_twin file)))"
  shows "distinct (file_evidence file)"
proof -
  let ?items = "\<lambda>h. map (\<lambda>(side, signal, line).
      \<lparr>ev_signal = signal, ev_hunk = ph_id h, ev_address = PatchHunk_address h (rf_path file), ev_side = side, ev_line = line\<rparr>)
      (hunk_matches h (fk_language (FileKind_of file)) (file_rules (FileKind_of file)))"
  have "distinct (concat (map ?items hs))"
    if "\<forall>h\<in>set hs. hunk_ok L h \<and> lines_in_range h" "distinct (map ph_id hs)" for hs
    using that
  proof (induction hs)
    case (Cons h hs)
    have "distinct (?items h)"
      using hunk_matches_distinct [of L h] Cons.prems(1) by (auto simp: distinct_map inj_on_def)
    moreover have "\<forall>e\<in>set (?items h). ev_hunk e = ph_id h" by auto
    moreover have "\<forall>e\<in>set (concat (map ?items hs)). ev_hunk e \<in> ph_id ` set hs" by auto
    ultimately show ?case using Cons by fastforce
  qed simp
  then show ?thesis using assms by (simp add: file_evidence_def Let_def)
qed

lemma hunk_signals_agree:
  assumes "distinct (map ph_id (pt_hunks (rf_patch_twin file)))" "h \<in> set (pt_hunks (rf_patch_twin file))"
  shows "set (hunk_signals file h) = {ev_signal e | e. e \<in> set (file_evidence file) \<and> ev_hunk e = ph_id h}"
proof -
  have same: "g = h" if "g \<in> set (pt_hunks (rf_patch_twin file))" "ph_id g = ph_id h" for g
    using assms that by (auto simp: distinct_map dest: inj_onD)
  let ?found = "hunk_matches h (fk_language (FileKind_of file)) (file_rules (FileKind_of file))"
  have l: "set (hunk_signals file h) = {s. \<exists>side n. (side, s, n) \<in> set ?found}"
    by (auto simp: hunk_signals_def Let_def EvidenceSignal_ALL_UNIV)
  have "\<exists>e. s = ev_signal e \<and> e \<in> set (file_evidence file) \<and> ev_hunk e = ph_id h"
    if "(side, s, n) \<in> set ?found" for s side n
    using that assms(2)
    by (intro exI [of _ "\<lparr>ev_signal = s, ev_hunk = ph_id h, ev_address = PatchHunk_address h (rf_path file), ev_side = side, ev_line = n\<rparr>"])
       (auto simp: file_evidence_iff)
  moreover have "\<exists>side n. (side, ev_signal e, n) \<in> set ?found"
    if e: "e \<in> set (file_evidence file)" "ev_hunk e = ph_id h" for e
  proof -
    obtain g where g: "g \<in> set (pt_hunks (rf_patch_twin file))" "ev_hunk e = ph_id g"
      "(ev_side e, ev_signal e, ev_line e) \<in> set (hunk_matches g (fk_language (FileKind_of file)) (file_rules (FileKind_of file)))"
      using e(1) unfolding file_evidence_iff by blast
    then have "g = h" using same e(2) by simp
    then show ?thesis using g(3) by blast
  qed
  ultimately show ?thesis unfolding l by blast
qed

lemma review_ids_distinct:
  assumes "review_ids fs = [0..<n]" "rf \<in> set fs"
  shows "distinct (map ph_id (pt_hunks (rf_patch_twin rf)))"
proof -
  obtain as bs where "fs = as @ rf # bs" using assms(2) by (meson split_list)
  moreover have "distinct (review_ids fs)" using assms(1) by simp
  ultimately show ?thesis by (simp add: review_ids_def)
qed

subsection \<open>Lines of a valid text are valid\<close>

lemma utf8_valid_cut:
  assumes "utf8_valid (a @ c # b)" "is_ascii c"
  shows "utf8_valid a \<and> utf8_valid b"
proof -
  have nc: "\<not> cont_at (a @ c # b) (length a)" using assms(2) ascii_not_cont by (auto simp: cont_at_def)
  have "a ! j = SPACE \<longleftrightarrow> a ! Suc j = SPACE" if "Suc j < length a" "cont_at (a @ c # b) (Suc j)" for j
    using that(1) cont_not_space [OF assms(1) that(2)] by (simp add: nth_append)
  then have "whole_chars (a @ c # b) a" using nc by (auto simp: whole_chars_def nth_append)
  then have a: "utf8_valid a" by (rule whole_chars_valid [OF assms(1)])
  moreover have "utf8_valid (c # b)" using assms(1) utf8_valid_append [OF a] by simp
  ultimately show ?thesis using assms(2) by (simp add: is_ascii_def)
qed

lemma utf8_valid_split_char:
  assumes "utf8_valid s" "is_ascii c" "p \<in> set (split_char c s)"
  shows "utf8_valid p"
  using assms
proof (induction "length s" arbitrary: s rule: less_induct)
  case less
  show ?case
  proof (cases "c \<in> set s")
    case False
    then show ?thesis using less.prems by (simp add: split_char_no_sep)
  next
    case True
    then obtain a b where s: "s = a @ c # b" "c \<notin> set a" by (meson split_list_first)
    then have v: "utf8_valid a" "utf8_valid b" using utf8_valid_cut less.prems by blast+
    have "p = a \<or> p \<in> set (split_char c b)" using less.prems(3) s by (simp add: split_char_append_sep)
    then show ?thesis using v less.hyps [of b] less.prems(2) s by auto
  qed
qed

lemma utf8_valid_text_lines:
  assumes "utf8_valid s" "p \<in> set (split_terminator LF s)"
  shows "utf8_valid p"
proof -
  have "set (split_terminator LF s) \<subseteq> set (split_char LF s)"
    by (auto simp: split_terminator_def Let_def dest: in_set_butlastD)
  then show ?thesis using utf8_valid_split_char [OF assms(1), of LF p] assms(2) by (auto simp: is_ascii_def)
qed

lemma parsed_text_valid:
  assumes "hunk_ok (set (split_terminator LF input)) h" "utf8_valid input" "l \<in> set (ph_lines h)"
  shows "utf8_valid (pl_text l)"
proof -
  have "line_from (set (split_terminator LF input)) l" using assms(1,3) by (simp add: hunk_ok_def)
  then have "utf8_valid (line_marker (pl_kind l) # pl_text l) \<or> pl_text l = []"
    using utf8_valid_text_lines [OF assms(2)] by (auto simp: line_from_def)
  then show ?thesis by (cases "pl_kind l") auto
qed

end
