(* ===== verification/Risk.thy ===== *)
theory Risk
  imports Evidence_Props Core_Text
begin

text \<open>
  The risk score of a file, deep-diff-forge-graph/src/risk.rs. The functions that push signals into a
  vector return the signals they push with their weight.
\<close>

datatype RiskSignal =
    PublicApiSurface | NewFile | DeletedFile | BinaryChange | LargeChange | ManyHunks | ConfigOrLockfile | TestOnly
  | GeneratedOrVendored | HazardousText | SymlinkChange | ExecutableBit | RsCode EvidenceSignal

fun RiskSignal_label :: "RiskSignal \<Rightarrow> string" where
  "RiskSignal_label PublicApiSurface = ''public_api_surface''"
| "RiskSignal_label NewFile = ''new_file''"
| "RiskSignal_label DeletedFile = ''deleted_file''"
| "RiskSignal_label BinaryChange = ''binary_change''"
| "RiskSignal_label LargeChange = ''large_change''"
| "RiskSignal_label ManyHunks = ''many_hunks''"
| "RiskSignal_label ConfigOrLockfile = ''config_or_lockfile''"
| "RiskSignal_label TestOnly = ''test_only''"
| "RiskSignal_label GeneratedOrVendored = ''generated_or_vendored''"
| "RiskSignal_label HazardousText = ''hazardous_text''"
| "RiskSignal_label SymlinkChange = ''symlink_change''"
| "RiskSignal_label ExecutableBit = ''executable_bit''"
| "RiskSignal_label (RsCode signal) = EvidenceSignal_label signal"

definition LARGE_CHANGE_LINES :: nat where
  "LARGE_CHANGE_LINES = 80"

definition MANY_HUNKS :: nat where
  "MANY_HUNKS = 5"

definition hazard_weight :: "ReviewFile \<Rightarrow> nat \<times> RiskSignal list" where
  "hazard_weight file =
     (let in_lines = (\<exists>h\<in>set (pt_hunks (rf_patch_twin file)). \<exists>l\<in>set (ph_lines h).
            pl_kind l \<noteq> LkContext \<and> text_hazards (pl_text l) \<noteq> []);
          from_hazardous = (\<exists>m\<in>set (pt_metadata (rf_patch_twin file)).
            case opt_or (strip_prefix ''rename from '' m) (strip_prefix ''copy from '' m) of
              None \<Rightarrow> False | Some from \<Rightarrow> path_hazards from \<noteq> []) in
      if in_lines \<or> from_hazardous \<or> path_hazards (rf_path file) \<noteq> [] then (3, [HazardousText]) else (0, []))"

text \<open>\<open>u32::from_str_radix(_, 8)\<close>: an optional plus sign, at least one octal digit, no overflow.\<close>

definition from_octal :: "string \<Rightarrow> 32 word option" where
  "from_octal s =
     (let digits = (case strip_prefix ''+'' s of Some d \<Rightarrow> d | None \<Rightarrow> s);
          n = foldl (\<lambda>acc c. acc * 8 + digit_value c) 0 digits in
      if digits \<noteq> [] \<and> (\<forall>c\<in>set digits. is_octal c) \<and> n \<le> u32_max then Some (word_of_nat n) else None)"

definition modes :: "string list \<Rightarrow> string list \<Rightarrow> 32 word list" where
  "modes metadata prefixes =
     List.map_filter from_octal (List.map_filter (\<lambda>m. find_map (\<lambda>p. strip_prefix p m) prefixes) metadata)"

definition executable_mode :: "32 word \<Rightarrow> bool" where
  "executable_mode mode \<longleftrightarrow> and mode 0xF000 = 0x8000 \<and> and mode 0x49 \<noteq> 0"

definition mode_weight :: "ReviewFile \<Rightarrow> nat \<times> RiskSignal list" where
  "mode_weight file =
     (let metadata = pt_metadata (rf_patch_twin file);
          old = modes metadata [''old mode '', ''deleted file mode ''];
          new = modes metadata [''new mode '', ''new file mode ''];
          symlink = (\<exists>mode\<in>set (old @ new). and mode 0xF000 = 0xA000);
          executable = (\<exists>m\<in>set new. executable_mode m) \<and> \<not> (\<exists>m\<in>set old. executable_mode m) in
      ((if symlink then 3 else 0) + (if executable then 2 else 0),
       (if symlink then [SymlinkChange] else []) @ (if executable then [ExecutableBit] else [])))"

definition status_weight :: "ReviewFile \<Rightarrow> nat \<times> RiskSignal list" where
  "status_weight file =
     (case rf_status file of
        FsAdded \<Rightarrow> (2, [NewFile])
      | FsDeleted \<Rightarrow> (3, [DeletedFile])
      | FsBinaryChanged \<Rightarrow> (1, [BinaryChange])
      | _ \<Rightarrow> (0, []))"

fun change_loop :: "nat \<times> nat \<Rightarrow> PatchLine list \<Rightarrow> nat \<times> nat" where
  "change_loop (adds, dels) [] = (adds, dels)"
| "change_loop (adds, dels) (l # ls) =
     (case pl_kind l of
        LkAdded \<Rightarrow> change_loop (adds + 1, dels) ls
      | LkRemoved \<Rightarrow> change_loop (adds, dels + 1) ls
      | LkContext \<Rightarrow> change_loop (adds, dels) ls)"

definition change_counts :: "ReviewFile \<Rightarrow> nat \<times> nat" where
  "change_counts file = foldl (\<lambda>acc h. change_loop acc (ph_lines h)) (0, 0) (pt_hunks (rf_patch_twin file))"

definition score_path_and_shape :: "ReviewFile \<Rightarrow> nat \<times> RiskSignal list" where
  "score_path_and_shape file =
     (let path = rf_path file;
          (sw, ss) = status_weight file; (hw, hs) = hazard_weight file; (mw, ms) = mode_weight file in
      if is_generated_or_vendored path then (1 + sw + hw + mw, [GeneratedOrVendored] @ ss @ hs @ ms)
      else
        (let test = is_test path; config = is_config_or_lockfile path;
             (adds, dels) = change_counts file;
             large = LARGE_CHANGE_LINES \<le> adds + dels;
             many = MANY_HUNKS \<le> length (pt_hunks (rf_patch_twin file)) in
         (1 + (if \<not> test \<and> \<not> config then 1 else 0) + (if is_public_api path then 5 else 0)
            + (if test then 0 else if config then 1 else 0) + sw + hw + mw
            + (if large then 3 else 0) + (if many then 2 else 0),
          (if is_public_api path then [PublicApiSurface] else [])
            @ (if test then [TestOnly] else if config then [ConfigOrLockfile] else [])
            @ ss @ hs @ ms @ (if large then [LargeChange] else []) @ (if many then [ManyHunks] else []))))"

record Assessment =
  as_score :: nat
  as_signals :: "RiskSignal list"
  as_evidence :: "Evidence list"

definition signal_score :: "bool \<Rightarrow> EvidenceSignal \<Rightarrow> nat" where
  "signal_score test signal =
     (if test \<and> signal \<noteq> TestRemoved then (EvidenceSignal_weight signal + 1) div 2 else EvidenceSignal_weight signal)"

fun assess_loop :: "Evidence list \<Rightarrow> bool \<Rightarrow> nat \<times> RiskSignal list \<Rightarrow> EvidenceSignal list \<Rightarrow> nat \<times> RiskSignal list" where
  "assess_loop evidence test acc [] = acc"
| "assess_loop evidence test (score, signals) (signal # rest) =
     (if \<exists>e\<in>set evidence. ev_signal e = signal
      then assess_loop evidence test (score + signal_score test signal, signals @ [RsCode signal]) rest
      else assess_loop evidence test (score, signals) rest)"

definition assess_file :: "ReviewFile \<Rightarrow> Assessment" where
  "assess_file file =
     (let evidence = file_evidence file;
          (score, signals) = assess_loop evidence (is_test (rf_path file)) (score_path_and_shape file) EvidenceSignal_ALL in
      \<lparr>as_score = score, as_signals = signals, as_evidence = evidence\<rparr>)"

definition score_file :: "ReviewFile \<Rightarrow> nat \<times> RiskSignal list" where
  "score_file file = (as_score (assess_file file), as_signals (assess_file file))"

subsection \<open>The score\<close>

definition found_signals :: "ReviewFile \<Rightarrow> EvidenceSignal set" where
  "found_signals file = ev_signal ` set (file_evidence file)"

lemma assess_loop_spec:
  assumes "distinct ss"
  shows "assess_loop ev test (score, signals) ss =
    (score + (\<Sum>s \<in> set ss \<inter> ev_signal ` set ev. signal_score test s),
     signals @ map RsCode (filter (\<lambda>s. s \<in> ev_signal ` set ev) ss))"
  using assms
proof (induction ss arbitrary: score signals)
  case (Cons s ss)
  have f: "(\<exists>e\<in>set ev. ev_signal e = s) \<longleftrightarrow> s \<in> ev_signal ` set ev" by auto
  show ?case
  proof (cases "s \<in> ev_signal ` set ev")
    case True
    then have "set (s # ss) \<inter> ev_signal ` set ev = insert s (set ss \<inter> ev_signal ` set ev)" by auto
    then show ?thesis using Cons True f by (simp add: sum.insert)
  next
    case False
    then have "set (s # ss) \<inter> ev_signal ` set ev = set ss \<inter> ev_signal ` set ev" by auto
    then show ?thesis using Cons False f by simp
  qed
qed simp

lemma assess_file_spec:
  "as_score (assess_file file) = fst (score_path_and_shape file) + (\<Sum>s \<in> found_signals file. signal_score (is_test (rf_path file)) s)"
  "as_signals (assess_file file) = snd (score_path_and_shape file)
     @ map RsCode (filter (\<lambda>s. s \<in> found_signals file) EvidenceSignal_ALL)"
  "as_evidence (assess_file file) = file_evidence file"
proof -
  obtain a b where "score_path_and_shape file = (a, b)" by fastforce
  then show "as_score (assess_file file) = fst (score_path_and_shape file) + (\<Sum>s \<in> found_signals file. signal_score (is_test (rf_path file)) s)"
    "as_signals (assess_file file) = snd (score_path_and_shape file)
     @ map RsCode (filter (\<lambda>s. s \<in> found_signals file) EvidenceSignal_ALL)"
    "as_evidence (assess_file file) = file_evidence file"
    by (simp_all add: assess_file_def Let_def assess_loop_spec [OF EvidenceSignal_ALL_distinct] EvidenceSignal_ALL_UNIV found_signals_def)
qed

lemma weights_bounded:
  "fst (status_weight rf) \<le> 3" "fst (hazard_weight rf) \<le> 3" "fst (mode_weight rf) \<le> 5"
  by (simp_all add: status_weight_def hazard_weight_def mode_weight_def Let_def split: FileStatus.split)

lemma path_score_bounds: "1 \<le> fst (score_path_and_shape rf) \<and> fst (score_path_and_shape rf) \<le> 23"
  using weights_bounded [of rf]
  by (auto simp: score_path_and_shape_def Let_def case_prod_beta)

lemma signal_score_bounds:
  "(EvidenceSignal_weight s + 1) div 2 \<le> signal_score test s" "signal_score test s \<le> EvidenceSignal_weight s"
  by (cases s; simp add: signal_score_def)+

lemma finite_signals [simp]: "finite (S :: EvidenceSignal set)"
  by (metis EvidenceSignal_ALL_UNIV List.finite_set finite_subset subset_UNIV)

lemma weight_total: "(\<Sum>s \<in> S. EvidenceSignal_weight s) \<le> 32"
proof -
  have "(\<Sum>s \<in> S. EvidenceSignal_weight s) \<le> (\<Sum>s \<in> set EvidenceSignal_ALL. EvidenceSignal_weight s)"
    by (intro sum_mono2) (simp_all add: EvidenceSignal_ALL_UNIV)
  also have "\<dots> = 32" by (simp add: EvidenceSignal_ALL_def)
  finally show ?thesis .
qed

lemma path_signals_no_code: "RsCode s \<notin> set (snd (score_path_and_shape rf))"
proof -
  have "RsCode s \<notin> set (snd (status_weight rf))" "RsCode s \<notin> set (snd (hazard_weight rf))" "RsCode s \<notin> set (snd (mode_weight rf))"
    by (simp_all add: status_weight_def hazard_weight_def mode_weight_def Let_def split: FileStatus.split)
  then show ?thesis by (simp add: score_path_and_shape_def Let_def case_prod_beta)
qed

end
