(* ===== verification/Rank.thy ===== *)
theory Rank
  imports Risk "HOL-Library.Multiset" "HOL-Library.Char_ord" "HOL-Library.List_Lexorder" "HOL-Library.Product_Lexorder"
begin

text \<open>
  The ranked review stream, deep-diff-forge-graph/src/rank.rs. \<open>sort_by\<close> is a stable sort on descending
  score, then the bytes of the path, as \<open>str::cmp\<close> compares them.
\<close>

record RankedFile =
  rk_path :: string
  rk_status :: FileStatus
  rk_score :: nat
  rk_signals :: "RiskSignal list"
  rk_evidence :: "Evidence list"
  rk_evidence_truncated :: bool

definition RankedFile_scored :: "ReviewFile \<Rightarrow> RankedFile" where
  "RankedFile_scored rf =
     (let a = assess_file rf in
      \<lparr>rk_path = rf_path rf, rk_status = rf_status rf, rk_score = as_score a, rk_signals = as_signals a,
       rk_evidence = take MAX_EVIDENCE_PER_FILE (as_evidence a),
       rk_evidence_truncated = MAX_EVIDENCE_PER_FILE < length (as_evidence a)\<rparr>)"

definition rank_key :: "RankedFile \<Rightarrow> int \<times> string" where
  "rank_key r = (- int (rk_score r), rk_path r)"

definition sort_ranked :: "RankedFile list \<Rightarrow> RankedFile list" where
  "sort_ranked ranked = sort_key rank_key ranked"

definition rank :: "ReviewFile list \<Rightarrow> RankedFile list" where
  "rank files = sort_ranked (map RankedFile_scored files)"

subsection \<open>The order\<close>

lemma sort_ranked_mset: "mset (sort_ranked rs) = mset rs"
  by (simp add: sort_ranked_def)

lemma sort_ranked_sorted:
  assumes "i < j" "j < length rs"
  shows "rk_score (sort_ranked rs ! j) < rk_score (sort_ranked rs ! i)
    \<or> (rk_score (sort_ranked rs ! i) = rk_score (sort_ranked rs ! j) \<and> rk_path (sort_ranked rs ! i) \<le> rk_path (sort_ranked rs ! j))"
proof -
  have "sorted (map rank_key (sort_ranked rs))" by (simp add: sort_ranked_def)
  then have "rank_key (sort_ranked rs ! i) \<le> rank_key (sort_ranked rs ! j)"
    using assms sorted_nth_mono [of "map rank_key (sort_ranked rs)" i j] by (simp add: sort_ranked_def)
  then show ?thesis by (auto simp: rank_key_def less_eq_prod_def)
qed

lemma sort_ranked_stable: "filter (\<lambda>r. rank_key r = k) (sort_ranked rs) = filter (\<lambda>r. rank_key r = k) rs"
  by (simp add: sort_ranked_def sort_key_stable)

lemma sort_ranked_unique:
  assumes "mset rs = mset qs" "distinct (map rk_path rs)"
  shows "sort_ranked rs = sort_ranked qs"
proof -
  have inj: "inj_on rank_key (set rs)"
    using assms(2) by (auto simp: distinct_map inj_on_def rank_key_def)
  show ?thesis
    unfolding sort_ranked_def
    by (rule sort_key_inj_key_eq [OF _ inj]) (simp_all add: assms(1))
qed

lemma rank_permuted:
  assumes "mset fs = mset gs" "distinct (map rf_path fs)"
  shows "rank fs = rank gs"
  unfolding rank_def
proof (rule sort_ranked_unique)
  show "mset (map RankedFile_scored fs) = mset (map RankedFile_scored gs)" using assms(1) by simp
  have "map rk_path (map RankedFile_scored fs) = map rf_path fs" by (simp add: RankedFile_scored_def Let_def)
  then show "distinct (map rk_path (map RankedFile_scored fs))" using assms(2) by metis
qed

end
