(* ===== verification/Cluster.thy ===== *)
theory Cluster
  imports Rank
begin

text \<open>
  Bounded parallel execution, deep-diff-forge-cluster/src/scheduler.rs and cluster.rs. The number of
  processors (\<open>available_parallelism\<close>, 1 when it is unknown) is an argument. Each chunk runs on its own
  thread and the results are joined in chunk order, so a run is the concatenation of the chunks'
  results whatever order the threads finish in; a lane that panics is outside the model.
\<close>

subsection \<open>Scheduling\<close>

definition MAX_FIXED_WORKERS_CPU_MULTIPLE :: nat where
  "MAX_FIXED_WORKERS_CPU_MULTIPLE = 4"

definition resolve_workers :: "nat \<Rightarrow> Parallelism \<Rightarrow> nat \<Rightarrow> nat" where
  "resolve_workers cpu_count parallelism items =
     (let requested = (case parallelism of
                         ParSerial \<Rightarrow> 1
                       | ParFixed n \<Rightarrow> max (min n (cpu_count * MAX_FIXED_WORKERS_CPU_MULTIPLE)) 1
                       | ParAuto \<Rightarrow> cpu_count) in
      min (max requested 1) (max items 1))"

fun chunks_loop :: "nat \<Rightarrow> nat \<Rightarrow> nat list \<Rightarrow> nat \<Rightarrow> (nat \<times> nat) list" where
  "chunks_loop base remainder [] start = []"
| "chunks_loop base remainder (w # ws) start =
     (let len = base + (if w < remainder then 1 else 0) in
      if len = 0 then chunks_loop base remainder ws start
      else (start, start + len) # chunks_loop base remainder ws (start + len))"

definition contiguous_chunks :: "nat \<Rightarrow> nat \<Rightarrow> (nat \<times> nat) list" where
  "contiguous_chunks n workers =
     (if n = 0 then []
      else let workers = min (max workers 1) n in chunks_loop (n div workers) (n mod workers) [0..<workers] 0)"

definition run_lane :: "nat \<Rightarrow> ReviewFile list \<Rightarrow> Parallelism \<Rightarrow> (nat \<Rightarrow> ReviewFile \<Rightarrow> 'a) \<Rightarrow> 'a list" where
  "run_lane cpu_count files parallelism lane =
     (if files = [] then []
      else let workers = resolve_workers cpu_count parallelism (length files) in
        if workers \<le> 1 then map (\<lambda>(i, f). lane i f) (enumerate 0 files)
        else concat (map (\<lambda>(start, stop). map (\<lambda>i. lane i (files ! i)) [start..<stop])
                      (contiguous_chunks (length files) workers)))"

subsection \<open>The risk cluster\<close>

record ClusterReceipt =
  cr_dimensions :: "ExecutionDimension list"
  cr_parallelism :: Parallelism
  cr_join_policy :: JoinPolicy
  cr_file_count :: nat
  cr_worker_count :: nat

record ClusterRun =
  cl_ranked :: "RankedFile list"
  cl_receipt :: ClusterReceipt

definition apply_join :: "RankedFile list \<Rightarrow> JoinPolicy \<Rightarrow> RankedFile list" where
  "apply_join results policy =
     (case policy of
        DeterministicInputOrder \<Rightarrow> results
      | AsReadyWithStableIds \<Rightarrow> results
      | RankedReviewOrder \<Rightarrow> sort_ranked results)"

definition run_risk_cluster :: "nat \<Rightarrow> ReviewFile list \<Rightarrow> Parallelism \<Rightarrow> JoinPolicy \<Rightarrow> ClusterRun" where
  "run_risk_cluster cpu_count files parallelism join =
     \<lparr>cl_ranked = apply_join (run_lane cpu_count files parallelism (\<lambda>_ rf. RankedFile_scored rf)) join,
      cl_receipt = \<lparr>cr_dimensions = [DimPatch, DimRisk], cr_parallelism = parallelism, cr_join_policy = join,
                    cr_file_count = length files,
                    cr_worker_count = resolve_workers cpu_count parallelism (length files)\<rparr>\<rparr>"

definition parallelism_label :: "Parallelism \<Rightarrow> string" where
  "parallelism_label p =
     (case p of ParSerial \<Rightarrow> ''serial'' | ParAuto \<Rightarrow> ''auto'' | ParFixed n \<Rightarrow> ''fixed:'' @ show_nat n)"

fun join_label :: "JoinPolicy \<Rightarrow> string" where
  "join_label DeterministicInputOrder = ''deterministic-input-order''"
| "join_label RankedReviewOrder = ''ranked-review-order''"
| "join_label AsReadyWithStableIds = ''as-ready-with-stable-ids''"

fun dimension_label :: "ExecutionDimension \<Rightarrow> string" where
  "dimension_label DimPatch = ''patch''"
| "dimension_label DimSemantic = ''semantic''"
| "dimension_label DimRisk = ''risk''"
| "dimension_label DimAgent = ''agent''"
| "dimension_label DimRuntime = ''runtime''"
| "dimension_label DimStorage = ''storage''"
| "dimension_label DimHistory = ''history''"
| "dimension_label DimPresentation = ''presentation''"

subsection \<open>A plan of chunks\<close>

text \<open>What a run relies on: the ranges of a plan, in order, list the indices \<open>0..<n\<close> once each, none is
  empty, and there are no more of them than workers.\<close>

locale chunk_plan =
  fixes plan :: "nat \<Rightarrow> nat \<Rightarrow> (nat \<times> nat) list"
  assumes covers: "1 \<le> w \<Longrightarrow> concat (map (\<lambda>(a, b). [a..<b]) (plan n w)) = [0..<n]"
    and nonempty: "(a, b) \<in> set (plan n w) \<Longrightarrow> a < b"
    and bounded: "1 \<le> w \<Longrightarrow> length (plan n w) \<le> w"
begin

lemma run_plan:
  assumes "1 \<le> w"
  shows "concat (map (\<lambda>(a, b). map f [a..<b]) (plan n w)) = map f [0..<n]"
proof -
  have "concat (map (\<lambda>(a, b). map f [a..<b]) (plan n w)) = map f (concat (map (\<lambda>(a, b). [a..<b]) (plan n w)))"
    by (simp add: map_concat comp_def) (simp add: case_prod_beta')
  then show ?thesis using covers [OF assms] by simp
qed

end

lemma chunks_loop_covers:
  "concat (map (\<lambda>(a, b). [a..<b]) (chunks_loop base remainder ws start))
     = [start..<start + (\<Sum>w\<leftarrow>ws. base + (if w < remainder then 1 else 0))]"
proof (induction base remainder ws start rule: chunks_loop.induct)
  case (2 base remainder w ws start)
  let ?len = "base + (if w < remainder then 1 else 0)"
  let ?sum = "\<Sum>w\<leftarrow>ws. base + (if w < remainder then 1 else 0)"
  have split: "[start..<start + (?len + ?sum)] = [start..<start + ?len] @ [start + ?len..<start + ?len + ?sum]"
    using upt_add_eq_append [of start "start + ?len" ?sum, OF le_add1] by (simp only: add.assoc)
  show ?case
  proof (cases "?len = 0")
    case True
    then show ?thesis using 2(1) [OF refl True] by (simp add: Let_def)
  next
    case False
    have "chunks_loop base remainder (w # ws) start = (start, start + ?len) # chunks_loop base remainder ws (start + ?len)"
      using False by (simp add: Let_def)
    then have "concat (map (\<lambda>(a, b). [a..<b]) (chunks_loop base remainder (w # ws) start))
        = [start..<start + ?len] @ [start + ?len..<start + ?len + ?sum]"
      using 2(2) [OF refl False] by simp
    then show ?thesis using split by simp
  qed
qed simp

lemma chunks_loop_length: "length (chunks_loop base remainder ws start) \<le> length ws"
  by (induction base remainder ws start rule: chunks_loop.induct) (auto simp: Let_def)

lemma chunks_loop_nonempty: "(a, b) \<in> set (chunks_loop base remainder ws start) \<Longrightarrow> a < b"
  by (induction base remainder ws start rule: chunks_loop.induct) (auto simp: Let_def split: if_splits)

lemma sum_chunks:
  assumes "r \<le> w"
  shows "(\<Sum>i\<leftarrow>[0..<w]. base + (if i < r then 1 else 0)) = w * base + r"
proof -
  have "[0..<w] = [0..<r] @ [r..<w]" using assms upt_add_eq_append [of 0 r "w - r"] by simp
  moreover have "(\<Sum>i\<leftarrow>[0..<r]. base + (if i < r then 1 else 0)) = r * (base + 1)"
    by (simp add: interv_sum_list_conv_sum_set_nat)
  moreover have "(\<Sum>i\<leftarrow>[r..<w]. base + (if i < r then 1 else 0)) = (w - r) * base"
    by (simp add: interv_sum_list_conv_sum_set_nat)
  moreover have "r * (base + 1) + (w - r) * base = w * base + r"
    using assms by (simp add: algebra_simps flip: distrib_right)
  ultimately show ?thesis by simp
qed

interpretation even_plan: chunk_plan contiguous_chunks
proof
  fix w n a b :: nat
  let ?w = "min (max w 1) n"
  { assume "1 \<le> w"
    show "concat (map (\<lambda>(a, b). [a..<b]) (contiguous_chunks n w)) = [0..<n]"
    proof (cases "n = 0")
      case False
      then have "0 < ?w" by simp
      then have "n mod ?w \<le> ?w" by (rule mod_le_divisor)
      moreover have "?w * (n div ?w) + n mod ?w = n" by (rule mult_div_mod_eq)
      ultimately show ?thesis using False sum_chunks [of "n mod ?w" ?w "n div ?w"] by (simp add: contiguous_chunks_def Let_def chunks_loop_covers)
    qed (simp add: contiguous_chunks_def)
    show "length (contiguous_chunks n w) \<le> w"
      using chunks_loop_length [of "n div ?w" "n mod ?w" "[0..<?w]" 0] \<open>1 \<le> w\<close> by (auto simp: contiguous_chunks_def Let_def) }
  show "(a, b) \<in> set (contiguous_chunks n w) \<Longrightarrow> a < b"
    using chunks_loop_nonempty by (auto simp: contiguous_chunks_def Let_def split: if_splits)
qed

lemma run_lane_serial:
  "run_lane cpu_count files parallelism lane = map (\<lambda>i. lane i (files ! i)) [0..<length files]"
proof (cases "files = [] \<or> resolve_workers cpu_count parallelism (length files) \<le> 1")
  case True
  then show ?thesis
    by (auto simp: run_lane_def Let_def enumerate_eq_zip comp_def intro!: nth_equalityI)
next
  case False
  then show ?thesis
    using even_plan.run_plan [of "resolve_workers cpu_count parallelism (length files)" "\<lambda>i. lane i (files ! i)" "length files"]
    by (simp add: run_lane_def Let_def)
qed

lemma run_risk_cluster_ranked:
  "cl_ranked (run_risk_cluster cpu_count files parallelism join)
     = (if join = RankedReviewOrder then rank files else map RankedFile_scored files)"
proof -
  have "run_lane cpu_count files parallelism (\<lambda>_ rf. RankedFile_scored rf) = map RankedFile_scored files"
    unfolding run_lane_serial by (intro nth_equalityI) simp_all
  then show ?thesis by (cases join) (simp_all add: run_risk_cluster_def apply_join_def rank_def)
qed

end
