(* ===== verification/Graph_Claims.thy ===== *)
theory Graph_Claims
  imports Cluster
begin

text \<open>
  The properties of the review graph and the cluster: the code view, code evidence, the risk score, the
  ranking and its parallel computation, each with a concrete instance.
\<close>

subsection \<open>Sample files\<close>

definition sample_line :: "PatchLineKind \<Rightarrow> nat option \<Rightarrow> nat option \<Rightarrow> string \<Rightarrow> PatchLine" where
  "sample_line kind old new t =
     \<lparr>pl_no_newline = False, pl_lossy = False, pl_kind = kind, pl_old_line = old, pl_new_line = new, pl_text = t\<rparr>"

definition sample_hunk :: PatchHunk where
  "sample_hunk =
     \<lparr>ph_id = 0, ph_old_start = Some 1, ph_new_start = Some 1, ph_section = None,
      ph_lines = [sample_line LkContext (Some 1) (Some 1) ''fn f() {'',
                  sample_line LkAdded None (Some 2) ''unsafe { g() }'',
                  sample_line LkContext (Some 2) (Some 3) ''}'']\<rparr>"

definition sample_file :: "string \<Rightarrow> ReviewFile" where
  "sample_file path =
     \<lparr>rf_path = path, rf_status = FsModified,
      rf_patch_twin = \<lparr>pt_binary_body = [], pt_hunks = [sample_hunk], pt_metadata = [], pt_lossy_lines = 0\<rparr>,
      rf_semantic_twin = None,
      rf_planner = \<lparr>pd_strategy = DsLine, pd_fallback = None, pd_notes = []\<rparr>\<rparr>"

definition sample_rs :: ReviewFile where
  "sample_rs = sample_file ''src/a.rs''"

definition sample_item :: Evidence where
  "sample_item =
     \<lparr>ev_signal = UnsafeAdded, ev_hunk = 0, ev_address = PatchHunk_address sample_hunk ''src/a.rs'',
      ev_side = SideNew, ev_line = 2\<rparr>"

lemma sample_matches:
  "hunk_matches sample_hunk (fk_language (FileKind_of sample_rs)) (file_rules (FileKind_of sample_rs))
     = [(SideNew, UnsafeAdded, 2)]"
  by code_simp

lemma sample_file_fields:
  "rf_path sample_rs = ''src/a.rs''" "pt_hunks (rf_patch_twin sample_rs) = [sample_hunk]" "ph_id sample_hunk = 0"
  by (simp_all add: sample_rs_def sample_file_def sample_hunk_def)

lemma sample_evidence: "sample_item \<in> set (file_evidence sample_rs)"
  using sample_matches by (simp add: file_evidence_iff sample_file_fields sample_item_def)

definition sample_rust_patch :: string where
  "sample_rust_patch = unlines
     [''--- a/src/x.rs'', ''+++ b/src/x.rs'', ''@@ -1 +1,2 @@'', '' fn f() {'', ''+unsafe { g() }'']"

definition sample_parsed :: ReviewFile where
  "sample_parsed = List.hd (projr (parse sample_rust_patch))"

lemma sample_parsed_in:
  obtains fs where "parse_lines sample_rust_patch (length sample_rust_patch) [] ParseOptions_default = Inr fs"
    "sample_parsed \<in> set fs"
proof -
  have "is_ok (parse sample_rust_patch) \<and> projr (parse sample_rust_patch) \<noteq> []" by code_simp
  then show ?thesis
    using that by (auto simp: is_ok_iff parse_def parse_with_def sample_parsed_def)
qed

subsection \<open>The code view\<close>

text \<open>C31: through the lines of a hunk, the code view keeps every byte that a scan which never carries
  an open string from one line to the next finds to be code, and keeps it unchanged at its offset: a
  quote misread as an opener on one line cannot hide a later line. This holds for every language and
  every sequence of valid UTF-8 lines, with the cap on the number of readings in force.\<close>

theorem code_view_keeps_plain_code:
  assumes "\<forall>line\<in>set lines. utf8_valid line" "k < length lines"
    "view_keeps (plain_views language Reading_default lines ! k) i"
  shows "view_keeps (hunk_views language ScanState_default lines ! k) i
    \<and> hunk_views language ScanState_default lines ! k ! i = lines ! k ! i"
  using hunk_views_keep_plain [OF state_ok_default assms(1,2), of language i] assms(3)
  by (simp add: ScanState_default_def)

theorem code_view_keeps_plain_code_witness:
  "hunk_views Python ScanState_default [''x = it's'', ''eval(y)''] ! 1 ! 0 = CHR ''e''"
proof -
  have "list_all utf8_valid [''x = it's'', ''eval(y)'']
      \<and> view_keeps (plain_views Python Reading_default [''x = it's'', ''eval(y)''] ! 1) 0" by code_simp
  then show ?thesis
    using code_view_keeps_plain_code [of "[''x = it's'', ''eval(y)'']" 1 Python 0] by (simp add: list_all_iff)
qed

text \<open>The code view of a valid line keeps or blanks whole characters and never cuts one, so the
  bytes of every view, and of their union, are valid UTF-8, and the conversion that would replace an
  invalid view by the empty string (hiding the whole line) never does.\<close>

theorem code_view_is_whole:
  assumes "\<forall>line\<in>set lines. utf8_valid line" "k < length lines" "state_ok st" "utf8_valid line"
  shows "whole_chars (lines ! k) (hunk_views language ScanState_default lines ! k)
    \<and> utf8_valid (union_bytes line (map fst (code_readings language line (readings st))))
    \<and> fst (code_view language line st) = union_bytes line (map fst (code_readings language line (readings st)))"
  using hunk_views_whole [OF state_ok_default assms(1,2), of language] code_view_whole [OF assms(3,4), of language]
    whole_chars_valid [OF assms(4)] by auto

theorem code_view_is_whole_witness:
  "whole_chars ''a // b'' (hunk_views Go ScanState_default [''a // b''] ! 0)"
proof -
  have "list_all utf8_valid [''a // b'']" by code_simp
  then show ?thesis
    using code_view_is_whole [of "[''a // b'']" 0 ScanState_default "''a // b''" Go] state_ok_default by simp
qed

subsection \<open>Evidence\<close>

text \<open>What a hit is, stated on the line alone: the lines of a side, the text of a line that is code once the earlier lines of the hunk
  on its side have been scanned, and the four ways a rule matches the text it reads.\<close>

definition on_side :: "Side \<Rightarrow> PatchLine \<Rightarrow> bool" where
  "on_side side l \<longleftrightarrow> pl_kind l = LkContext \<or> pl_kind l = (case side of SideOld \<Rightarrow> LkRemoved | SideNew \<Rightarrow> LkAdded)"

definition state_from :: "Language option \<Rightarrow> Side \<Rightarrow> PatchLine list \<Rightarrow> ScanState \<Rightarrow> ScanState" where
  "state_from language side earlier st =
     (case language of
        None \<Rightarrow> st
      | Some l \<Rightarrow> foldl (\<lambda>st p. snd (code_view l (pl_text p) st)) st (filter (on_side side) earlier))"

definition code_from :: "Language option \<Rightarrow> Side \<Rightarrow> PatchLine list \<Rightarrow> ScanState \<Rightarrow> string \<Rightarrow> string" where
  "code_from language side earlier st raw =
     (case language of None \<Rightarrow> raw | Some l \<Rightarrow> fst (code_view l raw (state_from language side earlier st)))"

fun text_matches :: "Match \<Rightarrow> string \<Rightarrow> string \<Rightarrow> bool" where
  "text_matches (MTokens tokens) looked raw \<longleftrightarrow> (\<exists>t\<in>set tokens. token_in looked t)"
| "text_matches MAnyCode looked raw \<longleftrightarrow> str_trim looked \<noteq> []"
| "text_matches MSecret looked raw \<longleftrightarrow> looks_like_secret looked"
| "text_matches (MImports modules) looked raw \<longleftrightarrow> imports_module looked raw modules"

definition hits_from :: "Language option \<Rightarrow> Side \<Rightarrow> ScanState \<Rightarrow> Rule \<Rightarrow> PatchLine list \<Rightarrow> PatchLine \<Rightarrow> bool" where
  "hits_from language side st r earlier l \<longleftrightarrow>
     ru_side r = side
     \<and> text_matches (ru_matches r)
         (case ru_view r of ViewRaw \<Rightarrow> pl_text l | ViewCode \<Rightarrow> code_from language side earlier st (pl_text l)) (pl_text l)"

lemma line_signals_hits:
  "s \<in> set (line_signals rules side (fst (view_for language (pl_text l) (state_from language side earlier st))) (pl_text l)) \<longleftrightarrow>
     (\<exists>r\<in>set rules. ru_signal r = s \<and> hits_from language side st r earlier l)"
proof -
  have "rule_hits r (fst (view_for language (pl_text l) (state_from language side earlier st))) (pl_text l)
      \<longleftrightarrow> text_matches (ru_matches r)
         (case ru_view r of ViewRaw \<Rightarrow> pl_text l | ViewCode \<Rightarrow> code_from language side earlier st (pl_text l)) (pl_text l)" for r
    by (cases "ru_matches r"; cases "ru_view r"; cases language) (auto simp: rule_hits_def view_for_def code_from_def case_prod_beta Let_def)
  then show ?thesis by (auto simp: line_signals_def hits_from_def EvidenceSignal_ALL_UNIV)
qed

lemma state_from_Nil [simp]: "state_from language side [] st = st"
  by (simp add: state_from_def split: option.split)

lemma state_from_Cons:
  "state_from language side (p # ps) st
     = state_from language side ps (if on_side side p then snd (view_for language (pl_text p) st) else st)"
  by (simp add: state_from_def view_for_def case_prod_beta Let_def split: option.split)

lemma code_from_Cons:
  "code_from language side (p # ps) st raw = code_from language side ps (if on_side side p then snd (view_for language (pl_text p) st) else st) raw"
  by (cases language) (simp_all only: code_from_def state_from_Cons option.case)

lemma hits_from_Cons:
  "hits_from language side st r (p # ps) l
     \<longleftrightarrow> hits_from language side (if on_side side p then snd (view_for language (pl_text p) st) else st) r ps l"
  by (simp only: hits_from_def code_from_Cons)

text \<open>The loop over the lines of a hunk, from any two states: what it finds is what hits.\<close>

lemma hunk_matches_loop_hits:
  "(side, s, n) \<in> set (hunk_matches_loop language rules o1 n1 ls) \<longleftrightarrow>
     (\<exists>earlier l later. ls = earlier @ l # later \<and> matched_line side n l
        \<and> (\<exists>r\<in>set rules. ru_signal r = s \<and> hits_from language side (case side of SideOld \<Rightarrow> o1 | SideNew \<Rightarrow> n1) r earlier l))"
proof (induction ls arbitrary: o1 n1)
  case (Cons p ls)
  define st where "st = (case side of SideOld \<Rightarrow> o1 | SideNew \<Rightarrow> n1)"
  define st' where "st' = (if on_side side p then snd (view_for language (pl_text p) st) else st)"
  define found where "found = (\<lambda>st ls. \<exists>earlier l later. ls = earlier @ l # later \<and> matched_line side n l
      \<and> (\<exists>r\<in>set rules. ru_signal r = s \<and> hits_from language side st r earlier l))"
  have split: "found st (p # ls) \<longleftrightarrow> (matched_line side n p \<and> (\<exists>r\<in>set rules. ru_signal r = s \<and> hits_from language side st r [] p)) \<or> found st' ls"
  proof
    assume "found st (p # ls)"
    then obtain earlier l later where f: "p # ls = earlier @ l # later" "matched_line side n l"
        "\<exists>r\<in>set rules. ru_signal r = s \<and> hits_from language side st r earlier l" unfolding found_def by blast
    show "(matched_line side n p \<and> (\<exists>r\<in>set rules. ru_signal r = s \<and> hits_from language side st r [] p)) \<or> found st' ls"
    proof (cases earlier)
      case (Cons q qs)
      then have "ls = qs @ l # later" "\<exists>r\<in>set rules. ru_signal r = s \<and> hits_from language side st' r qs l"
        using f unfolding st'_def by (simp_all only: append_Cons list.inject hits_from_Cons)
      then show ?thesis using f(2) unfolding found_def by blast
    qed (use f in auto)
  next
    assume "(matched_line side n p \<and> (\<exists>r\<in>set rules. ru_signal r = s \<and> hits_from language side st r [] p)) \<or> found st' ls"
    then show "found st (p # ls)"
    proof
      assume "found st' ls"
      then obtain earlier l later where f: "ls = earlier @ l # later" "matched_line side n l"
        "\<exists>r\<in>set rules. ru_signal r = s \<and> hits_from language side st' r earlier l" unfolding found_def by blast
      then show ?thesis unfolding found_def st'_def by (intro exI [of _ "p # earlier"] exI [of _ l] exI [of _ later]) (simp add: hits_from_Cons)
    next
      assume "matched_line side n p \<and> (\<exists>r\<in>set rules. ru_signal r = s \<and> hits_from language side st r [] p)"
      then show ?thesis unfolding found_def by (metis append_Nil)
    qed
  qed
  have here: "s \<in> set (line_signals rules side (fst (view_for language (pl_text p) st)) (pl_text p)) \<longleftrightarrow>
      (\<exists>r\<in>set rules. ru_signal r = s \<and> hits_from language side st r [] p)"
    using line_signals_hits [of s rules side language p "[]" st] by simp
  have again: "(side, s, n) \<in> set (hunk_matches_loop language rules o2 n2 ls) \<longleftrightarrow> found (case side of SideOld \<Rightarrow> o2 | SideNew \<Rightarrow> n2) ls" for o2 n2
    unfolding found_def by (rule Cons.IH)
  have "(side, s, n) \<in> set (hunk_matches_loop language rules o1 n1 (p # ls)) \<longleftrightarrow>
      matched_line side n p \<and> s \<in> set (line_signals rules side (fst (view_for language (pl_text p) st)) (pl_text p)) \<or> found st' ls"
    using again by (cases side; cases "pl_kind p")
      (auto simp: matched_line_def st_def st'_def on_side_def Let_def case_prod_beta split: option.splits)
  then show ?case using split here unfolding found_def st_def by blast
qed simp

text \<open>C32: the evidence of a file is exactly what its changed lines show: an item is reported if and only if there are a hunk of the file,
  a line of that hunk that was added (removed, for the old side) and carries the item's line number on that side, and a rule
  of the table admitted for the file, with the item's signal and side, that hits that very line. A rule on raw text reads
  the line, a rule on code the line's code view, scanned after the earlier lines of the hunk on the same side; it hits by one of its
  tokens, by any code at all, by the shape of a secret or by an import of one of its modules. The item names the hunk by
  id and address.\<close>

theorem evidence_points_at_change:
  "e \<in> set (file_evidence rf) \<longleftrightarrow>
     (\<exists>h\<in>set (pt_hunks (rf_patch_twin rf)). ev_hunk e = ph_id h \<and> ev_address e = PatchHunk_address h (rf_path rf)
        \<and> (\<exists>earlier l later. ph_lines h = earlier @ l # later \<and> matched_line (ev_side e) (ev_line e) l
             \<and> (\<exists>r\<in>set RULES. admits (FileKind_of rf) (ru_scope r) \<and> ru_signal r = ev_signal e
                  \<and> hits_from (fk_language (FileKind_of rf)) (ev_side e) ScanState_default r earlier l)))"
proof -
  have state: "(case side of SideOld \<Rightarrow> ScanState_default | SideNew \<Rightarrow> ScanState_default) = ScanState_default" for side
    by (cases side) simp_all
  show ?thesis unfolding file_evidence_iff hunk_matches_def hunk_matches_loop_hits state by (auto simp: file_rules_def)
qed

theorem evidence_points_at_change_witness:
  "\<exists>r\<in>set RULES. ru_signal r = ev_signal sample_item
     \<and> (\<exists>earlier l. hits_from (fk_language (FileKind_of sample_rs)) (ev_side sample_item) ScanState_default r earlier l
          \<and> matched_line (ev_side sample_item) (ev_line sample_item) l)"
  using sample_evidence unfolding evidence_points_at_change by blast

text \<open>The evidence of a parsed file has no duplicates, as long as the line numbers of its hunks stay
  below the point where the parser's counters saturate.\<close>

theorem parsed_evidence_distinct:
  assumes "parse_lines input len lossy opts = Inr fs" "rf \<in> set fs"
    "\<forall>h\<in>set (pt_hunks (rf_patch_twin rf)). lines_in_range h"
  shows "distinct (file_evidence rf)"
proof -
  have "hunks_result (set (split_terminator LF input)) fs" using parse_lines_hunks [OF assms(1)] .
  then show ?thesis
    using assms(2,3) review_ids_distinct [of fs _ rf]
    by (intro file_evidence_distinct [of rf "set (split_terminator LF input)"]) (auto simp: hunks_result_def hunks_ok_def)
qed

theorem parsed_evidence_distinct_witness: "distinct (file_evidence sample_parsed)"
proof (rule sample_parsed_in)
  fix fs
  assume p: "parse_lines sample_rust_patch (length sample_rust_patch) [] ParseOptions_default = Inr fs" "sample_parsed \<in> set fs"
  have "list_all lines_in_range (pt_hunks (rf_patch_twin sample_parsed))" by code_simp
  then show ?thesis using parsed_evidence_distinct [OF p] by (simp add: list_all_iff)
qed

text \<open>The signals the hunk view shows for a hunk are exactly the signals of the file's evidence items
  for that hunk, for files whose hunks have distinct ids, as parsed files have.\<close>

theorem hunk_signals_match_evidence:
  assumes "parse_lines input len lossy opts = Inr fs" "rf \<in> set fs" "h \<in> set (pt_hunks (rf_patch_twin rf))"
  shows "set (hunk_signals rf h) = {ev_signal e | e. e \<in> set (file_evidence rf) \<and> ev_hunk e = ph_id h}"
proof -
  have "hunks_result (set (split_terminator LF input)) fs" using parse_lines_hunks [OF assms(1)] .
  then have "distinct (map ph_id (pt_hunks (rf_patch_twin rf)))"
    using review_ids_distinct [of fs _ rf] assms(2) by (auto simp: hunks_result_def)
  then show ?thesis using assms(3) by (rule hunk_signals_agree)
qed

theorem hunk_signals_match_evidence_witness:
  "set (hunk_signals sample_parsed (List.hd (pt_hunks (rf_patch_twin sample_parsed))))
     = {ev_signal e | e. e \<in> set (file_evidence sample_parsed)
          \<and> ev_hunk e = ph_id (List.hd (pt_hunks (rf_patch_twin sample_parsed)))}"
proof (rule sample_parsed_in)
  fix fs
  assume p: "parse_lines sample_rust_patch (length sample_rust_patch) [] ParseOptions_default = Inr fs" "sample_parsed \<in> set fs"
  have "pt_hunks (rf_patch_twin sample_parsed) \<noteq> []" by code_simp
  then show ?thesis using hunk_signals_match_evidence [OF p, of "List.hd (pt_hunks (rf_patch_twin sample_parsed))"] by simp
qed

text \<open>A hunk's address hashes bytes that determine everything it stands for: two hunks whose hashed
  bytes agree have the same path, the same declared starts and line by line the same kind, text and
  end-of-file mark, for paths without NUL and lines without line feeds, so equal addresses of different
  hunks are collisions of the digest.\<close>

theorem hunk_address_determines_hunk:
  assumes "address_bytes h p = address_bytes g q" "NUL \<notin> set p" "NUL \<notin> set q" "one_line h" "one_line g"
  shows "p = q \<and> (case ph_old_start h of None \<Rightarrow> 0 | Some n \<Rightarrow> n) = (case ph_old_start g of None \<Rightarrow> 0 | Some n \<Rightarrow> n)
    \<and> (case ph_new_start h of None \<Rightarrow> 0 | Some n \<Rightarrow> n) = (case ph_new_start g of None \<Rightarrow> 0 | Some n \<Rightarrow> n)
    \<and> map line_content (ph_lines h) = map line_content (ph_lines g)
    \<and> PatchHunk_address h p = PatchHunk_address g q"
  using address_bytes_inj [OF assms] assms(1) by (simp add: PatchHunk_address_def)

theorem hunk_address_determines_hunk_witness:
  "PatchHunk_address sample_hunk ''src/a.rs'' = PatchHunk_address (sample_hunk\<lparr>ph_id := 7\<rparr>) ''src/a.rs''"
proof -
  have "address_bytes sample_hunk ''src/a.rs'' = address_bytes (sample_hunk\<lparr>ph_id := 7\<rparr>) ''src/a.rs''
      \<and> one_line sample_hunk \<and> one_line (sample_hunk\<lparr>ph_id := 7\<rparr>) \<and> NUL \<notin> set ''src/a.rs''" by code_simp
  then show ?thesis
    using hunk_address_determines_hunk [of sample_hunk "''src/a.rs''" "sample_hunk\<lparr>ph_id := 7\<rparr>" "''src/a.rs''"] by blast
qed

subsection \<open>Risk and rank\<close>

text \<open>C39: the risk score never hides code and never overflows: it is the score of the path and shape, at least 1 and at most 23,
  plus, for each signal found in the evidence, counted once, the signal's weight, which on a test path is half of it, rounded up,
  for every signal but a removed test. So every found signal adds at least half its weight whatever the path, the whole is at most
  55, and the code signals the score lists are exactly those found.\<close>

theorem risk_score_counts_evidence:
  "as_score (assess_file rf) = fst (score_path_and_shape rf)
      + (\<Sum>s \<in> ev_signal ` set (file_evidence rf).
           if is_test (rf_path rf) \<and> s \<noteq> TestRemoved then (EvidenceSignal_weight s + 1) div 2 else EvidenceSignal_weight s)
   \<and> 1 \<le> fst (score_path_and_shape rf) \<and> fst (score_path_and_shape rf) \<le> 23
   \<and> 1 + (\<Sum>s \<in> ev_signal ` set (file_evidence rf). (EvidenceSignal_weight s + 1) div 2) \<le> as_score (assess_file rf)
   \<and> as_score (assess_file rf) \<le> 55
   \<and> {s. RsCode s \<in> set (as_signals (assess_file rf))} = ev_signal ` set (file_evidence rf)"
proof -
  let ?t = "is_test (rf_path rf)" and ?base = "fst (score_path_and_shape rf)"
  have half: "(\<Sum>s \<in> found_signals rf. (EvidenceSignal_weight s + 1) div 2) \<le> (\<Sum>s \<in> found_signals rf. signal_score ?t s)"
    by (intro sum_mono signal_score_bounds(1))
  have "(\<Sum>s \<in> found_signals rf. signal_score ?t s) \<le> (\<Sum>s \<in> found_signals rf. EvidenceSignal_weight s)"
    by (intro sum_mono signal_score_bounds(2))
  then have small: "(\<Sum>s \<in> found_signals rf. signal_score ?t s) \<le> 32" using weight_total [of "found_signals rf"] by linarith
  have score: "as_score (assess_file rf) = ?base + (\<Sum>s \<in> found_signals rf. signal_score ?t s)" by (rule assess_file_spec(1))
  have base: "1 \<le> ?base" "?base \<le> 23" using path_score_bounds [of rf] by simp_all
  have signals: "{s. RsCode s \<in> set (as_signals (assess_file rf))} = found_signals rf"
    using path_signals_no_code [of _ rf] by (auto simp: assess_file_spec EvidenceSignal_ALL_UNIV)
  have "1 + (\<Sum>s \<in> found_signals rf. (EvidenceSignal_weight s + 1) div 2) \<le> as_score (assess_file rf)"
    "as_score (assess_file rf) \<le> 55" using score base half small by linarith+
  then show ?thesis using score base signals unfolding found_signals_def signal_score_def by blast
qed

text \<open>The ranking holds exactly the assessed files, in descending order of score and, at equal score, in
  ascending byte order of the path.\<close>

theorem rank_sorts_by_risk:
  assumes "i < j" "j < length fs"
  shows "mset (rank fs) = mset (map RankedFile_scored fs)
    \<and> (rk_score (rank fs ! j) < rk_score (rank fs ! i)
       \<or> (rk_score (rank fs ! i) = rk_score (rank fs ! j) \<and> rk_path (rank fs ! i) \<le> rk_path (rank fs ! j)))"
  using sort_ranked_sorted [of i j "map RankedFile_scored fs"] assms by (simp add: rank_def sort_ranked_mset)

theorem rank_sorts_by_risk_witness:
  "mset (rank [sample_file ''b.md'', sample_rs]) = mset (map RankedFile_scored [sample_file ''b.md'', sample_rs])"
  using rank_sorts_by_risk [of 0 1 "[sample_file ''b.md'', sample_rs]"] by simp

text \<open>The ranking does not depend on the order the files come in: two reviews of the same files, with
  distinct paths, rank the same.\<close>

theorem rank_ignores_input_order:
  assumes "mset fs = mset gs" "distinct (map rf_path fs)"
  shows "rank fs = rank gs"
  using assms by (rule rank_permuted)

theorem rank_ignores_input_order_witness:
  "rank [sample_file ''b.md'', sample_file ''a.rs''] = rank [sample_file ''a.rs'', sample_file ''b.md'']"
  by (rule rank_ignores_input_order) (simp_all add: sample_file_def)

subsection \<open>The cluster\<close>

text \<open>A lane run over the files gives, for every worker setting and every number of processors, the
  results of a serial run in input order: the lane applied once to each file with its index.\<close>

theorem run_lane_is_serial:
  "run_lane cpu_count files parallelism lane = map (\<lambda>i. lane i (files ! i)) [0..<length files]"
  by (rule run_lane_serial)

text \<open>The cluster's ranked output is the serial ranking, or with the other join policies the scored
  files in input order, whatever the parallelism and the number of processors; its receipt's worker count
  is at least one and at most the number of files (one for an empty review).\<close>

theorem cluster_output_is_deterministic:
  "cl_ranked (run_risk_cluster cpu_count files parallelism join)
     = (if join = RankedReviewOrder then rank files else map RankedFile_scored files)
   \<and> 1 \<le> cr_worker_count (cl_receipt (run_risk_cluster cpu_count files parallelism join))
   \<and> cr_worker_count (cl_receipt (run_risk_cluster cpu_count files parallelism join)) \<le> max (length files) 1"
  by (simp add: run_risk_cluster_ranked) (simp add: run_risk_cluster_def resolve_workers_def Let_def)

end
