(* ===== verification/Admission.thy ===== *)
theory Admission
  imports Ddf_Prelude "HOL-Library.Word"
begin

text \<open>
  Request admission, deep-diff-forge-daemon/src/admission.rs: the first-come, first-served gate on the
  request bytes in flight. The critical sections of \<open>Admission\<close> and \<open>Permit\<close>, each run under the mutex,
  are functions on the queue; \<open>gstep\<close> interleaves them over any number of requests, in any order the
  scheduler, the condition variable and the deadlines may give. Tickets are 64-bit and wrap around.
\<close>

subsection \<open>The queue\<close>

definition MAX_IN_FLIGHT_BYTES :: nat where
  "MAX_IN_FLIGHT_BYTES = 128 * 1024 * 1024"

record Queue =
  qu_next :: "64 word"
  qu_serving :: "64 word"
  qu_abandoned :: "64 word set"
  qu_in_flight :: nat
  qu_running :: nat

definition Queue_default :: Queue where
  "Queue_default = \<lparr>qu_next = 0, qu_serving = 0, qu_abandoned = {}, qu_in_flight = 0, qu_running = 0\<rparr>"

text \<open>The \<open>while\<close> loop of \<open>Queue::advance\<close>: every turn removes a ticket from the set.\<close>

function advance_loop :: "64 word \<Rightarrow> 64 word set \<Rightarrow> 64 word \<times> 64 word set" where
  "advance_loop serving abandoned =
     (if serving \<in> abandoned then advance_loop (serving + 1) (abandoned - {serving}) else (serving, abandoned))"
  by pat_completeness auto
termination
  by (relation "measure (card \<circ> snd)") (auto intro!: diff_less simp: card_gt_0_iff)

declare advance_loop.simps [simp del]

definition advance :: "Queue \<Rightarrow> Queue" where
  "advance q =
     (let (serving, abandoned) = advance_loop (qu_serving q + 1) (qu_abandoned q) in
      q\<lparr>qu_serving := serving, qu_abandoned := abandoned\<rparr>)"

text \<open>The parts of \<open>admit_for\<close>: the ticket it takes, one round of its loop (what it does when it looks at
  the queue, with the time that remains being zero or not), and the drop of the permit.\<close>

definition fits :: "nat \<Rightarrow> Queue \<Rightarrow> nat \<Rightarrow> bool" where
  "fits budget q weight \<longleftrightarrow> qu_running q = 0 \<or> sat_add_usize (qu_in_flight q) weight \<le> budget"

definition take_ticket :: "Queue \<Rightarrow> 64 word \<times> Queue" where
  "take_ticket q = (qu_next q, q\<lparr>qu_next := qu_next q + 1\<rparr>)"

definition give_up :: "Queue \<Rightarrow> 64 word \<Rightarrow> Queue" where
  "give_up q ticket =
     (let q1 = q\<lparr>qu_abandoned := insert ticket (qu_abandoned q)\<rparr> in
      if qu_serving q1 = ticket then advance (q1\<lparr>qu_abandoned := qu_abandoned q1 - {ticket}\<rparr>) else q1)"

definition start_request :: "Queue \<Rightarrow> nat \<Rightarrow> Queue" where
  "start_request q weight =
     (let q1 = advance q in
      q1\<lparr>qu_in_flight := sat_add_usize (qu_in_flight q1) weight, qu_running := qu_running q1 + 1\<rparr>)"

datatype RoundResult = Waits | RefusedBusy Queue | AdmittedNow Queue

definition admit_round :: "nat \<Rightarrow> Queue \<Rightarrow> 64 word \<Rightarrow> nat \<Rightarrow> bool \<Rightarrow> RoundResult" where
  "admit_round budget q ticket weight out_of_time =
     (if qu_serving q \<noteq> ticket \<or> \<not> fits budget q weight
      then (if out_of_time then RefusedBusy (give_up q ticket) else Waits)
      else AdmittedNow (start_request q weight))"

definition drop_permit :: "Queue \<Rightarrow> nat \<Rightarrow> Queue" where
  "drop_permit q weight = q\<lparr>qu_in_flight := qu_in_flight q - weight, qu_running := qu_running q - 1\<rparr>"

subsection \<open>Requests at the gate\<close>

text \<open>\<open>rq_id\<close> counts arrivals and \<open>gt_admitted\<close> lists the requests admitted so far: they are not in the
  program, which knows a request only by its ticket.\<close>

record Waiter =
  rq_id :: nat
  rq_ticket :: "64 word"
  rq_weight :: nat

record GateState =
  gt_queue :: Queue
  gt_waiting :: "Waiter list"
  gt_running :: "Waiter list"
  gt_arrivals :: nat
  gt_admitted :: "nat list"

definition GateState_default :: GateState where
  "GateState_default = \<lparr>gt_queue = Queue_default, gt_waiting = [], gt_running = [], gt_arrivals = 0, gt_admitted = []\<rparr>"

definition arrive :: "GateState \<Rightarrow> nat \<Rightarrow> GateState" where
  "arrive g weight =
     (let (ticket, q) = take_ticket (gt_queue g) in
      g\<lparr>gt_queue := q,
        gt_waiting := gt_waiting g @ [\<lparr>rq_id = gt_arrivals g, rq_ticket = ticket, rq_weight = weight\<rparr>],
        gt_arrivals := Suc (gt_arrivals g)\<rparr>)"

text \<open>A new request arrives only while fewer than \<open>2 ^ 64 - 1\<close> tickets are outstanding, as memory ensures,
  with a weight that is a \<open>usize\<close>.\<close>

inductive gstep :: "nat \<Rightarrow> GateState \<Rightarrow> GateState \<Rightarrow> bool" for budget where
  arrives: "\<lbrakk>weight \<le> usize_max; length (gt_waiting g) + card (qu_abandoned (gt_queue g)) < 2 ^ 64 - 1\<rbrakk>
    \<Longrightarrow> gstep budget g (arrive g weight)"
| admits: "\<lbrakk>r \<in> set (gt_waiting g); admit_round budget (gt_queue g) (rq_ticket r) (rq_weight r) out_of_time = AdmittedNow q\<rbrakk>
    \<Longrightarrow> gstep budget g (g\<lparr>gt_queue := q, gt_waiting := remove1 r (gt_waiting g), gt_running := r # gt_running g,
                          gt_admitted := gt_admitted g @ [rq_id r]\<rparr>)"
| refuses: "\<lbrakk>r \<in> set (gt_waiting g); admit_round budget (gt_queue g) (rq_ticket r) (rq_weight r) out_of_time = RefusedBusy q\<rbrakk>
    \<Longrightarrow> gstep budget g (g\<lparr>gt_queue := q, gt_waiting := remove1 r (gt_waiting g)\<rparr>)"
| finishes: "r \<in> set (gt_running g)
    \<Longrightarrow> gstep budget g (g\<lparr>gt_queue := drop_permit (gt_queue g) (rq_weight r), gt_running := remove1 r (gt_running g)\<rparr>)"

inductive_cases gstepE: "gstep budget g g'"

abbreviation reachable :: "nat \<Rightarrow> GateState \<Rightarrow> bool" where
  "reachable budget g \<equiv> (gstep budget)\<^sup>*\<^sup>* GateState_default g"

locale gate_invariant =
  fixes budget :: nat and I :: "GateState \<Rightarrow> bool"
  assumes init: "I GateState_default"
    and step: "I g \<Longrightarrow> gstep budget g g' \<Longrightarrow> I g'"
begin

lemma holds: "reachable budget g \<Longrightarrow> I g"
  by (induction rule: rtranclp_induct) (auto intro: init step)

end

subsection \<open>The budget\<close>

definition total_weight :: "Waiter list \<Rightarrow> nat" where
  "total_weight rs = (\<Sum>r\<leftarrow>rs. rq_weight r)"

definition budget_inv :: "nat \<Rightarrow> GateState \<Rightarrow> bool" where
  "budget_inv budget g \<longleftrightarrow>
     qu_running (gt_queue g) = length (gt_running g)
     \<and> qu_in_flight (gt_queue g) = total_weight (gt_running g)
     \<and> (total_weight (gt_running g) \<le> budget \<or> length (gt_running g) = 1)
     \<and> total_weight (gt_running g) \<le> usize_max
     \<and> (\<forall>r\<in>set (gt_waiting g). rq_weight r \<le> usize_max)"

lemma advance_fields [simp]:
  "qu_next (advance q) = qu_next q" "qu_in_flight (advance q) = qu_in_flight q" "qu_running (advance q) = qu_running q"
  by (simp_all add: advance_def Let_def case_prod_beta)

lemma give_up_fields [simp]:
  "qu_next (give_up q t) = qu_next q" "qu_in_flight (give_up q t) = qu_in_flight q" "qu_running (give_up q t) = qu_running q"
  by (simp_all add: give_up_def Let_def)

lemma take_ticket_simps [simp]:
  "fst (take_ticket q) = qu_next q" "snd (take_ticket q) = q\<lparr>qu_next := qu_next q + 1\<rparr>"
  by (simp_all add: take_ticket_def)

lemma arrive_fields [simp]:
  "gt_queue (arrive g w) = (gt_queue g)\<lparr>qu_next := qu_next (gt_queue g) + 1\<rparr>"
  "gt_waiting (arrive g w) = gt_waiting g @ [\<lparr>rq_id = gt_arrivals g, rq_ticket = qu_next (gt_queue g), rq_weight = w\<rparr>]"
  "gt_running (arrive g w) = gt_running g" "gt_arrivals (arrive g w) = Suc (gt_arrivals g)" "gt_admitted (arrive g w) = gt_admitted g"
  by (simp_all add: arrive_def take_ticket_def)

lemma total_weight_simps [simp]:
  "total_weight [] = 0" "total_weight (r # rs) = rq_weight r + total_weight rs"
  by (simp_all add: total_weight_def)

lemma total_weight_remove1: "r \<in> set rs \<Longrightarrow> total_weight (remove1 r rs) = total_weight rs - rq_weight r \<and> rq_weight r \<le> total_weight rs"
  by (induction rs) auto

lemma sat_add_usize_cases: "sat_add_usize a b = a + b \<and> a + b \<le> usize_max \<or> sat_add_usize a b = usize_max \<and> usize_max \<le> a + b"
  by (auto simp: sat_add_usize_def)

lemma admit_round_cases:
  "admit_round budget q t w out = AdmittedNow q' \<longleftrightarrow> qu_serving q = t \<and> fits budget q w \<and> q' = start_request q w"
  "admit_round budget q t w out = RefusedBusy q' \<longleftrightarrow> (qu_serving q \<noteq> t \<or> \<not> fits budget q w) \<and> out \<and> q' = give_up q t"
  by (auto simp: admit_round_def)

lemma budget_inv_step:
  assumes "budget < usize_max" "budget_inv budget g" "gstep budget g g'"
  shows "budget_inv budget g'"
  using assms(3)
proof cases
  case (arrives w)
  then show ?thesis using assms(2) by (auto simp: budget_inv_def)
next
  case (admits r out q)
  have q: "fits budget (gt_queue g) (rq_weight r)" "q = start_request (gt_queue g) (rq_weight r)"
    using admits(3) by (auto simp: admit_round_cases)
  have w: "rq_weight r \<le> usize_max" using admits(2) assms(2) by (simp add: budget_inv_def)
  have "(gt_running g = [] \<or> total_weight (gt_running g) + rq_weight r \<le> budget)
      \<and> sat_add_usize (total_weight (gt_running g)) (rq_weight r) = total_weight (gt_running g) + rq_weight r"
    using q(1) w assms(1,2) sat_add_usize_cases [of "total_weight (gt_running g)" "rq_weight r"]
    by (auto simp: fits_def budget_inv_def)
  then show ?thesis
    using admits(1) q(2) assms(1,2) w
    by (auto simp: budget_inv_def start_request_def Let_def dest: in_set_remove1 [THEN iffD1, rotated] notin_set_remove1)
next
  case (refuses r out q)
  then show ?thesis
    using assms(2) by (auto simp: budget_inv_def admit_round_cases dest: notin_set_remove1)
next
  case (finishes r)
  have "length (gt_running g) \<noteq> 0" using finishes(2) by auto
  moreover have "total_weight (gt_running g) = rq_weight r" if "length (gt_running g) = 1"
    using that finishes(2) by (cases "gt_running g") auto
  ultimately show ?thesis
    using finishes assms(2) total_weight_remove1 [OF finishes(2)]
    by (auto simp: budget_inv_def drop_permit_def length_remove1)
qed

subsection \<open>The order of service\<close>

text \<open>\<open>first\<close> is the arrival number whose turn it is. Every ticket from it on is waited for or abandoned,
  and the turn is never at an abandoned one.\<close>

definition turn_at :: "nat \<Rightarrow> GateState \<Rightarrow> bool" where
  "turn_at first g \<longleftrightarrow>
     first \<le> gt_arrivals g \<and> gt_arrivals g - first < 2 ^ 64
     \<and> qu_serving (gt_queue g) = of_nat first \<and> qu_next (gt_queue g) = of_nat (gt_arrivals g)
     \<and> distinct (map rq_id (gt_waiting g))
     \<and> (\<forall>r\<in>set (gt_waiting g). first \<le> rq_id r \<and> rq_id r < gt_arrivals g \<and> rq_ticket r = of_nat (rq_id r))
     \<and> qu_abandoned (gt_queue g) = of_nat ` ({first..<gt_arrivals g} - rq_id ` set (gt_waiting g))
     \<and> (first < gt_arrivals g \<longrightarrow> first \<in> rq_id ` set (gt_waiting g))
     \<and> sorted_wrt (<) (gt_admitted g) \<and> (\<forall>k\<in>set (gt_admitted g). k < first)"

definition turn_inv :: "GateState \<Rightarrow> bool" where
  "turn_inv g \<longleftrightarrow> (\<exists>first. turn_at first g)"

lemma word_of_nat_inj:
  assumes "(of_nat a :: 64 word) = of_nat b" "s \<le> a" "s \<le> b" "a < s + 2 ^ 64" "b < s + 2 ^ 64"
  shows "a = b"
proof -
  have m: "a mod 2 ^ 64 = b mod 2 ^ 64" using assms(1) by (simp add: word_of_nat_eq_iff take_bit_eq_mod)
  have close: "x = y" if "x mod 2 ^ 64 = y mod 2 ^ 64" "y \<le> x" "x < y + 2 ^ 64" for x y :: nat
  proof -
    have "2 ^ 64 dvd x - y" using that(1,2) by (simp only: mod_eq_dvd_iff_nat)
    moreover have "x - y < 2 ^ 64" using that(2,3) by linarith
    ultimately have "x - y = 0" using nat_dvd_not_less [of "x - y" "2 ^ 64"] by blast
    then show ?thesis using that(2) by simp
  qed
  show ?thesis
  proof (cases "a \<le> b")
    case True
    moreover have "b < a + 2 ^ 64" using assms(2,5) by linarith
    ultimately show ?thesis using close [OF m [symmetric]] by simp
  next
    case False
    moreover have "a < b + 2 ^ 64" using assms(3,4) by linarith
    ultimately show ?thesis using close [OF m] by simp
  qed
qed

lemma of_nat_in_image:
  assumes "B \<subseteq> {s..<n}" "s \<le> a" "a < s + 2 ^ 64" "n - s \<le> 2 ^ 64"
  shows "(of_nat a :: 64 word) \<in> of_nat ` B \<longleftrightarrow> a \<in> B"
proof
  assume "(of_nat a :: 64 word) \<in> of_nat ` B"
  then obtain b where b: "b \<in> B" "(of_nat a :: 64 word) = of_nat b" by auto
  then have "s \<le> b" "b < n" using assms(1) by auto
  then have "a = b" using word_of_nat_inj [OF b(2), of s] assms(2-4) by linarith
  then show "a \<in> B" using b by simp
qed simp

text \<open>Moving the turn: it ends at the first ticket from \<open>s\<close> on that is not abandoned.\<close>

lemma advance_loop_spec:
  assumes "B \<subseteq> {s..<n}" "s \<le> n" "n - s < 2 ^ 64"
  shows "\<exists>f. s \<le> f \<and> f \<le> n \<and> {s..<f} \<subseteq> B \<and> f \<notin> B
    \<and> advance_loop (of_nat s) (of_nat ` B) = (of_nat f, of_nat ` (B - {s..<f}))"
  using assms
proof (induction "n - s" arbitrary: s B)
  case 0
  then have "B = {}" "s = n" by auto
  then show ?case by (intro exI [of _ n]) (simp add: advance_loop.simps)
next
  case (Suc k)
  have mem: "(of_nat s :: 64 word) \<in> of_nat ` B \<longleftrightarrow> s \<in> B"
    using of_nat_in_image [OF Suc.prems(1), of s] Suc.prems by simp
  show ?case
  proof (cases "s \<in> B")
    case False
    then show ?thesis using mem Suc.prems(2) by (intro exI [of _ s]) (simp add: advance_loop.simps)
  next
    case True
    have "of_nat ` B - {of_nat s} = (of_nat ` (B - {s}) :: 64 word set)"
    proof -
      have "(of_nat b :: 64 word) \<noteq> of_nat s" if "b \<in> B - {s}" for b
      proof -
        have "s \<le> b" "b < n" "b \<noteq> s" using that Suc.prems(1) by auto
        moreover have "b < s + 2 ^ 64" using \<open>b < n\<close> Suc.prems(3) by linarith
        ultimately show ?thesis using word_of_nat_inj [of b s s] by auto
      qed
      then show ?thesis by auto
    qed
    moreover have sub: "B - {s} \<subseteq> {Suc s..<n}" using Suc.prems(1) by (auto simp: order_less_le)
    moreover have "k = n - Suc s" "Suc s \<le> n" "n - Suc s < 2 ^ 64" using Suc.hyps(2) Suc.prems(3) by auto
    moreover have "advance_loop (of_nat s) (of_nat ` B) = advance_loop (of_nat (Suc s)) (of_nat ` B - {of_nat s})"
      using True by (subst advance_loop.simps) (simp add: mem add.commute)
    ultimately obtain f where f: "Suc s \<le> f" "f \<le> n" "{Suc s..<f} \<subseteq> B - {s}" "f \<notin> B - {s}"
        "advance_loop (of_nat s) (of_nat ` B) = (of_nat f, of_nat ` (B - {s} - {Suc s..<f}))"
      using Suc.hyps(1) [of "Suc s" "B - {s}"] by auto
    have split: "{s..<f} = insert s {Suc s..<f}" using f(1) by auto
    have "B - {s} - {Suc s..<f} = B - {s..<f}" by (auto simp: split)
    then show ?thesis using f True split by (intro exI [of _ f]) auto
  qed
qed

lemma waiting_ids_remove:
  assumes "distinct (map rq_id ws)" "r \<in> set ws"
  shows "distinct (map rq_id (remove1 r ws))" "set (remove1 r ws) = set ws - {r}"
    "rq_id ` set (remove1 r ws) = rq_id ` set ws - {rq_id r}"
proof -
  have d: "distinct ws" using assms(1) by (simp add: distinct_map)
  show set: "set (remove1 r ws) = set ws - {r}" using d by simp
  show "distinct (map rq_id (remove1 r ws))"
    using assms(1) by (auto simp: distinct_map intro: inj_on_subset)
  show "rq_id ` set (remove1 r ws) = rq_id ` set ws - {rq_id r}"
    using assms unfolding set by (auto simp: distinct_map inj_on_def)
qed

lemma turn_advance:
  assumes "turn_at first g" "r \<in> set (gt_waiting g)" "rq_id r = first"
  shows "\<exists>f>first. f \<le> gt_arrivals g \<and> qu_serving (advance (gt_queue g)) = of_nat f
    \<and> qu_abandoned (advance (gt_queue g)) = of_nat ` ({f..<gt_arrivals g} - rq_id ` set (remove1 r (gt_waiting g)))
    \<and> (\<forall>x\<in>set (remove1 r (gt_waiting g)). f \<le> rq_id x)
    \<and> (f < gt_arrivals g \<longrightarrow> f \<in> rq_id ` set (remove1 r (gt_waiting g)))"
proof -
  let ?n = "gt_arrivals g" and ?W = "rq_id ` set (gt_waiting g)"
  let ?B = "{Suc first..<?n} - ?W"
  have t: "first < ?n" "?n - first < 2 ^ 64" "qu_serving (gt_queue g) = of_nat first" "distinct (map rq_id (gt_waiting g))"
    "qu_abandoned (gt_queue g) = of_nat ` ({first..<?n} - ?W)" "\<forall>x\<in>set (gt_waiting g). first \<le> rq_id x \<and> rq_id x < ?n"
    "first \<in> ?W"
    using assms by (auto simp: turn_at_def)
  have "{first..<?n} - ?W = ?B" using t(7) by (auto simp: order_less_le Suc_le_eq)
  then have ab: "qu_abandoned (gt_queue g) = of_nat ` ?B" using t(5) by simp
  have "?B \<subseteq> {Suc first..<?n}" "Suc first \<le> ?n" "?n - Suc first < 2 ^ 64" using t(1,2) by (blast, linarith, linarith)
  then obtain f where f: "Suc first \<le> f" "f \<le> ?n" "{Suc first..<f} \<subseteq> ?B" "f \<notin> ?B"
    "advance_loop (of_nat (Suc first)) (of_nat ` ?B) = (of_nat f, of_nat ` (?B - {Suc first..<f}))"
    using advance_loop_spec [of ?B "Suc first" ?n] by blast
  have ids: "rq_id ` set (remove1 r (gt_waiting g)) = ?W - {first}" using waiting_ids_remove(3) [OF t(4) assms(2)] assms(3) by simp
  have later: "f \<le> k" if "k \<in> ?W - {first}" for k
  proof -
    have "first < k" using that t(6) by force
    moreover have "k \<notin> {Suc first..<f}" using that f(3) by blast
    ultimately show ?thesis by simp
  qed
  have "?B - {Suc first..<f} = {f..<?n} - (?W - {first})"
  proof (rule set_eqI)
    fix k show "k \<in> ?B - {Suc first..<f} \<longleftrightarrow> k \<in> {f..<?n} - (?W - {first})"
      using f(1) by (cases "k = first") auto
  qed
  moreover have "f \<in> ?W - {first}" if "f < ?n" using that f(1,4) by auto
  moreover have "advance (gt_queue g) = (gt_queue g)\<lparr>qu_serving := of_nat f, qu_abandoned := of_nat ` (?B - {Suc first..<f})\<rparr>"
  proof -
    have "(of_nat first + 1 :: 64 word) = of_nat (Suc first)" by simp
    then show ?thesis unfolding advance_def t(3) ab using f(5) by (simp only: Let_def prod.case)
  qed
  moreover have "\<forall>x\<in>set (remove1 r (gt_waiting g)). f \<le> rq_id x"
  proof
    fix x assume "x \<in> set (remove1 r (gt_waiting g))"
    then have "rq_id x \<in> ?W - {first}" unfolding ids [symmetric] by (rule imageI)
    then show "f \<le> rq_id x" by (rule later)
  qed
  ultimately show ?thesis using f(1,2) by (intro exI [of _ f]) (simp add: ids)
qed

lemma turn_ticket:
  assumes "turn_at first g" "r \<in> set (gt_waiting g)" "qu_serving (gt_queue g) = rq_ticket r"
  shows "rq_id r = first"
proof -
  have "first \<le> rq_id r" "rq_id r < gt_arrivals g" "gt_arrivals g - first < 2 ^ 64" "(of_nat (rq_id r) :: 64 word) = of_nat first"
    using assms by (auto simp: turn_at_def)
  moreover have "rq_id r < first + 2 ^ 64" using calculation(2,3) by linarith
  ultimately show ?thesis using word_of_nat_inj [of "rq_id r" first first] by simp
qed

lemma turn_moves:
  assumes "turn_at first g" "r \<in> set (gt_waiting g)" "rq_id r = first"
    "qu_serving q = qu_serving (advance (gt_queue g))" "qu_abandoned q = qu_abandoned (advance (gt_queue g))"
    "qu_next q = qu_next (gt_queue g)"
    "gt_queue g' = q" "gt_waiting g' = remove1 r (gt_waiting g)" "gt_arrivals g' = gt_arrivals g"
    "gt_admitted g' = gt_admitted g \<or> gt_admitted g' = gt_admitted g @ [first]"
  shows "turn_inv g'"
proof -
  obtain f where f: "f > first" "f \<le> gt_arrivals g" "qu_serving (advance (gt_queue g)) = of_nat f"
    "qu_abandoned (advance (gt_queue g)) = of_nat ` ({f..<gt_arrivals g} - rq_id ` set (remove1 r (gt_waiting g)))"
    "\<forall>x\<in>set (remove1 r (gt_waiting g)). f \<le> rq_id x"
    "f < gt_arrivals g \<longrightarrow> f \<in> rq_id ` set (remove1 r (gt_waiting g))"
    using turn_advance [OF assms(1-3)] by blast
  have t: "gt_arrivals g - first < 2 ^ 64" "qu_next (gt_queue g) = of_nat (gt_arrivals g)" "distinct (map rq_id (gt_waiting g))"
    "\<forall>x\<in>set (gt_waiting g). rq_id x < gt_arrivals g \<and> rq_ticket x = of_nat (rq_id x)"
    "sorted_wrt (<) (gt_admitted g)" "\<forall>k\<in>set (gt_admitted g). k < first"
    using assms(1) by (simp_all add: turn_at_def)
  have "sorted_wrt (<) (gt_admitted g') \<and> (\<forall>k\<in>set (gt_admitted g'). k < f)"
    using assms(10) t(5,6) f(1) by (auto simp: sorted_wrt_append intro: less_trans)
  moreover have "gt_arrivals g - f < 2 ^ 64" using t(1) f(1) by linarith
  moreover have "\<forall>x\<in>set (remove1 r (gt_waiting g)). rq_id x < gt_arrivals g \<and> rq_ticket x = of_nat (rq_id x)"
    using t(4) by (meson notin_set_remove1)
  ultimately have "turn_at f g'"
    using assms(4-9) f(2-6) t(2) waiting_ids_remove(1) [OF t(3) assms(2)] by (simp add: turn_at_def)
  then show ?thesis by (auto simp: turn_inv_def)
qed

lemma turn_arrives:
  assumes "turn_at first g" "length (gt_waiting g) + card (qu_abandoned (gt_queue g)) < 2 ^ 64 - 1"
  shows "turn_at first (arrive g w)"
proof -
  let ?n = "gt_arrivals g" and ?W = "rq_id ` set (gt_waiting g)"
  have t: "first \<le> ?n" "?n - first < 2 ^ 64" "qu_next (gt_queue g) = of_nat ?n" "distinct (map rq_id (gt_waiting g))"
    "qu_abandoned (gt_queue g) = of_nat ` ({first..<?n} - ?W)"
    "\<forall>x\<in>set (gt_waiting g). first \<le> rq_id x \<and> rq_id x < ?n \<and> rq_ticket x = of_nat (rq_id x)"
    using assms(1) by (simp_all add: turn_at_def)
  have W: "?W \<subseteq> {first..<?n}" "card ?W = length (gt_waiting g)"
    using t(4,6) by (auto simp: card_image distinct_map distinct_card)
  have "inj_on (of_nat :: nat \<Rightarrow> 64 word) {first..<?n}"
  proof (rule inj_onI)
    fix a b assume ab: "a \<in> {first..<?n}" "b \<in> {first..<?n}" "(of_nat a :: 64 word) = of_nat b"
    then have "first \<le> a" "first \<le> b" "a < first + 2 ^ 64" "b < first + 2 ^ 64" using t(2) by auto
    then show "a = b" using word_of_nat_inj [OF ab(3), of first] by blast
  qed
  then have "card (qu_abandoned (gt_queue g)) = card ({first..<?n} - ?W)"
    unfolding t(5) by (intro card_image inj_on_subset [OF _ Diff_subset])
  also have "\<dots> = ?n - first - length (gt_waiting g)"
    using W card_Diff_subset [of ?W "{first..<?n}"] by simp
  finally have "Suc ?n - first < 2 ^ 64" using assms(2) t(1) by linarith
  moreover have "{first..<Suc ?n} - insert ?n ?W = {first..<?n} - ?W" by auto
  moreover have "?n \<notin> ?W" using t(6) by auto
  ultimately show ?thesis
    using assms(1) t(3,5) by (auto simp: turn_at_def less_Suc_eq add.commute)
qed

lemma turn_gives_up:
  assumes "turn_at first g" "r \<in> set (gt_waiting g)" "rq_ticket r \<noteq> qu_serving (gt_queue g)"
    "gt_queue g' = give_up (gt_queue g) (rq_ticket r)" "gt_waiting g' = remove1 r (gt_waiting g)"
    "gt_arrivals g' = gt_arrivals g" "gt_admitted g' = gt_admitted g"
  shows "turn_at first g'"
proof -
  let ?n = "gt_arrivals g" and ?W = "rq_id ` set (gt_waiting g)"
  have t: "distinct (map rq_id (gt_waiting g))" "rq_ticket r = of_nat (rq_id r)" "first \<le> rq_id r" "rq_id r < ?n"
    "qu_abandoned (gt_queue g) = of_nat ` ({first..<?n} - ?W)" "qu_serving (gt_queue g) = of_nat first"
    using assms(1,2) by (auto simp: turn_at_def)
  have ne: "rq_id r \<noteq> first" using assms(3) t(2,6) by auto
  have q: "gt_queue g' = (gt_queue g)\<lparr>qu_abandoned := insert (rq_ticket r) (qu_abandoned (gt_queue g))\<rparr>"
    using assms(3,4) by (simp add: give_up_def Let_def)
  have "{first..<?n} - (?W - {rq_id r}) = insert (rq_id r) ({first..<?n} - ?W)" using t(3,4) by auto
  then have "qu_abandoned (gt_queue g') = of_nat ` ({first..<?n} - rq_id ` set (gt_waiting g'))"
    unfolding q assms(5) waiting_ids_remove(3) [OF t(1) assms(2)] using t(2,5) by simp
  moreover have "\<forall>x\<in>set (remove1 r (gt_waiting g)). x \<in> set (gt_waiting g)" by (meson notin_set_remove1)
  ultimately show ?thesis
    using assms(1,5-7) waiting_ids_remove(1,3) [OF t(1) assms(2)] ne by (auto simp: turn_at_def q)
qed

lemma turn_inv_step:
  assumes "turn_inv g" "gstep budget g g'"
  shows "turn_inv g'"
proof -
  obtain first where t: "turn_at first g" using assms(1) by (auto simp: turn_inv_def)
  show ?thesis using assms(2)
  proof cases
    case (arrives w)
    then show ?thesis using turn_arrives [OF t] by (auto simp: turn_inv_def)
  next
    case (admits r out q)
    have q: "qu_serving (gt_queue g) = rq_ticket r" "q = start_request (gt_queue g) (rq_weight r)"
      using admits(3) by (auto simp: admit_round_cases)
    then have "rq_id r = first" using turn_ticket [OF t admits(2)] by simp
    then show ?thesis
      using turn_moves [OF t admits(2), of q g'] admits(1) q(2) by (simp add: start_request_def Let_def)
  next
    case (refuses r out q)
    have q: "q = give_up (gt_queue g) (rq_ticket r)" using refuses(3) by (auto simp: admit_round_cases)
    show ?thesis
    proof (cases "qu_serving (gt_queue g) = rq_ticket r")
      case False
      then show ?thesis using turn_gives_up [OF t refuses(2), of g'] refuses(1) q by (auto simp: turn_inv_def)
    next
      case True
      then have id: "rq_id r = first" using turn_ticket [OF t refuses(2)] by simp
      have "of_nat first \<notin> qu_abandoned (gt_queue g)"
      proof -
        have "{first..<gt_arrivals g} - rq_id ` set (gt_waiting g) \<subseteq> {first..<gt_arrivals g}" by blast
        then have "(of_nat first :: 64 word) \<in> of_nat ` ({first..<gt_arrivals g} - rq_id ` set (gt_waiting g)) \<longleftrightarrow>
            first \<in> {first..<gt_arrivals g} - rq_id ` set (gt_waiting g)"
          using t by (intro of_nat_in_image) (auto simp: turn_at_def)
        then show ?thesis using t id refuses(2) by (auto simp: turn_at_def)
      qed
      then have "(gt_queue g)\<lparr>qu_abandoned := insert (rq_ticket r) (qu_abandoned (gt_queue g)) - {rq_ticket r}\<rparr> = gt_queue g"
        using True t by (simp add: turn_at_def)
      then have "q = advance (gt_queue g)" using q True by (simp add: give_up_def Let_def)
      then show ?thesis using turn_moves [OF t refuses(2) id, of q g'] refuses(1) by simp
    qed
  next
    case (finishes r)
    then have "turn_at first g'" using t by (simp add: turn_at_def drop_permit_def)
    then show ?thesis by (auto simp: turn_inv_def)
  qed
qed

lemma turn_inv_init: "turn_inv GateState_default"
  by (auto simp: turn_inv_def turn_at_def GateState_default_def Queue_default_def intro!: exI [of _ 0])

lemma budget_inv_init: "budget_inv budget GateState_default"
  by (simp add: budget_inv_def GateState_default_def Queue_default_def)

text \<open>The count of running requests is exact for every budget.\<close>

interpretation counted_running: gate_invariant budget "\<lambda>g. qu_running (gt_queue g) = length (gt_running g)" for budget
proof
  fix g g' :: GateState
  assume count: "qu_running (gt_queue g) = length (gt_running g)" and "gstep budget g g'"
  from this(2) show "qu_running (gt_queue g') = length (gt_running g')"
    by cases (use count in \<open>auto simp: admit_round_cases start_request_def Let_def drop_permit_def length_remove1\<close>)
qed (simp add: GateState_default_def Queue_default_def)

interpretation served_in_turn: gate_invariant budget turn_inv for budget
  by unfold_locales (auto intro: turn_inv_init turn_inv_step)

interpretation default_budget: gate_invariant MAX_IN_FLIGHT_BYTES "budget_inv MAX_IN_FLIGHT_BYTES"
  by unfold_locales (auto intro: budget_inv_init budget_inv_step simp: MAX_IN_FLIGHT_BYTES_def usize_max_def)

end
