(* ===== verification/Read_Budget.thy ===== *)
theory Read_Budget
  imports Admission
begin

text \<open>
  The shared cap on the request bytes being read, the lower half of deep-diff-forge-daemon/src/admission.rs.
  \<open>ReadBudget::take\<close> is a compare-and-exchange loop on an atomic counter, so its atomic accesses are the
  steps: connections interleave between the load, the exchange (which may fail, also spuriously) and the
  update of the peak. The count of requests being answered comes last.
\<close>

subsection \<open>The budget and its reservations\<close>

definition MAX_READ_BYTES :: nat where
  "MAX_READ_BYTES = 160 * 1024 * 1024"

record ReadBudget =
  rb_limit :: nat
  rb_held :: nat
  rb_peak :: nat

definition ReadBudget_new :: "nat \<Rightarrow> ReadBudget" where
  "ReadBudget_new limit = \<lparr>rb_limit = limit, rb_held = 0, rb_peak = 0\<rparr>"

text \<open>Where a connection is in \<open>take\<close>: not in it, with the value it last read, or past the exchange with
  the sum it stored.\<close>

datatype Taker = Idle | Loaded nat nat | Stored nat nat

record ReadReservation =
  rr_taker :: Taker
  rr_held :: nat

definition reservation :: ReadReservation where
  "reservation = \<lparr>rr_taker = Idle, rr_held = 0\<rparr>"

text \<open>\<open>held.checked_add(bytes).filter(|total| *total <= limit)\<close>, and \<open>fetch_sub\<close>, which wraps around.\<close>

definition checked_total :: "nat \<Rightarrow> nat \<Rightarrow> nat \<Rightarrow> nat option" where
  "checked_total limit held bytes =
     (if held + bytes \<le> usize_max \<and> held + bytes \<le> limit then Some (held + bytes) else None)"

definition fetch_sub :: "nat \<Rightarrow> nat \<Rightarrow> nat" where
  "fetch_sub a b = (if b \<le> a then a - b else a + (usize_max + 1) - b)"

definition take_load :: "ReadBudget \<Rightarrow> ReadReservation \<Rightarrow> nat \<Rightarrow> ReadReservation" where
  "take_load b r bytes = r\<lparr>rr_taker := Loaded (rb_held b) bytes\<rparr>"

definition take_exchange :: "ReadBudget \<Rightarrow> ReadReservation \<Rightarrow> nat \<Rightarrow> nat \<Rightarrow> nat \<Rightarrow> ReadBudget \<times> ReadReservation" where
  "take_exchange b r seen bytes sum_to =
     (if rb_held b = seen then (b\<lparr>rb_held := sum_to\<rparr>, r\<lparr>rr_taker := Stored sum_to bytes\<rparr>)
      else (b, r\<lparr>rr_taker := Loaded (rb_held b) bytes\<rparr>))"

definition take_done :: "ReadBudget \<Rightarrow> ReadReservation \<Rightarrow> nat \<Rightarrow> nat \<Rightarrow> ReadBudget \<times> ReadReservation" where
  "take_done b r sum_to bytes =
     (b\<lparr>rb_peak := max (rb_peak b) sum_to\<rparr>, r\<lparr>rr_taker := Idle, rr_held := rr_held r + bytes\<rparr>)"

definition drop_reservation :: "ReadBudget \<Rightarrow> ReadReservation \<Rightarrow> ReadBudget" where
  "drop_reservation b r = b\<lparr>rb_held := fetch_sub (rb_held b) (rr_held r)\<rparr>"

inductive bstep :: "ReadBudget \<times> ReadReservation list \<Rightarrow> ReadBudget \<times> ReadReservation list \<Rightarrow> bool" where
  opens: "bstep (b, rs) (b, rs @ [reservation])"
| loads: "\<lbrakk>i < length rs; rr_taker (rs ! i) = Idle\<rbrakk> \<Longrightarrow> bstep (b, rs) (b, rs[i := take_load b (rs ! i) bytes])"
| refuses: "\<lbrakk>i < length rs; rr_taker (rs ! i) = Loaded seen bytes; checked_total (rb_limit b) seen bytes = None\<rbrakk>
    \<Longrightarrow> bstep (b, rs) (b, rs[i := (rs ! i)\<lparr>rr_taker := Idle\<rparr>])"
| exchanges: "\<lbrakk>i < length rs; rr_taker (rs ! i) = Loaded seen bytes; checked_total (rb_limit b) seen bytes = Some sum_to;
    take_exchange b (rs ! i) seen bytes sum_to = (b', r')\<rbrakk> \<Longrightarrow> bstep (b, rs) (b', rs[i := r'])"
| fails: "\<lbrakk>i < length rs; rr_taker (rs ! i) = Loaded seen bytes; checked_total (rb_limit b) seen bytes = Some sum_to\<rbrakk>
    \<Longrightarrow> bstep (b, rs) (b, rs[i := take_load b (rs ! i) bytes])"
| stores: "\<lbrakk>i < length rs; rr_taker (rs ! i) = Stored sum_to bytes; take_done b (rs ! i) sum_to bytes = (b', r')\<rbrakk>
    \<Longrightarrow> bstep (b, rs) (b', rs[i := r'])"
| drops: "\<lbrakk>i < length rs; rr_taker (rs ! i) = Idle\<rbrakk> \<Longrightarrow> bstep (b, rs) (drop_reservation b (rs ! i), rs[i := reservation])"

subsection \<open>The cap holds\<close>

text \<open>What a reservation has in the counter: what it holds and what it stored but has not added yet.\<close>

definition counted :: "ReadReservation \<Rightarrow> nat" where
  "counted r = rr_held r + (case rr_taker r of Stored _ bytes \<Rightarrow> bytes | _ \<Rightarrow> 0)"

definition read_inv :: "nat \<Rightarrow> ReadBudget \<times> ReadReservation list \<Rightarrow> bool" where
  "read_inv limit st \<longleftrightarrow>
     (case st of (b, rs) \<Rightarrow>
        rb_limit b = limit \<and> rb_held b = (\<Sum>r\<leftarrow>rs. counted r) \<and> rb_held b \<le> limit \<and> rb_peak b \<le> limit
        \<and> (\<forall>r\<in>set rs. \<forall>sum_to bytes. rr_taker r = Stored sum_to bytes \<longrightarrow> sum_to \<le> limit)
        \<and> (rb_held b \<le> rb_peak b \<or> (\<exists>r\<in>set rs. \<exists>sum_to bytes. rr_taker r = Stored sum_to bytes \<and> rb_held b \<le> sum_to)))"

lemma sum_counted_update:
  "i < length rs \<Longrightarrow> (\<Sum>r\<leftarrow>rs[i := r']. counted r) + counted (rs ! i) = (\<Sum>r\<leftarrow>rs. counted r) + counted r'"
proof (induction rs arbitrary: i)
  case (Cons r rs)
  then show ?case by (cases i) auto
qed simp

lemma counted_le: "i < length rs \<Longrightarrow> counted (rs ! i) \<le> (\<Sum>r\<leftarrow>rs. counted r)"
  using sum_counted_update [of i rs reservation] by (simp add: counted_def reservation_def)

lemma stored_update:
  assumes "i < length rs" "r \<in> set rs" "rr_taker r = Stored t b" "rr_taker (rs ! i) \<noteq> Stored t b"
  shows "r \<in> set (rs[i := r'])"
  using assms by (auto simp: in_set_conv_nth nth_list_update)

lemma read_inv_update:
  assumes "read_inv limit (b, rs)" "i < length rs" "rb_limit b' = limit"
    "rb_held b' + counted (rs ! i) = rb_held b + counted r'" "rb_held b' \<le> limit" "rb_peak b' \<le> limit"
    "\<forall>t n. rr_taker r' = Stored t n \<longrightarrow> t \<le> limit"
    "rb_held b' \<le> rb_peak b' \<or> (\<exists>r\<in>set (rs[i := r']). \<exists>t n. rr_taker r = Stored t n \<and> rb_held b' \<le> t)"
  shows "read_inv limit (b', rs[i := r'])"
proof -
  have "rb_held b' = (\<Sum>r\<leftarrow>rs[i := r']. counted r)"
    using assms(1,4) sum_counted_update [OF assms(2), of r'] by (simp add: read_inv_def)
  moreover have "set (rs[i := r']) \<subseteq> insert r' (set rs)" by (rule set_update_subset_insert)
  ultimately show ?thesis using assms(1,3,5-8) by (auto simp: read_inv_def)
qed

lemma peak_update:
  assumes "read_inv limit (b, rs)" "i < length rs" "\<forall>t n. rr_taker (rs ! i) \<noteq> Stored t n" "rb_held b' \<le> rb_held b" "rb_peak b' = rb_peak b"
  shows "rb_held b' \<le> rb_peak b' \<or> (\<exists>r\<in>set (rs[i := r']). \<exists>t n. rr_taker r = Stored t n \<and> rb_held b' \<le> t)"
proof (cases "rb_held b \<le> rb_peak b")
  case False
  then obtain r t n where r: "r \<in> set rs" "rr_taker r = Stored t n" "rb_held b \<le> t" using assms(1) by (auto simp: read_inv_def)
  have "r \<in> set (rs[i := r'])" using stored_update [OF assms(2) r(1,2)] assms(3) by blast
  then show ?thesis using r(2,3) assms(4) by force
qed (use assms(4,5) in simp)

lemma read_inv_stored: "read_inv limit (b, rs) \<Longrightarrow> r \<in> set rs \<Longrightarrow> rr_taker r = Stored t n \<Longrightarrow> t \<le> limit"
  by (auto simp: read_inv_def)

lemma read_inv_step:
  assumes "read_inv limit st" "bstep st st'"
  shows "read_inv limit st'"
  using assms(2,1)
proof cases
  case (opens b rs)
  have inv: "read_inv limit (b, rs)" using assms(1) opens(1) by simp
  have c: "counted reservation = 0" "rr_taker reservation = Idle" by (simp_all add: counted_def reservation_def)
  show ?thesis using inv c unfolding opens(2) by (auto simp: read_inv_def) blast
next
  case (loads i rs b bytes)
  have inv: "read_inv limit (b, rs)" using assms(1) loads(1) by simp
  show ?thesis
    unfolding loads(2)
    by (rule read_inv_update [OF inv loads(3)])
       (use inv loads(4) peak_update [OF inv loads(3), of b] in \<open>auto simp: read_inv_def take_load_def counted_def\<close>)
next
  case (refuses i rs seen bytes b)
  have inv: "read_inv limit (b, rs)" using assms(1) refuses(1) by simp
  show ?thesis
    unfolding refuses(2)
    by (rule read_inv_update [OF inv refuses(3)])
       (use inv refuses(4) peak_update [OF inv refuses(3), of b] in \<open>auto simp: read_inv_def counted_def\<close>)
next
  case (fails i rs seen bytes b sum_to)
  have inv: "read_inv limit (b, rs)" using assms(1) fails(1) by simp
  show ?thesis
    unfolding fails(2)
    by (rule read_inv_update [OF inv fails(3)])
       (use inv fails(4) peak_update [OF inv fails(3), of b] in \<open>auto simp: read_inv_def take_load_def counted_def\<close>)
next
  case (exchanges i rs seen bytes b sum_to b' r')
  have inv: "read_inv limit (b, rs)" using assms(1) exchanges(1) by simp
  have lim: "rb_limit b = limit" using inv by (simp add: read_inv_def)
  show ?thesis
  proof (cases "rb_held b = seen")
    case True
    then have e: "b' = b\<lparr>rb_held := sum_to\<rparr>" "r' = (rs ! i)\<lparr>rr_taker := Stored sum_to bytes\<rparr>" "sum_to = rb_held b + bytes" "sum_to \<le> limit"
      using exchanges(5,6) lim by (auto simp: take_exchange_def checked_total_def split: if_splits)
    have "r' \<in> set (rs[i := r'])" using exchanges(3) by (rule set_update_memI)
    then have "\<exists>r\<in>set (rs[i := r']). \<exists>t n. rr_taker r = Stored t n \<and> rb_held b' \<le> t" using e(1,2) by force
    then show ?thesis
      unfolding exchanges(2)
      by (intro read_inv_update [OF inv exchanges(3)])
         (use inv exchanges(4) e lim in \<open>auto simp: counted_def read_inv_def\<close>)
  next
    case False
    then have e: "b' = b" "r' = (rs ! i)\<lparr>rr_taker := Loaded (rb_held b) bytes\<rparr>"
      using exchanges(6) by (auto simp: take_exchange_def)
    show ?thesis
      unfolding exchanges(2) e(1)
      by (rule read_inv_update [OF inv exchanges(3)])
         (use inv exchanges(4) peak_update [OF inv exchanges(3), of b r'] in \<open>auto simp: e(2) read_inv_def counted_def\<close>)
  qed
next
  case (stores i rs sum_to bytes b b' r')
  have inv: "read_inv limit (b, rs)" using assms(1) stores(1) by simp
  have e: "b' = b\<lparr>rb_peak := max (rb_peak b) sum_to\<rparr>" "r' = (rs ! i)\<lparr>rr_taker := Idle, rr_held := rr_held (rs ! i) + bytes\<rparr>"
    using stores(5) by (simp_all add: take_done_def)
  have t: "sum_to \<le> limit" using read_inv_stored [OF inv nth_mem [OF stores(3)] stores(4)] .
  have "rb_held b' \<le> rb_peak b' \<or> (\<exists>r\<in>set (rs[i := r']). \<exists>t n. rr_taker r = Stored t n \<and> rb_held b' \<le> t)"
  proof (cases "rb_held b \<le> max (rb_peak b) sum_to")
    case False
    then obtain r t n where r: "r \<in> set rs" "rr_taker r = Stored t n" "rb_held b \<le> t" using inv by (auto simp: read_inv_def)
    have "sum_to \<noteq> t" using r(3) False by auto
    then have "r \<in> set (rs[i := r'])" using stored_update [OF stores(3) r(1,2)] stores(4) by simp
    then show ?thesis using r e(1) by force
  qed (simp add: e(1))
  then show ?thesis
    unfolding stores(2)
    by (intro read_inv_update [OF inv stores(3)])
       (use inv stores(4) t in \<open>auto simp: e read_inv_def counted_def\<close>)
next
  case (drops i rs b)
  have inv: "read_inv limit (b, rs)" using assms(1) drops(1) by simp
  have c: "counted (rs ! i) = rr_held (rs ! i)" "counted reservation = 0" using drops(4) by (simp_all add: counted_def reservation_def)
  have le: "rr_held (rs ! i) \<le> rb_held b" using counted_le [OF drops(3)] inv c by (simp add: read_inv_def)
  let ?b = "drop_reservation b (rs ! i)"
  have b: "rb_held ?b = rb_held b - rr_held (rs ! i)" "rb_limit ?b = rb_limit b" "rb_peak ?b = rb_peak b"
    using le by (simp_all add: drop_reservation_def fetch_sub_def)
  show ?thesis
    unfolding drops(2)
    by (rule read_inv_update [OF inv drops(3)])
       (use inv drops(4) b c le peak_update [OF inv drops(3), of ?b reservation] in \<open>auto simp: read_inv_def reservation_def\<close>)
qed

lemma read_inv_reachable:
  "bstep\<^sup>*\<^sup>* (ReadBudget_new limit, []) st \<Longrightarrow> read_inv limit st"
proof (induction rule: rtranclp_induct)
  case base
  show ?case by (simp add: read_inv_def ReadBudget_new_def)
qed (rule read_inv_step)

subsection \<open>Requests being answered\<close>

text \<open>\<open>Answering\<close>: the count, and the wait for it to reach zero; the counts the waiter sees each time
  it wakes, before its time is up, are the list.\<close>

definition answering_start :: "nat \<Rightarrow> nat" where
  "answering_start count = count + 1"

definition answer_drop :: "nat \<Rightarrow> nat" where
  "answer_drop count = count - 1"

fun wait_idle :: "nat \<Rightarrow> nat list \<Rightarrow> bool" where
  "wait_idle count [] \<longleftrightarrow> count = 0"
| "wait_idle count (seen # later) \<longleftrightarrow> (if count > 0 then wait_idle seen later else count = 0)"

lemma wait_idle_iff: "wait_idle count seen \<longleftrightarrow> 0 \<in> set (count # seen)"
  by (induction count seen rule: wait_idle.induct) auto

end
