(* ===== verification/Daemon_Claims.thy ===== *)
theory Daemon_Claims
  imports Read_Budget
begin

text \<open>
  What the daemon's gates promise, over every interleaving of the connections: the admission gate keeps
  its byte budget, serves in arrival order and drains once requests stop arriving, and the read budget is
  never exceeded.
\<close>

subsection \<open>A gate with one request running and two waiting\<close>

definition request_at :: "nat \<Rightarrow> nat \<Rightarrow> Waiter" where
  "request_at k weight = \<lparr>rq_id = k, rq_ticket = of_nat k, rq_weight = weight\<rparr>"

definition busy_gate :: GateState where
  "busy_gate =
     \<lparr>gt_queue = \<lparr>qu_next = 3, qu_serving = 1, qu_abandoned = {}, qu_in_flight = 100, qu_running = 1\<rparr>,
      gt_waiting = [request_at 1 200, request_at 2 300], gt_running = [request_at 0 100],
      gt_arrivals = 3, gt_admitted = [0]\<rparr>"

lemma gstep_arriveI:
  "\<lbrakk>weight \<le> usize_max; length (gt_waiting g) + card (qu_abandoned (gt_queue g)) < 2 ^ 64 - 1; g' = arrive g weight\<rbrakk>
   \<Longrightarrow> gstep budget g g'"
  by (simp add: gstep.arrives)

lemma busy_gate_reachable: "reachable budget busy_gate"
proof -
  let ?g1 = "arrive GateState_default 100"
  let ?g2 = "arrive ?g1 200"
  let ?g3 = "arrive ?g2 300"
  note defs = GateState_default_def Queue_default_def arrive_def take_ticket_def usize_max_def
  have s1: "gstep budget GateState_default ?g1" by (rule gstep.arrives) (simp_all add: defs)
  have s2: "gstep budget ?g1 ?g2" by (rule gstep.arrives) (simp_all add: defs)
  have s3: "gstep budget ?g2 ?g3" by (rule gstep.arrives) (simp_all add: defs)
  have "request_at 0 100 \<in> set (gt_waiting ?g3)" by (simp add: defs request_at_def)
  moreover have "admit_round budget (gt_queue ?g3) (rq_ticket (request_at 0 100)) (rq_weight (request_at 0 100)) False
      = AdmittedNow (start_request (gt_queue ?g3) 100)"
    by (simp add: admit_round_def fits_def defs request_at_def)
  ultimately have "gstep budget ?g3 (?g3\<lparr>gt_queue := start_request (gt_queue ?g3) 100,
      gt_waiting := remove1 (request_at 0 100) (gt_waiting ?g3), gt_running := request_at 0 100 # gt_running ?g3,
      gt_admitted := gt_admitted ?g3 @ [rq_id (request_at 0 100)]\<rparr>)"
    by (rule gstep.admits)
  moreover have "?g3\<lparr>gt_queue := start_request (gt_queue ?g3) 100,
      gt_waiting := remove1 (request_at 0 100) (gt_waiting ?g3), gt_running := request_at 0 100 # gt_running ?g3,
      gt_admitted := gt_admitted ?g3 @ [rq_id (request_at 0 100)]\<rparr> = busy_gate"
    by (simp add: busy_gate_def start_request_def advance_def advance_loop.simps defs request_at_def sat_add_usize_def)
  ultimately show ?thesis using s1 s2 s3 by (simp add: rtranclp.rtrancl_into_rtrancl)
qed

subsection \<open>The gate drains\<close>

text \<open>The steps that make progress: a waiting request is admitted in time, or a running one finishes.\<close>

inductive serves :: "nat \<Rightarrow> GateState \<Rightarrow> GateState \<Rightarrow> bool" for budget where
  admitted: "\<lbrakk>r \<in> set (gt_waiting g); admit_round budget (gt_queue g) (rq_ticket r) (rq_weight r) False = AdmittedNow q\<rbrakk>
    \<Longrightarrow> serves budget g (g\<lparr>gt_queue := q, gt_waiting := remove1 r (gt_waiting g), gt_running := r # gt_running g,
                          gt_admitted := gt_admitted g @ [rq_id r]\<rparr>)"
| finished: "r \<in> set (gt_running g)
    \<Longrightarrow> serves budget g (g\<lparr>gt_queue := drop_permit (gt_queue g) (rq_weight r), gt_running := remove1 r (gt_running g)\<rparr>)"

definition gate_load :: "GateState \<Rightarrow> nat" where
  "gate_load g = 2 * length (gt_waiting g) + length (gt_running g)"

definition closed_step :: "nat \<Rightarrow> GateState \<Rightarrow> GateState \<Rightarrow> bool" where
  "closed_step budget g g' \<longleftrightarrow> gstep budget g g' \<and> gt_arrivals g' = gt_arrivals g"

lemma serves_closed: "serves budget g g' \<Longrightarrow> closed_step budget g g'"
  by (induction rule: serves.induct) (auto simp: closed_step_def intro: gstep.admits gstep.finishes)

lemma in_set_length_remove1: "x \<in> set xs \<Longrightarrow> length xs = Suc (length (remove1 x xs))"
  by (induction xs) auto

lemma gate_load_decreases: "closed_step budget g g' \<Longrightarrow> gate_load g' < gate_load g"
  unfolding closed_step_def
  by (auto elim!: gstep.cases dest!: in_set_length_remove1 simp: gate_load_def)

lemma running_counted: "reachable budget g \<Longrightarrow> qu_running (gt_queue g) = length (gt_running g)"
  by (rule counted_running.holds)

lemma serving_waits:
  assumes "reachable budget g" "gt_waiting g \<noteq> []"
  shows "\<exists>r\<in>set (gt_waiting g). qu_serving (gt_queue g) = rq_ticket r \<and> (\<forall>x\<in>set (gt_waiting g). rq_id r \<le> rq_id x)"
proof -
  obtain first where t: "turn_at first g" using served_in_turn.holds [OF assms(1)] by (auto simp: turn_inv_def)
  obtain x where x: "x \<in> set (gt_waiting g)" using assms(2) by (meson list.set_sel(1))
  then have "first < gt_arrivals g" using t by (force simp: turn_at_def)
  then obtain r where r: "r \<in> set (gt_waiting g)" "rq_id r = first" using t by (auto simp: turn_at_def)
  then have "qu_serving (gt_queue g) = rq_ticket r" "\<forall>x\<in>set (gt_waiting g). rq_id r \<le> rq_id x" using t by (auto simp: turn_at_def)
  then show ?thesis using r(1) by blast
qed

lemma serves_enabled:
  assumes "reachable budget g" "gt_waiting g \<noteq> [] \<or> gt_running g \<noteq> []"
  shows "\<exists>g'. serves budget g g'"
proof (cases "gt_running g = []")
  case False
  then show ?thesis using serves.finished [of "hd (gt_running g)" g budget] by auto
next
  case True
  then obtain r where r: "r \<in> set (gt_waiting g)" "qu_serving (gt_queue g) = rq_ticket r"
    using serving_waits [OF assms(1)] assms(2) by auto
  have "qu_running (gt_queue g) = 0" using running_counted [OF assms(1)] True by simp
  then have "admit_round budget (gt_queue g) (rq_ticket r) (rq_weight r) False
      = AdmittedNow (start_request (gt_queue g) (rq_weight r))"
    using r(2) by (simp add: admit_round_def fits_def)
  then show ?thesis using serves.admitted [OF r(1)] by blast
qed

lemma closed_steps_reachable: "(closed_step budget ^^ n) g g' \<Longrightarrow> reachable budget g \<Longrightarrow> reachable budget g'"
proof (induction n arbitrary: g')
  case (Suc n)
  then obtain h where "(closed_step budget ^^ n) g h" "closed_step budget h g'" by auto
  then show ?case using Suc.IH Suc.prems(2) by (meson closed_step_def rtranclp.rtrancl_into_rtrancl)
qed simp

lemma closed_steps_load: "(closed_step budget ^^ n) g g' \<Longrightarrow> n + gate_load g' \<le> gate_load g"
proof (induction n arbitrary: g')
  case (Suc n)
  then obtain h where h: "(closed_step budget ^^ n) g h" "closed_step budget h g'" by auto
  then show ?case using Suc.IH [OF h(1)] gate_load_decreases [OF h(2)] by linarith
qed simp

lemma counted_idle: "\<forall>r\<in>set rs. rr_taker r = Idle \<Longrightarrow> (\<Sum>r\<leftarrow>rs. counted r) = (\<Sum>r\<leftarrow>rs. rr_held r)"
  by (induction rs) (auto simp: counted_def)

subsection \<open>The properties\<close>

text \<open>C30: at every moment, whatever the order in which requests arrive, are admitted, give up and finish, the
  bytes counted as in flight are the weights of the running requests, and they are within the default
  budget unless a single request, too heavy for it, runs alone.\<close>

theorem admission_within_budget:
  assumes "reachable MAX_IN_FLIGHT_BYTES g"
  shows "qu_running (gt_queue g) = length (gt_running g)
    \<and> qu_in_flight (gt_queue g) = (\<Sum>r\<leftarrow>gt_running g. rq_weight r)
    \<and> ((\<Sum>r\<leftarrow>gt_running g. rq_weight r) \<le> MAX_IN_FLIGHT_BYTES \<or> length (gt_running g) = 1)"
  using default_budget.holds [OF assms] by (simp add: budget_inv_def total_weight_def)

theorem admission_within_budget_witness:
  "qu_in_flight (gt_queue busy_gate) = (\<Sum>r\<leftarrow>gt_running busy_gate. rq_weight r) \<and> length (gt_running busy_gate) = 1"
  using admission_within_budget [OF busy_gate_reachable] by (simp add: busy_gate_def)

text \<open>C28: requests are admitted in the order they arrived, even though tickets are 64-bit and wrap around: the
  arrival numbers of the admitted requests increase, and no waiting request arrived before an admitted one.\<close>

theorem admission_in_arrival_order:
  assumes "reachable budget g"
  shows "sorted_wrt (<) (gt_admitted g)
    \<and> (\<forall>k\<in>set (gt_admitted g). \<forall>r\<in>set (gt_waiting g). k < rq_id r)"
  using served_in_turn.holds [OF assms] by (force simp: turn_inv_def turn_at_def)

theorem admission_in_arrival_order_witness:
  "gt_admitted busy_gate = [0] \<and> 0 < rq_id (request_at 1 200) \<and> 0 < rq_id (request_at 2 300)"
  using admission_in_arrival_order [OF busy_gate_reachable [of 0]] by (simp add: busy_gate_def)

text \<open>C29: no request is left waiting for ever: once requests stop arriving, every run ends after at most two
  steps for each waiting request and one for each running one, and it does not end, and nothing is stuck
  behind abandoned tickets, until no request waits or runs.\<close>

theorem admission_drains:
  assumes "reachable budget g" "(closed_step budget ^^ n) g g'"
  shows "n \<le> 2 * length (gt_waiting g) + length (gt_running g)
    \<and> ((\<nexists>h. serves budget g' h) \<longrightarrow> gt_waiting g' = [] \<and> gt_running g' = [])"
  using closed_steps_load [OF assms(2)] serves_enabled [OF closed_steps_reachable [OF assms(2,1)]]
  by (auto simp: gate_load_def)

theorem admission_drains_witness:
  "(\<exists>h. serves 0 busy_gate h) \<and> gt_waiting busy_gate \<noteq> []"
  using admission_drains [OF busy_gate_reachable [of 0], of 0 busy_gate] by (auto simp: busy_gate_def)

text \<open>However the connections interleave their atomic accesses, and however often an exchange fails, the
  bytes held for reading and their peak never exceed the limit; when no connection is in the middle of a
  reservation, the bytes held are what the reservations hold, and the peak is at least that.\<close>

theorem read_budget_within_limit:
  assumes "bstep\<^sup>*\<^sup>* (ReadBudget_new limit, []) (b, rs)"
  shows "rb_held b \<le> limit \<and> rb_peak b \<le> limit
    \<and> ((\<forall>r\<in>set rs. rr_taker r = Idle) \<longrightarrow> rb_held b = (\<Sum>r\<leftarrow>rs. rr_held r) \<and> rb_held b \<le> rb_peak b)"
  using read_inv_reachable [OF assms] by (auto simp: read_inv_def counted_idle)

theorem read_budget_within_limit_witness:
  "\<exists>b. bstep\<^sup>*\<^sup>* (ReadBudget_new 10, []) (b, [\<lparr>rr_taker = Idle, rr_held = 7\<rparr>]) \<and> rb_held b = 7 \<and> rb_peak b \<le> 10"
proof -
  let ?new = "ReadBudget_new 10"
  have s1: "bstep (?new, []) (?new, [reservation])" using bstep.opens [of ?new "[]"] by simp
  have s2: "bstep (?new, [reservation]) (?new, [reservation\<lparr>rr_taker := Loaded 0 7\<rparr>])"
    using bstep.loads [of 0 "[reservation]" ?new 7] by (simp add: reservation_def take_load_def ReadBudget_new_def)
  have s3: "bstep (?new, [reservation\<lparr>rr_taker := Loaded 0 7\<rparr>]) (?new\<lparr>rb_held := 7\<rparr>, [reservation\<lparr>rr_taker := Stored 7 7\<rparr>])"
    using bstep.exchanges [of 0 "[reservation\<lparr>rr_taker := Loaded 0 7\<rparr>]" 0 7 ?new 7]
    by (simp add: reservation_def take_exchange_def ReadBudget_new_def checked_total_def usize_max_def)
  have s4: "bstep (?new\<lparr>rb_held := 7\<rparr>, [reservation\<lparr>rr_taker := Stored 7 7\<rparr>]) (?new\<lparr>rb_held := 7, rb_peak := 7\<rparr>, [\<lparr>rr_taker = Idle, rr_held = 7\<rparr>])"
    using bstep.stores [of 0 "[reservation\<lparr>rr_taker := Stored 7 7\<rparr>]" 7 7 "?new\<lparr>rb_held := 7\<rparr>"]
    by (simp add: reservation_def take_done_def ReadBudget_new_def)
  have "bstep\<^sup>*\<^sup>* (?new, []) (?new\<lparr>rb_held := 7, rb_peak := 7\<rparr>, [\<lparr>rr_taker = Idle, rr_held = 7\<rparr>])"
    using s1 s2 s3 s4 by (meson rtranclp.rtrancl_into_rtrancl rtranclp.rtrancl_refl)
  then show ?thesis using read_budget_within_limit by (fastforce simp: ReadBudget_new_def)
qed

end
