(* ===== verification/Btree.thy ===== *)
theory Btree
  imports Ddf_Prelude "HOL-Library.Char_ord" "HOL-Library.List_Lexorder" "HOL-Library.Product_Lexorder"
begin

text \<open>
  The ordered collections of the standard library: a \<open>BTreeMap\<close> is the list of its entries in ascending
  key order, a \<open>BTreeSet\<close> the sorted list of its elements where it is iterated and a set elsewhere. Strings
  are compared by their bytes, pairs component by component.
\<close>

subsection \<open>Maps\<close>

fun bt_insert :: "'k::linorder \<Rightarrow> 'v \<Rightarrow> ('k \<times> 'v) list \<Rightarrow> ('k \<times> 'v) list" where
  "bt_insert k v [] = [(k, v)]"
| "bt_insert k v ((k', v') # m) =
     (if k < k' then (k, v) # (k', v') # m
      else if k = k' then (k, v) # m
      else (k', v') # bt_insert k v m)"

definition bt_get :: "('k \<times> 'v) list \<Rightarrow> 'k \<Rightarrow> 'v option" where
  "bt_get m k = map_of m k"

definition bt_ok :: "('k::linorder \<times> 'v) list \<Rightarrow> bool" where
  "bt_ok m \<longleftrightarrow> sorted_wrt (<) (map fst m)"

lemma bt_get_Nil [simp]: "bt_get [] k = None"
  by (simp add: bt_get_def)

lemma bt_get_insert [simp]: "bt_get (bt_insert k v m) k' = (if k' = k then Some v else bt_get m k')"
  unfolding bt_get_def by (induction k v m rule: bt_insert.induct) auto

lemma bt_insert_keys: "fst ` set (bt_insert k v m) = insert k (fst ` set m)"
  by (induction k v m rule: bt_insert.induct) auto

lemma bt_ok_Nil [simp]: "bt_ok []"
  by (simp add: bt_ok_def)

lemma bt_ok_insert [simp]: "bt_ok m \<Longrightarrow> bt_ok (bt_insert k v m)"
proof (induction k v m rule: bt_insert.induct)
  case (2 k v k' v' m)
  then show ?case using bt_insert_keys [of k v m] by (force simp: bt_ok_def)
qed (simp add: bt_ok_def)

lemma bt_ok_distinct: "bt_ok m \<Longrightarrow> distinct (map fst m)"
  by (simp add: bt_ok_def strict_sorted_iff)

lemma bt_get_Some_iff: "bt_ok m \<Longrightarrow> bt_get m k = Some v \<longleftrightarrow> (k, v) \<in> set m"
  by (simp add: bt_get_def bt_ok_distinct)

lemma bt_get_None_iff: "bt_get m k = None \<longleftrightarrow> k \<notin> fst ` set m"
  by (simp add: bt_get_def map_of_eq_None_iff)

lemma length_bt_insert: "bt_get m k = None \<Longrightarrow> length (bt_insert k v m) = Suc (length m)"
  by (induction k v m rule: bt_insert.induct) (auto simp: bt_get_def)

subsection \<open>Collecting values under keys that may not repeat\<close>

text \<open>The loops that check each value, insert it under its key and refuse the second one under a key.\<close>

fun collect_unique :: "('a \<Rightarrow> 'e + unit) \<Rightarrow> ('a \<Rightarrow> 'k::linorder) \<Rightarrow> 'e \<Rightarrow> 'a list \<Rightarrow> ('k \<times> 'a) list \<Rightarrow> 'e + ('k \<times> 'a) list" where
  "collect_unique check key dup [] m = Inr m"
| "collect_unique check key dup (x # xs) m =
     res_bind (check x) (\<lambda>_.
       if bt_get m (key x) = None then collect_unique check key dup xs (bt_insert (key x) x m) else Inl dup)"

lemma collect_unique_ok:
  "is_ok (collect_unique check key dup xs m) \<longleftrightarrow>
     (\<forall>x\<in>set xs. is_ok (check x) \<and> bt_get m (key x) = None) \<and> distinct (map key xs)"
proof (induction check key dup xs m rule: collect_unique.induct)
  case (2 check key dup x xs m)
  have "key x \<in> key ` set xs \<longleftrightarrow> (\<exists>y\<in>set xs. key y = key x)" by (metis image_iff)
  then show ?case using 2 by (cases "check x") auto
qed simp

lemma collect_unique_result:
  assumes "collect_unique check key dup xs m = Inr m'" "bt_ok m"
  shows "bt_ok m' \<and> length m' = length m + length xs
    \<and> (\<forall>k v. bt_get m' k = Some v \<longleftrightarrow> bt_get m k = Some v \<or> (v \<in> set xs \<and> key v = k))"
  using assms
proof (induction check key dup xs m arbitrary: m' rule: collect_unique.induct)
  case (2 check key dup x xs m)
  then obtain u where u: "check x = Inr u" "bt_get m (key x) = None"
      "collect_unique check key dup xs (bt_insert (key x) x m) = Inr m'"
    by (auto simp: res_bind_Inr_iff split: if_splits)
  then have ih: "bt_ok m' \<and> length m' = length (bt_insert (key x) x m) + length xs
      \<and> (\<forall>k v. bt_get m' k = Some v \<longleftrightarrow> bt_get (bt_insert (key x) x m) k = Some v \<or> (v \<in> set xs \<and> key v = k))"
    using 2 by simp
  have "\<forall>y\<in>set xs. key y \<noteq> key x"
    using collect_unique_ok [of check key dup xs "bt_insert (key x) x m"] u(3) by (auto split: if_splits)
  then show ?case using ih u(2) by (auto simp: length_bt_insert)
qed simp

end
