(* ===== verification/Council.thy ===== *)
theory Council
  imports Std_Text Btree
begin

text \<open>
  The review council: the typed protocol of deep-diff-forge-review/src/model.rs and the admission and
  fail-closed synthesis of policy.rs. A \<open>ReviewFailure\<close> is its message. The prompts of the personas and
  the JSON schema of a report are text with no operation.
\<close>

subsection \<open>The protocol\<close>

datatype Provider = Codex | ClaudeCode

fun Provider_family :: "Provider \<Rightarrow> string" where
  "Provider_family Codex = ''openai''"
| "Provider_family ClaudeCode = ''anthropic''"

datatype BuilderFamily = BfOpenai | BfAnthropic | BfHuman | BfOther

fun BuilderFamily_label :: "BuilderFamily \<Rightarrow> string" where
  "BuilderFamily_label BfOpenai = ''openai''"
| "BuilderFamily_label BfAnthropic = ''anthropic''"
| "BuilderFamily_label BfHuman = ''human''"
| "BuilderFamily_label BfOther = ''other''"

datatype Disposition = Concur | Rebut | NeedsTest

datatype AssessmentState = ReadyForHumanReview | Hold

datatype Persona = General | Correctness | Security | Architecture | Performance | Falsifier | Subtractor

fun Persona_debug :: "Persona \<Rightarrow> string" where
  "Persona_debug General = ''General''"
| "Persona_debug Correctness = ''Correctness''"
| "Persona_debug Security = ''Security''"
| "Persona_debug Architecture = ''Architecture''"
| "Persona_debug Performance = ''Performance''"
| "Persona_debug Falsifier = ''Falsifier''"
| "Persona_debug Subtractor = ''Subtractor''"

record Reviewer =
  rv_id :: string
  rv_provider :: Provider
  rv_model :: "string option"
  rv_persona :: Persona

datatype Profile = Roster | ImportantDecision

record Request =
  cr_repository :: string
  cr_analysis_file :: string
  cr_decision_file :: string
  cr_context_files :: "string list"
  cr_builder_family :: BuilderFamily
  cr_profile :: Profile
  cr_reviewers :: "Reviewer list"
  cr_mutation_package :: string
  cr_mutation_base :: "string option"
  cr_fuzz_targets :: "string list"
  cr_timeout_seconds :: nat
  cr_fuzz_seconds :: nat

record Artifact =
  ar_id :: string
  ar_label :: string
  ar_sha256 :: string
  ar_text :: string

record Manifest =
  mf_schema :: string
  mf_run_id :: string
  mf_review_id :: string
  mf_source_tree :: string
  mf_request :: Request
  mf_artifacts :: "Artifact list"
  mf_mutation_diff_sha256 :: "string option"

datatype Round = Independent | Challenge

fun Round_label :: "Round \<Rightarrow> string" where
  "Round_label Independent = ''independent''"
| "Round_label Challenge = ''challenge''"

datatype Severity = Low | Medium | High | Critical

fun Severity_ord :: "Severity \<Rightarrow> nat" where
  "Severity_ord Low = 0" | "Severity_ord Medium = 1" | "Severity_ord High = 2" | "Severity_ord Critical = 3"

definition is_blocking :: "Severity \<Rightarrow> bool" where
  "is_blocking s \<longleftrightarrow> Severity_ord High \<le> Severity_ord s"

datatype Verdict = NoBlockers | ChangesRequested | Abstain

fun Verdict_debug :: "Verdict \<Rightarrow> string" where
  "Verdict_debug NoBlockers = ''NoBlockers''"
| "Verdict_debug ChangesRequested = ''ChangesRequested''"
| "Verdict_debug Abstain = ''Abstain''"

record Citation =
  ci_artifact_id :: string
  ci_start_line :: nat
  ci_end_line :: nat

datatype Gate = GtFormat | GtCheck | GtClippy | GtPedantic | GtTests | GtAntipatterns | GtFuzz | GtMutation

fun Gate_index :: "Gate \<Rightarrow> nat" where
  "Gate_index GtFormat = 0" | "Gate_index GtCheck = 1" | "Gate_index GtClippy = 2" | "Gate_index GtPedantic = 3"
| "Gate_index GtTests = 4" | "Gate_index GtAntipatterns = 5" | "Gate_index GtFuzz = 6" | "Gate_index GtMutation = 7"

lemma Gate_index_inj: "Gate_index a = Gate_index b \<Longrightarrow> a = b"
  by (cases a; cases b) simp_all

text \<open>The derived order of \<open>Gate\<close>, in which a set of gates is iterated.\<close>

instantiation Gate :: linorder
begin

definition less_eq_Gate :: "Gate \<Rightarrow> Gate \<Rightarrow> bool" where
  "less_eq_Gate a b \<longleftrightarrow> Gate_index a \<le> Gate_index b"

definition less_Gate :: "Gate \<Rightarrow> Gate \<Rightarrow> bool" where
  "less_Gate a b \<longleftrightarrow> Gate_index a < Gate_index b"

instance
  by standard (auto simp: less_eq_Gate_def less_Gate_def dest: Gate_index_inj)

end

fun Gate_label :: "Gate \<Rightarrow> string" where
  "Gate_label GtFormat = ''format''"
| "Gate_label GtCheck = ''check''"
| "Gate_label GtClippy = ''clippy''"
| "Gate_label GtPedantic = ''pedantic''"
| "Gate_label GtTests = ''tests''"
| "Gate_label GtAntipatterns = ''antipatterns''"
| "Gate_label GtFuzz = ''fuzz''"
| "Gate_label GtMutation = ''mutation''"

definition Gate_required :: "Profile \<Rightarrow> Gate list" where
  "Gate_required profile =
     [GtFormat, GtCheck, GtClippy, GtPedantic, GtTests, GtAntipatterns]
     @ (if profile = ImportantDecision then [GtFuzz, GtMutation] else [])"

record Finding =
  fd_id :: string
  fd_severity :: Severity
  fd_claim :: string
  fd_citations :: "Citation list"
  fd_falsifier :: string
  fd_requested_checks :: "Gate list"

record ChallengeResponse =
  ch_finding_id :: string
  ch_disposition :: Disposition
  ch_rationale :: string

record Report =
  rp_run_id :: string
  rp_reviewer_id :: string
  rp_round :: Round
  rp_verdict :: Verdict
  rp_summary :: string
  rp_findings :: "Finding list"
  rp_responses :: "ChallengeResponse list"

datatype Outcome = Passed | Failed | TimedOut | OutputLimit | Unavailable | Stale | Inconclusive

fun Outcome_debug :: "Outcome \<Rightarrow> string" where
  "Outcome_debug Passed = ''Passed''"
| "Outcome_debug Failed = ''Failed''"
| "Outcome_debug TimedOut = ''TimedOut''"
| "Outcome_debug OutputLimit = ''OutputLimit''"
| "Outcome_debug Unavailable = ''Unavailable''"
| "Outcome_debug Stale = ''Stale''"
| "Outcome_debug Inconclusive = ''Inconclusive''"

record Execution =
  ex_run_id :: string
  ex_job :: string
  ex_source_tree_before :: string
  ex_source_tree_after :: string
  ex_outcome :: Outcome
  ex_exit_code :: "int option"
  ex_elapsed_ms :: nat
  ex_argv :: "string list"
  ex_stdout_sha256 :: string
  ex_stderr_sha256 :: string
  ex_image_id :: "string option"

record CouncilAssessment =
  ca_run_id :: string
  ca_state :: AssessmentState
  ca_reasons :: "string list"
  ca_reports_received :: nat
  ca_reports_expected :: nat
  ca_provider_families :: "string list"
  ca_decision_owner :: string

subsection \<open>Admission\<close>

definition require :: "bool \<Rightarrow> string \<Rightarrow> string + unit" where
  "require ok message = (if ok then Inr () else Inl message)"

definition is_identifier :: "string \<Rightarrow> bool" where
  "is_identifier value \<longleftrightarrow>
     value \<noteq> [] \<and> length value \<le> 80 \<and> list_all (\<lambda>b. is_ascii_alphanumeric b \<or> b = CHR ''_'' \<or> b = CHR ''-'') value"

definition lowercase_hex :: "char \<Rightarrow> bool" where
  "lowercase_hex b \<longleftrightarrow> 48 \<le> byte b \<and> byte b \<le> 57 \<or> 97 \<le> byte b \<and> byte b \<le> 102"

fun check_targets :: "string list \<Rightarrow> string + unit" where
  "check_targets [] = Inr ()"
| "check_targets (target # targets) = res_bind (require (is_identifier target) ''invalid fuzz target'') (\<lambda>_. check_targets targets)"

fun check_reviewers :: "Reviewer list \<Rightarrow> string set \<Rightarrow> string set \<Rightarrow> string + string set" where
  "check_reviewers [] ids families = Inr families"
| "check_reviewers (r # rs) ids families =
     res_bind (require (is_identifier (rv_id r) \<and> rv_id r \<notin> ids) ''invalid or duplicate reviewer ID'') (\<lambda>_.
     res_bind
       (case rv_model r of
          None \<Rightarrow> Inr ()
        | Some model \<Rightarrow>
            require (model \<noteq> [] \<and> length model \<le> 128 \<and> \<not> starts_with ''-'' model \<and> \<not> list_ex is_whitespace (chars model))
              ''invalid model argument'') (\<lambda>_.
     check_reviewers rs (insert (rv_id r) ids) (insert (Provider_family (rv_provider r)) families)))"

fun check_lenses :: "Reviewer list \<Rightarrow> Persona list \<Rightarrow> string + unit" where
  "check_lenses reviewers [] = Inr ()"
| "check_lenses reviewers (p # ps) =
     res_bind (require (list_ex (\<lambda>r. rv_persona r = p) reviewers) (''important decision lacks '' @ Persona_debug p @ '' lens''))
       (\<lambda>_. check_lenses reviewers ps)"

text \<open>The en dash of the two messages, as its three bytes.\<close>

definition en_dash :: string where
  "en_dash = [CHR 0xE2, CHR 0x80, CHR 0x93]"

definition validate_request :: "Request \<Rightarrow> string + unit" where
  "validate_request request =
     res_bind (require (2 \<le> length (cr_reviewers request) \<and> length (cr_reviewers request) \<le> 12)
       (''roster needs 2'' @ en_dash @ ''12 reviewers'')) (\<lambda>_.
     res_bind (require (1 \<le> cr_timeout_seconds request \<and> cr_timeout_seconds request \<le> 3600)
       (''timeout must be 1'' @ en_dash @ ''3600 seconds'')) (\<lambda>_.
     res_bind (require (1 \<le> cr_fuzz_seconds request \<and> cr_fuzz_seconds request \<le> 600)
       (''fuzz budget must be 1'' @ en_dash @ ''600 seconds'')) (\<lambda>_.
     res_bind (require (length (cr_context_files request) \<le> 32) ''too many context files'') (\<lambda>_.
     res_bind (require (is_identifier (cr_mutation_package request)) ''mutation package must be one explicit package'') (\<lambda>_.
     res_bind (require (opt_is_none_or (\<lambda>base. (length base = 40 \<or> length base = 64) \<and> list_all lowercase_hex base)
         (cr_mutation_base request))
       ''mutation base must be a full lowercase commit ID'') (\<lambda>_.
     res_bind (require (cr_fuzz_targets request \<noteq> [] \<and> length (cr_fuzz_targets request) \<le> 8)
       ''fuzz scope must be explicit and nonempty'') (\<lambda>_.
     res_bind (check_targets (cr_fuzz_targets request)) (\<lambda>_.
     res_bind (check_reviewers (cr_reviewers request) {} {}) (\<lambda>families.
     res_bind (require (2 \<le> card families) ''personas in one provider family are not independent providers'') (\<lambda>_.
       if cr_profile request = ImportantDecision
       then check_lenses (cr_reviewers request) [Correctness, Security, Architecture, Falsifier]
       else Inr ()))))))))))"

fun check_citations :: "Manifest \<Rightarrow> Citation list \<Rightarrow> string + unit" where
  "check_citations manifest [] = Inr ()"
| "check_citations manifest (c # cs) =
     res_bind (ok_or ''fabricated artifact citation'' (List.find (\<lambda>a. ar_id a = ci_artifact_id c) (mf_artifacts manifest))) (\<lambda>artifact.
     res_bind (require (0 < ci_start_line c \<and> ci_start_line c \<le> ci_end_line c
         \<and> ci_end_line c \<le> length (split_terminator LF (ar_text artifact)))
       ''citation line range is outside captured artifact'') (\<lambda>_.
     check_citations manifest cs))"

fun check_findings :: "Manifest \<Rightarrow> string \<Rightarrow> Finding list \<Rightarrow> string set \<Rightarrow> string + unit" where
  "check_findings manifest reviewer [] ids = Inr ()"
| "check_findings manifest reviewer (f # fs) ids =
     res_bind (require (starts_with (reviewer @ '':'') (fd_id f) \<and> length (fd_id f) \<le> 164 \<and> fd_id f \<notin> ids)
       ''invalid or duplicate finding identity'') (\<lambda>_.
     res_bind (require (str_trim (fd_claim f) \<noteq> [] \<and> length (fd_claim f) \<le> 8192) ''invalid claim'') (\<lambda>_.
     res_bind (require (str_trim (fd_falsifier f) \<noteq> [] \<and> length (fd_falsifier f) \<le> 2048)
       ''claim needs a concrete falsification route'') (\<lambda>_.
     res_bind (require (fd_citations f \<noteq> [] \<and> length (fd_citations f) \<le> 16) ''claim needs bounded citations'') (\<lambda>_.
     res_bind (require (length (fd_requested_checks f) \<le> 8) ''too many requested checks'') (\<lambda>_.
     res_bind (check_citations manifest (fd_citations f)) (\<lambda>_.
     check_findings manifest reviewer fs (insert (fd_id f) ids)))))))"

fun check_responses :: "ChallengeResponse list \<Rightarrow> string set \<Rightarrow> string + unit" where
  "check_responses [] ids = Inr ()"
| "check_responses (r # rs) ids =
     res_bind (require (ch_finding_id r \<notin> ids \<and> str_trim (ch_rationale r) \<noteq> [] \<and> length (ch_rationale r) \<le> 8192)
       ''invalid or duplicate challenge response'') (\<lambda>_.
     check_responses rs (insert (ch_finding_id r) ids))"

definition validate_report :: "Manifest \<Rightarrow> Report \<Rightarrow> string + unit" where
  "validate_report manifest report =
     res_bind (require (rp_run_id report = mf_run_id manifest) ''stale or unrelated report'') (\<lambda>_.
     res_bind (require (list_ex (\<lambda>r. rv_id r = rp_reviewer_id report) (cr_reviewers (mf_request manifest))) ''unknown reviewer'') (\<lambda>_.
     res_bind (require (str_trim (rp_summary report) \<noteq> [] \<and> length (rp_summary report) \<le> 8192) ''invalid summary'') (\<lambda>_.
     res_bind (require (length (rp_findings report) \<le> 128 \<and> length (rp_responses report) \<le> 1536) ''report count budget exceeded'') (\<lambda>_.
     res_bind (check_findings manifest (rp_reviewer_id report) (rp_findings report) {}) (\<lambda>_.
     res_bind (require (rp_verdict report \<noteq> NoBlockers \<or> \<not> list_ex (\<lambda>f. is_blocking (fd_severity f)) (rp_findings report))
       ''no_blockers contradicts a high/critical finding'') (\<lambda>_.
     res_bind (require (rp_round report \<noteq> Independent \<or> rp_responses report = []) ''independent round must be blind'') (\<lambda>_.
     check_responses (rp_responses report) {})))))))"

subsection \<open>Synthesis\<close>

definition fresh_pass :: "Manifest \<Rightarrow> Execution \<Rightarrow> bool" where
  "fresh_pass manifest e \<longleftrightarrow>
     ex_run_id e = mf_run_id manifest \<and> ex_outcome e = Passed \<and> ex_exit_code e = Some 0
     \<and> ex_source_tree_before e = mf_source_tree manifest \<and> ex_source_tree_after e = mf_source_tree manifest"

text \<open>The checks push their reasons; here each returns what it pushes.\<close>

definition check_execution :: "Manifest \<Rightarrow> Execution option \<Rightarrow> string \<Rightarrow> string list" where
  "check_execution manifest execution job =
     (case execution of
        Some e \<Rightarrow> if fresh_pass manifest e then [] else [job @ '': '' @ Outcome_debug (ex_outcome e) @ '' or stale receipt'']
      | None \<Rightarrow> [job @ '': no measured execution receipt''])"

definition check_challenge :: "Report \<Rightarrow> Reviewer \<Rightarrow> (string \<times> string) list \<Rightarrow> string list" where
  "check_challenge report reviewer external_findings =
     (if rp_round report \<noteq> Challenge then []
      else
        (let needed = fst ` set (filter (\<lambda>(_, owner). owner \<noteq> rv_id reviewer) external_findings);
             addressed = ch_finding_id ` set (rp_responses report) in
         (if addressed \<noteq> needed
          then [rv_id reviewer @ '' challenge does not address exactly the other reviewers'' @ CHR 0x27 # '' findings''] else [])
         @ (if list_ex (\<lambda>r. ch_disposition r = NeedsTest) (rp_responses report)
            then [rv_id reviewer @ '' requests unresolved verification''] else [])))"

definition check_lineage :: "Manifest \<Rightarrow> string list \<times> string list" where
  "check_lineage manifest =
     (let families = sorted_list_of_set ((\<lambda>r. Provider_family (rv_provider r)) ` set (cr_reviewers (mf_request manifest))) in
      (families,
       if list_ex (\<lambda>f. f \<noteq> BuilderFamily_label (cr_builder_family (mf_request manifest))) families then []
       else [''no independent reviewer lineage beyond the builder'']))"

definition review_job :: "Reviewer \<Rightarrow> Round \<Rightarrow> string" where
  "review_job reviewer round = ''review-'' @ rv_id reviewer @ ''-'' @ Round_label round"

definition gate_job :: "Gate \<Rightarrow> string" where
  "gate_job gate = ''gate-'' @ Gate_label gate"

definition report_key :: "Report \<Rightarrow> string \<times> string" where
  "report_key r = (rp_reviewer_id r, Round_label (rp_round r))"

definition check_review ::
    "Manifest \<Rightarrow> (string \<times> Execution) list \<Rightarrow> ((string \<times> string) \<times> Report) list \<Rightarrow> (string \<times> string) list
     \<Rightarrow> Reviewer \<Rightarrow> Round \<Rightarrow> string list" where
  "check_review manifest jobs received external_findings reviewer round =
     check_execution manifest (bt_get jobs (review_job reviewer round)) (review_job reviewer round)
     @ (case bt_get received (rv_id reviewer, Round_label round) of
          None \<Rightarrow> [''missing '' @ rv_id reviewer @ '' '' @ Round_label round @ '' review'']
        | Some report \<Rightarrow>
            (if rp_verdict report \<noteq> NoBlockers
             then [rv_id reviewer @ '' '' @ Round_label round @ '' is '' @ Verdict_debug (rp_verdict report)] else [])
            @ check_challenge report reviewer external_findings)"

fun collect_map :: "('k::linorder \<times> 'v) list \<Rightarrow> ('k \<times> 'v) list \<Rightarrow> ('k \<times> 'v) list" where
  "collect_map [] m = m"
| "collect_map ((k, v) # kvs) m = collect_map kvs (bt_insert k v m)"

definition external_of :: "Report list \<Rightarrow> (string \<times> string) list" where
  "external_of independent =
     collect_map (concat (map (\<lambda>r. map (\<lambda>f. (fd_id f, rp_reviewer_id r)) (rp_findings r)) independent)) []"

definition required_gates :: "Manifest \<Rightarrow> Report list \<Rightarrow> Gate list" where
  "required_gates manifest reports =
     sorted_list_of_set
       (set (Gate_required (cr_profile (mf_request manifest)))
        \<union> set (concat (map (\<lambda>r. concat (map fd_requested_checks (rp_findings r))) reports)))"

text \<open>Every reason to hold, in the order they are pushed.\<close>

definition assess_reasons ::
    "Manifest \<Rightarrow> Report list \<Rightarrow> ((string \<times> string) \<times> Report) list \<Rightarrow> (string \<times> Execution) list \<Rightarrow> string \<Rightarrow> string list" where
  "assess_reasons manifest reports received jobs current_tree =
     (let independent = filter (\<lambda>r. rp_round r = Independent) reports;
          external_findings = external_of independent in
      (if current_tree \<noteq> mf_source_tree manifest then [''workspace changed: reviews and gate receipts are stale''] else [])
      @ concat (map (\<lambda>reviewer. concat (map (check_review manifest jobs received external_findings reviewer) [Independent, Challenge]))
          (cr_reviewers (mf_request manifest)))
      @ concat (map (\<lambda>gate. check_execution manifest (bt_get jobs (gate_job gate)) (gate_job gate)) (required_gates manifest reports))
      @ snd (check_lineage manifest)
      @ (if list_ex (\<lambda>r. list_ex (\<lambda>f. is_blocking (fd_severity f)) (rp_findings r)) independent
         then [''high/critical independent findings require a revised candidate and fresh run''] else []))"

definition assess :: "Manifest \<Rightarrow> Report list \<Rightarrow> Execution list \<Rightarrow> string \<Rightarrow> string + CouncilAssessment" where
  "assess manifest reports executions current_tree =
     res_bind (validate_request (mf_request manifest)) (\<lambda>_.
     res_bind (collect_unique (validate_report manifest) report_key ''duplicate report for reviewer/round'' reports []) (\<lambda>received.
     res_bind (collect_unique (\<lambda>_. Inr ()) ex_job ''duplicate execution receipt'' executions []) (\<lambda>jobs.
       let reasons = assess_reasons manifest reports received jobs current_tree in
       Inr \<lparr>ca_run_id = mf_run_id manifest, ca_state = (if reasons = [] then ReadyForHumanReview else Hold), ca_reasons = reasons,
            ca_reports_received = length received, ca_reports_expected = length (cr_reviewers (mf_request manifest)) * 2,
            ca_provider_families = fst (check_lineage manifest), ca_decision_owner = ''human''\<rparr>)))"

end
