(* ===== verification/Council_Props.thy ===== *)
theory Council_Props
  imports Council
begin

text \<open>
  What the council's synthesis decides: \<open>council_clear\<close> states the conditions on the reports and receipts
  themselves, without the maps, job names and reasons of the code, and the code's verdict is proved to
  agree with it.
\<close>

subsection \<open>Admitted requests and reports\<close>

lemma require_bind [simp]: "res_bind (require ok message) f = Inr y \<longleftrightarrow> ok \<and> f () = Inr y"
  by (simp add: require_def)

lemma require_ok [simp]: "require ok message = Inr u \<longleftrightarrow> ok"
  by (simp add: require_def)

lemma check_reviewers_ids:
  "check_reviewers rs ids families = Inr out \<Longrightarrow> \<forall>r\<in>set rs. is_identifier (rv_id r)"
  by (induction rs ids families arbitrary: out rule: check_reviewers.induct) (auto simp: res_bind_Inr_iff)

lemma validate_request_ids:
  assumes "validate_request request = Inr u" "r \<in> set (cr_reviewers request)"
  shows "is_identifier (rv_id r)"
proof -
  obtain families where "check_reviewers (cr_reviewers request) {} {} = Inr families"
    using assms(1) by (auto simp: validate_request_def res_bind_Inr_iff)
  then show ?thesis using check_reviewers_ids assms(2) by blast
qed

lemma check_findings_ids:
  "check_findings m reviewer fs ids = Inr u \<Longrightarrow> \<forall>f\<in>set fs. \<exists>rest. fd_id f = reviewer @ CHR '':'' # rest"
proof (induction m reviewer fs ids arbitrary: u rule: check_findings.induct)
  case (2 m reviewer f fs ids)
  then show ?case by (auto simp: res_bind_Inr_iff starts_with_iff)
qed simp

lemma validate_report_ids:
  assumes "validate_report m r = Inr u"
  shows "rp_reviewer_id r \<in> rv_id ` set (cr_reviewers (mf_request m))"
    "\<forall>f\<in>set (rp_findings r). \<exists>rest. fd_id f = rp_reviewer_id r @ CHR '':'' # rest"
proof -
  have ex: "list_ex (\<lambda>v. rv_id v = rp_reviewer_id r) (cr_reviewers (mf_request m))"
    and fs: "\<exists>u. check_findings m (rp_reviewer_id r) (rp_findings r) {} = Inr u"
    using assms by (auto simp: validate_report_def res_bind_Inr_iff)
  show "rp_reviewer_id r \<in> rv_id ` set (cr_reviewers (mf_request m))" using ex by (force simp: list_ex_iff)
  show "\<forall>f\<in>set (rp_findings r). \<exists>rest. fd_id f = rp_reviewer_id r @ CHR '':'' # rest" using fs check_findings_ids by blast
qed

lemma identifier_no_colon: "is_identifier s \<Longrightarrow> CHR '':'' \<notin> set s"
  by (auto simp: is_identifier_def list_all_iff is_ascii_alphanumeric_def is_ascii_uppercase_def is_ascii_lowercase_def
      is_ascii_digit_def)

lemma finding_owner:
  assumes "is_identifier a" "is_identifier b" "a @ CHR '':'' # x = b @ CHR '':'' # y"
  shows "a = b"
  using split_once_Some [of "CHR '':''" "a @ CHR '':'' # x"] identifier_no_colon [OF assms(1)] identifier_no_colon [OF assms(2)] assms(3)
  by (metis option.inject prod.inject)

subsection \<open>The findings of others\<close>

lemma collect_map_ok: "bt_ok m \<Longrightarrow> bt_ok (collect_map kvs m)"
  by (induction kvs m rule: collect_map.induct) auto

lemma collect_map_get:
  "\<forall>(k, v)\<in>set kvs. \<forall>(k', v')\<in>set kvs. k = k' \<longrightarrow> v = v' \<Longrightarrow>
   bt_get (collect_map kvs m) k = Some v \<longleftrightarrow> (k, v) \<in> set kvs \<or> (k \<notin> fst ` set kvs \<and> bt_get m k = Some v)"
proof (induction kvs m rule: collect_map.induct)
  case (2 k' v' kvs m)
  have fn: "\<forall>(k, v)\<in>set kvs. \<forall>(k', v')\<in>set kvs. k = k' \<longrightarrow> v = v'" "\<forall>w. (k', w) \<in> set kvs \<longrightarrow> w = v'" using 2(2) by auto
  have "k \<in> fst ` set kvs \<longleftrightarrow> (\<exists>w. (k, w) \<in> set kvs)" by force
  then show ?case using 2(1) [OF fn(1)] fn(2) by auto
qed simp

definition other_findings :: "Report list \<Rightarrow> string \<Rightarrow> string set" where
  "other_findings reports reviewer =
     {fd_id f | f r. r \<in> set reports \<and> rp_round r = Independent \<and> rp_reviewer_id r \<noteq> reviewer \<and> f \<in> set (rp_findings r)}"

lemma external_needed:
  assumes owners: "\<And>r s f g. \<lbrakk>r \<in> set reports; s \<in> set reports; f \<in> set (rp_findings r); g \<in> set (rp_findings s); fd_id f = fd_id g\<rbrakk>
      \<Longrightarrow> rp_reviewer_id r = rp_reviewer_id s"
  shows "fst ` set (filter (\<lambda>(_, owner). owner \<noteq> reviewer) (external_of (filter (\<lambda>r. rp_round r = Independent) reports)))
    = other_findings reports reviewer"
proof -
  let ?ind = "filter (\<lambda>r. rp_round r = Independent) reports"
  let ?kvs = "concat (map (\<lambda>r. map (\<lambda>f. (fd_id f, rp_reviewer_id r)) (rp_findings r)) ?ind)"
  have fn: "\<forall>(k, v)\<in>set ?kvs. \<forall>(k', v')\<in>set ?kvs. k = k' \<longrightarrow> v = v'" using owners by auto
  have "(k, v) \<in> set (external_of ?ind) \<longleftrightarrow> (k, v) \<in> set ?kvs" for k v
    unfolding external_of_def
    using collect_map_get [OF fn, of "[]" k v] bt_get_Some_iff [OF collect_map_ok [OF bt_ok_Nil], of ?kvs k v] by simp
  then have "set (external_of ?ind) = set ?kvs" by auto
  also have "\<dots> = {(fd_id f, rp_reviewer_id r) | f r. r \<in> set reports \<and> rp_round r = Independent \<and> f \<in> set (rp_findings r)}" by auto
  finally have set: "set (external_of ?ind) = \<dots>" .
  show ?thesis unfolding set_filter set other_findings_def by (rule set_eqI) (simp add: image_iff, blast)
qed

subsection \<open>The specification\<close>

definition has_fresh_pass :: "Manifest \<Rightarrow> Execution list \<Rightarrow> string \<Rightarrow> bool" where
  "has_fresh_pass manifest executions job \<longleftrightarrow> 
     (\<exists>e\<in>set executions. ex_job e = job \<and> ex_run_id e = mf_run_id manifest \<and> ex_outcome e = Passed \<and> ex_exit_code e = Some 0
        \<and> ex_source_tree_before e = mf_source_tree manifest \<and> ex_source_tree_after e = mf_source_tree manifest)"

definition report_clear :: "Report list \<Rightarrow> Reviewer \<Rightarrow> Round \<Rightarrow> bool" where
  "report_clear reports reviewer round \<longleftrightarrow>
     (\<exists>r\<in>set reports. rp_reviewer_id r = rv_id reviewer \<and> rp_round r = round \<and> rp_verdict r = NoBlockers
       \<and> (round = Challenge \<longrightarrow> ch_finding_id ` set (rp_responses r) = other_findings reports (rv_id reviewer)
            \<and> (\<forall>c\<in>set (rp_responses r). ch_disposition c \<noteq> NeedsTest)))"

definition council_clear :: "Manifest \<Rightarrow> Report list \<Rightarrow> Execution list \<Rightarrow> string \<Rightarrow> bool" where
  "council_clear manifest reports executions current_tree \<longleftrightarrow>
     current_tree = mf_source_tree manifest
     \<and> (\<forall>reviewer\<in>set (cr_reviewers (mf_request manifest)). \<forall>round.
          report_clear reports reviewer round \<and> has_fresh_pass manifest executions (review_job reviewer round))
     \<and> (\<forall>gate. gate \<in> set (Gate_required (cr_profile (mf_request manifest)))
            \<or> (\<exists>r\<in>set reports. \<exists>f\<in>set (rp_findings r). gate \<in> set (fd_requested_checks f))
          \<longrightarrow> has_fresh_pass manifest executions (gate_job gate))
     \<and> (\<exists>reviewer\<in>set (cr_reviewers (mf_request manifest)).
          Provider_family (rv_provider reviewer) \<noteq> BuilderFamily_label (cr_builder_family (mf_request manifest)))
     \<and> (\<forall>r\<in>set reports. rp_round r = Independent \<longrightarrow> (\<forall>f\<in>set (rp_findings r). fd_severity f \<noteq> High \<and> fd_severity f \<noteq> Critical))"

lemma is_blocking_iff: "is_blocking s \<longleftrightarrow> s = High \<or> s = Critical"
  by (cases s) (simp_all add: is_blocking_def)

lemma check_execution_iff:
  assumes "\<And>k v. bt_get jobs k = Some v \<longleftrightarrow> v \<in> set executions \<and> ex_job v = k"
  shows "check_execution m (bt_get jobs job) job = [] \<longleftrightarrow> has_fresh_pass m executions job"
proof (cases "bt_get jobs job")
  case None
  then have "\<forall>e\<in>set executions. ex_job e \<noteq> job" using assms [of job] by auto
  then show ?thesis using None by (auto simp: check_execution_def has_fresh_pass_def fresh_pass_def)
next
  case (Some e)
  then have "e \<in> set executions" "ex_job e = job" using assms [of job e] by simp_all
  moreover have "e' = e" if "e' \<in> set executions" "ex_job e' = job" for e' using assms [of job e'] that Some by simp
  ultimately have "\<exists>!x. x \<in> set executions \<and> ex_job x = job" "e \<in> set executions" "ex_job e = job" by blast+
  then show ?thesis using Some by (auto simp: check_execution_def has_fresh_pass_def fresh_pass_def)
qed

lemma check_challenge_iff:
  assumes "fst ` set (filter (\<lambda>(_, owner). owner \<noteq> rv_id reviewer) external) = needed"
  shows "check_challenge r reviewer external = [] \<longleftrightarrow>
     (rp_round r = Challenge \<longrightarrow> ch_finding_id ` set (rp_responses r) = needed \<and> (\<forall>c\<in>set (rp_responses r). ch_disposition c \<noteq> NeedsTest))"
  unfolding check_challenge_def assms by (auto simp: Let_def list_ex_iff)

lemma Round_label_inj: "Round_label a = Round_label b \<longleftrightarrow> a = b"
  by (cases a; cases b) simp_all

lemma check_review_iff:
  assumes jobs: "\<And>k v. bt_get jobs k = Some v \<longleftrightarrow> v \<in> set executions \<and> ex_job v = k"
    and received: "\<And>k v. bt_get received k = Some v \<longleftrightarrow> v \<in> set reports \<and> report_key v = k"
    and needed: "fst ` set (filter (\<lambda>(_, owner). owner \<noteq> rv_id reviewer) external) = other_findings reports (rv_id reviewer)"
  shows "check_review m jobs received external reviewer round = [] \<longleftrightarrow>
     report_clear reports reviewer round \<and> has_fresh_pass m executions (review_job reviewer round)"
proof (cases "bt_get received (rv_id reviewer, Round_label round)")
  case None
  then have "\<forall>r\<in>set reports. \<not> (rp_reviewer_id r = rv_id reviewer \<and> rp_round r = round)"
    using received [of "(rv_id reviewer, Round_label round)"] by (auto simp: report_key_def)
  then show ?thesis using None by (auto simp: check_review_def report_clear_def)
next
  case (Some r)
  then have r: "r \<in> set reports" "rp_reviewer_id r = rv_id reviewer" "rp_round r = round"
    using received [of "(rv_id reviewer, Round_label round)"] by (auto simp: report_key_def Round_label_inj)
  have "r' = r" if "r' \<in> set reports" "rp_reviewer_id r' = rv_id reviewer" "rp_round r' = round" for r'
    using received [of "(rv_id reviewer, Round_label round)" r'] that Some by (simp add: report_key_def)
  then have "report_clear reports reviewer round \<longleftrightarrow>
      rp_verdict r = NoBlockers \<and> check_challenge r reviewer external = []"
    using r unfolding check_challenge_iff [OF needed] report_clear_def by blast
  then show ?thesis using Some check_execution_iff [OF jobs] by (auto simp: check_review_def)
qed

lemma all_rounds: "(\<forall>round. P round) \<longleftrightarrow> P Independent \<and> P Challenge"
  using Round.exhaust by metis

lemma report_owners:
  assumes "validate_request (mf_request m) = Inr u" "\<forall>r\<in>set reports. is_ok (validate_report m r)"
    "r \<in> set reports" "s \<in> set reports" "f \<in> set (rp_findings r)" "g \<in> set (rp_findings s)" "fd_id f = fd_id g"
  shows "rp_reviewer_id r = rp_reviewer_id s"
proof -
  have ok: "\<exists>u. validate_report m r = Inr u" "\<exists>u. validate_report m s = Inr u" using assms(2-4) by (auto simp: is_ok_iff)
  have "is_identifier x" if "x \<in> rv_id ` set (cr_reviewers (mf_request m))" for x
    using that validate_request_ids [OF assms(1)] by auto
  then have "is_identifier (rp_reviewer_id r)" "is_identifier (rp_reviewer_id s)" using ok validate_report_ids(1) by blast+
  moreover obtain x y where "fd_id f = rp_reviewer_id r @ CHR '':'' # x" "fd_id g = rp_reviewer_id s @ CHR '':'' # y"
    using ok validate_report_ids(2) assms(5,6) by meson
  ultimately show ?thesis using finding_owner [of "rp_reviewer_id r" "rp_reviewer_id s" x y] assms(7) by simp
qed

lemma assess_parts:
  "is_ok (assess m reports executions tree) \<longleftrightarrow>
     is_ok (validate_request (mf_request m)) \<and> (\<forall>r\<in>set reports. is_ok (validate_report m r))
     \<and> distinct (map report_key reports) \<and> distinct (map ex_job executions)"
proof -
  let ?dup = "''duplicate report for reviewer/round''" and ?dupe = "''duplicate execution receipt''"
  have "is_ok (assess m reports executions tree) \<longleftrightarrow>
      is_ok (validate_request (mf_request m)) \<and> is_ok (collect_unique (validate_report m) report_key ?dup reports [])
      \<and> is_ok (collect_unique (\<lambda>_. Inr ()) ex_job ?dupe executions [])"
    unfolding assess_def
    by (cases "validate_request (mf_request m)"; cases "collect_unique (validate_report m) report_key ?dup reports []";
        cases "collect_unique (\<lambda>_. Inr ()) ex_job ?dupe executions []") (simp_all add: Let_def)
  then show ?thesis by (auto simp: collect_unique_ok)
qed

lemma assess_received:
  assumes "assess m reports executions tree = Inr a"
  shows "ca_reports_received a = length reports"
proof -
  obtain received where c: "collect_unique (validate_report m) report_key ''duplicate report for reviewer/round'' reports [] = Inr received"
    "ca_reports_received a = length received"
    using assms by (auto simp: assess_def Let_def res_bind_Inr_iff)
  show ?thesis using collect_unique_result [OF c(1)] c(2) by simp
qed

lemma assess_ready:
  assumes "assess m reports executions tree = Inr a"
  shows "ca_state a = ReadyForHumanReview \<longleftrightarrow> council_clear m reports executions tree"
proof -
  let ?request = "mf_request m" and ?external = "external_of (filter (\<lambda>r. rp_round r = Independent) reports)"
  have ok: "\<exists>u. validate_request ?request = Inr u" "\<forall>r\<in>set reports. is_ok (validate_report m r)"
    using assess_parts [of m reports executions tree] assms by (auto simp: is_ok_iff)
  obtain received jobs where c:
    "collect_unique (validate_report m) report_key ''duplicate report for reviewer/round'' reports [] = Inr received"
    "collect_unique (\<lambda>_. Inr ()) ex_job ''duplicate execution receipt'' executions [] = Inr jobs"
    using assms by (auto simp: assess_def res_bind_Inr_iff)
  have received: "bt_get received k = Some v \<longleftrightarrow> v \<in> set reports \<and> report_key v = k" for k v
    using collect_unique_result [OF c(1)] by (cases k) simp
  have jobs: "bt_get jobs k = Some v \<longleftrightarrow> v \<in> set executions \<and> ex_job v = k" for k v
    using collect_unique_result [OF c(2)] by simp
  have needed: "fst ` set (filter (\<lambda>(_, owner). owner \<noteq> reviewer) ?external) = other_findings reports reviewer" for reviewer
    using ok report_owners by (intro external_needed) blast
  have gates: "set (required_gates m reports) = {gate. gate \<in> set (Gate_required (cr_profile ?request))
      \<or> (\<exists>r\<in>set reports. \<exists>f\<in>set (rp_findings r). gate \<in> set (fd_requested_checks f))}"
    by (auto simp: required_gates_def)
  have lineage: "snd (check_lineage m) = [] \<longleftrightarrow> (\<exists>reviewer\<in>set (cr_reviewers ?request).
      Provider_family (rv_provider reviewer) \<noteq> BuilderFamily_label (cr_builder_family ?request))"
    by (auto simp: check_lineage_def Let_def list_ex_iff)
  have state: "ca_state a = ReadyForHumanReview \<longleftrightarrow> assess_reasons m reports received jobs tree = []"
    using assms ok(1) by (auto simp: assess_def c Let_def split: if_splits)
  have "assess_reasons m reports received jobs tree = [] \<longleftrightarrow>
      tree = mf_source_tree m
      \<and> (\<forall>reviewer\<in>set (cr_reviewers ?request). \<forall>round. check_review m jobs received ?external reviewer round = [])
      \<and> (\<forall>gate\<in>set (required_gates m reports). check_execution m (bt_get jobs (gate_job gate)) (gate_job gate) = [])
      \<and> snd (check_lineage m) = []
      \<and> (\<forall>r\<in>set reports. rp_round r = Independent \<longrightarrow> (\<forall>f\<in>set (rp_findings r). \<not> is_blocking (fd_severity f)))"
    unfolding all_rounds assess_reasons_def Let_def append_is_Nil_conv concat_eq_Nil_conv by (simp add: list_ex_iff) blast
  then show ?thesis
    unfolding state check_review_iff [OF jobs received needed] check_execution_iff [OF jobs] gates lineage council_clear_def is_blocking_iff by simp
qed

end
