(* ===== verification/Council_Claims.thy ===== *)
theory Council_Claims
  imports Council_Props
begin

text \<open>
  The properties of the review council, with a run of two reviewers on which every gate passed.
\<close>

subsection \<open>A clear run\<close>

definition sample_request :: Request where
  "sample_request =
     \<lparr>cr_repository = ''r'', cr_analysis_file = ''a'', cr_decision_file = ''d'', cr_context_files = [],
      cr_builder_family = BfOpenai, cr_profile = Roster,
      cr_reviewers = [\<lparr>rv_id = ''c'', rv_provider = Codex, rv_model = None, rv_persona = General\<rparr>,
                      \<lparr>rv_id = ''k'', rv_provider = ClaudeCode, rv_model = Some ''m'', rv_persona = Security\<rparr>],
      cr_mutation_package = ''p'', cr_mutation_base = None, cr_fuzz_targets = [''f''],
      cr_timeout_seconds = 60, cr_fuzz_seconds = 60\<rparr>"

definition sample_manifest :: Manifest where
  "sample_manifest =
     \<lparr>mf_schema = ''s'', mf_run_id = ''run'', mf_review_id = ''v'', mf_source_tree = ''t'', mf_request = sample_request,
      mf_artifacts = [\<lparr>ar_id = ''x'', ar_label = ''l'', ar_sha256 = '''', ar_text = ''one''\<rparr>], mf_mutation_diff_sha256 = None\<rparr>"

definition sample_finding :: Finding where
  "sample_finding =
     \<lparr>fd_id = ''c:1'', fd_severity = Low, fd_claim = ''q'', fd_citations = [\<lparr>ci_artifact_id = ''x'', ci_start_line = 1, ci_end_line = 1\<rparr>],
      fd_falsifier = ''w'', fd_requested_checks = [GtTests]\<rparr>"

definition sample_report :: "string \<Rightarrow> Round \<Rightarrow> Finding list \<Rightarrow> ChallengeResponse list \<Rightarrow> Report" where
  "sample_report reviewer round findings responses =
     \<lparr>rp_run_id = ''run'', rp_reviewer_id = reviewer, rp_round = round, rp_verdict = NoBlockers, rp_summary = ''s'',
      rp_findings = findings, rp_responses = responses\<rparr>"

definition sample_reports :: "Report list" where
  "sample_reports =
     [sample_report ''c'' Independent [sample_finding] [], sample_report ''k'' Independent [] [],
      sample_report ''c'' Challenge [] [],
      sample_report ''k'' Challenge [] [\<lparr>ch_finding_id = ''c:1'', ch_disposition = Concur, ch_rationale = ''y''\<rparr>]]"

definition sample_execution :: "string \<Rightarrow> Execution" where
  "sample_execution job =
     \<lparr>ex_run_id = ''run'', ex_job = job, ex_source_tree_before = ''t'', ex_source_tree_after = ''t'', ex_outcome = Passed,
      ex_exit_code = Some 0, ex_elapsed_ms = 1, ex_argv = [], ex_stdout_sha256 = '''', ex_stderr_sha256 = '''', ex_image_id = None\<rparr>"

definition sample_executions :: "Execution list" where
  "sample_executions =
     map sample_execution
       ([review_job r round. r \<leftarrow> cr_reviewers sample_request, round \<leftarrow> [Independent, Challenge]]
        @ map gate_job (Gate_required Roster))"

lemma sample_assessed: "is_ok (assess sample_manifest sample_reports sample_executions ''t'')"
  by code_simp

lemma sample_ready:
  "assess sample_manifest sample_reports sample_executions ''t'' =
     Inr \<lparr>ca_run_id = ''run'', ca_state = ReadyForHumanReview, ca_reasons = [], ca_reports_received = 4, ca_reports_expected = 4,
          ca_provider_families = [''anthropic'', ''openai''], ca_decision_owner = ''human''\<rparr>"
  by code_simp

subsection \<open>The properties\<close>

text \<open>C21: the council fails closed: an assessment says a run is ready for human review exactly when the workspace
  is the sealed one, every reviewer of the roster has a report of both rounds with no blockers, each
  challenge answers exactly the other reviewers' findings and asks for no test, every review job and
  every required or requested gate has a fresh passing receipt of this run, a reviewer is of another
  family than the builder, and no independent finding is high or critical.\<close>

theorem council_ready_refines_spec:
  assumes "assess manifest reports executions current_tree = Inr a"
  shows "ca_state a = ReadyForHumanReview \<longleftrightarrow> council_clear manifest reports executions current_tree"
  by (rule assess_ready [OF assms])

theorem council_ready_refines_spec_witness:
  "council_clear sample_manifest sample_reports sample_executions ''t''"
  using council_ready_refines_spec [OF sample_ready] by simp

text \<open>No report or receipt is dropped silently: the assessment is refused unless the request is valid, every
  report is valid, no reviewer reported twice in a round and no job has two receipts; otherwise it is made,
  and it counts every report.\<close>

theorem council_refuses_or_counts_all:
  "(is_ok (assess manifest reports executions current_tree) \<longleftrightarrow>
      is_ok (validate_request (mf_request manifest)) \<and> list_all (\<lambda>r. is_ok (validate_report manifest r)) reports
      \<and> distinct (map report_key reports) \<and> distinct (map ex_job executions))
   \<and> (case assess manifest reports executions current_tree of
        Inl message \<Rightarrow> True | Inr a \<Rightarrow> ca_reports_received a = length reports)"
  using assess_parts [of manifest reports executions current_tree] assess_received [of manifest reports executions current_tree]
  by (auto simp: list_all_iff split: sum.splits)

end
