(* ===== verification/Projection.thy ===== *)
theory Projection
  imports Core_Model Core_Text Std_Text
begin

text \<open>
  The text projections of a review, deep-diff-forge-projection: the cell geometry of width.rs, the notes of
  notes.rs, and the inline and side-by-side layouts. Grapheme segmentation and display widths come from the
  unicode-segmentation and unicode-width crates, so they are the parameter \<open>u\<close>; \<open>unicode_ok\<close> collects what
  the geometry relies on. A subtraction that would panic makes the result \<open>None\<close>.
\<close>

record Unicode =
  un_graphemes :: "string \<Rightarrow> string list"
  un_width :: "string \<Rightarrow> nat"
  un_char_width :: "nat \<Rightarrow> nat option"

subsection \<open>Cells\<close>

definition cell_width :: "Unicode \<Rightarrow> string \<Rightarrow> nat" where
  "cell_width u s = un_width u s"

definition expand_tabs :: "string \<Rightarrow> string" where
  "expand_tabs s = (if TAB \<in> set s then concat (map (\<lambda>c. if c = TAB then ''    '' else [c]) s) else s)"

fun clip_loop :: "Unicode \<Rightarrow> nat \<Rightarrow> string list \<Rightarrow> string \<Rightarrow> nat \<Rightarrow> string" where
  "clip_loop u width [] out used = out"
| "clip_loop u width (g # gs) out used =
     (if width < used + cell_width u g then out else clip_loop u width gs (out @ g) (used + cell_width u g))"

definition clip_cells :: "Unicode \<Rightarrow> string \<Rightarrow> nat \<Rightarrow> string" where
  "clip_cells u s width = clip_loop u width (un_graphemes u (expand_tabs s)) [] 0"

definition fit_cells :: "Unicode \<Rightarrow> string \<Rightarrow> nat \<Rightarrow> string option" where
  "fit_cells u s width =
     (let out = clip_cells u s width; used = cell_width u out in
      if used \<le> width then Some (out @ replicate (width - used) SPACE) else None)"

fun wrap_loop :: "Unicode \<Rightarrow> nat \<Rightarrow> string list \<Rightarrow> string list \<Rightarrow> string \<Rightarrow> nat \<Rightarrow> string list" where
  "wrap_loop u width [] result line used = (if line \<noteq> [] \<or> result = [] then result @ [line] else result)"
| "wrap_loop u width (g # gs) result line used =
     (let cells = cell_width u g;
          wraps = width < used + cells \<and> line \<noteq> [];
          result1 = (if wraps then result @ [line] else result);
          line1 = (if wraps then [] else line);
          used1 = (if wraps then 0 else used) in
      if width < cells then wrap_loop u width gs result1 (line1 @ ''?'') (used1 + 1)
      else wrap_loop u width gs result1 (line1 @ g) (used1 + cells))"

definition wrap_cells :: "Unicode \<Rightarrow> string \<Rightarrow> nat \<Rightarrow> string list" where
  "wrap_cells u s width = wrap_loop u (max width 1) (un_graphemes u (expand_tabs s)) [] [] 0"

subsection \<open>Notes\<close>

definition LOSSY :: string where
  "LOSSY = BACKSLASH # '' non-UTF-8 line, shown lossily''"

definition NO_NEWLINE :: string where
  "NO_NEWLINE = BACKSLASH # '' No newline at end of file''"

definition RENDERS_ALIKE :: string where
  "RENDERS_ALIKE = BACKSLASH # '' differs from its pair only in bytes shown alike''"

definition line_notes :: "bool \<Rightarrow> bool \<Rightarrow> string list" where
  "line_notes lossy no_newline = (if lossy then [LOSSY] else []) @ (if no_newline then [NO_NEWLINE] else [])"

definition TAB_STOP :: nat where
  "TAB_STOP = 8"

definition is_space_separator :: "nat \<Rightarrow> bool" where
  "is_space_separator c \<longleftrightarrow>
     c = 0x20 \<or> c = 0xA0 \<or> c = 0x1680 \<or> (0x2000 \<le> c \<and> c \<le> 0x200A) \<or> c = 0x202F \<or> c = 0x205F \<or> c = 0x3000"

definition seen :: "Unicode \<Rightarrow> string \<Rightarrow> string" where
  "seen u cells =
     trim_end_char SPACE
       (concat (map (\<lambda>c. if is_space_separator c
                         then replicate (case un_char_width u c of Some w \<Rightarrow> w | None \<Rightarrow> 1) SPACE
                         else utf8_encode c) (chars cells)))"

definition renders_alike :: "Unicode \<Rightarrow> string \<Rightarrow> string \<Rightarrow> (string \<Rightarrow> string option) \<Rightarrow> bool option" where
  "renders_alike u old new show_cells =
     (if old = new then Some False
      else Option.bind (show_cells old) (\<lambda>a. Option.bind (show_cells new) (\<lambda>b. Some (seen u a = seen u b))))"

fun inline_loop :: "Unicode \<Rightarrow> string list \<Rightarrow> string \<Rightarrow> nat \<Rightarrow> string" where
  "inline_loop u [] out at = out"
| "inline_loop u (g # gs) out at =
     (if g = [TAB]
      then (let advance = TAB_STOP - at mod TAB_STOP in inline_loop u gs (out @ replicate advance SPACE) (at + advance))
      else inline_loop u gs (out @ g) (at + cell_width u g))"

definition inline_shown :: "Unicode \<Rightarrow> string \<Rightarrow> nat \<Rightarrow> string" where
  "inline_shown u s column = inline_loop u (un_graphemes u (display_safe s)) [] column"

definition side_shown :: "Unicode \<Rightarrow> string \<Rightarrow> nat \<Rightarrow> string option" where
  "side_shown u s width = fit_cells u (display_safe s) width"

definition line_numbers :: "ReviewFile \<Rightarrow> nat list" where
  "line_numbers f =
     List.map_filter (\<lambda>n. n)
       (concat (map (\<lambda>l. [pl_old_line l, pl_new_line l]) (concat (map ph_lines (pt_hunks (rf_patch_twin f))))))"

definition gutter_width :: "ReviewFile \<Rightarrow> nat" where
  "gutter_width f =
     (if line_numbers f = [] then 4 else max (length (show_nat (Max (set (line_numbers f))))) 4)"

subsection \<open>The inline layout\<close>

record InlineRow =
  ir_old_line :: "nat option"
  ir_new_line :: "nat option"
  ir_marker :: char
  ir_text :: string
  ir_lossy :: bool
  ir_no_newline :: bool

definition inline_row :: "PatchLine \<Rightarrow> InlineRow" where
  "inline_row l =
     \<lparr>ir_old_line = pl_old_line l, ir_new_line = pl_new_line l, ir_marker = line_marker (pl_kind l), ir_text = pl_text l,
      ir_lossy = pl_lossy l, ir_no_newline = pl_no_newline l\<rparr>"

definition inline_rows :: "ReviewFile \<Rightarrow> InlineRow list" where
  "inline_rows f = concat (map (\<lambda>h. map inline_row (ph_lines h)) (pt_hunks (rf_patch_twin f)))"

text \<open>\<open>format!("{n:>width$}")\<close>.\<close>

definition pad_left :: "nat \<Rightarrow> string \<Rightarrow> string" where
  "pad_left width s = replicate (width - length s) SPACE @ s"

definition num :: "nat option \<Rightarrow> nat \<Rightarrow> string" where
  "num value width = (case value of None \<Rightarrow> replicate width SPACE | Some n \<Rightarrow> pad_left width (show_nat n))"

text \<open>The loop of \<open>pairs\<close>, from line \<open>i\<close> on: the removed lines of the current block, the next one to pair
  with, and the kind of the previous line.\<close>

fun pairs_loop :: "nat \<Rightarrow> PatchLine list \<Rightarrow> nat list \<Rightarrow> nat \<Rightarrow> PatchLineKind \<Rightarrow> nat option list" where
  "pairs_loop i [] removed next_pair previous = []"
| "pairs_loop i (l # ls) removed next_pair previous =
     (case pl_kind l of
        LkRemoved \<Rightarrow>
          None # pairs_loop (i + 1) ls ((if previous \<noteq> LkRemoved then [] else removed) @ [i]) next_pair LkRemoved
      | LkAdded \<Rightarrow>
          (let k = (if previous \<noteq> LkAdded then 0 else next_pair) in
           nth_get removed k # pairs_loop (i + 1) ls removed (k + 1) LkAdded)
      | LkContext \<Rightarrow> None # pairs_loop (i + 1) ls [] next_pair LkContext)"

definition pairs :: "PatchLine list \<Rightarrow> nat option list" where
  "pairs ls = pairs_loop 0 ls [] 0 LkContext"

definition inline_line :: "Unicode \<Rightarrow> nat \<Rightarrow> PatchLine list \<Rightarrow> PatchLine \<times> nat option \<Rightarrow> string" where
  "inline_line u width ls = (\<lambda>(l, pair).
     (let column = 2 * width + 6;
          alike = (case pair of
             None \<Rightarrow> False
           | Some r \<Rightarrow> renders_alike u (pl_text (ls ! r)) (pl_text l) (\<lambda>t. Some (inline_shown u t column)) = Some True) in
      ''  '' @ num (pl_old_line l) width @ '' '' @ num (pl_new_line l) width @ '' '' @ [line_marker (pl_kind l)] @ '' ''
        @ display_safe (pl_text l) @ [LF]
        @ concat (map (\<lambda>note. ''  '' @ replicate (2 * width + 1) SPACE @ '' '' @ note @ [LF])
            (line_notes (pl_lossy l) (pl_no_newline l) @ (if alike then [RENDERS_ALIKE] else [])))))"

definition inline_hunk :: "Unicode \<Rightarrow> nat \<Rightarrow> PatchHunk \<Rightarrow> string" where
  "inline_hunk u width h =
     ''  @@ -'' @ show_nat (case ph_old_start h of Some n \<Rightarrow> n | None \<Rightarrow> 0) @ '' +''
       @ show_nat (case ph_new_start h of Some n \<Rightarrow> n | None \<Rightarrow> 0) @ '' @@'' @ [LF]
     @ concat (map (inline_line u width (ph_lines h)) (zip (ph_lines h) (pairs (ph_lines h))))"

definition file_header :: "ReviewFile \<Rightarrow> string" where
  "file_header f = FileStatus_label (rf_status f) @ ''  '' @ display_safe (rf_path f) @ [LF]"

definition render_inline :: "Unicode \<Rightarrow> ReviewFile list \<Rightarrow> string" where
  "render_inline u files =
     concat (map (\<lambda>f. file_header f @ concat (map (inline_hunk u (gutter_width f)) (pt_hunks (rf_patch_twin f)))) files)"

subsection \<open>The side-by-side layout\<close>

record SideCell =
  sc_line :: nat
  sc_marker :: char
  sc_text :: string
  sc_lossy :: bool
  sc_no_newline :: bool

record SideRow =
  sr_left :: "SideCell option"
  sr_right :: "SideCell option"

definition cell :: "PatchLine \<Rightarrow> char \<Rightarrow> SideCell" where
  "cell l marker =
     \<lparr>sc_line = (case (if marker = CHR ''-'' then pl_old_line l else pl_new_line l) of Some n \<Rightarrow> n | None \<Rightarrow> 0),
      sc_marker = marker, sc_text = pl_text l, sc_lossy = pl_lossy l, sc_no_newline = pl_no_newline l\<rparr>"

definition context_row :: "PatchLine \<Rightarrow> SideRow" where
  "context_row l =
     \<lparr>sr_left = Some ((cell l SPACE)\<lparr>sc_line := (case pl_old_line l of Some n \<Rightarrow> n | None \<Rightarrow> 0)\<rparr>),
      sr_right = Some (cell l SPACE)\<rparr>"

definition block_rows :: "PatchLine list \<Rightarrow> PatchLine list \<Rightarrow> SideRow list" where
  "block_rows removed added =
     map (\<lambda>k. \<lparr>sr_left = map_option (\<lambda>l. cell l CHR ''-'') (nth_get removed k),
               sr_right = map_option (\<lambda>l. cell l CHR ''+'') (nth_get added k)\<rparr>)
       [0..<max (length removed) (length added)]"

text \<open>The inner loops gather the run of lines of one kind that starts at \<open>i\<close>.\<close>

definition run_from :: "PatchLineKind \<Rightarrow> PatchLine list \<Rightarrow> nat \<Rightarrow> PatchLine list" where
  "run_from kind ls i = takeWhile (\<lambda>l. pl_kind l = kind) (drop i ls)"

partial_function (option) side_loop :: "PatchLine list \<Rightarrow> nat \<Rightarrow> SideRow list \<Rightarrow> SideRow list option" where
  "side_loop ls i rows =
     (if i < length ls then
        if pl_kind (ls ! i) = LkContext then side_loop ls (i + 1) (rows @ [context_row (ls ! i)])
        else side_loop ls (i + length (run_from LkRemoved ls i) + length (run_from LkAdded ls (i + length (run_from LkRemoved ls i))))
               (rows @ block_rows (run_from LkRemoved ls i) (run_from LkAdded ls (i + length (run_from LkRemoved ls i))))
      else Some rows)"

fun side_hunks :: "PatchHunk list \<Rightarrow> SideRow list \<Rightarrow> SideRow list option" where
  "side_hunks [] rows = Some rows"
| "side_hunks (h # hs) rows = Option.bind (side_loop (ph_lines h) 0 rows) (side_hunks hs)"

definition side_rows :: "ReviewFile \<Rightarrow> SideRow list option" where
  "side_rows f = side_hunks (pt_hunks (rf_patch_twin f)) []"

definition fmt_cell :: "Unicode \<Rightarrow> SideCell option \<Rightarrow> nat \<Rightarrow> nat \<Rightarrow> string option" where
  "fmt_cell u c gutter width =
     (case c of
        Some c \<Rightarrow>
          map_option (\<lambda>body. pad_left gutter (show_nat (sc_line c)) @ '' '' @ [sc_marker c] @ '' '' @ body) (side_shown u (sc_text c) width)
      | None \<Rightarrow> map_option (\<lambda>body. pad_left gutter [] @ ''   '' @ body) (side_shown u [] width))"

definition fmt_note :: "Unicode \<Rightarrow> string option \<Rightarrow> nat \<Rightarrow> nat \<Rightarrow> string option" where
  "fmt_note u note gutter width =
     map_option (\<lambda>body. pad_left gutter [] @ '' '' @ body) (fit_cells u (case note of Some n \<Rightarrow> n | None \<Rightarrow> []) (width + 2))"

definition flag_note :: "SideRow \<Rightarrow> string \<Rightarrow> (SideCell \<Rightarrow> bool) \<Rightarrow> (string option \<times> string option) list" where
  "flag_note row note flag =
     (let l = opt_is_some_and flag (sr_left row); r = opt_is_some_and flag (sr_right row) in
      if l \<or> r then [(if l then Some note else None, if r then Some note else None)] else [])"

definition note_rows :: "Unicode \<Rightarrow> SideRow \<Rightarrow> nat \<Rightarrow> (string option \<times> string option) list option" where
  "note_rows u row width =
     map_option (\<lambda>alike. flag_note row LOSSY sc_lossy @ flag_note row NO_NEWLINE sc_no_newline
                         @ (if alike then [(Some RENDERS_ALIKE, Some RENDERS_ALIKE)] else []))
       (case (sr_left row, sr_right row) of
          (Some l, Some r) \<Rightarrow> renders_alike u (sc_text l) (sc_text r) (\<lambda>t. side_shown u t width)
        | _ \<Rightarrow> Some False)"

definition join_row :: "string option \<Rightarrow> string option \<Rightarrow> string option" where
  "join_row l r = Option.bind l (\<lambda>a. map_option (\<lambda>b. a @ '' | '' @ b @ [LF]) r)"

definition side_row_lines :: "Unicode \<Rightarrow> nat \<Rightarrow> nat \<Rightarrow> SideRow \<Rightarrow> string option" where
  "side_row_lines u gutter width row =
     Option.bind (join_row (fmt_cell u (sr_left row) gutter width) (fmt_cell u (sr_right row) gutter width)) (\<lambda>line.
     Option.bind (note_rows u row width) (\<lambda>notes.
     map_option (\<lambda>shown. line @ concat shown)
       (those (map (\<lambda>(l, r). join_row (fmt_note u l gutter width) (fmt_note u r gutter width)) notes))))"

definition render_side_by_side :: "Unicode \<Rightarrow> ReviewFile list \<Rightarrow> nat \<Rightarrow> string option" where
  "render_side_by_side u files width =
     map_option concat (those (map (\<lambda>f.
       Option.bind (side_rows f) (\<lambda>rows.
         map_option (\<lambda>shown. file_header f @ concat shown) (those (map (side_row_lines u (gutter_width f) width) rows)))) files))"

subsection \<open>Options\<close>

definition DEFAULT_SIDE_WIDTH :: nat where
  "DEFAULT_SIDE_WIDTH = 60"

datatype Layout = Inline | SideBySide

record ProjectionOptions =
  po_layout :: Layout
  po_side_width :: nat

definition ProjectionOptions_default :: ProjectionOptions where
  "ProjectionOptions_default = \<lparr>po_layout = Inline, po_side_width = DEFAULT_SIDE_WIDTH\<rparr>"

definition render :: "Unicode \<Rightarrow> ReviewFile list \<Rightarrow> ProjectionOptions \<Rightarrow> string option" where
  "render u files options =
     (case po_layout options of
        Inline \<Rightarrow> Some (render_inline u files)
      | SideBySide \<Rightarrow> render_side_by_side u files (po_side_width options))"

definition layout_from_str :: "string \<Rightarrow> Layout option" where
  "layout_from_str name =
     (if name = ''inline'' then Some Inline
      else if name = ''side-by-side'' \<or> name = ''split'' then Some SideBySide else None)"

end
