(* ===== verification/Projection_Props.thy ===== *)
theory Projection_Props
  imports Projection
begin

text \<open>
  The layouts show every line once and pair the same lines: the loop of the side-by-side layout ends and its
  rows are those of a recursion over change blocks; the inline layout's pairs are the two-sided rows of a
  block. The geometry: under \<open>unicode_ok\<close> a fitted cell has exactly its width and nothing panics.
\<close>

subsection \<open>Change blocks\<close>

abbreviation is_kind :: "PatchLineKind \<Rightarrow> PatchLine \<Rightarrow> bool" where
  "is_kind k l \<equiv> pl_kind l = k"

lemma blocks_shorter:
  assumes "pl_kind l \<noteq> LkContext"
  shows "length (dropWhile (is_kind LkAdded) (dropWhile (is_kind LkRemoved) (l # ls))) < Suc (length ls)"
proof (cases "pl_kind l")
  case LkContext
  then show ?thesis using assms by simp
next
  case LkAdded
  then show ?thesis using length_dropWhile_le [of "is_kind LkAdded" ls] by simp
next
  case LkRemoved
  then show ?thesis
    using length_dropWhile_le [of "is_kind LkAdded" "dropWhile (is_kind LkRemoved) ls"] length_dropWhile_le [of "is_kind LkRemoved" ls]
    by simp
qed

function block_spec :: "PatchLine list \<Rightarrow> SideRow list" where
  "block_spec [] = []"
| "block_spec (l # ls) =
     (if pl_kind l = LkContext then context_row l # block_spec ls
      else (let removed = takeWhile (is_kind LkRemoved) (l # ls); later = dropWhile (is_kind LkRemoved) (l # ls) in
            block_rows removed (takeWhile (is_kind LkAdded) later) @ block_spec (dropWhile (is_kind LkAdded) later)))"
  by pat_completeness auto

termination
  by (relation "measure length") (use blocks_shorter in \<open>auto simp: Let_def\<close>)

declare block_spec.simps(2) [simp del]

lemma block_spec_context: "pl_kind l = LkContext \<Longrightarrow> block_spec (l # ls) = context_row l # block_spec ls"
  by (simp add: block_spec.simps(2))

lemma block_spec_change:
  assumes "ls \<noteq> []" "pl_kind (hd ls) \<noteq> LkContext"
  shows "block_spec ls =
    block_rows (takeWhile (is_kind LkRemoved) ls) (takeWhile (is_kind LkAdded) (dropWhile (is_kind LkRemoved) ls))
    @ block_spec (dropWhile (is_kind LkAdded) (dropWhile (is_kind LkRemoved) ls))"
  using assms by (cases ls) (simp_all add: block_spec.simps(2) Let_def)

text \<open>An induction over the blocks of a list of lines.\<close>

lemma blocks_induct [consumes 0, case_names Nil Context Change]:
  assumes "P []"
    and "\<And>l ls. pl_kind l = LkContext \<Longrightarrow> P ls \<Longrightarrow> P (l # ls)"
    and "\<And>ls. \<lbrakk>ls \<noteq> []; pl_kind (hd ls) \<noteq> LkContext; P (dropWhile (is_kind LkAdded) (dropWhile (is_kind LkRemoved) ls))\<rbrakk> \<Longrightarrow> P ls"
  shows "P ls"
proof (induction ls rule: block_spec.induct)
  case (2 l ls)
  show ?case
  proof (cases "pl_kind l = LkContext")
    case False
    then have "P (dropWhile (is_kind LkAdded) (dropWhile (is_kind LkRemoved) (l # ls)))" using 2(2) by (simp add: Let_def)
    then show ?thesis using assms(3) [of "l # ls"] False by simp
  qed (use assms(2) 2(1) in blast)
qed (rule assms(1))

lemma run_from_drop: "run_from k ls i = takeWhile (is_kind k) (drop i ls)"
  by (simp add: run_from_def)

lemma drop_run: "drop (i + length (run_from k ls i)) ls = dropWhile (is_kind k) (drop i ls)"
  unfolding run_from_def dropWhile_eq_drop by (simp add: add.commute)

lemma side_loop_blocks: "i \<le> length ls \<Longrightarrow> side_loop ls i rows = Some (rows @ block_spec (drop i ls))"
proof (induction "length ls - i" arbitrary: i rows rule: less_induct)
  case less
  show ?case
  proof (cases "i < length ls")
    case False
    then show ?thesis using less(2) by (subst side_loop.simps) simp
  next
    case True
    then have d: "drop i ls = ls ! i # drop (Suc i) ls" by (simp add: Cons_nth_drop_Suc)
    show ?thesis
    proof (cases "pl_kind (ls ! i) = LkContext")
      case ctx: True
      have "side_loop ls (i + 1) (rows @ [context_row (ls ! i)]) = Some ((rows @ [context_row (ls ! i)]) @ block_spec (drop (i + 1) ls))"
        using less(1) [of "i + 1"] True by auto
      then show ?thesis using True ctx d by (subst side_loop.simps) (simp add: block_spec_context)
    next
      case False
      let ?removed = "run_from LkRemoved ls i"
      let ?j = "i + length ?removed"
      let ?added = "run_from LkAdded ls ?j"
      let ?k = "?j + length ?added"
      have rest: "drop ?j ls = dropWhile (is_kind LkRemoved) (drop i ls)"
        "drop ?k ls = dropWhile (is_kind LkAdded) (dropWhile (is_kind LkRemoved) (drop i ls))"
        by (simp_all add: drop_run)
      have shorter: "length (drop ?k ls) < length (drop i ls)"
        using blocks_shorter [OF False, of "drop (Suc i) ls"] rest(2) d by simp
      then have "i < ?k" "?k \<le> length ls"
        using length_takeWhile_le [of "is_kind LkAdded" "drop ?j ls"] length_takeWhile_le [of "is_kind LkRemoved" "drop i ls"] True
        by (auto simp: run_from_def)
      then have "side_loop ls ?k (rows @ block_rows ?removed ?added) = Some ((rows @ block_rows ?removed ?added) @ block_spec (drop ?k ls))"
        by (intro less(1)) (use True in linarith)+
      moreover have "block_spec (drop i ls) = block_rows ?removed ?added @ block_spec (drop ?k ls)"
        using block_spec_change [of "drop i ls"] False d rest by (simp add: run_from_drop)
      ultimately show ?thesis using True False by (subst side_loop.simps) simp
    qed
  qed
qed

lemma side_hunks_blocks: "side_hunks hs rows = Some (rows @ concat (map (\<lambda>h. block_spec (ph_lines h)) hs))"
  by (induction hs arbitrary: rows) (simp_all add: side_loop_blocks)

subsection \<open>Every line is shown on its side\<close>

definition old_cell :: "PatchLine \<Rightarrow> SideCell" where
  "old_cell l =
     \<lparr>sc_line = (case pl_old_line l of Some n \<Rightarrow> n | None \<Rightarrow> 0), sc_marker = line_marker (pl_kind l), sc_text = pl_text l,
      sc_lossy = pl_lossy l, sc_no_newline = pl_no_newline l\<rparr>"

definition new_cell :: "PatchLine \<Rightarrow> SideCell" where
  "new_cell l =
     \<lparr>sc_line = (case pl_new_line l of Some n \<Rightarrow> n | None \<Rightarrow> 0), sc_marker = line_marker (pl_kind l), sc_text = pl_text l,
      sc_lossy = pl_lossy l, sc_no_newline = pl_no_newline l\<rparr>"

lemma map_filter_append: "List.map_filter f (xs @ ys) = List.map_filter f xs @ List.map_filter f ys"
  by (simp add: map_filter_def)

lemma map_filter_some: "\<forall>x\<in>set xs. f x = Some (g x) \<Longrightarrow> List.map_filter f xs = map g xs"
  by (induction xs) (auto simp: map_filter_simps)

lemma map_filter_none: "\<forall>x\<in>set xs. f x = None \<Longrightarrow> List.map_filter f xs = []"
  by (induction xs) (auto simp: map_filter_simps)

lemma map_filter_map_list: "List.map_filter f (map g xs) = List.map_filter (\<lambda>x. f (g x)) xs"
  by (induction xs) (auto simp: map_filter_simps split: option.splits)

lemma map_map_filter: "map h (List.map_filter f xs) = List.map_filter (\<lambda>x. map_option h (f x)) xs"
  by (induction xs) (auto simp: map_filter_simps split: option.splits)

lemma map_filter_get:
  assumes "length xs \<le> n"
  shows "List.map_filter (\<lambda>k. map_option f (nth_get xs k)) [0..<n] = map f xs"
proof -
  have "List.map_filter (\<lambda>k. map_option f (nth_get xs k)) [0..<length xs] = map (\<lambda>k. f (xs ! k)) [0..<length xs]"
    by (rule map_filter_some) (simp add: nth_get_def)
  moreover have "List.map_filter (\<lambda>k. map_option f (nth_get xs k)) [length xs..<n] = []"
    by (rule map_filter_none) (simp add: nth_get_def)
  moreover have "[0..<n] = [0..<length xs] @ [length xs..<n]" using upt_add_eq_append [of 0 "length xs" "n - length xs"] assms by simp
  moreover have "map (\<lambda>k. f (xs ! k)) [0..<length xs] = map f xs" by (rule nth_equalityI) simp_all
  ultimately show ?thesis by (simp add: map_filter_append)
qed

lemma block_sides:
  "List.map_filter sr_left (block_rows removed added) = map (\<lambda>l. cell l CHR ''-'') removed"
  "List.map_filter sr_right (block_rows removed added) = map (\<lambda>l. cell l CHR ''+'') added"
  by (simp_all add: block_rows_def map_filter_map_list map_filter_get)

lemma old_new_cells:
  "pl_kind l = LkRemoved \<Longrightarrow> cell l CHR ''-'' = old_cell l" "pl_kind l = LkAdded \<Longrightarrow> cell l CHR ''+'' = new_cell l"
  "pl_kind l = LkContext \<Longrightarrow> context_row l = \<lparr>sr_left = Some (old_cell l), sr_right = Some (new_cell l)\<rparr>"
  by (simp_all add: cell_def old_cell_def new_cell_def context_row_def)

lemma takeWhile_side:
  "\<forall>l\<in>set (takeWhile (is_kind k) ls). pl_kind l = k"
  by (metis set_takeWhileD)

lemma sides_of_kind:
  assumes "\<forall>l\<in>set ls. pl_kind l = k"
  shows "old_side ls = (if k = LkAdded then [] else ls)" "new_side ls = (if k = LkRemoved then [] else ls)"
  using assms by (auto simp: old_side_def new_side_def is_old_side_def is_new_side_def)

lemma block_spec_sides:
  "List.map_filter sr_left (block_spec ls) = map old_cell (old_side ls)
   \<and> List.map_filter sr_right (block_spec ls) = map new_cell (new_side ls)"
proof (induction ls rule: blocks_induct)
  case Nil
  show ?case by (simp add: map_filter_simps)
next
  case (Context l ls)
  then show ?case by (simp add: block_spec_context old_new_cells map_filter_simps)
next
  case (Change ls)
  let ?removed = "takeWhile (is_kind LkRemoved) ls" and ?added = "takeWhile (is_kind LkAdded) (dropWhile (is_kind LkRemoved) ls)"
  let ?rest = "dropWhile (is_kind LkAdded) (dropWhile (is_kind LkRemoved) ls)"
  have k: "\<forall>l\<in>set ?removed. pl_kind l = LkRemoved" "\<forall>l\<in>set ?added. pl_kind l = LkAdded" by (rule takeWhile_side)+
  have c: "map (\<lambda>l. cell l CHR ''-'') ?removed = map old_cell ?removed" "map (\<lambda>l. cell l CHR ''+'') ?added = map new_cell ?added"
    using k old_new_cells(1,2) by (intro map_cong refl; blast)+
  have "old_side ls = old_side (?removed @ ?added @ ?rest)" "new_side ls = new_side (?removed @ ?added @ ?rest)"
    by (simp_all only: takeWhile_dropWhile_id)
  then have "old_side ls = ?removed @ old_side ?rest" "new_side ls = ?added @ new_side ?rest"
    unfolding side_simps(5,6) sides_of_kind [OF k(1)] sides_of_kind [OF k(2)] by simp_all
  then show ?case
    using Change(3) block_spec_change [OF Change(1,2)] c by (simp add: map_filter_append block_sides)
qed

subsection \<open>The two layouts pair the same lines\<close>

lemma upt_first: "[i..<Suc (i + n)] = i # [Suc i..<Suc (i + n)]" "[0..<Suc n] = 0 # [Suc 0..<Suc n]"
  by (simp_all add: upt_conv_Cons del: upt_Suc)

lemma pairs_removed_run:
  "\<forall>l\<in>set rs. pl_kind l = LkRemoved \<Longrightarrow>
   pairs_loop i (rs @ ls) removed n LkRemoved = replicate (length rs) None @ pairs_loop (i + length rs) ls (removed @ [i..<i + length rs]) n LkRemoved"
  by (induction rs arbitrary: i removed) (simp_all add: upt_first del: upt_Suc)

lemma pairs_removed:
  assumes "\<forall>l\<in>set rs. pl_kind l = LkRemoved" "rs \<noteq> []" "previous \<noteq> LkRemoved"
  shows "pairs_loop i (rs @ ls) removed n previous =
    replicate (length rs) None @ pairs_loop (i + length rs) ls [i..<i + length rs] n LkRemoved"
  using assms pairs_removed_run [of "tl rs" "Suc i" ls "[i]" n]
  by (cases rs) (simp_all add: upt_first del: upt_Suc)

lemma pairs_added_run:
  "\<forall>l\<in>set as. pl_kind l = LkAdded \<Longrightarrow>
   pairs_loop i (as @ ls) removed n LkAdded =
     map (\<lambda>k. nth_get removed k) [n..<n + length as] @ pairs_loop (i + length as) ls removed (n + length as) LkAdded"
  by (induction as arbitrary: i n) (simp_all add: upt_first del: upt_Suc)

lemma pairs_added:
  assumes "\<forall>l\<in>set as. pl_kind l = LkAdded" "as \<noteq> []" "previous \<noteq> LkAdded"
  shows "pairs_loop i (as @ ls) removed n previous =
    map (\<lambda>k. nth_get removed k) [0..<length as] @ pairs_loop (i + length as) ls removed (length as) LkAdded"
  using assms pairs_added_run [of "tl as" "Suc i" ls removed 1]
  by (cases as) (simp_all add: upt_first del: upt_Suc)

text \<open>The pairs of the inline layout as pairs of lines, in order, and those of a row with both sides changed.\<close>

definition line_pairs :: "PatchLine list \<Rightarrow> nat \<Rightarrow> nat option list \<Rightarrow> (PatchLine \<times> PatchLine) list" where
  "line_pairs ls i ps = List.map_filter (\<lambda>(j, p). map_option (\<lambda>r. (ls ! r, ls ! j)) p) (zip [i..<i + length ps] ps)"

definition changed_pair :: "SideRow \<Rightarrow> (SideCell \<times> SideCell) option" where
  "changed_pair row =
     (case (sr_left row, sr_right row) of
        (Some l, Some r) \<Rightarrow> if sc_marker r = CHR ''+'' then Some (l, r) else None
      | _ \<Rightarrow> None)"

lemma line_pairs_append: "line_pairs ls i (ps @ qs) = line_pairs ls i ps @ line_pairs ls (i + length ps) qs"
proof -
  have "[i..<i + length (ps @ qs)] = [i..<i + length ps] @ [i + length ps..<i + length ps + length qs]"
    using upt_add_eq_append [of i "i + length ps" "length qs"] by (simp add: add.assoc)
  then show ?thesis by (simp add: line_pairs_def map_filter_append zip_append)
qed

lemma line_pairs_none: "line_pairs ls i (replicate n None) = []"
  unfolding line_pairs_def by (rule map_filter_none) (auto simp: set_zip)

lemma map_filter_cong_set: "\<forall>x\<in>set xs. f x = g x \<Longrightarrow> List.map_filter f xs = List.map_filter g xs"
  by (induction xs) (auto simp: map_filter_simps split: option.splits)

lemma line_pairs_block:
  assumes "\<forall>k<length removed. i + k < length ls \<and> ls ! (i + k) = removed ! k"
    "\<forall>k<length added. ls ! (i + length removed + k) = added ! k"
  shows "map (\<lambda>(l, r). (cell l CHR ''-'', cell r CHR ''+''))
      (line_pairs ls (i + length removed) (map (nth_get [i..<i + length removed]) [0..<length added]))
    = List.map_filter changed_pair (block_rows removed added)"
proof -
  let ?n = "length removed" and ?m = "length added"
  let ?both = "\<lambda>k. if k < ?n \<and> k < ?m then Some (cell (removed ! k) CHR ''-'', cell (added ! k) CHR ''+'') else None"
  have "zip [i + ?n..<i + ?n + ?m] (map (nth_get [i..<i + ?n]) [0..<?m]) = map (\<lambda>k. (i + ?n + k, nth_get [i..<i + ?n] k)) [0..<?m]"
    by (rule nth_equalityI) simp_all
  then have "line_pairs ls (i + ?n) (map (nth_get [i..<i + ?n]) [0..<?m])
      = List.map_filter (\<lambda>k. map_option (\<lambda>r. (ls ! r, ls ! (i + ?n + k))) (nth_get [i..<i + ?n] k)) [0..<?m]"
    by (simp add: line_pairs_def map_filter_map_list)
  then have "map (\<lambda>(l, r). (cell l CHR ''-'', cell r CHR ''+'')) (line_pairs ls (i + ?n) (map (nth_get [i..<i + ?n]) [0..<?m]))
      = List.map_filter (\<lambda>k. map_option (\<lambda>(l, r). (cell l CHR ''-'', cell r CHR ''+''))
          (map_option (\<lambda>r. (ls ! r, ls ! (i + ?n + k))) (nth_get [i..<i + ?n] k))) [0..<?m]"
    by (simp only: map_map_filter)
  also have "\<dots> = List.map_filter ?both [0..<?m]"
    using assms by (intro map_filter_cong_set) (auto simp: nth_get_def)
  also have "\<dots> = List.map_filter ?both [0..<max ?n ?m]"
  proof -
    have "[0..<max ?n ?m] = [0..<?m] @ [?m..<max ?n ?m]" using upt_add_eq_append [of 0 ?m "max ?n ?m - ?m"] by simp
    moreover have "List.map_filter ?both [?m..<max ?n ?m] = []" by (rule map_filter_none) simp
    ultimately show ?thesis by (simp add: map_filter_append)
  qed
  also have "\<dots> = List.map_filter changed_pair (block_rows removed added)"
    unfolding block_rows_def map_filter_map_list
    by (intro map_filter_cong_set) (auto simp: changed_pair_def nth_get_def cell_def)
  finally show ?thesis .
qed

lemma line_pairs_Nil [simp]: "line_pairs ls i [] = []"
  by (simp add: line_pairs_def map_filter_simps)

text \<open>The state of the loop where a block, or a context line, starts.\<close>

definition block_start :: "PatchLineKind \<Rightarrow> nat list \<Rightarrow> PatchLine list \<Rightarrow> bool" where
  "block_start previous removed ls \<longleftrightarrow>
     (case previous of
        LkContext \<Rightarrow> removed = []
      | LkAdded \<Rightarrow> ls = [] \<or> pl_kind (hd ls) \<noteq> LkAdded
      | LkRemoved \<Rightarrow> ls = [] \<or> pl_kind (hd ls) = LkContext)"

lemma dropWhile_hd: "dropWhile (is_kind k) ls = [] \<or> pl_kind (hd (dropWhile (is_kind k) ls)) \<noteq> k"
  using hd_dropWhile [of "is_kind k" ls] by blast

lemma pairs_block:
  assumes "ls \<noteq> []" "pl_kind (hd ls) \<noteq> LkContext" "block_start previous removed ls"
  defines "rs \<equiv> takeWhile (is_kind LkRemoved) ls" and "as \<equiv> takeWhile (is_kind LkAdded) (dropWhile (is_kind LkRemoved) ls)"
    and "rest \<equiv> dropWhile (is_kind LkAdded) (dropWhile (is_kind LkRemoved) ls)"
  shows "\<exists>removed' n' previous'. block_start previous' removed' rest \<and>
    pairs_loop i ls removed n previous =
      replicate (length rs) None @ map (nth_get [i..<i + length rs]) [0..<length as]
      @ pairs_loop (i + length rs + length as) rest removed' n' previous'"
proof -
  have ls: "ls = rs @ as @ rest" unfolding rs_def as_def rest_def by simp
  have k: "\<forall>l\<in>set rs. pl_kind l = LkRemoved" "\<forall>l\<in>set as. pl_kind l = LkAdded" unfolding rs_def as_def by (rule takeWhile_side)+
  have rest: "rest = [] \<or> pl_kind (hd rest) \<noteq> LkAdded" unfolding rest_def by (rule dropWhile_hd)
  have none: "rs = [] \<Longrightarrow> previous = LkContext \<and> removed = [] \<and> as \<noteq> []"
  proof -
    assume "rs = []"
    then have "pl_kind (hd ls) \<noteq> LkRemoved" using assms(1) unfolding rs_def by (cases ls) auto
    then have "pl_kind (hd ls) = LkAdded" using assms(2) by (cases "pl_kind (hd ls)") auto
    then show ?thesis using assms(1,3) \<open>rs = []\<close> unfolding as_def rs_def block_start_def by (cases ls; cases previous) auto
  qed
  have some: "rs \<noteq> [] \<Longrightarrow> previous \<noteq> LkRemoved"
    using k(1) ls assms(3) by (cases rs) (auto simp: block_start_def)
  show ?thesis
  proof (cases "rs = []")
    case True
    then show ?thesis
      using pairs_added [OF k(2), of previous i rest "[]" n] none ls rest
      by (intro exI [of _ removed] exI [of _ "length as"] exI [of _ LkAdded]) (simp add: block_start_def)
  next
    case False
    note step = pairs_removed [OF k(1) False some [OF False], of i "as @ rest" removed n]
    show ?thesis
    proof (cases "as = []")
      case True
      have "rest = dropWhile (is_kind LkRemoved) ls" using True unfolding as_def rest_def by (metis append_Nil takeWhile_dropWhile_id)
      then have "rest = [] \<or> pl_kind (hd rest) = LkContext"
        using dropWhile_hd [of LkRemoved ls] rest by (cases "pl_kind (hd rest)") auto
      then show ?thesis
        using step True ls by (intro exI [of _ "[i..<i + length rs]"] exI [of _ n] exI [of _ LkRemoved]) (simp add: block_start_def)
    next
      case ne: False
      show ?thesis
        using step pairs_added [OF k(2) ne, of LkRemoved "i + length rs" rest "[i..<i + length rs]" n] ls rest
        by (intro exI [of _ "[i..<i + length rs]"] exI [of _ "length as"] exI [of _ LkAdded]) (simp add: block_start_def)
    qed
  qed
qed

lemma length_pairs_loop [simp]: "length (pairs_loop i ls removed n previous) = length ls"
  by (induction i ls removed n previous rule: pairs_loop.induct) (auto split: PatchLineKind.splits simp: Let_def)

lemma pairs_blocks:
  assumes "drop i all = ls" "block_start previous removed ls"
  shows "map (\<lambda>(l, r). (cell l CHR ''-'', cell r CHR ''+'')) (line_pairs all i (pairs_loop i ls removed n previous))
    = List.map_filter changed_pair (block_spec ls)"
  using assms
proof (induction ls arbitrary: i removed n previous rule: blocks_induct)
  case Nil
  then show ?case by (simp add: map_filter_simps)
next
  case (Context l ls)
  have next_line: "drop (i + 1) all = ls" using Context(3) by (metis Suc_eq_plus1 drop_Suc list.sel(3) tl_drop)
  have "changed_pair (context_row l) = None" by (simp add: changed_pair_def context_row_def cell_def)
  moreover have "line_pairs all i (None # ps) = line_pairs all (i + 1) ps" for ps
    using line_pairs_append [of all i "[None]" ps] line_pairs_none [of all i 1] by simp
  ultimately show ?case
    using Context(1) Context(2) [OF next_line, of LkContext "[]" n] by (simp add: block_spec_context block_start_def map_filter_simps)
next
  case (Change ls)
  let ?rs = "takeWhile (is_kind LkRemoved) ls" and ?as = "takeWhile (is_kind LkAdded) (dropWhile (is_kind LkRemoved) ls)"
  let ?rest = "dropWhile (is_kind LkAdded) (dropWhile (is_kind LkRemoved) ls)"
  obtain removed' n' previous' where p: "block_start previous' removed' ?rest"
    "pairs_loop i ls removed n previous = replicate (length ?rs) None @ map (nth_get [i..<i + length ?rs]) [0..<length ?as]
      @ pairs_loop (i + length ?rs + length ?as) ?rest removed' n' previous'"
    using pairs_block [OF Change(1,2,5)] by blast
  have split: "ls = ?rs @ ?as @ ?rest" by simp
  have all: "all ! (i + k) = ls ! k \<and> i + k < length all" if "k < length ls" for k using that Change(4) by auto
  have len: "length ls = length ?rs + length ?as + length ?rest" by (subst split) (simp only: length_append add.assoc)
  have "drop (i + length ?rs + length ?as) all = drop (length ?rs + length ?as) ls" unfolding Change(4) [symmetric] by (simp add: ac_simps)
  also have "\<dots> = ?rest" by (subst split) (simp only: drop_append append.assoc [symmetric] length_append, simp)
  finally have ih: "map (\<lambda>(l, r). (cell l CHR ''-'', cell r CHR ''+''))
      (line_pairs all (i + length ?rs + length ?as) (pairs_loop (i + length ?rs + length ?as) ?rest removed' n' previous'))
    = List.map_filter changed_pair (block_spec ?rest)"
    using p(1) by (rule Change(3))
  have "\<forall>k<length ?rs. i + k < length all \<and> all ! (i + k) = ?rs ! k"
    using all len by (auto simp: takeWhile_nth)
  moreover have "all ! (i + length ?rs + k) = ?as ! k" if "k < length ?as" for k
  proof -
    have "all ! (i + length ?rs + k) = (?rs @ ?as @ ?rest) ! (length ?rs + k)"
      using all [of "length ?rs + k"] len that by (simp add: add.assoc)
    also have "\<dots> = (?as @ ?rest) ! k" by (rule nth_append_length_plus)
    also have "\<dots> = ?as ! k" using that by (rule nth_append_left)
    finally show ?thesis .
  qed
  ultimately have "map (\<lambda>(l, r). (cell l CHR ''-'', cell r CHR ''+''))
      (line_pairs all (i + length ?rs) (map (nth_get [i..<i + length ?rs]) [0..<length ?as]))
    = List.map_filter changed_pair (block_rows ?rs ?as)"
    by (intro line_pairs_block) blast+
  then show ?case
    unfolding p(2) block_spec_change [OF Change(1,2)] line_pairs_append map_filter_append map_append line_pairs_none
    using ih by (simp add: add.assoc)
qed

end
