(* ===== verification/Projection_Claims.thy ===== *)
theory Projection_Claims
  imports Projection_Props
begin

text \<open>
  The geometry of the side-by-side layout and the properties of the projections.
\<close>

subsection \<open>What is assumed of the Unicode tables\<close>

definition printable_ascii :: "string \<Rightarrow> bool" where
  "printable_ascii s \<longleftrightarrow> (\<forall>c\<in>set s. 32 \<le> byte c \<and> byte c \<le> 126)"

text \<open>The width of the first graphemes of a text is at most the sum of theirs (joining can only narrow it),
  and blanks, and printable ASCII up to a blank, take a cell for each character beside any text.\<close>

definition unicode_ok :: "Unicode \<Rightarrow> bool" where
  "unicode_ok u \<longleftrightarrow>
     (\<forall>s n. un_width u (concat (take n (un_graphemes u s))) \<le> (\<Sum>g\<leftarrow>take n (un_graphemes u s). un_width u g))
     \<and> (\<forall>s n. un_width u (s @ replicate n SPACE) = un_width u s + n)
     \<and> (\<forall>a s. printable_ascii a \<and> a \<noteq> [] \<and> last a = SPACE \<longrightarrow> un_width u (a @ s) = length a + un_width u s)"

subsection \<open>Cells\<close>

lemma clip_loop_prefix:
  assumes "used \<le> width"
  shows "\<exists>n. clip_loop u width gs out used = out @ concat (take n gs) \<and> used + (\<Sum>g\<leftarrow>take n gs. un_width u g) \<le> width"
  using assms
proof (induction u width gs out used rule: clip_loop.induct)
  case (1 u width out used)
  then show ?case by simp
next
  case (2 u width g gs out used)
  show ?case
  proof (cases "width < used + cell_width u g")
    case True
    then show ?thesis using 2(2) by (intro exI [of _ 0]) simp
  next
    case False
    then obtain n where "clip_loop u width gs (out @ g) (used + cell_width u g) = (out @ g) @ concat (take n gs)"
      "used + cell_width u g + (\<Sum>g\<leftarrow>take n gs. un_width u g) \<le> width"
      using 2(1) [OF False] by auto
    then show ?thesis using False by (intro exI [of _ "Suc n"]) (simp add: cell_width_def add.assoc)
  qed
qed

lemma fit_cells_exact:
  assumes "unicode_ok u"
  shows "\<exists>t. fit_cells u s width = Some t \<and> un_width u t = width"
proof -
  obtain n where n: "clip_cells u s width = concat (take n (un_graphemes u (expand_tabs s)))"
    "(\<Sum>g\<leftarrow>take n (un_graphemes u (expand_tabs s)). un_width u g) \<le> width"
    using clip_loop_prefix [of 0 width u "un_graphemes u (expand_tabs s)" "[]"] by (auto simp: clip_cells_def)
  have "un_width u (concat (take n (un_graphemes u (expand_tabs s)))) \<le> (\<Sum>g\<leftarrow>take n (un_graphemes u (expand_tabs s)). un_width u g)"
    using assms by (simp add: unicode_ok_def)
  then have le: "un_width u (clip_cells u s width) \<le> width" unfolding n(1) using n(2) by linarith
  have pad: "un_width u (clip_cells u s width @ replicate m SPACE) = un_width u (clip_cells u s width) + m" for m
    using assms by (simp add: unicode_ok_def)
  show ?thesis using le pad [of "width - un_width u (clip_cells u s width)"] by (simp add: fit_cells_def cell_width_def Let_def)
qed

lemma show_nat_length_mono: "n \<le> m \<Longrightarrow> length (show_nat n) \<le> length (show_nat m)"
proof (induction n arbitrary: m rule: show_nat.induct)
  case (1 n)
  show ?case
  proof (cases "n < 10")
    case True
    have "Suc 0 \<le> length (show_nat m)" by (simp add: Suc_le_eq)
    then show ?thesis using True by (subst show_nat.simps) simp
  next
    case False
    have "n div 10 \<le> m div 10" using 1(2) by (rule div_le_mono)
    then have "length (show_nat (n div 10)) \<le> length (show_nat (m div 10))" using 1(1) False by blast
    moreover have "length (show_nat n) = Suc (length (show_nat (n div 10)))" using False by (subst show_nat.simps) simp
    moreover have "length (show_nat m) = Suc (length (show_nat (m div 10)))" using False 1(2) by (subst show_nat.simps) simp
    ultimately show ?thesis by linarith
  qed
qed

lemma printable_parts:
  "printable_ascii (a @ b) \<longleftrightarrow> printable_ascii a \<and> printable_ascii b" "printable_ascii (replicate n SPACE)" "printable_ascii (show_nat n)"
  using show_nat_digits [of n] by (auto simp: printable_ascii_def is_ascii_digit_def)

lemma prefix_width:
  "\<lbrakk>unicode_ok u; printable_ascii a; a \<noteq> []; last a = SPACE\<rbrakk> \<Longrightarrow> un_width u (a @ s) = length a + un_width u s"
  by (simp add: unicode_ok_def)

lemma fmt_cell_exact:
  assumes "unicode_ok u" "\<And>c. shown = Some c \<Longrightarrow> length (show_nat (sc_line c)) \<le> gutter \<and> printable_ascii [sc_marker c]"
  shows "\<exists>t. fmt_cell u shown gutter width = Some t \<and> un_width u t = gutter + 3 + width"
proof (cases shown)
  case None
  obtain t where t: "side_shown u [] width = Some t" "un_width u t = width"
    using fit_cells_exact [OF assms(1)] by (auto simp: side_shown_def)
  have "un_width u ((pad_left gutter [] @ ''   '') @ t) = length (pad_left gutter [] @ ''   '') + un_width u t"
    by (rule prefix_width [OF assms(1)]) (simp_all add: pad_left_def printable_ascii_def)
  then show ?thesis using None t by (simp add: fmt_cell_def pad_left_def)
next
  case (Some c)
  obtain t where t: "side_shown u (sc_text c) width = Some t" "un_width u t = width"
    using fit_cells_exact [OF assms(1)] by (auto simp: side_shown_def)
  let ?pre = "pad_left gutter (show_nat (sc_line c)) @ '' '' @ [sc_marker c] @ '' ''"
  have "printable_ascii ?pre" using assms(2) [OF Some] printable_parts(3) [of "sc_line c"] unfolding pad_left_def printable_parts(1,2) by (simp add: printable_ascii_def)
  then have "un_width u (?pre @ t) = length ?pre + un_width u t"
    by (rule prefix_width [OF assms(1)]) simp_all
  moreover have "length ?pre = gutter + 3" using assms(2) [OF Some] by (simp add: pad_left_def)
  ultimately show ?thesis using Some t by (simp add: fmt_cell_def)
qed

lemma side_rows_blocks: "side_rows f = Some (concat (map (\<lambda>h. block_spec (ph_lines h)) (pt_hunks (rf_patch_twin f))))"
  by (simp add: side_rows_def side_hunks_blocks)

lemma map_filter_concat: "List.map_filter f (concat xss) = concat (map (List.map_filter f) xss)"
  by (induction xss) (simp_all add: map_filter_append map_filter_simps)

lemma side_rows_sides:
  assumes "side_rows f = Some rows"
  shows "List.map_filter sr_left rows = map old_cell (concat (map (\<lambda>h. old_side (ph_lines h)) (pt_hunks (rf_patch_twin f))))"
    "List.map_filter sr_right rows = map new_cell (concat (map (\<lambda>h. new_side (ph_lines h)) (pt_hunks (rf_patch_twin f))))"
proof -
  have rows: "rows = concat (map (\<lambda>h. block_spec (ph_lines h)) (pt_hunks (rf_patch_twin f)))" using assms by (simp add: side_rows_blocks)
  show "List.map_filter sr_left rows = map old_cell (concat (map (\<lambda>h. old_side (ph_lines h)) (pt_hunks (rf_patch_twin f))))"
    "List.map_filter sr_right rows = map new_cell (concat (map (\<lambda>h. new_side (ph_lines h)) (pt_hunks (rf_patch_twin f))))"
    unfolding rows by (simp_all add: map_filter_concat block_spec_sides map_concat o_def)
qed

lemma map_filter_in: "x \<in> set xs \<Longrightarrow> f x = Some y \<Longrightarrow> y \<in> set (List.map_filter f xs)"
  by (induction xs) (auto simp: map_filter_simps split: option.splits)

lemma line_number_fits:
  assumes "h \<in> set (pt_hunks (rf_patch_twin f))" "l \<in> set (ph_lines h)" "n \<in> {pl_old_line l, pl_new_line l}"
  shows "length (show_nat (case n of Some k \<Rightarrow> k | None \<Rightarrow> 0)) \<le> gutter_width f"
proof (cases n)
  case None
  have "length (show_nat 0) = 1" by (subst show_nat.simps) simp
  then show ?thesis using None by (simp add: gutter_width_def le_max_iff_disj)
next
  case (Some k)
  have "k \<in> set (line_numbers f)"
    unfolding line_numbers_def by (rule map_filter_in [of n]) (use assms Some in auto)
  then have "k \<le> Max (set (line_numbers f))" "line_numbers f \<noteq> []" by auto
  then show ?thesis using Some show_nat_length_mono [of k] by (simp add: gutter_width_def le_max_iff_disj)
qed

lemma side_row_cells:
  assumes "side_rows f = Some rows" "row \<in> set rows" "sr_left row = Some d \<or> sr_right row = Some d"
  shows "length (show_nat (sc_line d)) \<le> gutter_width f \<and> printable_ascii [sc_marker d]"
proof -
  have "d \<in> set (List.map_filter sr_left rows) \<or> d \<in> set (List.map_filter sr_right rows)"
    using assms(3) map_filter_in [OF assms(2), of sr_left d] map_filter_in [OF assms(2), of sr_right d] by auto
  then obtain h l where hl: "h \<in> set (pt_hunks (rf_patch_twin f))" "l \<in> set (ph_lines h)" "d = old_cell l \<or> d = new_cell l"
    unfolding side_rows_sides [OF assms(1)] by (auto simp: old_side_def new_side_def)
  have "printable_ascii [line_marker k]" for k by (cases k) (simp_all add: printable_ascii_def)
  then show ?thesis
    using hl(3) line_number_fits [OF hl(1,2), of "pl_old_line l"] line_number_fits [OF hl(1,2), of "pl_new_line l"]
    by (auto simp: old_cell_def new_cell_def)
qed

lemma side_cells_exact:
  assumes "unicode_ok u" "side_rows f = Some rows" "row \<in> set rows"
  shows "\<exists>l. fmt_cell u (sr_left row) (gutter_width f) width = Some l \<and> un_width u l = gutter_width f + 3 + width"
    "\<exists>r. fmt_cell u (sr_right row) (gutter_width f) width = Some r \<and> un_width u r = gutter_width f + 3 + width"
  by (rule fmt_cell_exact [OF assms(1)], rule side_row_cells [OF assms(2,3)], simp)+

subsection \<open>Nothing panics\<close>

lemma fmt_note_some: "unicode_ok u \<Longrightarrow> \<exists>t. fmt_note u note gutter width = Some t"
  using fit_cells_exact by (fastforce simp: fmt_note_def)

lemma note_rows_some:
  assumes "unicode_ok u"
  shows "\<exists>ns. note_rows u row width = Some ns"
proof -
  have "\<exists>b. renders_alike u x y (\<lambda>t. side_shown u t width) = Some b" for x y
    using fit_cells_exact [OF assms, of "display_safe x" width] fit_cells_exact [OF assms, of "display_safe y" width]
    by (auto simp: renders_alike_def side_shown_def)
  then show ?thesis by (fastforce simp: note_rows_def split: option.splits)
qed

lemma those_some: "\<forall>x\<in>set xs. \<exists>y. f x = Some y \<Longrightarrow> \<exists>ys. those (map f xs) = Some ys"
  by (induction xs) auto

lemma join_row_some: "\<exists>x. l = Some x \<Longrightarrow> \<exists>y. r = Some y \<Longrightarrow> \<exists>z. join_row l r = Some z"
  by (auto simp: join_row_def)

lemma side_row_lines_some:
  assumes "unicode_ok u" "side_rows f = Some rows" "row \<in> set rows"
  shows "\<exists>t. side_row_lines u (gutter_width f) width row = Some t"
proof -
  obtain line where "join_row (fmt_cell u (sr_left row) (gutter_width f) width) (fmt_cell u (sr_right row) (gutter_width f) width) = Some line"
    using join_row_some side_cells_exact [OF assms] by metis
  moreover obtain ns where "note_rows u row width = Some ns" using note_rows_some [OF assms(1)] by blast
  moreover have "\<exists>shown. those (map (\<lambda>(l, r). join_row (fmt_note u l (gutter_width f) width) (fmt_note u r (gutter_width f) width)) ns) = Some shown"
    by (rule those_some) (use fmt_note_some [OF assms(1)] join_row_some in \<open>auto split: prod.splits\<close>)
  ultimately show ?thesis by (auto simp: side_row_lines_def)
qed

subsection \<open>The properties\<close>

text \<open>C37: the loop that builds the side-by-side rows ends on every file, and its rows show every line of every
  hunk once: the left cells are the old side in order, the right cells the new side, each with the
  line's number, marker, text and flags.\<close>

theorem side_rows_terminate_and_show_all:
  "\<exists>rows. side_rows f = Some rows
     \<and> List.map_filter sr_left rows = map old_cell (concat (map (\<lambda>h. old_side (ph_lines h)) (pt_hunks (rf_patch_twin f))))
     \<and> List.map_filter sr_right rows = map new_cell (concat (map (\<lambda>h. new_side (ph_lines h)) (pt_hunks (rf_patch_twin f))))"
  using side_rows_blocks side_rows_sides by blast

text \<open>The two layouts pair the same lines: the removed and added lines the inline layout compares for a note
  are, in order, the lines that face each other in the changed rows of the side-by-side layout.\<close>

theorem inline_pairs_are_side_rows:
  "Some (map (\<lambda>(l, r). (cell l CHR ''-'', cell r CHR ''+'')) (line_pairs ls 0 (pairs ls)))
     = map_option (List.map_filter changed_pair) (side_loop ls 0 [])"
  using pairs_blocks [of 0 ls ls LkContext "[]" 0] by (simp add: pairs_def side_loop_blocks block_start_def)

text \<open>Whatever the text of the lines, every row of the side-by-side layout puts both of its cells in exactly
  the gutter, three columns and the cell width, so the columns stay aligned, and rendering does not
  panic; this rests on the stated facts of the Unicode tables.\<close>

theorem side_columns_align:
  assumes "unicode_ok u" "side_rows f = Some rows" "row \<in> set rows"
  shows "\<exists>l r t. fmt_cell u (sr_left row) (gutter_width f) width = Some l \<and> fmt_cell u (sr_right row) (gutter_width f) width = Some r
     \<and> un_width u l = gutter_width f + 3 + width \<and> un_width u r = gutter_width f + 3 + width
     \<and> side_row_lines u (gutter_width f) width row = Some t"
  using side_cells_exact [OF assms, of width] side_row_lines_some [OF assms, of width] by metis

definition ascii_tables :: Unicode where
  "ascii_tables = \<lparr>un_graphemes = map (\<lambda>c. [c]), un_width = length, un_char_width = (\<lambda>_. Some 1)\<rparr>"

definition shown_line :: PatchLine where
  "shown_line = \<lparr>pl_no_newline = False, pl_lossy = False, pl_kind = LkContext, pl_old_line = Some 7, pl_new_line = Some 12345, pl_text = ''x''\<rparr>"

definition sample_shown :: ReviewFile where
  "sample_shown =
     \<lparr>rf_path = ''a'', rf_status = FsModified,
      rf_patch_twin = \<lparr>pt_binary_body = [], pt_hunks = [\<lparr>ph_id = 0, ph_old_start = Some 7, ph_new_start = Some 12345, ph_section = None, ph_lines = [shown_line]\<rparr>],
        pt_metadata = [], pt_lossy_lines = 0\<rparr>,
      rf_semantic_twin = None, rf_planner = \<lparr>pd_strategy = DsLine, pd_fallback = None, pd_notes = []\<rparr>\<rparr>"

lemma ascii_tables_ok: "unicode_ok ascii_tables"
proof -
  have "length (concat gs) = (\<Sum>g\<leftarrow>gs. length g)" for gs :: "string list" by (simp add: length_concat)
  then show ?thesis by (simp add: unicode_ok_def ascii_tables_def)
qed

theorem side_columns_align_witness:
  "\<exists>l. fmt_cell ascii_tables (Some (old_cell shown_line)) (gutter_width sample_shown) 10 = Some l
     \<and> un_width ascii_tables l = gutter_width sample_shown + 13"
  using side_columns_align [OF ascii_tables_ok side_rows_blocks [of sample_shown], of "context_row shown_line" 10]
  by (auto simp: sample_shown_def shown_line_def block_spec_context context_row_def old_cell_def cell_def)

end
