(* ===== verification/Journal.thy ===== *)
theory Journal
  imports Council Seal Decode
begin

text \<open>
  The decision journal, deep-diff-forge-review/src/journal.rs: human dispositions in a tuicr session become
  events of an append-only, hash-chained journal. The run directory (journal file, checkpoints, lock) is
  the state; what is read from outside it (the session, the export ledger, the sealed snapshot, the
  repository) is the record \<open>World\<close>. serde's JSON writer and reader for an event are the parameters
  \<open>ser\<close> and \<open>de\<close>. A refusal carries what its message names rather than the formatted text.
\<close>

subsection \<open>Refusals\<close>

datatype UnsafeReason =
    CommentIdNotIdentifier | FileKeyUnsafe string | LineKeyUnsafe string string | UnknownSide string
  | DuplicateComment string | SessionNotJson string

datatype StaleReason = OutsideInventory | NotShown string | AbsentFromSnapshot | BytesDiffer string | ShownOutsideInventory

datatype MarkReason = NoContentHash | PinnedDiffers nat nat

datatype JournalReason =
    JournalUnreadable | JournalNotUtf8 | LastLineIncomplete | NotAnEvent nat string | EventModified nat
  | TooManyCheckpoints | CheckpointUnreadable string string | CheckpointMisnamed string | CheckpointNotHeld nat
  | WouldPassCap nat nat | JournalChanged

datatype TuicrImportError =
    SessionFailure string
  | StaleRevision string string
  | StaleFile string StaleReason
  | StaleReviewMark string MarkReason
  | UnsafeSession UnsafeReason
  | JournalFailure JournalReason
  | Locked
  | InterruptedExport string

subsection \<open>Events\<close>

definition EVENT_SCHEMA :: string where
  "EVENT_SCHEMA = ''deep-diff-forge.decision.v1''"

definition JOURNAL_CAP :: nat where
  "JOURNAL_CAP = 64 * 1024 * 1024"

definition ENTRY_CAP :: nat where
  "ENTRY_CAP = 100000"

definition TAG_CAP :: nat where
  "TAG_CAP = 256"

datatype EventKind = EkCommentAdded | EkDisposition | EkRevised | EkRestored | EkLifecycle | EkDeleted | EkFileReview

datatype ActorBasis = TuicrAuthor | Unrecorded

record Actor =
  ac_name :: string
  ac_basis :: ActorBasis

datatype Lifecycle = LocalDraft | PushedDraft | Submitted

datatype Anchor =
    AnReview
  | AnFile string
  | AnLines string string nat nat

fun Anchor_file :: "Anchor \<Rightarrow> string option" where
  "Anchor_file AnReview = None"
| "Anchor_file (AnFile f) = Some f"
| "Anchor_file (AnLines f side a b) = Some f"

fun Anchor_overlaps :: "Anchor \<Rightarrow> Anchor \<Rightarrow> bool" where
  "Anchor_overlaps (AnLines f side start_line end_line) (AnLines g s a b) \<longleftrightarrow> f = g \<and> side = s \<and> start_line \<le> b \<and> a \<le> end_line"
| "Anchor_overlaps _ _ \<longleftrightarrow> False"

datatype LinkBasis = LbTag | LbAnchor

record Link =
  lk_key :: string
  lk_tuicr_comment_id :: string
  lk_basis :: LinkBasis

record SessionRevision =
  sv_diff_source :: string
  sv_base_commit :: string
  sv_new_side :: string

record DecisionEvent =
  ev_schema :: string
  ev_seq :: nat
  ev_prev :: string
  ev_run_id :: string
  ev_session_id :: string
  ev_revision :: SessionRevision
  ev_kind :: EventKind
  ev_actor :: Actor
  ev_comment_id :: "string option"
  ev_ddf_authored :: bool
  ev_comment_type :: "string option"
  ev_lifecycle_state :: "Lifecycle option"
  ev_previous_lifecycle_state :: "Lifecycle option"
  ev_anchor :: "Anchor option"
  ev_content_hash :: "nat option"
  ev_content_sha256 :: "string option"
  ev_content :: "string option"
  ev_links :: "Link list"
  ev_reviewed :: "bool option"
  ev_reviewed_hunks :: "string list option"
  ev_conflict :: "string option"
  ev_supersedes :: "string option"
  ev_hash :: string

type_synonym writer = "DecisionEvent \<Rightarrow> string"
type_synonym reader = "string \<Rightarrow> string + DecisionEvent"

definition DecisionEvent_digest :: "writer \<Rightarrow> DecisionEvent \<Rightarrow> string" where
  "DecisionEvent_digest ser e = sha256_hex (ser (e\<lparr>ev_hash := []\<rparr>))"

subsection \<open>The session\<close>

record RawComment =
  rc_id :: string
  rc_content :: string
  rc_comment_type :: "string option"
  rc_author :: string
  rc_lifecycle_state :: "Lifecycle option"
  rc_side :: "string option"
  rc_line_range :: "(nat \<times> nat) option"

text \<open>Maps keyed by path or line are the lists of their entries in key order; so is the set of hunks.\<close>

record RawFile =
  rw_reviewed :: bool
  rw_file_comments :: "RawComment list"
  rw_line_comments :: "(string \<times> RawComment list) list"
  rw_reviewed_hunks :: "string list"
  rw_content_hash :: "nat option"

record RawSession =
  rs_review_comments :: "RawComment list"
  rs_files :: "(string \<times> RawFile) list"

record Observed =
  ob_id :: string
  ob_content :: string
  ob_sha256 :: string
  ob_comment_type :: "string option"
  ob_author :: string
  ob_lifecycle :: Lifecycle
  ob_anchor :: Anchor
  ob_content_hash :: "nat option"

text \<open>\<open>Path::components\<close>: a leading slash, a leading \<open>.\<close> and every \<open>..\<close> are not normal components; other
  dots and repeated slashes disappear.\<close>

definition safe_path :: "string \<Rightarrow> bool" where
  "safe_path path \<longleftrightarrow>
     path \<noteq> [] \<and> length path \<le> 4096
     \<and> (let parts = split_char SLASH path in hd parts \<noteq> [] \<and> hd parts \<noteq> ''.'' \<and> ''..'' \<notin> set parts)"

definition observe :: "RawComment \<Rightarrow> Anchor \<Rightarrow> nat option \<Rightarrow> TuicrImportError + Observed" where
  "observe raw anchor content_hash =
     (if \<not> is_identifier (rc_id raw) then Inl (UnsafeSession CommentIdNotIdentifier)
      else Inr \<lparr>ob_id = rc_id raw, ob_content = rc_content raw, ob_sha256 = sha256_hex (rc_content raw),
                ob_comment_type = rc_comment_type raw, ob_author = rc_author raw,
                ob_lifecycle = (case rc_lifecycle_state raw of Some l \<Rightarrow> l | None \<Rightarrow> LocalDraft),
                ob_anchor = anchor, ob_content_hash = content_hash\<rparr>)"

fun res_map :: "('a \<Rightarrow> 'e + 'b) \<Rightarrow> 'a list \<Rightarrow> 'e + 'b list" where
  "res_map f [] = Inr []"
| "res_map f (x # xs) = res_bind (f x) (\<lambda>y. res_bind (res_map f xs) (\<lambda>ys. Inr (y # ys)))"

text \<open>\<open>str::parse::<u32>\<close>: an optional plus sign, then digits.\<close>

definition parse_u32 :: "string \<Rightarrow> nat option" where
  "parse_u32 s =
     (let ds = (case strip_prefix ''+'' s of Some r \<Rightarrow> r | None \<Rightarrow> s) in
      if ds \<noteq> [] \<and> list_all is_ascii_digit ds \<and> dec_value ds \<le> u32_max then Some (dec_value ds) else None)"

definition observe_line :: "string \<Rightarrow> RawFile \<Rightarrow> nat \<Rightarrow> RawComment \<Rightarrow> TuicrImportError + Observed" where
  "observe_line path file line c =
     (let (start_line, end_line) = (case rc_line_range c of None \<Rightarrow> (line, line) | Some (a, b) \<Rightarrow> (min a b, max a b)) in
      case rc_side c of
        None \<Rightarrow> observe c (AnLines path ''new'' start_line end_line) (rw_content_hash file)
      | Some side \<Rightarrow>
          if side = ''new'' \<or> side = ''old'' then observe c (AnLines path side start_line end_line) (rw_content_hash file)
          else Inl (UnsafeSession (UnknownSide side)))"

definition observe_file :: "string \<times> RawFile \<Rightarrow> TuicrImportError + Observed list" where
  "observe_file = (\<lambda>(path, file).
     if \<not> safe_path path then Inl (UnsafeSession (FileKeyUnsafe path))
     else
       res_bind (res_map (\<lambda>c. observe c (AnFile path) (rw_content_hash file)) (rw_file_comments file)) (\<lambda>file_level.
       res_bind (res_map (\<lambda>(key, cs). ok_or (UnsafeSession (LineKeyUnsafe key path)) (map_option (\<lambda>line. (line, cs)) (parse_u32 key)))
           (rw_line_comments file)) (\<lambda>lines.
       res_bind (res_map (\<lambda>(line, cs). res_map (observe_line path file line) cs) (sort_key fst lines)) (\<lambda>line_level.
       Inr (file_level @ concat line_level)))))"

fun first_repeated :: "'a list \<Rightarrow> 'a set \<Rightarrow> 'a option" where
  "first_repeated [] seen_ids = None"
| "first_repeated (x # xs) seen_ids = (if x \<in> seen_ids then Some x else first_repeated xs (insert x seen_ids))"

definition observed_comments :: "RawSession \<Rightarrow> TuicrImportError + Observed list \<times> (string \<times> RawFile) list" where
  "observed_comments raw =
     res_bind (res_map (\<lambda>c. observe c AnReview None) (rs_review_comments raw)) (\<lambda>review.
     res_bind (res_map observe_file (rs_files raw)) (\<lambda>per_file.
       let out = review @ concat per_file in
       case first_repeated (map ob_id out) {} of
         Some dup \<Rightarrow> Inl (UnsafeSession (DuplicateComment dup))
       | None \<Rightarrow> Inr (out, map (\<lambda>(path, file). (path, file\<lparr>rw_file_comments := [], rw_line_comments := []\<rparr>)) (rs_files raw))))"

subsection \<open>The export ledger and links\<close>

record LedgerEntry =
  le_key :: string
  le_run_id :: string
  le_session_id :: string
  le_tuicr_comment_id :: string
  le_content_sha256 :: string
  le_recovered :: bool

type_synonym ledger = "(string \<times> LedgerEntry) list"

text \<open>\<open>Path::extension\<close> of a file name.\<close>

definition file_extension :: "string \<Rightarrow> string option" where
  "file_extension name =
     (case rsplit_once CHR ''.'' name of
        Some (stem, ext) \<Rightarrow> if stem = [] \<or> name = ''..'' then None else Some ext
      | None \<Rightarrow> None)"

fun ledger_loop :: "string \<Rightarrow> string \<Rightarrow> string set \<Rightarrow> (string \<times> (string + LedgerEntry)) list \<Rightarrow> ledger \<Rightarrow> TuicrImportError + ledger" where
  "ledger_loop run_id session_id names [] by_comment = Inr by_comment"
| "ledger_loop run_id session_id names ((name, content) # entries) by_comment =
     (case strip_suffix ''.pending'' name of
        Some stem \<Rightarrow>
          if stem @ ''.json'' \<notin> names then Inl (InterruptedExport name)
          else ledger_loop run_id session_id names entries by_comment
      | None \<Rightarrow>
          if file_extension name = Some ''json'' then
            (case content of
               Inl e \<Rightarrow> Inl (SessionFailure e)
             | Inr entry \<Rightarrow>
                 if le_run_id entry \<noteq> run_id \<or> le_session_id entry \<noteq> session_id \<or> sha256_hex (le_key entry) @ ''.json'' \<noteq> name
                 then Inl (SessionFailure (''export ledger record '' @ name @ '' does not belong to this run and session''))
                 else ledger_loop run_id session_id names entries (bt_insert (le_tuicr_comment_id entry) entry by_comment))
          else ledger_loop run_id session_id names entries by_comment)"

text \<open>The directory listing: names in ascending order, each with what reading it as a ledger record gives.\<close>

definition Ledger_load :: "string \<Rightarrow> string \<Rightarrow> (string \<times> (string + LedgerEntry)) list option \<Rightarrow> TuicrImportError + ledger" where
  "Ledger_load run_id session_id dir =
     (if \<not> is_identifier session_id then Inl (SessionFailure ''id is not a safe path segment'')
      else case dir of
        None \<Rightarrow> Inr []
      | Some entries \<Rightarrow>
          if ENTRY_CAP < length entries then Inl (SessionFailure ''export ledger has too many entries'')
          else ledger_loop run_id session_id (fst ` set entries) entries [])"

definition is_finding_key :: "string \<Rightarrow> bool" where
  "is_finding_key key \<longleftrightarrow> contains_sub ''/finding/'' key"

definition finding_by_key :: "ledger \<Rightarrow> string \<Rightarrow> LedgerEntry option" where
  "finding_by_key l key = List.find (\<lambda>e. le_key e = key \<and> is_finding_key (le_key e)) (map snd l)"

definition split_whitespace :: "string \<Rightarrow> string list" where
  "split_whitespace s =
     filter (\<lambda>w. w \<noteq> [])
       (foldr (\<lambda>c ws. if is_whitespace c then [] # ws else case ws of w # ws' \<Rightarrow> (utf8_encode c @ w) # ws' | [] \<Rightarrow> [utf8_encode c]) (chars s) [[]])"

definition bracketed :: "string \<Rightarrow> nat \<Rightarrow> string option" where
  "bracketed content start =
     (if length content < start then None
      else case find_sub '']'' (drop start content) of
        Some n \<Rightarrow> if n \<le> TAG_CAP then Some (take n (drop start content)) else None
      | None \<Rightarrow> None)"

definition tag_field :: "string \<Rightarrow> string \<Rightarrow> string option" where
  "tag_field body name = find_map (\<lambda>f. Option.bind (strip_prefix name f) (strip_prefix ''='')) (split_whitespace body)"

definition council_key :: "string \<Rightarrow> string \<Rightarrow> string option" where
  "council_key run_id body =
     (case (tag_field body ''run'', tag_field body ''reviewer'', tag_field body ''round'', tag_field body ''finding'') of
        (Some run, Some reviewer, Some round, Some finding) \<Rightarrow>
          if run = run_id then Some (reviewer @ ''/'' @ round @ ''/finding/'' @ finding) else None
      | _ \<Rightarrow> None)"

definition tagged_keys :: "string \<Rightarrow> string \<Rightarrow> string list" where
  "tagged_keys content run_id =
     sorted_list_of_set
       (set (List.map_filter (\<lambda>at. map_option str_trim (bracketed content (at + length ''[ddf:''))) (match_indices ''[ddf:'' content))
        \<union> set (List.map_filter (\<lambda>at. Option.bind (bracketed content (at + length ''[DDF-COUNCIL '')) (council_key run_id))
            (match_indices ''[DDF-COUNCIL '' content)))"

definition link_to :: "LinkBasis \<Rightarrow> LedgerEntry \<Rightarrow> Link" where
  "link_to basis e = \<lparr>lk_key = le_key e, lk_tuicr_comment_id = le_tuicr_comment_id e, lk_basis = basis\<rparr>"

definition links :: "Observed \<Rightarrow> string \<Rightarrow> ledger \<Rightarrow> Observed list \<Rightarrow> Link list" where
  "links comment run_id l note_comments =
     (let tagged = map (link_to LbTag) (List.map_filter (finding_by_key l) (tagged_keys (ob_content comment) run_id)) in
      if tagged \<noteq> [] then tagged
      else sort_key lk_key
        (map (link_to LbAnchor)
          (filter (\<lambda>e. is_finding_key (le_key e))
            (List.map_filter (\<lambda>n. bt_get l (ob_id n))
              (filter (\<lambda>n. Anchor_overlaps (ob_anchor n) (ob_anchor comment)) note_comments)))))"

subsection \<open>The journal and its replay\<close>

record CommentState =
  cs_last :: "string option"
  cs_sha256 :: string
  cs_lifecycle :: Lifecycle
  cs_deleted :: bool

record FileState =
  fs_last :: "string option"
  fs_reviewed :: bool
  fs_hunks :: "string list"
  fs_pinned :: "nat option"

record Journal =
  jn_bytes :: nat
  jn_events :: "DecisionEvent list"
  jn_comments :: "((string \<times> string) \<times> CommentState) list"
  jn_files :: "((string \<times> string) \<times> FileState) list"

definition Journal_default :: Journal where
  "Journal_default = \<lparr>jn_bytes = 0, jn_events = [], jn_comments = [], jn_files = []\<rparr>"

definition CommentState_new :: CommentState where
  "CommentState_new = \<lparr>cs_last = None, cs_sha256 = [], cs_lifecycle = LocalDraft, cs_deleted = False\<rparr>"

definition FileState_default :: FileState where
  "FileState_default = \<lparr>fs_last = None, fs_reviewed = False, fs_hunks = [], fs_pinned = None\<rparr>"

definition genesis :: string where
  "genesis = replicate 64 CHR ''0''"

definition Journal_head :: "Journal \<Rightarrow> nat \<times> string" where
  "Journal_head j = (if jn_events j = [] then (0, genesis) else (ev_seq (last (jn_events j)) + 1, ev_hash (last (jn_events j))))"

definition replay_comment :: "DecisionEvent \<Rightarrow> CommentState \<Rightarrow> CommentState" where
  "replay_comment e st =
     \<lparr>cs_last = Some (ev_hash e),
      cs_sha256 = (case ev_content_sha256 e of Some sha \<Rightarrow> sha | None \<Rightarrow> cs_sha256 st),
      cs_lifecycle = (case ev_lifecycle_state e of Some l \<Rightarrow> l | None \<Rightarrow> cs_lifecycle st),
      cs_deleted = (ev_kind e = EkDeleted)\<rparr>"

definition replay_file :: "DecisionEvent \<Rightarrow> FileState \<Rightarrow> FileState" where
  "replay_file e st =
     (let reviewed = (case ev_reviewed e of Some r \<Rightarrow> r | None \<Rightarrow> False);
          hunks = (case ev_reviewed_hunks e of Some hs \<Rightarrow> hs | None \<Rightarrow> []) in
      \<lparr>fs_last = Some (ev_hash e), fs_reviewed = reviewed, fs_hunks = hunks,
       fs_pinned = (if fs_pinned st = None \<and> (reviewed \<or> hunks \<noteq> []) then ev_content_hash e else fs_pinned st)\<rparr>)"

definition replay :: "Journal \<Rightarrow> DecisionEvent \<Rightarrow> Journal" where
  "replay j e =
     (case ev_comment_id e of
        Some cid \<Rightarrow>
          (let key = (ev_session_id e, cid);
               st = (case bt_get (jn_comments j) key of Some st \<Rightarrow> st | None \<Rightarrow> CommentState_new) in
           j\<lparr>jn_comments := bt_insert key (replay_comment e st) (jn_comments j)\<rparr>)
      | None \<Rightarrow>
          (case (ev_kind e, Option.bind (ev_anchor e) Anchor_file) of
             (EkFileReview, Some path) \<Rightarrow>
               (let key = (ev_session_id e, path);
                    st = (case bt_get (jn_files j) key of Some st \<Rightarrow> st | None \<Rightarrow> FileState_default) in
                j\<lparr>jn_files := bt_insert key (replay_file e st) (jn_files j)\<rparr>)
           | _ \<Rightarrow> j))"

definition push_event :: "Journal \<Rightarrow> DecisionEvent \<Rightarrow> Journal" where
  "push_event j e = (let j1 = replay j e in j1\<lparr>jn_events := jn_events j1 @ [e]\<rparr>)"

record Checkpoint =
  cp_seq :: nat
  cp_hash :: string

text \<open>\<open>str::lines\<close>: a line ends at a line feed, and a carriage return before it goes too.\<close>

definition chomp :: "string \<Rightarrow> string" where
  "chomp line =
     (case strip_suffix [LF] line of
        None \<Rightarrow> line
      | Some l \<Rightarrow> (case strip_suffix [CR] l of None \<Rightarrow> l | Some l' \<Rightarrow> l'))"

definition str_lines :: "string \<Rightarrow> string list" where
  "str_lines s = map chomp (split_inclusive LF s)"

definition event_verifies :: "writer \<Rightarrow> string \<Rightarrow> nat \<Rightarrow> string \<Rightarrow> string \<Rightarrow> DecisionEvent \<Rightarrow> bool" where
  "event_verifies ser run_id seq prev line e \<longleftrightarrow>
     ser e = line \<and> ev_schema e = EVENT_SCHEMA \<and> ev_seq e = seq \<and> ev_prev e = prev \<and> ev_run_id e = run_id
     \<and> DecisionEvent_digest ser e = ev_hash e"

fun load_lines :: "writer \<Rightarrow> reader \<Rightarrow> string \<Rightarrow> nat \<Rightarrow> string \<Rightarrow> string list \<Rightarrow> Journal \<Rightarrow> TuicrImportError + Journal" where
  "load_lines ser de run_id seq prev [] j = Inr j"
| "load_lines ser de run_id seq prev (line # ls) j =
     (case de line of
        Inl e \<Rightarrow> Inl (JournalFailure (NotAnEvent seq e))
      | Inr event \<Rightarrow>
          if \<not> event_verifies ser run_id seq prev line event then Inl (JournalFailure (EventModified seq))
          else load_lines ser de run_id (seq + 1) (ev_hash event) ls (push_event j event))"

text \<open>\<open>format!("{:020}.json", seq)\<close>.\<close>

definition checkpoint_name :: "nat \<Rightarrow> string" where
  "checkpoint_name seq = replicate (20 - length (show_nat seq)) CHR ''0'' @ show_nat seq @ ''.json''"

fun check_checkpoints :: "DecisionEvent list \<Rightarrow> (string \<times> (string + Checkpoint)) list \<Rightarrow> TuicrImportError + unit" where
  "check_checkpoints events [] = Inr ()"
| "check_checkpoints events ((name, content) # cs) =
     (case content of
        Inl e \<Rightarrow> Inl (JournalFailure (CheckpointUnreadable name e))
      | Inr c \<Rightarrow>
          if name \<noteq> checkpoint_name (cp_seq c) then Inl (JournalFailure (CheckpointMisnamed name))
          else if opt_is_none_or (\<lambda>e. ev_hash e \<noteq> cp_hash c) (nth_get events (cp_seq c))
          then Inl (JournalFailure (CheckpointNotHeld (cp_seq c)))
          else check_checkpoints events cs)"

text \<open>The run directory: the bytes of the journal file if it exists, the checkpoint files in the order the
  directory lists them, and whether the lock file exists.\<close>

record RunDir =
  rd_journal :: "string option"
  rd_checkpoints :: "(string \<times> (string + Checkpoint)) list"
  rd_locked :: bool

definition load_file :: "writer \<Rightarrow> reader \<Rightarrow> string \<Rightarrow> string option \<Rightarrow> TuicrImportError + Journal" where
  "load_file ser de run_id content =
     (case content of
        None \<Rightarrow> Inr Journal_default
      | Some bytes \<Rightarrow>
          if JOURNAL_CAP < length bytes then Inl (JournalFailure JournalUnreadable)
          else if \<not> utf8_valid bytes then Inl (JournalFailure JournalNotUtf8)
          else if bytes \<noteq> [] \<and> \<not> ends_with [LF] bytes then Inl (JournalFailure LastLineIncomplete)
          else load_lines ser de run_id 0 genesis (str_lines bytes) (Journal_default\<lparr>jn_bytes := length bytes\<rparr>))"

definition load_journal :: "writer \<Rightarrow> reader \<Rightarrow> RunDir \<Rightarrow> string \<Rightarrow> TuicrImportError + Journal" where
  "load_journal ser de d run_id =
     res_bind (load_file ser de run_id (rd_journal d)) (\<lambda>j.
     res_bind (check_checkpoints (jn_events j) (take ENTRY_CAP (rd_checkpoints d))) (\<lambda>_.
       if ENTRY_CAP < length (rd_checkpoints d) then Inl (JournalFailure TooManyCheckpoints) else Inr j))"

subsection \<open>Sealed bytes\<close>

record World =
  wd_run_id :: string
  wd_head :: string
  wd_session_id :: string
  wd_base_commit :: string
  wd_diff_source :: "string option"
  wd_label :: string
  wd_session :: "string + RawSession"
  wd_ledger :: "(string \<times> (string + LedgerEntry)) list option"
  wd_inventory :: "string \<Rightarrow> bool"
  wd_snapshot :: "string \<Rightarrow> (string + string) option"
  wd_session_bytes :: "string \<Rightarrow> string + string"

definition check_file :: "World \<Rightarrow> string \<Rightarrow> TuicrImportError + unit" where
  "check_file w path =
     (if \<not> wd_inventory w path then Inl (StaleFile path OutsideInventory)
      else case wd_snapshot w path of
        Some (Inl e) \<Rightarrow> Inl (SessionFailure e)
      | Some (Inr a) \<Rightarrow>
          (case wd_session_bytes w path of
             Inl e \<Rightarrow> Inl (StaleFile path (NotShown e))
           | Inr b \<Rightarrow> if a \<noteq> b then Inl (StaleFile path (BytesDiffer (wd_label w))) else Inr ())
      | None \<Rightarrow>
          (case wd_session_bytes w path of
             Inl _ \<Rightarrow> Inr ()
           | Inr _ \<Rightarrow> Inl (StaleFile path AbsentFromSnapshot)))"

fun check_scope :: "World \<Rightarrow> (string \<times> RawFile) list \<Rightarrow> TuicrImportError + unit" where
  "check_scope w [] = Inr ()"
| "check_scope w ((path, file) # files) =
     res_bind
       (if wd_inventory w path then check_file w path
        else if is_ok (wd_session_bytes w path) then Inl (StaleFile path ShownOutsideInventory) else Inr ())
       (\<lambda>_. check_scope w files)"

subsection \<open>Planning\<close>

record Planner =
  pn_run_id :: string
  pn_session_id :: string
  pn_revision :: SessionRevision
  pn_next :: nat
  pn_prev :: string
  pn_events :: "DecisionEvent list"

definition blank :: "Planner \<Rightarrow> EventKind \<Rightarrow> Actor \<Rightarrow> DecisionEvent" where
  "blank p kind actor =
     \<lparr>ev_schema = EVENT_SCHEMA, ev_seq = 0, ev_prev = [], ev_run_id = pn_run_id p, ev_session_id = pn_session_id p,
      ev_revision = pn_revision p, ev_kind = kind, ev_actor = actor, ev_comment_id = None, ev_ddf_authored = False,
      ev_comment_type = None, ev_lifecycle_state = None, ev_previous_lifecycle_state = None, ev_anchor = None,
      ev_content_hash = None, ev_content_sha256 = None, ev_content = None, ev_links = [], ev_reviewed = None,
      ev_reviewed_hunks = None, ev_conflict = None, ev_supersedes = None, ev_hash = []\<rparr>"

definition comment_event :: "Planner \<Rightarrow> EventKind \<Rightarrow> Actor \<Rightarrow> Observed \<Rightarrow> bool \<Rightarrow> DecisionEvent" where
  "comment_event p kind actor c ddf =
     (blank p kind actor)\<lparr>ev_comment_id := Some (ob_id c), ev_ddf_authored := ddf, ev_comment_type := ob_comment_type c,
       ev_lifecycle_state := Some (ob_lifecycle c), ev_anchor := Some (ob_anchor c), ev_content_hash := ob_content_hash c,
       ev_content_sha256 := Some (ob_sha256 c), ev_content := Some (ob_content c)\<rparr>"

definition seal_event :: "writer \<Rightarrow> Planner \<Rightarrow> DecisionEvent \<Rightarrow> DecisionEvent" where
  "seal_event ser p e =
     (let e1 = e\<lparr>ev_seq := pn_next p, ev_prev := pn_prev p\<rparr> in e1\<lparr>ev_hash := DecisionEvent_digest ser e1\<rparr>)"

definition Planner_push :: "writer \<Rightarrow> Planner \<Rightarrow> DecisionEvent \<Rightarrow> Planner" where
  "Planner_push ser p e =
     (let e1 = seal_event ser p e in
      p\<lparr>pn_next := pn_next p + 1, pn_prev := ev_hash e1, pn_events := pn_events p @ [e1]\<rparr>)"

definition unrecorded :: Actor where
  "unrecorded = \<lparr>ac_name = ''unrecorded'', ac_basis = Unrecorded\<rparr>"

definition actor_for :: "Observed \<Rightarrow> bool \<Rightarrow> Actor" where
  "actor_for c ddf = (if ddf then unrecorded else \<lparr>ac_name = ob_author c, ac_basis = TuicrAuthor\<rparr>)"

record Inputs =
  in_world :: World
  in_ledger :: ledger
  in_journal :: Journal
  in_comments :: "Observed list"
  in_files :: "(string \<times> RawFile) list"

definition council_notes :: "Inputs \<Rightarrow> Observed list" where
  "council_notes x = filter (\<lambda>c. bt_get (in_ledger x) (ob_id c) \<noteq> None) (in_comments x)"

definition prior_state :: "Inputs \<Rightarrow> string \<Rightarrow> Observed \<Rightarrow> CommentState option" where
  "prior_state x session_id c =
     (case bt_get (jn_comments (in_journal x)) (session_id, ob_id c) of
        Some st \<Rightarrow> Some st
      | None \<Rightarrow>
          map_option (\<lambda>e. \<lparr>cs_last = None, cs_sha256 = le_content_sha256 e, cs_lifecycle = LocalDraft, cs_deleted = False\<rparr>)
            (bt_get (in_ledger x) (ob_id c)))"

definition edited_outside :: string where
  "edited_outside = ''a council-authored note was edited outside DDF; its content no longer matches the export ledger''"

text \<open>The events one comment gives rise to, before they are sealed.\<close>

definition planned_for :: "Inputs \<Rightarrow> Planner \<Rightarrow> Observed \<Rightarrow> DecisionEvent list" where
  "planned_for x p c =
     (let ddf = bt_get (in_ledger x) (ob_id c) \<noteq> None;
          ls = (if ddf then [] else links c (pn_run_id p) (in_ledger x) (council_notes x)) in
      case prior_state x (pn_session_id p) c of
        None \<Rightarrow> [(comment_event p (if ls = [] then EkCommentAdded else EkDisposition) (actor_for c False) c False)\<lparr>ev_links := ls\<rparr>]
      | Some prior \<Rightarrow>
          if cs_deleted prior
          then [(comment_event p EkRestored (actor_for c ddf) c ddf)\<lparr>ev_links := ls, ev_supersedes := cs_last prior\<rparr>]
          else
            (let revised = cs_sha256 prior \<noteq> ob_sha256 c in
             (if revised
              then [(comment_event p EkRevised (actor_for c ddf) c ddf)\<lparr>ev_links := ls,
                      ev_conflict := (if ddf then Some edited_outside else None), ev_supersedes := cs_last prior\<rparr>]
              else [])
             @ (if cs_lifecycle prior \<noteq> ob_lifecycle c
                then [(comment_event p EkLifecycle (actor_for c ddf) c ddf)\<lparr>ev_previous_lifecycle_state := Some (cs_lifecycle prior),
                        ev_supersedes := (if revised then None else cs_last prior)\<rparr>]
                else [])))"

text \<open>A lifecycle event after a revision in the same batch supersedes that revision.\<close>

definition supersede_batch :: "Planner \<Rightarrow> DecisionEvent \<Rightarrow> DecisionEvent" where
  "supersede_batch p e =
     (if ev_kind e = EkLifecycle \<and> ev_supersedes e = None
      then (case last_get (pn_events p) of
              Some prev \<Rightarrow> if ev_comment_id prev = ev_comment_id e then e\<lparr>ev_supersedes := Some (ev_hash prev)\<rparr> else e
            | None \<Rightarrow> e)
      else e)"

fun push_planned :: "writer \<Rightarrow> Inputs \<Rightarrow> Observed \<Rightarrow> DecisionEvent list \<Rightarrow> bool \<Rightarrow> Planner \<Rightarrow> TuicrImportError + bool \<times> Planner" where
  "push_planned ser x c [] scope_checked p = Inr (scope_checked, p)"
| "push_planned ser x c (e # es) scope_checked p =
     res_bind
       (case Anchor_file (ob_anchor c) of
          Some path \<Rightarrow> res_bind (check_file (in_world x) path) (\<lambda>_. Inr scope_checked)
        | None \<Rightarrow> if \<not> scope_checked then res_bind (check_scope (in_world x) (in_files x)) (\<lambda>_. Inr True) else Inr scope_checked)
       (\<lambda>checked. push_planned ser x c es checked (Planner_push ser p (supersede_batch p e)))"

fun plan_comments_loop :: "writer \<Rightarrow> Inputs \<Rightarrow> Observed list \<Rightarrow> bool \<Rightarrow> Planner \<Rightarrow> TuicrImportError + Planner" where
  "plan_comments_loop ser x [] scope_checked p = Inr p"
| "plan_comments_loop ser x (c # cs) scope_checked p =
     res_bind (push_planned ser x c (planned_for x p c) scope_checked p) (\<lambda>(checked, p'). plan_comments_loop ser x cs checked p')"

definition plan_comments :: "writer \<Rightarrow> Inputs \<Rightarrow> Planner \<Rightarrow> TuicrImportError + Planner" where
  "plan_comments ser x p = plan_comments_loop ser x (in_comments x) False p"

definition gone_comments :: "Inputs \<Rightarrow> string \<Rightarrow> (string \<times> string option) list" where
  "gone_comments x session_id =
     (let present = ob_id ` set (in_comments x);
          journaled = map (\<lambda>((_, cid), st). (cid, cs_last st))
            (filter (\<lambda>((session, cid), st). session = session_id \<and> \<not> cs_deleted st \<and> cid \<notin> present) (jn_comments (in_journal x)));
          exported = map (\<lambda>(cid, _). (cid, None))
            (filter (\<lambda>(cid, _). bt_get (jn_comments (in_journal x)) (session_id, cid) = None \<and> cid \<notin> present) (in_ledger x)) in
      collect_map (journaled @ exported) [])"

definition last_author :: "Inputs \<Rightarrow> string \<Rightarrow> string \<Rightarrow> string" where
  "last_author x session_id cid =
     (case List.find (\<lambda>e. ev_session_id e = session_id \<and> ev_comment_id e = Some cid \<and> ac_basis (ev_actor e) = TuicrAuthor)
        (rev (jn_events (in_journal x))) of
        None \<Rightarrow> ''unrecorded''
      | Some e \<Rightarrow> ac_name (ev_actor e))"

definition tombstone :: "Inputs \<Rightarrow> Planner \<Rightarrow> string \<times> string option \<Rightarrow> DecisionEvent" where
  "tombstone x p = (\<lambda>(cid, last_hash).
     (let ddf = bt_get (in_ledger x) cid \<noteq> None;
          actor = (if ddf then unrecorded else \<lparr>ac_name = last_author x (pn_session_id p) cid, ac_basis = TuicrAuthor\<rparr>) in
      (blank p EkDeleted actor)\<lparr>ev_comment_id := Some cid, ev_ddf_authored := ddf, ev_supersedes := last_hash\<rparr>))"

definition plan_tombstones :: "writer \<Rightarrow> Inputs \<Rightarrow> Planner \<Rightarrow> Planner" where
  "plan_tombstones ser x p = foldl (\<lambda>p g. Planner_push ser p (tombstone x p g)) p (gone_comments x (pn_session_id p))"

fun plan_files_loop :: "writer \<Rightarrow> Inputs \<Rightarrow> (string \<times> RawFile) list \<Rightarrow> Planner \<Rightarrow> TuicrImportError + Planner" where
  "plan_files_loop ser x [] p = Inr p"
| "plan_files_loop ser x ((path, file) # files) p =
     (let prior = (case bt_get (jn_files (in_journal x)) (pn_session_id p, path) of Some st \<Rightarrow> st | None \<Rightarrow> FileState_default) in
      if fs_reviewed prior = rw_reviewed file \<and> set (fs_hunks prior) = set (rw_reviewed_hunks file)
      then plan_files_loop ser x files p
      else
        res_bind
          (if rw_reviewed file \<or> rw_reviewed_hunks file \<noteq> [] then
             (case rw_content_hash file of
                None \<Rightarrow> Inl (StaleReviewMark path NoContentHash)
              | Some hash \<Rightarrow>
                  (case fs_pinned prior of
                     Some pinned \<Rightarrow> if pinned \<noteq> hash then Inl (StaleReviewMark path (PinnedDiffers hash pinned)) else Inr ()
                   | None \<Rightarrow> Inr ()))
           else Inr ()) (\<lambda>_.
        res_bind (check_file (in_world x) path) (\<lambda>_.
        plan_files_loop ser x files
          (Planner_push ser p
            ((blank p EkFileReview unrecorded)\<lparr>ev_anchor := Some (AnFile path), ev_content_hash := rw_content_hash file,
               ev_reviewed := Some (rw_reviewed file), ev_reviewed_hunks := Some (rw_reviewed_hunks file),
               ev_supersedes := fs_last prior\<rparr>)))))"

definition plan_files :: "writer \<Rightarrow> Inputs \<Rightarrow> Planner \<Rightarrow> TuicrImportError + Planner" where
  "plan_files ser x p = plan_files_loop ser x (in_files x) p"

subsection \<open>Appending\<close>

definition encode :: "writer \<Rightarrow> nat \<Rightarrow> DecisionEvent list \<Rightarrow> TuicrImportError + string" where
  "encode ser verified_len events =
     (let ls = unlines (map ser events) in
      if JOURNAL_CAP < verified_len + length ls then Inl (JournalFailure (WouldPassCap (length ls) verified_len)) else Inr ls)"

text \<open>Opening the file creates it; a checkpoint is written only where no file of its name exists.\<close>

definition append_events :: "RunDir \<Rightarrow> nat \<Rightarrow> string \<Rightarrow> DecisionEvent list \<Rightarrow> (TuicrImportError + unit) \<times> RunDir" where
  "append_events d verified_len ls events =
     (let old = (case rd_journal d of Some bytes \<Rightarrow> bytes | None \<Rightarrow> []) in
      if length old \<noteq> verified_len then (Inl (JournalFailure JournalChanged), d\<lparr>rd_journal := Some old\<rparr>)
      else
        (let d1 = d\<lparr>rd_journal := Some (old @ ls)\<rparr> in
         if events = [] then (Inr (), d1)
         else
           (let c = \<lparr>cp_seq = ev_seq (last events), cp_hash = ev_hash (last events)\<rparr>; name = checkpoint_name (cp_seq c) in
            if name \<in> fst ` set (rd_checkpoints d) then (Inl (SessionFailure name), d1)
            else (Inr (), d1\<lparr>rd_checkpoints := rd_checkpoints d @ [(name, Inr c)]\<rparr>))))"

record TuicrImport =
  ti_run_id :: string
  ti_session_id :: string
  ti_revision :: SessionRevision
  ti_executed :: bool
  ti_journal_events :: nat
  ti_events :: "DecisionEvent list"
  ti_conflicts :: nat

definition commit_id :: "string \<Rightarrow> bool" where
  "commit_id value \<longleftrightarrow>
     (length value = 40 \<or> length value = 64)
     \<and> list_all (\<lambda>b. is_ascii_digit b \<or> 65 \<le> byte b \<and> byte b \<le> 70 \<or> 97 \<le> byte b \<and> byte b \<le> 102) value"

definition start_planner :: "World \<Rightarrow> Journal \<Rightarrow> Planner" where
  "start_planner w j =
     \<lparr>pn_run_id = wd_run_id w, pn_session_id = wd_session_id w,
      pn_revision = \<lparr>sv_diff_source = (case wd_diff_source w of Some s \<Rightarrow> s | None \<Rightarrow> ''working_tree''), sv_base_commit = wd_base_commit w,
        sv_new_side = wd_label w\<rparr>,
      pn_next = fst (Journal_head j), pn_prev = snd (Journal_head j), pn_events = []\<rparr>"

definition plan_all :: "writer \<Rightarrow> Inputs \<Rightarrow> TuicrImportError + Planner" where
  "plan_all ser x =
     res_bind (plan_comments ser x (start_planner (in_world x) (in_journal x))) (\<lambda>p.
     plan_files ser x (plan_tombstones ser x p))"

text \<open>What the import reads and checks before it looks at the journal.\<close>

definition import_inputs :: "World \<Rightarrow> TuicrImportError + (Observed list \<times> (string \<times> RawFile) list) \<times> ledger" where
  "import_inputs w =
     (if \<not> commit_id (wd_base_commit w) then Inl (SessionFailure ''base_commit is not a full commit id, so the session cannot be bound to the run'')
      else if wd_base_commit w \<noteq> wd_head w then Inl (StaleRevision (wd_base_commit w) (wd_head w))
      else case wd_session w of
        Inl e \<Rightarrow> Inl (UnsafeSession (SessionNotJson e))
      | Inr raw \<Rightarrow>
          res_bind (observed_comments raw) (\<lambda>observed.
          res_bind (Ledger_load (wd_run_id w) (wd_session_id w) (wd_ledger w)) (\<lambda>l. Inr (observed, l))))"

definition plan_import ::
    "writer \<Rightarrow> reader \<Rightarrow> RunDir \<Rightarrow> World \<Rightarrow> (Observed list \<times> (string \<times> RawFile) list) \<times> ledger \<Rightarrow> TuicrImportError + Journal \<times> Planner \<times> string" where
  "plan_import ser de d w = (\<lambda>((comments, files), l).
     res_bind (load_journal ser de d (wd_run_id w)) (\<lambda>j.
     res_bind (plan_all ser \<lparr>in_world = w, in_ledger = l, in_journal = j, in_comments = comments, in_files = files\<rparr>) (\<lambda>p.
     res_bind (encode ser (jn_bytes j) (pn_events p)) (\<lambda>ls. Inr (j, p, ls)))))"

text \<open>The lock is released on every return of an executing import.\<close>

definition import_tuicr :: "writer \<Rightarrow> reader \<Rightarrow> RunDir \<Rightarrow> World \<Rightarrow> bool \<Rightarrow> (TuicrImportError + TuicrImport) \<times> RunDir" where
  "import_tuicr ser de d w execute =
     (case import_inputs w of
        Inl e \<Rightarrow> (Inl e, d)
      | Inr inputs \<Rightarrow>
          if execute \<and> rd_locked d then (Inl Locked, d)
          else case plan_import ser de d w inputs of
            Inl e \<Rightarrow> (Inl e, d)
          | Inr (j, p, ls) \<Rightarrow>
              (case (if execute \<and> pn_events p \<noteq> [] then append_events d (jn_bytes j) ls (pn_events p) else (Inr (), d)) of
                 (Inl e, d') \<Rightarrow> (Inl e, d')
               | (Inr _, d') \<Rightarrow>
                   (Inr \<lparr>ti_run_id = wd_run_id w, ti_session_id = wd_session_id w, ti_revision = pn_revision p, ti_executed = execute,
                         ti_journal_events = fst (Journal_head j), ti_events = pn_events p,
                         ti_conflicts = length (filter (\<lambda>e. ev_conflict e \<noteq> None) (pn_events p))\<rparr>, d')))"

end
