(* ===== verification/Journal_Chain.thy ===== *)
theory Journal_Chain
  imports Journal
begin

text \<open>
  The hash chain of the decision journal: what a journal that loads looks like, that a chain of events
  loads again, and that two chains with the same head are the same unless SHA-256 collides.
\<close>

subsection \<open>Lines\<close>

lemma split_inclusive_append:
  "t = [] \<or> last t = c \<Longrightarrow> split_inclusive c (t @ s) = split_inclusive c t @ split_inclusive c s"
proof (induction t)
  case (Cons x t)
  show ?case
  proof (cases "t = []")
    case False
    then have ih: "split_inclusive c (t @ s) = split_inclusive c t @ split_inclusive c s" using Cons by simp
    have "split_inclusive c t \<noteq> []" using False by (cases t) (auto split: list.splits)
    then obtain p ps where "split_inclusive c t = p # ps" by (cases "split_inclusive c t") auto
    then show ?thesis using ih by simp
  qed (use Cons.prems in simp)
qed simp

lemma str_lines_append: "t = [] \<or> ends_with [LF] t \<Longrightarrow> str_lines (t @ s) = str_lines t @ str_lines s"
  using split_inclusive_append [of t LF s] by (auto simp: str_lines_def ends_with_iff)

lemma chomp_line: "l = [] \<or> last l \<noteq> CR \<Longrightarrow> chomp (l @ [LF]) = l"
  by (cases l rule: rev_cases) (auto simp: chomp_def strip_suffix_def ends_with_def)

lemma str_lines_unlines:
  "\<forall>l\<in>set ls. LF \<notin> set l \<and> (l = [] \<or> last l \<noteq> CR) \<Longrightarrow> str_lines (unlines ls) = ls"
  by (induction ls) (auto simp: str_lines_def split_inclusive_line chomp_line)

subsection \<open>Chains\<close>

fun chain :: "writer \<Rightarrow> string \<Rightarrow> nat \<Rightarrow> string \<Rightarrow> DecisionEvent list \<Rightarrow> bool" where
  "chain ser run_id seq prev [] \<longleftrightarrow> True"
| "chain ser run_id seq prev (e # es) \<longleftrightarrow>
     event_verifies ser run_id seq prev (ser e) e \<and> chain ser run_id (seq + 1) (ev_hash e) es"

definition chain_head :: "string \<Rightarrow> DecisionEvent list \<Rightarrow> string" where
  "chain_head prev es = (if es = [] then prev else ev_hash (last es))"

lemma chain_append:
  "chain ser run_id seq prev (es @ fs) \<longleftrightarrow> chain ser run_id seq prev es \<and> chain ser run_id (seq + length es) (chain_head prev es) fs"
  by (induction es arbitrary: seq prev) (auto simp: chain_head_def)

lemma chain_seq: "chain ser run_id seq prev es \<Longrightarrow> i < length es \<Longrightarrow> ev_seq (es ! i) = seq + i"
proof (induction es arbitrary: seq prev i)
  case (Cons e es)
  then show ?case by (cases i) (auto simp: event_verifies_def)
qed simp

definition readable :: "writer \<Rightarrow> reader \<Rightarrow> DecisionEvent \<Rightarrow> bool" where
  "readable ser de e \<longleftrightarrow> de (ser e) = Inr e"

lemma load_lines_chain:
  "chain ser run_id seq prev es \<Longrightarrow> \<forall>e\<in>set es. readable ser de e \<Longrightarrow>
   load_lines ser de run_id seq prev (map ser es) j = Inr (foldl push_event j es)"
  by (induction es arbitrary: seq prev j) (auto simp: readable_def)

lemma load_lines_events:
  "load_lines ser de run_id seq prev ls j = Inr j' \<Longrightarrow>
   \<exists>es. ls = map ser es \<and> chain ser run_id seq prev es \<and> (\<forall>e\<in>set es. readable ser de e) \<and> j' = foldl push_event j es"
proof (induction ls arbitrary: seq prev j)
  case (Cons line ls)
  then obtain e where e: "de line = Inr e" "event_verifies ser run_id seq prev line e"
      "load_lines ser de run_id (seq + 1) (ev_hash e) ls (push_event j e) = Inr j'"
    by (auto split: sum.splits if_splits)
  then obtain es where es: "ls = map ser es" "chain ser run_id (seq + 1) (ev_hash e) es" "\<forall>e\<in>set es. readable ser de e"
      "j' = foldl push_event (push_event j e) es"
    using Cons.IH by blast
  have "line = ser e" using e(2) by (simp add: event_verifies_def)
  then show ?case using e es by (intro exI [of _ "e # es"]) (auto simp: readable_def)
qed simp

lemma replay_fields [simp]: "jn_events (replay j e) = jn_events j" "jn_bytes (replay j e) = jn_bytes j"
  by (auto simp: replay_def Let_def split: option.splits EventKind.splits)

lemma push_event_fields [simp]: "jn_events (push_event j e) = jn_events j @ [e]" "jn_bytes (push_event j e) = jn_bytes j"
  by (simp_all add: push_event_def Let_def)

lemma foldl_push_fields [simp]:
  "jn_events (foldl push_event j es) = jn_events j @ es" "jn_bytes (foldl push_event j es) = jn_bytes j"
  by (induction es arbitrary: j) auto

subsection \<open>Loaded journals\<close>

definition file_bytes :: "RunDir \<Rightarrow> string" where
  "file_bytes d = (case rd_journal d of Some bytes \<Rightarrow> bytes | None \<Rightarrow> [])"

text \<open>A journal that loads: its bytes are the lines of a chain from the genesis hash, and the state is their replay.\<close>

definition loaded :: "writer \<Rightarrow> reader \<Rightarrow> string \<Rightarrow> string \<Rightarrow> Journal \<Rightarrow> bool" where
  "loaded ser de run_id bytes j \<longleftrightarrow>
     chain ser run_id 0 genesis (jn_events j) \<and> (\<forall>e\<in>set (jn_events j). readable ser de e)
     \<and> str_lines bytes = map ser (jn_events j) \<and> (bytes = [] \<or> ends_with [LF] bytes) \<and> utf8_valid bytes
     \<and> length bytes \<le> JOURNAL_CAP
     \<and> j = foldl push_event (Journal_default\<lparr>jn_bytes := length bytes\<rparr>) (jn_events j)"

lemma Journal_default_bytes: "Journal_default\<lparr>jn_bytes := 0\<rparr> = Journal_default"
  by (simp add: Journal_default_def)

lemma load_file_loaded:
  "load_file ser de run_id content = Inr j \<Longrightarrow> loaded ser de run_id (case content of Some bytes \<Rightarrow> bytes | None \<Rightarrow> []) j"
proof (cases content)
  case None
  assume "load_file ser de run_id content = Inr j"
  then have "j = Journal_default" using None by (simp add: load_file_def)
  then show ?thesis
    using None by (simp add: loaded_def Journal_default_def str_lines_def)
next
  case (Some bytes)
  assume "load_file ser de run_id content = Inr j"
  then have b: "length bytes \<le> JOURNAL_CAP" "utf8_valid bytes" "bytes = [] \<or> ends_with [LF] bytes"
    "load_lines ser de run_id 0 genesis (str_lines bytes) (Journal_default\<lparr>jn_bytes := length bytes\<rparr>) = Inr j"
    using Some by (auto simp: load_file_def split: if_splits)
  obtain es where es: "str_lines bytes = map ser es" "chain ser run_id 0 genesis es" "\<forall>e\<in>set es. readable ser de e"
      "j = foldl push_event (Journal_default\<lparr>jn_bytes := length bytes\<rparr>) es"
    using load_lines_events [OF b(4)] by blast
  have "jn_events j = es" unfolding es(4) by (simp add: Journal_default_def)
  then show ?thesis using Some b es by (simp add: loaded_def)
qed

lemma load_file_complete:
  assumes "loaded ser de run_id bytes j"
  shows "load_file ser de run_id (Some bytes) = Inr j"
  using assms load_lines_chain [of ser run_id 0 genesis "jn_events j" de "Journal_default\<lparr>jn_bytes := length bytes\<rparr>"]
  unfolding loaded_def load_file_def by auto

lemma load_journal_parts:
  assumes "load_journal ser de d run_id = Inr j"
  shows "loaded ser de run_id (file_bytes d) j" "check_checkpoints (jn_events j) (rd_checkpoints d) = Inr ()"
    "length (rd_checkpoints d) \<le> ENTRY_CAP"
proof -
  have l: "load_file ser de run_id (rd_journal d) = Inr j" "check_checkpoints (jn_events j) (take ENTRY_CAP (rd_checkpoints d)) = Inr ()"
    "length (rd_checkpoints d) \<le> ENTRY_CAP"
    using assms by (auto simp: load_journal_def res_bind_Inr_iff split: if_splits)
  then show "loaded ser de run_id (file_bytes d) j" using load_file_loaded by (auto simp: file_bytes_def)
  show "check_checkpoints (jn_events j) (rd_checkpoints d) = Inr ()" "length (rd_checkpoints d) \<le> ENTRY_CAP" using l by simp_all
qed

lemma loaded_head:
  assumes "loaded ser de run_id bytes j"
  shows "Journal_head j = (length (jn_events j), chain_head genesis (jn_events j))" "jn_bytes j = length bytes"
proof -
  have "ev_seq (last (jn_events j)) = length (jn_events j) - 1" if "jn_events j \<noteq> []"
    using chain_seq [of ser run_id 0 genesis "jn_events j" "length (jn_events j) - 1"] assms that
    by (simp add: loaded_def last_conv_nth)
  then show "Journal_head j = (length (jn_events j), chain_head genesis (jn_events j))"
    by (auto simp: Journal_head_def chain_head_def Suc_leI)
  have "j = foldl push_event (Journal_default\<lparr>jn_bytes := length bytes\<rparr>) (jn_events j)" using assms by (simp add: loaded_def)
  then have "jn_bytes j = jn_bytes (foldl push_event (Journal_default\<lparr>jn_bytes := length bytes\<rparr>) (jn_events j))" by metis
  then show "jn_bytes j = length bytes" by simp
qed

subsection \<open>Appending a chain\<close>

definition writable :: "writer \<Rightarrow> reader \<Rightarrow> DecisionEvent \<Rightarrow> bool" where
  "writable ser de e \<longleftrightarrow> readable ser de e \<and> LF \<notin> set (ser e) \<and> (ser e = [] \<or> last (ser e) \<noteq> CR) \<and> utf8_valid (ser e)"

lemma utf8_valid_unlines: "\<forall>l\<in>set ls. utf8_valid l \<Longrightarrow> utf8_valid (unlines ls)"
proof (induction ls)
  case (Cons l ls)
  then have "utf8_valid (LF # unlines ls)" by (simp add: utf8_valid_ascii)
  then show ?case using Cons utf8_valid_append by simp
qed simp

lemma loaded_append:
  assumes "loaded ser de run_id bytes j" "chain ser run_id (length (jn_events j)) (chain_head genesis (jn_events j)) es"
    "\<forall>e\<in>set es. writable ser de e" "length bytes + length (unlines (map ser es)) \<le> JOURNAL_CAP"
  shows "loaded ser de run_id (bytes @ unlines (map ser es)) (foldl push_event (j\<lparr>jn_bytes := length bytes + length (unlines (map ser es))\<rparr>) es)"
proof -
  have l: "chain ser run_id 0 genesis (jn_events j)" "\<forall>e\<in>set (jn_events j). readable ser de e" "str_lines bytes = map ser (jn_events j)"
    "bytes = [] \<or> ends_with [LF] bytes" "utf8_valid bytes"
    "j = foldl push_event (Journal_default\<lparr>jn_bytes := length bytes\<rparr>) (jn_events j)"
    using assms(1) by (simp_all add: loaded_def)
  have lines: "str_lines (bytes @ unlines (map ser es)) = map ser (jn_events j @ es)"
    using str_lines_append [OF l(4)] str_lines_unlines [of "map ser es"] assms(3) l(3) by (simp add: writable_def)
  have valid: "utf8_valid (bytes @ unlines (map ser es))"
    using l(5) utf8_valid_unlines [of "map ser es"] assms(3) by (simp add: utf8_valid_append writable_def)
  have linked: "chain ser run_id 0 genesis (jn_events j @ es)" using l(1) assms(2) by (simp add: chain_append)
  have ends: "bytes @ unlines (map ser es) = [] \<or> ends_with [LF] (bytes @ unlines (map ser es))"
    using l(4) unlines_ends [of "map ser es"] by (cases es) (auto simp: ends_with_iff)
  have folded: "foldl push_event (j\<lparr>jn_bytes := n\<rparr>) es = foldl push_event (Journal_default\<lparr>jn_bytes := n\<rparr>) (jn_events j @ es)" for n
  proof -
    have push: "push_event (i\<lparr>jn_bytes := n\<rparr>) e = (push_event i e)\<lparr>jn_bytes := n\<rparr>" for i e
      by (auto simp: push_event_def replay_def Let_def split: option.splits EventKind.splits)
    have "foldl push_event (i\<lparr>jn_bytes := n\<rparr>) fs = (foldl push_event i fs)\<lparr>jn_bytes := n\<rparr>" for i fs
      by (induction fs arbitrary: i) (simp_all add: push)
    from this [of "Journal_default\<lparr>jn_bytes := length bytes\<rparr>" "jn_events j"] show ?thesis using l(6) by simp
  qed
  have "\<forall>e\<in>set (jn_events j @ es). readable ser de e" using l(2) assms(3) by (auto simp: writable_def)
  moreover have "jn_events (foldl push_event (j\<lparr>jn_bytes := n\<rparr>) es) = jn_events j @ es" for n by simp
  ultimately show ?thesis
    unfolding loaded_def length_append using lines valid linked ends folded assms(4) by simp
qed

subsection \<open>Checkpoints\<close>

lemma check_checkpoints_iff:
  "check_checkpoints events cs = Inr () \<longleftrightarrow>
     (\<forall>(name, content)\<in>set cs. \<exists>c. content = Inr c \<and> name = checkpoint_name (cp_seq c) \<and> cp_seq c < length events
        \<and> ev_hash (events ! cp_seq c) = cp_hash c)"
proof (induction events cs rule: check_checkpoints.induct)
  case (2 events name content cs)
  then show ?case by (cases content) (auto simp: opt_is_none_or_def nth_get_def split: if_splits)
qed simp

lemma checkpoints_extend:
  assumes "check_checkpoints events cs = Inr ()"
  shows "check_checkpoints (events @ later) cs = Inr ()"
  using assms by (fastforce simp: check_checkpoints_iff nth_append)

subsection \<open>Tampering\<close>

definition unsealed :: "DecisionEvent \<Rightarrow> DecisionEvent" where
  "unsealed e = e\<lparr>ev_hash := []\<rparr>"

definition collision :: "string \<Rightarrow> string \<Rightarrow> bool" where
  "collision a b \<longleftrightarrow> a \<noteq> b \<and> sha256 a = sha256 b"

lemma event_same:
  assumes "ev_hash a = DecisionEvent_digest ser a" "ev_hash b = DecisionEvent_digest ser b" "ev_hash a = ev_hash b"
    "readable ser de (unsealed a)" "readable ser de (unsealed b)"
  shows "a = b \<or> collision (ser (unsealed a)) (ser (unsealed b))"
proof (cases "ser (unsealed a) = ser (unsealed b)")
  case True
  then have "unsealed a = unsealed b" using assms(4,5) unfolding readable_def by (metis sum.inject(2))
  then have "(unsealed a)\<lparr>ev_hash := ev_hash a\<rparr> = (unsealed b)\<lparr>ev_hash := ev_hash b\<rparr>" using assms(3) by simp
  then show ?thesis by (simp add: unsealed_def)
next
  case False
  have "sha256_hex (ser (unsealed a)) = sha256_hex (ser (unsealed b))" using assms(1-3) by (simp add: DecisionEvent_digest_def unsealed_def)
  then show ?thesis using False by (simp add: collision_def sha256_hex_inj)
qed

lemma chains_same:
  assumes "chain ser run_id seq prev as" "chain ser run_id seq prev bs" "length as = length bs" "chain_head prev as = chain_head prev bs"
    "\<forall>e\<in>set as \<union> set bs. readable ser de (unsealed e)"
  shows "as = bs \<or> (\<exists>a\<in>set as. \<exists>b\<in>set bs. collision (ser (unsealed a)) (ser (unsealed b)))"
  using assms
proof (induction as arbitrary: bs rule: rev_induct)
  case (snoc a as)
  obtain b bs' where bs: "bs = bs' @ [b]" using snoc.prems(3) by (cases bs rule: rev_cases) auto
  have v: "chain ser run_id seq prev as" "chain ser run_id seq prev bs'" "length as = length bs'"
    "event_verifies ser run_id (seq + length as) (chain_head prev as) (ser a) a"
    "event_verifies ser run_id (seq + length bs') (chain_head prev bs') (ser b) b"
    using snoc.prems(1-3) by (auto simp: bs chain_append)
  have h: "ev_hash a = ev_hash b" using snoc.prems(4) by (simp add: bs chain_head_def)
  have "a = b \<or> collision (ser (unsealed a)) (ser (unsealed b))"
    by (rule event_same [of a ser b de]) (use h v(4,5) snoc.prems(5) in \<open>auto simp: event_verifies_def bs\<close>)
  moreover have "as = bs' \<or> (\<exists>a\<in>set as. \<exists>b\<in>set bs'. collision (ser (unsealed a)) (ser (unsealed b)))" if "a = b"
  proof -
    have "chain_head prev as = chain_head prev bs'" using v(4,5) that by (simp add: event_verifies_def)
    then show ?thesis using snoc.IH [OF v(1,2,3)] snoc.prems(5) by (simp add: bs)
  qed
  ultimately show ?case by (auto simp: bs)
qed simp

end
