(* ===== verification/Journal_Plan.thy ===== *)
theory Journal_Plan
  imports Journal_Chain Council_Props
begin

text \<open>
  What an import plans: the events extend the hash chain, each stands for a comment, a vanished comment or a
  review mark of the session, and it was checked against the sealed bytes; replayed, they leave nothing
  more to plan.
\<close>

subsection \<open>The planner extends the chain\<close>

definition extends :: "writer \<Rightarrow> Planner \<Rightarrow> Planner \<Rightarrow> DecisionEvent list \<Rightarrow> bool" where
  "extends ser p p' es \<longleftrightarrow>
     pn_run_id p' = pn_run_id p \<and> pn_session_id p' = pn_session_id p \<and> pn_revision p' = pn_revision p
     \<and> pn_events p' = pn_events p @ es \<and> chain ser (pn_run_id p) (pn_next p) (pn_prev p) es
     \<and> pn_next p' = pn_next p + length es \<and> pn_prev p' = chain_head (pn_prev p) es"

lemma extends_refl: "extends ser p p []"
  by (simp add: extends_def chain_head_def)

lemma extends_trans: "extends ser p q es \<Longrightarrow> extends ser q r fs \<Longrightarrow> extends ser p r (es @ fs)"
  by (auto simp: extends_def chain_append chain_head_def)

lemma extends_fields: "extends ser p q es \<Longrightarrow> pn_run_id q = pn_run_id p \<and> pn_session_id q = pn_session_id p \<and> pn_revision q = pn_revision p"
  by (simp add: extends_def)

definition own :: "Planner \<Rightarrow> DecisionEvent \<Rightarrow> bool" where
  "own p e \<longleftrightarrow> ev_schema e = EVENT_SCHEMA \<and> ev_run_id e = pn_run_id p \<and> ev_session_id e = pn_session_id p"

lemma digest_unsealed [simp]: "DecisionEvent_digest ser (e\<lparr>ev_hash := h\<rparr>) = DecisionEvent_digest ser e"
  by (simp add: DecisionEvent_digest_def)

lemma seal_event_fields [simp]:
  "ev_kind (seal_event ser p e) = ev_kind e" "ev_comment_id (seal_event ser p e) = ev_comment_id e"
  "ev_session_id (seal_event ser p e) = ev_session_id e" "ev_content_sha256 (seal_event ser p e) = ev_content_sha256 e"
  "ev_lifecycle_state (seal_event ser p e) = ev_lifecycle_state e" "ev_anchor (seal_event ser p e) = ev_anchor e"
  "ev_reviewed (seal_event ser p e) = ev_reviewed e" "ev_reviewed_hunks (seal_event ser p e) = ev_reviewed_hunks e"
  "ev_content_hash (seal_event ser p e) = ev_content_hash e"
  by (simp_all add: seal_event_def Let_def)

lemma push_extends: "own p e \<Longrightarrow> extends ser p (Planner_push ser p e) [seal_event ser p e]"
  by (simp add: extends_def Planner_push_def own_def chain_head_def event_verifies_def seal_event_def Let_def)

lemma blank_own [simp]: "own p (blank p kind actor)"
  by (simp add: own_def blank_def)

lemma own_same: "own p e \<Longrightarrow> pn_run_id q = pn_run_id p \<Longrightarrow> pn_session_id q = pn_session_id p \<Longrightarrow> own q e"
  by (simp add: own_def)

subsection \<open>Comments\<close>

definition observes :: "string \<Rightarrow> Observed \<Rightarrow> DecisionEvent \<Rightarrow> bool" where
  "observes sid c e \<longleftrightarrow>
     ev_session_id e = sid \<and> ev_comment_id e = Some (ob_id c) \<and> ev_kind e \<noteq> EkDeleted
     \<and> ev_content_sha256 e = Some (ob_sha256 c) \<and> ev_lifecycle_state e = Some (ob_lifecycle c) \<and> ev_anchor e = Some (ob_anchor c)"

definition settled :: "Inputs \<Rightarrow> string \<Rightarrow> Observed \<Rightarrow> bool" where
  "settled x sid c \<longleftrightarrow>
     (case prior_state x sid c of
        None \<Rightarrow> False
      | Some st \<Rightarrow> \<not> cs_deleted st \<and> cs_sha256 st = ob_sha256 c \<and> cs_lifecycle st = ob_lifecycle c)"

lemma planned_for_fields:
  assumes "e \<in> set (planned_for x p c)"
  shows "own p e" "observes (pn_session_id p) c e"
  using assms
  by (auto simp: planned_for_def own_def observes_def comment_event_def blank_def Let_def split: option.splits if_splits)

lemma planned_for_Nil: "planned_for x p c = [] \<longleftrightarrow> settled x (pn_session_id p) c"
  by (auto simp: planned_for_def settled_def Let_def split: option.splits)

definition scope_ok :: "Inputs \<Rightarrow> bool" where
  "scope_ok x \<longleftrightarrow> check_scope (in_world x) (in_files x) = Inr ()"

definition anchor_checked :: "Inputs \<Rightarrow> Observed \<Rightarrow> bool" where
  "anchor_checked x c \<longleftrightarrow>
     (case Anchor_file (ob_anchor c) of Some path \<Rightarrow> check_file (in_world x) path = Inr () | None \<Rightarrow> scope_ok x)"

lemma supersede_batch_fields:
  "own q (supersede_batch p e) = own q e" "observes sid c (supersede_batch p e) = observes sid c e"
  by (auto simp: supersede_batch_def own_def observes_def split: option.splits)

lemma observes_seal [simp]: "observes sid c (seal_event ser p e) = observes sid c e"
  by (simp add: observes_def)

lemma push_planned_result:
  assumes "push_planned ser x c es chk p = Inr (chk', p')" "chk \<longrightarrow> scope_ok x" "\<forall>e\<in>set es. own p e \<and> observes sid c e"
  shows "\<exists>fs. extends ser p p' fs \<and> length fs = length es \<and> (\<forall>e\<in>set fs. observes sid c e)
    \<and> (chk' \<longrightarrow> scope_ok x) \<and> (es \<noteq> [] \<longrightarrow> anchor_checked x c)"
  using assms
proof (induction es arbitrary: chk p)
  case Nil
  then show ?case using extends_refl by fastforce
next
  case (Cons e es)
  let ?q = "Planner_push ser p (supersede_batch p e)"
  obtain chk1 where s: "push_planned ser x c es chk1 ?q = Inr (chk', p')" "chk1 \<longrightarrow> scope_ok x" "anchor_checked x c"
    using Cons.prems(1,2)
    by (auto simp: res_bind_Inr_iff anchor_checked_def scope_ok_def split: option.splits if_splits)
  have ext: "extends ser p ?q [seal_event ser p (supersede_batch p e)]"
    using Cons.prems(3) by (intro push_extends) (simp add: supersede_batch_fields)
  have "\<forall>e\<in>set es. own ?q e \<and> observes sid c e"
    using Cons.prems(3) extends_fields [OF ext] own_same by auto
  then obtain fs where "extends ser ?q p' fs" "length fs = length es" "\<forall>e\<in>set fs. observes sid c e" "chk' \<longrightarrow> scope_ok x"
    using Cons.IH [OF s(1,2)] by blast
  then show ?case
    using extends_trans [OF ext] s(3) Cons.prems(3)
    by (intro exI [of _ "seal_event ser p (supersede_batch p e) # fs"]) (auto simp: supersede_batch_fields)
qed

lemma plan_comments_result:
  assumes "plan_comments_loop ser x cs chk p = Inr p'" "chk \<longrightarrow> scope_ok x"
  shows "\<exists>es. extends ser p p' es \<and> (\<forall>e\<in>set es. \<exists>c\<in>set cs. observes (pn_session_id p) c e \<and> anchor_checked x c)
    \<and> (\<forall>c\<in>set cs. (\<exists>e\<in>set es. observes (pn_session_id p) c e) \<or> settled x (pn_session_id p) c)"
  using assms
proof (induction cs arbitrary: chk p)
  case Nil
  then show ?case using extends_refl by fastforce
next
  case (Cons c cs)
  then obtain chk1 q where q: "push_planned ser x c (planned_for x p c) chk p = Inr (chk1, q)"
      "plan_comments_loop ser x cs chk1 q = Inr p'"
    by (auto simp: res_bind_Inr_iff)
  obtain fs where fs: "extends ser p q fs" "length fs = length (planned_for x p c)" "\<forall>e\<in>set fs. observes (pn_session_id p) c e"
      "chk1 \<longrightarrow> scope_ok x" "planned_for x p c \<noteq> [] \<longrightarrow> anchor_checked x c"
    using push_planned_result [OF q(1) Cons.prems(2), of "pn_session_id p"] planned_for_fields by blast
  obtain es where es: "extends ser q p' es" "\<forall>e\<in>set es. \<exists>c\<in>set cs. observes (pn_session_id p) c e \<and> anchor_checked x c"
      "\<forall>c\<in>set cs. (\<exists>e\<in>set es. observes (pn_session_id p) c e) \<or> settled x (pn_session_id p) c"
    using Cons.IH [OF q(2) fs(4)] extends_fields [OF fs(1)] by auto
  have new: "(\<exists>e\<in>set fs. observes (pn_session_id p) c e) \<or> settled x (pn_session_id p) c"
  proof (cases fs)
    case Nil
    then show ?thesis using fs(2) planned_for_Nil [of x p c] by simp
  qed (use fs(3) in auto)
  have checked: "fs \<noteq> [] \<Longrightarrow> anchor_checked x c" using fs(2,5) by auto
  have "\<forall>e\<in>set (fs @ es). \<exists>d\<in>set (c # cs). observes (pn_session_id p) d e \<and> anchor_checked x d"
    using fs(3) es(2) checked by fastforce
  moreover have "\<forall>d\<in>set (c # cs). (\<exists>e\<in>set (fs @ es). observes (pn_session_id p) d e) \<or> settled x (pn_session_id p) d"
    using new es(3) by auto
  ultimately show ?case using extends_trans [OF fs(1) es(1)] by blast
qed

subsection \<open>Tombstones\<close>

definition tombstones :: "string \<Rightarrow> string \<Rightarrow> DecisionEvent \<Rightarrow> bool" where
  "tombstones sid cid e \<longleftrightarrow> ev_session_id e = sid \<and> ev_comment_id e = Some cid \<and> ev_kind e = EkDeleted \<and> ev_anchor e = None"

lemma tombstone_fields: "own p (tombstone x p g)" "tombstones (pn_session_id p) (fst g) (tombstone x p g)"
  by (auto simp: tombstone_def own_def tombstones_def blank_def Let_def split: prod.splits)

lemma tombstones_seal [simp]: "tombstones sid cid (seal_event ser p e) = tombstones sid cid e"
  by (simp add: tombstones_def)

lemma plan_gone:
  "\<exists>es. extends ser p (foldl (\<lambda>p g. Planner_push ser p (tombstone x p g)) p gs) es
    \<and> (\<forall>e\<in>set es. \<exists>g\<in>set gs. tombstones (pn_session_id p) (fst g) e) \<and> (\<forall>g\<in>set gs. \<exists>e\<in>set es. tombstones (pn_session_id p) (fst g) e)"
proof (induction gs arbitrary: p)
  case Nil
  then show ?case using extends_refl by fastforce
next
  case (Cons g gs)
  let ?q = "Planner_push ser p (tombstone x p g)" and ?e = "seal_event ser p (tombstone x p g)"
  have ext: "extends ser p ?q [?e]" by (rule push_extends [OF tombstone_fields(1)])
  obtain es where es: "extends ser ?q (foldl (\<lambda>p g. Planner_push ser p (tombstone x p g)) ?q gs) es"
    "\<forall>e\<in>set es. \<exists>g\<in>set gs. tombstones (pn_session_id p) (fst g) e" "\<forall>g\<in>set gs. \<exists>e\<in>set es. tombstones (pn_session_id p) (fst g) e"
    using Cons.IH [of ?q] extends_fields [OF ext] by auto
  have "tombstones (pn_session_id p) (fst g) ?e" using tombstone_fields(2) by simp
  then show ?case using extends_trans [OF ext es(1)] es(2,3) by (intro exI [of _ "[?e] @ es"]) auto
qed

lemma collect_map_keys: "fst ` set (collect_map kvs m) = fst ` set kvs \<union> fst ` set m"
proof (induction kvs m rule: collect_map.induct)
  case (2 k v kvs m)
  then show ?case using bt_insert_keys [of k v m] by auto
qed simp

lemma gone_ids:
  "cid \<in> fst ` set (gone_comments x sid) \<longleftrightarrow>
     cid \<notin> ob_id ` set (in_comments x) \<and>
     ((\<exists>st. ((sid, cid), st) \<in> set (jn_comments (in_journal x)) \<and> \<not> cs_deleted st)
      \<or> (cid \<in> fst ` set (in_ledger x) \<and> bt_get (jn_comments (in_journal x)) (sid, cid) = None))"
  unfolding gone_comments_def Let_def collect_map_keys by (auto simp: image_iff) force+

subsection \<open>Review marks\<close>

definition marks :: "string \<Rightarrow> string \<Rightarrow> RawFile \<Rightarrow> DecisionEvent \<Rightarrow> bool" where
  "marks sid path file e \<longleftrightarrow>
     ev_session_id e = sid \<and> ev_comment_id e = None \<and> ev_kind e = EkFileReview \<and> ev_anchor e = Some (AnFile path)
     \<and> ev_reviewed e = Some (rw_reviewed file) \<and> ev_reviewed_hunks e = Some (rw_reviewed_hunks file)
     \<and> ev_content_hash e = rw_content_hash file"

definition prior_file :: "Inputs \<Rightarrow> string \<Rightarrow> string \<Rightarrow> FileState" where
  "prior_file x sid path = (case bt_get (jn_files (in_journal x)) (sid, path) of Some st \<Rightarrow> st | None \<Rightarrow> FileState_default)"

definition marked :: "Inputs \<Rightarrow> string \<Rightarrow> string \<Rightarrow> RawFile \<Rightarrow> bool" where
  "marked x sid path file \<longleftrightarrow>
     fs_reviewed (prior_file x sid path) = rw_reviewed file \<and> set (fs_hunks (prior_file x sid path)) = set (rw_reviewed_hunks file)"

text \<open>A positive mark carries a content hash, the one pinned before if there is one.\<close>

definition mark_pinned :: "Inputs \<Rightarrow> string \<Rightarrow> string \<Rightarrow> RawFile \<Rightarrow> bool" where
  "mark_pinned x sid path file \<longleftrightarrow>
     (rw_reviewed file \<or> rw_reviewed_hunks file \<noteq> [] \<longrightarrow>
        (\<exists>hash. rw_content_hash file = Some hash \<and> fs_pinned (prior_file x sid path) \<in> {None, Some hash}))"

lemma plan_files_result:
  assumes "plan_files_loop ser x files p = Inr p'"
  shows "\<exists>es. extends ser p p' es
    \<and> (\<forall>e\<in>set es. \<exists>(path, file)\<in>set files. marks (pn_session_id p) path file e \<and> check_file (in_world x) path = Inr ()
         \<and> mark_pinned x (pn_session_id p) path file)
    \<and> (\<forall>(path, file)\<in>set files. (\<exists>e\<in>set es. marks (pn_session_id p) path file e) \<or> marked x (pn_session_id p) path file)"
  using assms
proof (induction files arbitrary: p)
  case Nil
  then show ?case using extends_refl by fastforce
next
  case (Cons pf files)
  obtain path rf where pf: "pf = (path, rf)" by (cases pf)
  let ?sid = "pn_session_id p"
  show ?case
  proof (cases "marked x ?sid path rf")
    case True
    then have "plan_files_loop ser x files p = Inr p'" using Cons.prems by (simp add: pf marked_def prior_file_def Let_def)
    then obtain es where "extends ser p p' es"
      "\<forall>e\<in>set es. \<exists>(path, file)\<in>set files. marks ?sid path file e \<and> check_file (in_world x) path = Inr () \<and> mark_pinned x ?sid path file"
      "\<forall>(path, file)\<in>set files. (\<exists>e\<in>set es. marks ?sid path file e) \<or> marked x ?sid path file"
      using Cons.IH by blast
    then show ?thesis using True by (intro exI [of _ es]) (auto simp: pf)
  next
    case False
    let ?e = "(blank p EkFileReview unrecorded)\<lparr>ev_anchor := Some (AnFile path), ev_content_hash := rw_content_hash rf,
      ev_reviewed := Some (rw_reviewed rf), ev_reviewed_hunks := Some (rw_reviewed_hunks rf), ev_supersedes := fs_last (prior_file x ?sid path)\<rparr>"
    let ?q = "Planner_push ser p ?e"
    have s: "check_file (in_world x) path = Inr ()" "mark_pinned x ?sid path rf" "plan_files_loop ser x files ?q = Inr p'"
      using Cons.prems False
      by (auto simp: pf marked_def prior_file_def mark_pinned_def Let_def res_bind_Inr_iff split: if_splits option.splits)
    have "own p ?e" by (simp add: own_def blank_def)
    then have ext: "extends ser p ?q [seal_event ser p ?e]" by (rule push_extends)
    have m: "marks ?sid path rf (seal_event ser p ?e)" by (simp add: marks_def blank_def)
    obtain es where es: "extends ser ?q p' es"
      "\<forall>e\<in>set es. \<exists>(path, file)\<in>set files. marks ?sid path file e \<and> check_file (in_world x) path = Inr () \<and> mark_pinned x ?sid path file"
      "\<forall>(path, file)\<in>set files. (\<exists>e\<in>set es. marks ?sid path file e) \<or> marked x ?sid path file"
      using Cons.IH [OF s(3)] extends_fields [OF ext] by auto
    then show ?thesis
      using extends_trans [OF ext es(1)] m s(1,2) by (intro exI [of _ "[seal_event ser p ?e] @ es"]) (auto simp: pf)
  qed
qed

subsection \<open>The whole plan\<close>

text \<open>Where a planned event comes from, and that the session is accounted for.\<close>

definition event_source :: "Inputs \<Rightarrow> string \<Rightarrow> DecisionEvent \<Rightarrow> bool" where
  "event_source x sid e \<longleftrightarrow>
     (\<exists>c\<in>set (in_comments x). observes sid c e \<and> anchor_checked x c)
     \<or> (\<exists>cid\<in>fst ` set (gone_comments x sid). tombstones sid cid e)
     \<or> (\<exists>(path, file)\<in>set (in_files x). marks sid path file e \<and> check_file (in_world x) path = Inr () \<and> mark_pinned x sid path file)"

definition accounted :: "Inputs \<Rightarrow> string \<Rightarrow> DecisionEvent list \<Rightarrow> bool" where
  "accounted x sid es \<longleftrightarrow>
     (\<forall>c\<in>set (in_comments x). (\<exists>e\<in>set es. observes sid c e) \<or> settled x sid c)
     \<and> (\<forall>cid\<in>fst ` set (gone_comments x sid). \<exists>e\<in>set es. tombstones sid cid e)
     \<and> (\<forall>(path, file)\<in>set (in_files x). (\<exists>e\<in>set es. marks sid path file e) \<or> marked x sid path file)"

lemma plan_all_result:
  assumes "plan_all ser x = Inr p"
  defines "p0 \<equiv> start_planner (in_world x) (in_journal x)" and "sid \<equiv> wd_session_id (in_world x)"
  shows "extends ser p0 p (pn_events p)" "\<forall>e\<in>set (pn_events p). event_source x sid e" "accounted x sid (pn_events p)"
proof -
  have sid: "pn_session_id p0 = sid" "pn_events p0 = []" by (simp_all add: p0_def sid_def start_planner_def)
  obtain p1 where p1: "plan_comments_loop ser x (in_comments x) False p0 = Inr p1" "plan_files_loop ser x (in_files x) (plan_tombstones ser x p1) = Inr p"
    using assms(1) by (auto simp: plan_all_def plan_comments_def plan_files_def res_bind_Inr_iff p0_def)
  obtain es1 where es1: "extends ser p0 p1 es1" "\<forall>e\<in>set es1. \<exists>c\<in>set (in_comments x). observes sid c e \<and> anchor_checked x c"
      "\<forall>c\<in>set (in_comments x). (\<exists>e\<in>set es1. observes sid c e) \<or> settled x sid c"
    using plan_comments_result [OF p1(1)] sid(1) by auto
  have sid1: "pn_session_id p1 = sid" using extends_fields [OF es1(1)] sid by simp
  obtain es2 where es2: "extends ser p1 (plan_tombstones ser x p1) es2" "\<forall>e\<in>set es2. \<exists>g\<in>set (gone_comments x sid). tombstones sid (fst g) e"
      "\<forall>g\<in>set (gone_comments x sid). \<exists>e\<in>set es2. tombstones sid (fst g) e"
    using plan_gone [of ser p1 x "gone_comments x sid"] sid1 by (auto simp: plan_tombstones_def)
  have sid2: "pn_session_id (plan_tombstones ser x p1) = sid" using extends_fields [OF es2(1)] sid1 by simp
  obtain es3 where es3: "extends ser (plan_tombstones ser x p1) p es3"
      "\<forall>e\<in>set es3. \<exists>(path, file)\<in>set (in_files x). marks sid path file e \<and> check_file (in_world x) path = Inr () \<and> mark_pinned x sid path file"
      "\<forall>(path, file)\<in>set (in_files x). (\<exists>e\<in>set es3. marks sid path file e) \<or> marked x sid path file"
    using plan_files_result [OF p1(2)] sid2 by auto
  have all: "extends ser p0 p (es1 @ es2 @ es3)" using extends_trans es1(1) es2(1) es3(1) by blast
  then have ev: "pn_events p = es1 @ es2 @ es3" using sid(2) by (simp add: extends_def)
  show "extends ser p0 p (pn_events p)" using all ev by simp
  have "event_source x sid e" if e2: "e \<in> set es2" for e
  proof -
    obtain g where "g \<in> set (gone_comments x sid)" "tombstones sid (fst g) e" using es2(2) e2 by blast
    then have "\<exists>cid\<in>fst ` set (gone_comments x sid). tombstones sid cid e" by (intro bexI [of _ "fst g"]) simp_all
    then show ?thesis by (simp only: event_source_def simp_thms)
  qed
  moreover have "event_source x sid e" if "e \<in> set es1" for e unfolding event_source_def by (rule disjI1) (use es1(2) that in blast)
  moreover have "event_source x sid e" if "e \<in> set es3" for e unfolding event_source_def by (intro disjI2) (use es3(2) that in blast)
  ultimately show "\<forall>e\<in>set (pn_events p). event_source x sid e" unfolding ev by auto
  have "\<exists>e\<in>set (pn_events p). tombstones sid cid e" if "cid \<in> fst ` set (gone_comments x sid)" for cid
    using that es2(3) unfolding ev by auto
  moreover have "(\<exists>e\<in>set (pn_events p). observes sid c e) \<or> settled x sid c" if "c \<in> set (in_comments x)" for c
    using that es1(3) unfolding ev by auto
  moreover have "(\<exists>e\<in>set (pn_events p). marks sid (fst pf) (snd pf) e) \<or> marked x sid (fst pf) (snd pf)" if "pf \<in> set (in_files x)" for pf
    using bspec [OF es3(3) that] unfolding ev by (cases pf) auto
  ultimately show "accounted x sid (pn_events p)" unfolding accounted_def case_prod_beta by simp
qed

subsection \<open>Replaying the plan\<close>

lemma push_comments:
  "bt_get (jn_comments (push_event j e)) (sid, cid) =
     (if ev_session_id e = sid \<and> ev_comment_id e = Some cid
      then Some (replay_comment e (case bt_get (jn_comments j) (sid, cid) of Some st \<Rightarrow> st | None \<Rightarrow> CommentState_new))
      else bt_get (jn_comments j) (sid, cid))"
  by (auto simp: push_event_def replay_def Let_def split: option.splits EventKind.splits)

definition file_of :: "DecisionEvent \<Rightarrow> string option" where
  "file_of e = (if ev_comment_id e = None \<and> ev_kind e = EkFileReview then Option.bind (ev_anchor e) Anchor_file else None)"

lemma push_files:
  "bt_get (jn_files (push_event j e)) (sid, path) =
     (if ev_session_id e = sid \<and> file_of e = Some path
      then Some (replay_file e (case bt_get (jn_files j) (sid, path) of Some st \<Rightarrow> st | None \<Rightarrow> FileState_default))
      else bt_get (jn_files j) (sid, path))"
  by (auto simp: push_event_def replay_def file_of_def Let_def split: option.splits EventKind.splits)

text \<open>The state of a comment, or of a file, is that of the last event about it.\<close>

lemma fold_comments:
  "(\<forall>e\<in>set es. \<not> (ev_session_id e = sid \<and> ev_comment_id e = Some cid))
     \<and> bt_get (jn_comments (foldl push_event j es)) (sid, cid) = bt_get (jn_comments j) (sid, cid)
   \<or> (\<exists>e\<in>set es. \<exists>st. ev_session_id e = sid \<and> ev_comment_id e = Some cid
     \<and> bt_get (jn_comments (foldl push_event j es)) (sid, cid) = Some (replay_comment e st))"
proof (induction es rule: rev_induct)
  case (snoc e es)
  then show ?case by (cases "ev_session_id e = sid \<and> ev_comment_id e = Some cid") (auto simp: push_comments)
qed simp

lemma fold_files:
  "(\<forall>e\<in>set es. \<not> (ev_session_id e = sid \<and> file_of e = Some path))
     \<and> bt_get (jn_files (foldl push_event j es)) (sid, path) = bt_get (jn_files j) (sid, path)
   \<or> (\<exists>e\<in>set es. \<exists>st. ev_session_id e = sid \<and> file_of e = Some path
     \<and> bt_get (jn_files (foldl push_event j es)) (sid, path) = Some (replay_file e st))"
proof (induction es rule: rev_induct)
  case (snoc e es)
  then show ?case by (cases "ev_session_id e = sid \<and> file_of e = Some path") (auto simp: push_files)
qed simp

lemma push_ok: "bt_ok (jn_comments j) \<Longrightarrow> bt_ok (jn_comments (push_event j e))"
  by (auto simp: push_event_def replay_def Let_def split: option.splits EventKind.splits)

lemma fold_ok: "bt_ok (jn_comments j) \<Longrightarrow> bt_ok (jn_comments (foldl push_event j es))"
  by (induction es arbitrary: j) (simp_all add: push_ok)

lemma loaded_ok:
  assumes "loaded ser de run_id bytes j"
  shows "bt_ok (jn_comments j)"
proof -
  have "foldl push_event (Journal_default\<lparr>jn_bytes := length bytes\<rparr>) (jn_events j) = j" using assms unfolding loaded_def by metis
  moreover have "bt_ok (jn_comments (foldl push_event (Journal_default\<lparr>jn_bytes := length bytes\<rparr>) (jn_events j)))"
    by (rule fold_ok) (simp add: Journal_default_def)
  ultimately show ?thesis by metis
qed

subsection \<open>A replayed plan leaves nothing to plan\<close>

definition replayed :: "Inputs \<Rightarrow> nat \<Rightarrow> DecisionEvent list \<Rightarrow> Inputs" where
  "replayed x n es = x\<lparr>in_journal := foldl push_event ((in_journal x)\<lparr>jn_bytes := n\<rparr>) es\<rparr>"

lemma replayed_fields [simp]:
  "in_world (replayed x n es) = in_world x" "in_ledger (replayed x n es) = in_ledger x" "in_comments (replayed x n es) = in_comments x"
  "in_files (replayed x n es) = in_files x" "in_journal (replayed x n es) = foldl push_event ((in_journal x)\<lparr>jn_bytes := n\<rparr>) es"
  by (simp_all add: replayed_def)

lemma source_of_comment:
  assumes "event_source x sid e" "ev_session_id e = sid" "ev_comment_id e = Some cid"
  shows "(\<exists>c\<in>set (in_comments x). ob_id c = cid \<and> observes sid c e)
    \<or> (cid \<in> fst ` set (gone_comments x sid) \<and> ev_kind e = EkDeleted)"
  using assms unfolding event_source_def observes_def tombstones_def marks_def by force

lemma source_of_file:
  assumes "event_source x sid e" "file_of e = Some path"
  shows "\<exists>f. (path, f) \<in> set (in_files x) \<and> marks sid path f e"
  using assms unfolding event_source_def observes_def tombstones_def file_of_def
  by (auto simp: marks_def split: if_splits)

lemma settled_after:
  assumes "\<forall>e\<in>set es. event_source x sid e" "accounted x sid es" "distinct (map ob_id (in_comments x))" "c \<in> set (in_comments x)"
  shows "settled (replayed x n es) sid c"
proof -
  let ?about = "\<lambda>e. ev_session_id e = sid \<and> ev_comment_id e = Some (ob_id c)"
  have obs: "observes sid c e" if about: "e \<in> set es" "?about e" for e
  proof -
    have "ob_id c \<notin> fst ` set (gone_comments x sid)" using gone_ids assms(4) by auto
    then obtain d where "d \<in> set (in_comments x)" "ob_id d = ob_id c" "observes sid d e"
      using source_of_comment [of x sid e "ob_id c"] assms(1) about by blast
    moreover have "d = c" using calculation(1,2) assms(3,4) by (simp add: distinct_map inj_on_def)
    ultimately show ?thesis by simp
  qed
  show ?thesis
    using fold_comments [of es sid "ob_id c" "(in_journal x)\<lparr>jn_bytes := n\<rparr>"]
  proof (elim disjE conjE bexE exE)
    assume none: "\<forall>e\<in>set es. \<not> ?about e"
      and same: "bt_get (jn_comments (foldl push_event ((in_journal x)\<lparr>jn_bytes := n\<rparr>) es)) (sid, ob_id c)
        = bt_get (jn_comments ((in_journal x)\<lparr>jn_bytes := n\<rparr>)) (sid, ob_id c)"
    have "settled x sid c" using assms(2,4) none by (auto simp: accounted_def observes_def)
    moreover have "prior_state (replayed x n es) sid c = prior_state x sid c" using same by (simp add: prior_state_def split: option.split)
    ultimately show ?thesis by (simp add: settled_def)
  next
    fix e st assume e: "e \<in> set es" "ev_session_id e = sid" "ev_comment_id e = Some (ob_id c)"
      and get: "bt_get (jn_comments (foldl push_event ((in_journal x)\<lparr>jn_bytes := n\<rparr>) es)) (sid, ob_id c) = Some (replay_comment e st)"
    show ?thesis using obs [OF e(1)] e get by (simp add: settled_def prior_state_def replay_comment_def observes_def)
  qed
qed

lemma gone_after:
  assumes "\<forall>e\<in>set es. event_source x sid e" "accounted x sid es" "bt_ok (jn_comments (in_journal x))"
  shows "gone_comments (replayed x n es) sid = []"
proof -
  let ?j = "foldl push_event ((in_journal x)\<lparr>jn_bytes := n\<rparr>) es"
  have "cid \<notin> fst ` set (gone_comments (replayed x n es) sid)" for cid
  proof
    assume "cid \<in> fst ` set (gone_comments (replayed x n es) sid)"
    then have g: "cid \<notin> ob_id ` set (in_comments x)"
      "(\<exists>st. ((sid, cid), st) \<in> set (jn_comments ?j) \<and> \<not> cs_deleted st) \<or> (cid \<in> fst ` set (in_ledger x) \<and> bt_get (jn_comments ?j) (sid, cid) = None)"
      unfolding gone_ids by simp_all
    have ok: "bt_ok (jn_comments ?j)" using fold_ok [of "(in_journal x)\<lparr>jn_bytes := n\<rparr>"] assms(3) by simp
    have g2: "(\<exists>st. bt_get (jn_comments ?j) (sid, cid) = Some st \<and> \<not> cs_deleted st)
        \<or> (cid \<in> fst ` set (in_ledger x) \<and> bt_get (jn_comments ?j) (sid, cid) = None)"
      using g(2) by (simp only: bt_get_Some_iff [OF ok])
    have deleted: "ev_kind e = EkDeleted" if "e \<in> set es" "ev_session_id e = sid" "ev_comment_id e = Some cid" for e
      using source_of_comment [of x sid e cid] assms(1) that g(1) by auto
    have "bt_get (jn_comments ?j) (sid, cid) = bt_get (jn_comments (in_journal x)) (sid, cid)
        \<and> (\<forall>e\<in>set es. \<not> (ev_session_id e = sid \<and> ev_comment_id e = Some cid))"
      using fold_comments [of es sid cid "(in_journal x)\<lparr>jn_bytes := n\<rparr>"]
    proof (elim disjE conjE bexE exE)
      fix e st assume e: "e \<in> set es" "ev_session_id e = sid" "ev_comment_id e = Some cid"
        and get: "bt_get (jn_comments ?j) (sid, cid) = Some (replay_comment e st)"
      have "cs_deleted (replay_comment e st)" using deleted [OF e] by (simp add: replay_comment_def)
      then show ?thesis using g2 get by simp
    qed simp
    then have same: "bt_get (jn_comments ?j) (sid, cid) = bt_get (jn_comments (in_journal x)) (sid, cid)"
      and none: "\<forall>e\<in>set es. \<not> tombstones sid cid e" by (auto simp: tombstones_def)
    have "cid \<in> fst ` set (gone_comments x sid)"
      unfolding gone_ids bt_get_Some_iff [OF assms(3), symmetric] using g(1) g2 unfolding same by blast
    then show False using assms(2) none by (auto simp: accounted_def)
  qed
  then show ?thesis by (cases "gone_comments (replayed x n es) sid") auto
qed

lemma marked_after:
  assumes "\<forall>e\<in>set es. event_source x sid e" "accounted x sid es" "distinct (map fst (in_files x))" "(path, f) \<in> set (in_files x)"
  shows "marked (replayed x n es) sid path f"
  using fold_files [of es sid path "(in_journal x)\<lparr>jn_bytes := n\<rparr>"]
proof (elim disjE conjE bexE exE)
  assume none: "\<forall>e\<in>set es. \<not> (ev_session_id e = sid \<and> file_of e = Some path)"
    and same: "bt_get (jn_files (foldl push_event ((in_journal x)\<lparr>jn_bytes := n\<rparr>) es)) (sid, path)
      = bt_get (jn_files ((in_journal x)\<lparr>jn_bytes := n\<rparr>)) (sid, path)"
  have "\<not> marks sid path f e" if "e \<in> set es" for e using none that by (auto simp: marks_def file_of_def)
  then have "marked x sid path f" using assms(2,4) by (fastforce simp: accounted_def)
  then show ?thesis using same by (simp add: marked_def prior_file_def)
next
  fix e st assume e: "e \<in> set es" "ev_session_id e = sid" "file_of e = Some path"
    and get: "bt_get (jn_files (foldl push_event ((in_journal x)\<lparr>jn_bytes := n\<rparr>) es)) (sid, path) = Some (replay_file e st)"
  obtain g where g: "(path, g) \<in> set (in_files x)" "marks sid path g e" using source_of_file assms(1) e by blast
  then have "g = f" using assms(3,4) by (meson eq_key_imp_eq_value)
  then show ?thesis using g(2) get by (simp add: marked_def prior_file_def replay_file_def marks_def Let_def)
qed

lemma plan_nothing:
  assumes "\<forall>c\<in>set (in_comments x). settled x (wd_session_id (in_world x)) c" "gone_comments x (wd_session_id (in_world x)) = []"
    "\<forall>(path, f)\<in>set (in_files x). marked x (wd_session_id (in_world x)) path f"
  shows "plan_all ser x = Inr (start_planner (in_world x) (in_journal x))"
proof -
  let ?p = "start_planner (in_world x) (in_journal x)"
  have sid: "pn_session_id ?p = wd_session_id (in_world x)" by (simp add: start_planner_def)
  have "plan_comments_loop ser x cs chk ?p = Inr ?p" if "\<forall>c\<in>set cs. settled x (pn_session_id ?p) c" for cs chk
    using that by (induction cs) (simp_all add: planned_for_Nil [THEN iffD2])
  moreover have "plan_files_loop ser x fs ?p = Inr ?p" if "\<forall>(path, f)\<in>set fs. marked x (pn_session_id ?p) path f" for fs
    using that by (induction fs) (auto simp: marked_def prior_file_def Let_def)
  ultimately show ?thesis
    using assms sid by (simp add: plan_all_def plan_comments_def plan_files_def plan_tombstones_def)
qed

end
