(* ===== verification/Journal_Claims.thy ===== *)
theory Journal_Claims
  imports Journal_Plan
begin

text \<open>
  The properties of the decision journal: what an import appends loads again, a second import of the same
  session appends nothing, every event is about the sealed bytes, and a rewritten journal is noticed.
\<close>

subsection \<open>Imports\<close>

lemma first_repeated_None: "first_repeated xs A = None \<longleftrightarrow> distinct xs \<and> set xs \<inter> A = {}"
  by (induction xs A rule: first_repeated.induct) auto

lemma observed_result:
  assumes "observed_comments raw = Inr (comments, files)"
  shows "distinct (map ob_id comments)" "map fst files = map fst (rs_files raw)"
  using assms
  by (auto simp: observed_comments_def res_bind_Inr_iff Let_def first_repeated_None split: option.splits)

definition import_of :: "World \<Rightarrow> Journal \<Rightarrow> (Observed list \<times> (string \<times> RawFile) list) \<times> ledger \<Rightarrow> Inputs" where
  "import_of w j inputs =
     \<lparr>in_world = w, in_ledger = snd inputs, in_journal = j, in_comments = fst (fst inputs), in_files = snd (fst inputs)\<rparr>"

lemma import_success:
  assumes "import_tuicr ser de d w execute = (Inr r, d')"
  obtains inputs j p where
    "import_inputs w = Inr inputs" "load_journal ser de d (wd_run_id w) = Inr j" "plan_all ser (import_of w j inputs) = Inr p"
    "jn_bytes j + length (unlines (map ser (pn_events p))) \<le> JOURNAL_CAP" "ti_events r = pn_events p"
    "\<not> (execute \<and> rd_locked d)"
    "(if execute \<and> pn_events p \<noteq> [] then append_events d (jn_bytes j) (unlines (map ser (pn_events p))) (pn_events p) else (Inr (), d)) = (Inr (), d')"
proof -
  obtain inputs where i: "import_inputs w = Inr inputs" "\<not> (execute \<and> rd_locked d)"
    using assms by (auto simp: import_tuicr_def split: sum.splits if_splits)
  obtain j p ls where p: "plan_import ser de d w inputs = Inr (j, p, ls)"
    using assms i by (auto simp: import_tuicr_def split: sum.splits if_splits)
  have q: "load_journal ser de d (wd_run_id w) = Inr j" "plan_all ser (import_of w j inputs) = Inr p" "encode ser (jn_bytes j) (pn_events p) = Inr ls"
    using p by (auto simp: plan_import_def import_of_def res_bind_Inr_iff split: prod.splits)
  have ls: "ls = unlines (map ser (pn_events p))" "jn_bytes j + length ls \<le> JOURNAL_CAP"
    using q(3) by (auto simp: encode_def Let_def split: if_splits)
  obtain out where out: "(if execute \<and> pn_events p \<noteq> [] then append_events d (jn_bytes j) ls (pn_events p) else (Inr (), d)) = (out, d')"
    "out = Inr ()" "ti_events r = pn_events p"
    using assms i p by (auto simp: import_tuicr_def split: prod.splits sum.splits)
  show ?thesis by (rule that [OF i(1) q(1,2) ls(2) [unfolded ls(1)] out(3) i(2) out(1) [unfolded ls(1) out(2)]])
qed

lemma append_success:
  assumes "append_events d n ls es = (Inr (), d')" "es \<noteq> []"
  shows "length (file_bytes d) = n" "rd_journal d' = Some (file_bytes d @ ls)" "rd_locked d' = rd_locked d"
    "rd_checkpoints d' = rd_checkpoints d @ [(checkpoint_name (ev_seq (last es)), Inr \<lparr>cp_seq = ev_seq (last es), cp_hash = ev_hash (last es)\<rparr>)]"
  using assms by (auto simp: append_events_def file_bytes_def Let_def split: if_splits)

lemma planned_chain:
  assumes "loaded ser de (wd_run_id w) bytes j" "plan_all ser (import_of w j inputs) = Inr p"
  shows "chain ser (wd_run_id w) (length (jn_events j)) (chain_head genesis (jn_events j)) (pn_events p)"
proof -
  have "extends ser (start_planner w j) p (pn_events p)" using plan_all_result(1) [OF assms(2)] by (simp add: import_of_def)
  then show ?thesis using loaded_head(1) [OF assms(1)] by (simp add: extends_def start_planner_def)
qed

text \<open>What an executing import that appends leaves behind: the replay of the planned events on the old journal.\<close>

lemma import_reload:
  assumes load: "load_journal ser de d (wd_run_id w) = Inr j" and plan: "plan_all ser (import_of w j inputs) = Inr p"
    and app: "append_events d (jn_bytes j) (unlines (map ser (pn_events p))) (pn_events p) = (Inr (), d')"
    and ne: "pn_events p \<noteq> []" and cap: "jn_bytes j + length (unlines (map ser (pn_events p))) \<le> JOURNAL_CAP"
    and wr: "\<forall>e\<in>set (pn_events p). writable ser de e"
  shows "load_journal ser de d' (wd_run_id w) =
    (if length (rd_checkpoints d) < ENTRY_CAP
     then Inr (foldl push_event (j\<lparr>jn_bytes := jn_bytes j + length (unlines (map ser (pn_events p)))\<rparr>) (pn_events p))
     else Inl (JournalFailure TooManyCheckpoints))"
proof -
  let ?es = "pn_events p"
  let ?j = "foldl push_event (j\<lparr>jn_bytes := jn_bytes j + length (unlines (map ser ?es))\<rparr>) ?es"
  note l = load_journal_parts [OF load] and a = append_success [OF app ne]
  have ch: "chain ser (wd_run_id w) (length (jn_events j)) (chain_head genesis (jn_events j)) ?es" by (rule planned_chain [OF l(1) plan])
  have "loaded ser de (wd_run_id w) (file_bytes d @ unlines (map ser ?es)) ?j"
    using loaded_append [OF l(1) ch wr] a(1) cap by simp
  then have "load_file ser de (wd_run_id w) (rd_journal d') = Inr ?j" unfolding a(2) by (rule load_file_complete)
  moreover have "check_checkpoints (jn_events ?j) (rd_checkpoints d') = Inr ()"
  proof -
    have "ev_seq (last ?es) = length (jn_events j) + (length ?es - 1)"
      using chain_seq [OF ch, of "length ?es - 1"] ne by (simp add: last_conv_nth)
    then have "ev_seq (last ?es) < length (jn_events j @ ?es) \<and> ev_hash ((jn_events j @ ?es) ! ev_seq (last ?es)) = ev_hash (last ?es)"
      using ne by (simp add: nth_append last_conv_nth)
    moreover have "check_checkpoints (jn_events j @ ?es) (rd_checkpoints d) = Inr ()" by (rule checkpoints_extend [OF l(2)])
    ultimately show ?thesis unfolding a(4) check_checkpoints_iff by auto
  qed
  moreover from this have "check_checkpoints (jn_events ?j) (take ENTRY_CAP (rd_checkpoints d')) = Inr ()"
    unfolding check_checkpoints_iff by (meson in_set_takeD)
  ultimately show ?thesis by (simp add: load_journal_def a(4))
qed

subsection \<open>Sealed bytes\<close>

text \<open>The session shows for \<open>path\<close> exactly what the run sealed, or neither has the file.\<close>

definition bytes_sealed :: "World \<Rightarrow> string \<Rightarrow> bool" where
  "bytes_sealed w path \<longleftrightarrow>
     wd_inventory w path
     \<and> (case wd_snapshot w path of
          None \<Rightarrow> \<not> is_ok (wd_session_bytes w path)
        | Some s \<Rightarrow> is_ok s \<and> wd_session_bytes w path = s)"

lemma check_file_sealed: "check_file w path = Inr () \<longleftrightarrow> bytes_sealed w path"
  by (auto simp: check_file_def bytes_sealed_def is_ok_iff split: option.splits sum.splits)

lemma check_scope_sealed:
  "check_scope w files = Inr () \<longleftrightarrow>
     (\<forall>path\<in>fst ` set files. if wd_inventory w path then bytes_sealed w path else \<not> is_ok (wd_session_bytes w path))"
proof (induction w files rule: check_scope.induct)
  case (2 w path f files)
  then show ?case
    by (cases "wd_inventory w path"; cases "bytes_sealed w path"; cases "is_ok (wd_session_bytes w path)") (simp_all add: res_bind_Inr_iff check_file_sealed split del: if_split)
qed simp

lemma import_inputs_session:
  assumes "import_inputs w = Inr inputs" "wd_session w = Inr raw"
  shows "observed_comments raw = Inr (fst inputs)" "wd_base_commit w = wd_head w"
  using assms by (auto simp: import_inputs_def res_bind_Inr_iff split: if_splits sum.splits)

subsection \<open>A session with one comment\<close>

definition sample_session :: RawSession where
  "sample_session =
     \<lparr>rs_review_comments = [\<lparr>rc_id = ''a'', rc_content = [], rc_comment_type = None, rc_author = ''user'', rc_lifecycle_state = None,
        rc_side = None, rc_line_range = None\<rparr>], rs_files = []\<rparr>"

definition sample_world :: World where
  "sample_world =
     \<lparr>wd_run_id = ''run'', wd_head = replicate 40 CHR ''a'', wd_session_id = ''s'', wd_base_commit = replicate 40 CHR ''a'',
      wd_diff_source = None, wd_label = ''working_tree'', wd_session = Inr sample_session, wd_ledger = None,
      wd_inventory = (\<lambda>_. False), wd_snapshot = (\<lambda>_. None), wd_session_bytes = (\<lambda>_. Inl [])\<rparr>"

definition sample_ser :: writer where
  "sample_ser e = (if ev_hash e = [] then ''[]'' else ''{}'')"

definition sample_comment :: Observed where
  "sample_comment =
     \<lparr>ob_id = ''a'', ob_content = [], ob_sha256 = sha256_hex [], ob_comment_type = None, ob_author = ''user'', ob_lifecycle = LocalDraft,
      ob_anchor = AnReview, ob_content_hash = None\<rparr>"

definition sample_planner :: Planner where
  "sample_planner = start_planner sample_world Journal_default"

definition sample_planned :: DecisionEvent where
  "sample_planned = comment_event sample_planner EkCommentAdded \<lparr>ac_name = ''user'', ac_basis = TuicrAuthor\<rparr> sample_comment False"

definition sample_added :: DecisionEvent where
  "sample_added = seal_event sample_ser sample_planner sample_planned"

definition sample_de :: reader where
  "sample_de line = Inr (if line = ''{}'' then sample_added else unsealed sample_added)"

definition empty_dir :: RunDir where
  "empty_dir = \<lparr>rd_journal = None, rd_checkpoints = [], rd_locked = False\<rparr>"

definition sample_dir :: RunDir where
  "sample_dir =
     \<lparr>rd_journal = Some (''{}'' @ [LF]),
      rd_checkpoints = [(checkpoint_name 0, Inr \<lparr>cp_seq = 0, cp_hash = ev_hash sample_added\<rparr>)], rd_locked = False\<rparr>"

lemma sample_inputs: "import_inputs sample_world = Inr (([sample_comment], []), [])"
  by (simp add: import_inputs_def sample_world_def commit_id_def sample_session_def observed_comments_def observe_def sample_comment_def
      is_identifier_def is_ascii_alphanumeric_def is_ascii_lowercase_def is_ascii_uppercase_def is_ascii_digit_def Ledger_load_def list_all_iff)

lemma no_links: "ob_content c = [] \<Longrightarrow> links c run_id [] note_comments = []"
  by (simp add: links_def tagged_keys_def match_indices_def map_filter_def)

lemma sample_planned_for:
  "planned_for (import_of sample_world Journal_default (([sample_comment], []), [])) sample_planner sample_comment = [sample_planned]"
  using no_links [of sample_comment]
  by (simp add: planned_for_def prior_state_def import_of_def Journal_default_def sample_planned_def actor_for_def sample_comment_def Let_def
      comment_event_def blank_def)

lemma sample_plan:
  "plan_all sample_ser (import_of sample_world Journal_default (([sample_comment], []), [])) = Inr (Planner_push sample_ser sample_planner sample_planned)"
proof -
  let ?x = "import_of sample_world Journal_default (([sample_comment], []), [])"
  have x: "in_comments ?x = [sample_comment]" "in_files ?x = []" "in_world ?x = sample_world" "in_journal ?x = Journal_default" "in_ledger ?x = []"
    by (simp_all add: import_of_def)
  have sup: "supersede_batch sample_planner sample_planned = sample_planned"
    by (simp add: supersede_batch_def sample_planned_def comment_event_def blank_def)
  have "plan_comments sample_ser ?x sample_planner = Inr (Planner_push sample_ser sample_planner sample_planned)"
    using sample_planned_for sup by (simp add: plan_comments_def x sample_comment_def [THEN arg_cong, of ob_anchor])
  moreover have "jn_comments Journal_default = []" by (simp add: Journal_default_def)
  then have "gone_comments ?x sid = []" for sid by (simp add: gone_comments_def x)
  ultimately show ?thesis
    by (simp add: plan_all_def x plan_files_def plan_tombstones_def sample_planner_def [symmetric])
qed

lemma sample_ser_added: "sample_ser sample_added = ''{}''" "sample_ser (unsealed sample_added) = ''[]''"
proof -
  have "ev_hash sample_added = sha256_hex (sample_ser (sample_planned\<lparr>ev_seq := pn_next sample_planner, ev_prev := pn_prev sample_planner, ev_hash := []\<rparr>))"
    by (simp add: sample_added_def seal_event_def DecisionEvent_digest_def Let_def)
  moreover have "length (sha256_hex m) = 64" for m using sha256_hex_form by blast
  ultimately have "ev_hash sample_added \<noteq> []" by (metis list.size(3) zero_neq_numeral)
  then show "sample_ser sample_added = ''{}''" "sample_ser (unsealed sample_added) = ''[]''" by (simp_all add: sample_ser_def unsealed_def)
qed

lemma sample_import:
  "import_tuicr sample_ser sample_de empty_dir sample_world True =
     (Inr \<lparr>ti_run_id = ''run'', ti_session_id = ''s'', ti_revision = pn_revision sample_planner, ti_executed = True, ti_journal_events = 0,
           ti_events = [sample_added], ti_conflicts = 0\<rparr>, sample_dir)"
proof -
  have load: "load_journal sample_ser sample_de empty_dir (wd_run_id sample_world) = Inr Journal_default"
    by (simp add: load_journal_def load_file_def empty_dir_def ENTRY_CAP_def)
  have ev: "pn_events (Planner_push sample_ser sample_planner sample_planned) = [sample_added]"
    by (simp add: Planner_push_def sample_planner_def start_planner_def sample_added_def Let_def)
  have seq: "ev_seq sample_added = 0" "ev_conflict sample_added = None"
    by (simp_all add: sample_added_def seal_event_def sample_planner_def start_planner_def Journal_head_def Journal_default_def Let_def
        sample_planned_def comment_event_def blank_def)
  have rev: "pn_revision (Planner_push sample_ser sample_planner sample_planned) = pn_revision sample_planner"
    by (simp add: Planner_push_def Let_def)
  have "plan_import sample_ser sample_de empty_dir sample_world (([sample_comment], []), []) =
      Inr (Journal_default, Planner_push sample_ser sample_planner sample_planned, ''{}'' @ [LF])"
    using load sample_plan by (simp add: plan_import_def import_of_def encode_def ev sample_ser_added Journal_default_def JOURNAL_CAP_def)
  moreover have "wd_run_id sample_world = ''run''" "wd_session_id sample_world = ''s''" by (simp_all add: sample_world_def)
  moreover have "fst (Journal_head Journal_default) = 0" "jn_bytes Journal_default = 0" by (simp_all add: Journal_head_def Journal_default_def)
  moreover have "append_events empty_dir 0 (''{}'' @ [LF]) [sample_added] = (Inr (), sample_dir)"
    by (simp add: append_events_def empty_dir_def sample_dir_def seq)
  moreover have "\<not> rd_locked empty_dir" by (simp add: empty_dir_def)
  ultimately show ?thesis by (simp add: import_tuicr_def sample_inputs ev rev seq)
qed

lemma sample_writable: "\<forall>e\<in>set [sample_added]. writable sample_ser sample_de e"
  by (simp add: writable_def readable_def sample_ser_added sample_de_def utf8_valid_ascii)

lemma sample_loaded: "\<exists>j. load_journal sample_ser sample_de sample_dir ''run'' = Inr j \<and> jn_events j = [sample_added]"
proof -
  have v: "event_verifies sample_ser ''run'' 0 genesis ''{}'' sample_added"
    unfolding event_verifies_def using sample_ser_added(1)
    by (simp add: sample_added_def seal_event_def sample_planner_def start_planner_def sample_planned_def
        comment_event_def blank_def Let_def sample_world_def Journal_head_def Journal_default_def DecisionEvent_digest_def)
  have "str_lines (''{}'' @ [LF]) = [''{}'']" by (simp add: str_lines_def chomp_def strip_suffix_def ends_with_def)
  moreover have "utf8_valid (''{}'' @ [LF])" by (simp add: utf8_valid_ascii)
  ultimately have "load_file sample_ser sample_de ''run'' (rd_journal sample_dir) = Inr (push_event (Journal_default\<lparr>jn_bytes := Suc (Suc (Suc 0))\<rparr>) sample_added)"
    using v by (simp add: load_file_def sample_dir_def sample_de_def JOURNAL_CAP_def ends_with_def)
  moreover have "jn_events (push_event (Journal_default\<lparr>jn_bytes := Suc (Suc (Suc 0))\<rparr>) sample_added) = [sample_added]" by (simp add: Journal_default_def)
  ultimately show ?thesis by (simp add: load_journal_def sample_dir_def opt_is_none_or_def nth_get_def ENTRY_CAP_def)
qed

subsection \<open>The properties\<close>

text \<open>C19: rewriting or truncating the journal is noticed: when a journal loads beside the checkpoint taken at the
  head of an earlier journal of the run, it begins with exactly the earlier events, or two different
  event texts with the same SHA-256 digest are at hand.\<close>

theorem journal_tamper_evident:
  assumes "load_journal ser de d run_id = Inr j" "jn_events j \<noteq> []"
    "load_journal ser de d' run_id = Inr j'"
    "(name, Inr \<lparr>cp_seq = length (jn_events j) - 1, cp_hash = ev_hash (last (jn_events j))\<rparr>) \<in> set (rd_checkpoints d')"
    "\<forall>e\<in>set (jn_events j) \<union> set (jn_events j'). readable ser de (unsealed e)"
  shows "take (length (jn_events j)) (jn_events j') = jn_events j
    \<or> (\<exists>a\<in>set (jn_events j). \<exists>b\<in>set (jn_events j'). collision (ser (unsealed a)) (ser (unsealed b)))"
proof -
  let ?n = "length (jn_events j)" and ?es = "take (length (jn_events j)) (jn_events j')"
  have c: "?n - 1 < length (jn_events j')" "ev_hash (jn_events j' ! (?n - 1)) = ev_hash (last (jn_events j))"
    using load_journal_parts(2) [OF assms(3)] assms(4) by (auto simp: check_checkpoints_iff)
  have n: "0 < ?n" using assms(2) by simp
  then have len: "length ?es = ?n" using c(1) by simp
  have "chain ser run_id 0 genesis (jn_events j)" "chain ser run_id 0 genesis (?es @ drop ?n (jn_events j'))"
    using load_journal_parts(1) [OF assms(1)] load_journal_parts(1) [OF assms(3)] by (simp_all add: loaded_def)
  then have "chain ser run_id 0 genesis (jn_events j)" "chain ser run_id 0 genesis ?es" by (simp_all only: chain_append)
  moreover have "chain_head genesis (jn_events j) = chain_head genesis ?es"
    using c(2) n len assms(2) by (auto simp: chain_head_def last_conv_nth)
  ultimately have "jn_events j = ?es \<or> (\<exists>a\<in>set (jn_events j). \<exists>b\<in>set ?es. collision (ser (unsealed a)) (ser (unsealed b)))"
    by (intro chains_same [where de = de]) (use len assms(5) in \<open>auto dest: in_set_takeD\<close>)
  then show ?thesis by (metis in_set_takeD)
qed

theorem journal_tamper_evident_witness:
  "\<exists>j. load_journal sample_ser sample_de sample_dir ''run'' = Inr j
     \<and> (take 1 (jn_events j) = [sample_added] \<or> collision (sample_ser (unsealed sample_added)) (sample_ser (unsealed sample_added)))"
proof -
  obtain j where j: "load_journal sample_ser sample_de sample_dir ''run'' = Inr j" "jn_events j = [sample_added]" using sample_loaded by blast
  have "(checkpoint_name 0, Inr \<lparr>cp_seq = length (jn_events j) - 1, cp_hash = ev_hash (last (jn_events j))\<rparr>) \<in> set (rd_checkpoints sample_dir)"
    by (simp add: j(2) sample_dir_def)
  moreover have "\<forall>e\<in>set (jn_events j) \<union> set (jn_events j). readable sample_ser sample_de (unsealed e)"
    by (simp add: j(2) readable_def sample_ser_added sample_de_def)
  ultimately show ?thesis using journal_tamper_evident [OF j(1) _ j(1)] j by auto
qed

text \<open>C18: what an executing import reports as appended is appended: when it appends nothing, or the run directory has
  room for one more checkpoint (fewer than \<open>ENTRY_CAP\<close> before the import), the directory it leaves loads again, hash chain,
  checkpoints and size limit included, and holds the earlier events followed by the reported ones. Otherwise the import
  has succeeded and yet left one checkpoint more than a load accepts: every later load is refused for too many
  checkpoints. The lines the JSON writer gives for the reported events are taken to read back and to hold no line break.\<close>

theorem import_appends_and_reloads:
  assumes "load_journal ser de d (wd_run_id w) = Inr j" "import_tuicr ser de d w True = (Inr r, d')"
    "\<forall>e\<in>set (ti_events r). writable ser de e"
  shows "if ti_events r = [] \<or> length (rd_checkpoints d) < ENTRY_CAP
    then \<exists>j'. load_journal ser de d' (wd_run_id w) = Inr j' \<and> jn_events j' = jn_events j @ ti_events r
    else load_journal ser de d' (wd_run_id w) = Inl (JournalFailure TooManyCheckpoints)"
proof -
  obtain inputs j0 p where i: "load_journal ser de d (wd_run_id w) = Inr j0" "plan_all ser (import_of w j0 inputs) = Inr p"
    "jn_bytes j0 + length (unlines (map ser (pn_events p))) \<le> JOURNAL_CAP" "ti_events r = pn_events p"
    "(if True \<and> pn_events p \<noteq> [] then append_events d (jn_bytes j0) (unlines (map ser (pn_events p))) (pn_events p) else (Inr (), d)) = (Inr (), d')"
    using import_success [OF assms(2)] by blast
  have j0: "j0 = j" using i(1) assms(1) by simp
  show ?thesis
  proof (cases "pn_events p = []")
    case True
    then show ?thesis using i(4,5) assms(1) by simp
  next
    case False
    then have app: "append_events d (jn_bytes j0) (unlines (map ser (pn_events p))) (pn_events p) = (Inr (), d')" using i(5) by simp
    have wr: "\<forall>e\<in>set (pn_events p). writable ser de e" using assms(3) i(4) by simp
    show ?thesis using import_reload [OF i(1,2) app False i(3) wr] i(4) j0 False by simp
  qed
qed

theorem import_appends_and_reloads_witness:
  "\<exists>j'. load_journal sample_ser sample_de sample_dir ''run'' = Inr j' \<and> jn_events j' = [sample_added]"
proof -
  have w: "wd_run_id sample_world = ''run''" by (simp add: sample_world_def)
  have load: "load_journal sample_ser sample_de empty_dir (wd_run_id sample_world) = Inr Journal_default"
    by (simp add: load_journal_def load_file_def empty_dir_def ENTRY_CAP_def)
  have room: "length (rd_checkpoints empty_dir) < ENTRY_CAP" by (simp add: empty_dir_def ENTRY_CAP_def)
  have "jn_events Journal_default = []" by (simp add: Journal_default_def)
  then show ?thesis
    using import_appends_and_reloads [OF load sample_import] room sample_writable unfolding w by simp
qed

text \<open>C17: an import is idempotent: after an executing import that succeeded, of a session that lists each file once,
  importing the session again succeeds, plans and appends no event, and leaves the run directory as it is, when the first
  import appended nothing or the directory had fewer than \<open>ENTRY_CAP\<close> checkpoints before it. Otherwise the first import wrote
  one checkpoint too many and the second one fails for it, leaving the directory as it is. The lines the JSON writer gives
  for the appended events are taken to read back and to hold no line break.\<close>

theorem import_is_idempotent:
  assumes "import_tuicr ser de d w True = (Inr r, d')" "\<forall>e\<in>set (ti_events r). writable ser de e"
    "wd_session w = Inr raw" "distinct (map fst (rs_files raw))"
  shows "if ti_events r = [] \<or> length (rd_checkpoints d) < ENTRY_CAP
    then \<exists>r'. import_tuicr ser de d' w True = (Inr r', d') \<and> ti_events r' = []
    else import_tuicr ser de d' w True = (Inl (JournalFailure TooManyCheckpoints), d')"
proof -
  obtain inputs j p where i: "import_inputs w = Inr inputs" "load_journal ser de d (wd_run_id w) = Inr j"
    "plan_all ser (import_of w j inputs) = Inr p" "jn_bytes j + length (unlines (map ser (pn_events p))) \<le> JOURNAL_CAP"
    "ti_events r = pn_events p" "\<not> (True \<and> rd_locked d)"
    "(if True \<and> pn_events p \<noteq> [] then append_events d (jn_bytes j) (unlines (map ser (pn_events p))) (pn_events p) else (Inr (), d)) = (Inr (), d')"
    by (rule import_success [OF assms(1)])
  show ?thesis
  proof (cases "pn_events p = []")
    case True
    then have "d' = d" using i(7) by simp
    then show ?thesis using assms(1) i(5) True by auto
  next
    case False
    let ?x = "import_of w j inputs" and ?es = "pn_events p" and ?n = "jn_bytes j + length (unlines (map ser (pn_events p)))"
    have app: "append_events d (jn_bytes j) (unlines (map ser ?es)) ?es = (Inr (), d')" using i(7) False by simp
    have wr: "\<forall>e\<in>set ?es. writable ser de e" using assms(2) i(5) by simp
    note reload = import_reload [OF i(2,3) app False i(4) wr]
    have x: "in_world ?x = w" "in_journal ?x = j" by (simp_all add: import_of_def)
    have obs: "observed_comments raw = Inr (in_comments ?x, in_files ?x)"
      using import_inputs_session(1) [OF i(1) assms(3)] by (simp add: import_of_def)
    note src = plan_all_result(2,3) [OF i(3), unfolded x]
    have "\<forall>c\<in>set (in_comments ?x). settled (replayed ?x ?n ?es) (wd_session_id w) c"
      using settled_after [OF src observed_result(1) [OF obs]] by blast
    moreover have "gone_comments (replayed ?x ?n ?es) (wd_session_id w) = []"
      using gone_after [OF src] loaded_ok [OF load_journal_parts(1) [OF i(2)]] x by simp
    moreover have "\<forall>(path, f)\<in>set (in_files ?x). marked (replayed ?x ?n ?es) (wd_session_id w) path f"
      using marked_after [OF src] observed_result(2) [OF obs] assms(4) by auto
    ultimately have again: "plan_all ser (replayed ?x ?n ?es) = Inr (start_planner w (in_journal (replayed ?x ?n ?es)))"
      using plan_nothing [of "replayed ?x ?n ?es" ser] x by simp
    have same: "replayed ?x ?n ?es = import_of w (foldl push_event (j\<lparr>jn_bytes := ?n\<rparr>) ?es) inputs" by (simp add: replayed_def import_of_def)
    have "in_journal (import_of w k inputs) = k" for k by (simp add: import_of_def)
    then have plan: "plan_all ser (import_of w (foldl push_event (j\<lparr>jn_bytes := ?n\<rparr>) ?es) inputs)
        = Inr (start_planner w (foldl push_event (j\<lparr>jn_bytes := ?n\<rparr>) ?es))"
      using again unfolding same by simp
    have none: "pn_events (start_planner w k) = []" for k by (simp add: start_planner_def)
    have no_lock: "\<not> rd_locked d'" using i(6) append_success(3) [OF app False] by simp
    show ?thesis
    proof (cases "length (rd_checkpoints d) < ENTRY_CAP")
      case room: True
      have "plan_import ser de d' w inputs = Inr (foldl push_event (j\<lparr>jn_bytes := ?n\<rparr>) ?es, start_planner w (foldl push_event (j\<lparr>jn_bytes := ?n\<rparr>) ?es), [])"
        using reload plan i(4) room by (simp add: plan_import_def import_of_def encode_def none case_prod_beta)
      then show ?thesis using i(1) no_lock room by (simp add: import_tuicr_def none)
    next
      case full: False
      then have "plan_import ser de d' w inputs = Inl (JournalFailure TooManyCheckpoints)"
        using reload by (simp add: plan_import_def case_prod_beta)
      then show ?thesis using i(1,5) no_lock full False by (simp add: import_tuicr_def)
    qed
  qed
qed

theorem import_is_idempotent_witness:
  "\<exists>r'. import_tuicr sample_ser sample_de sample_dir sample_world True = (Inr r', sample_dir) \<and> ti_events r' = []"
proof -
  have "length (rd_checkpoints empty_dir) < ENTRY_CAP" by (simp add: empty_dir_def ENTRY_CAP_def)
  moreover have "wd_session sample_world = Inr sample_session" "distinct (map fst (rs_files sample_session))"
    by (simp_all add: sample_world_def sample_session_def)
  ultimately show ?thesis using import_is_idempotent [OF sample_import] sample_writable by simp
qed

text \<open>C20: a disposition is recorded only while the session shows the revision and the bytes the run sealed: an
  import that succeeds, dry or not, has the sealed base commit, every event that names a file was planned
  with the session showing that file's sealed bytes (or neither having it), and a comment on the whole
  review with every listed file in that state.\<close>

theorem import_only_on_sealed_bytes:
  assumes "import_tuicr ser de d w execute = (Inr r, d')" "wd_session w = Inr raw" "e \<in> set (ti_events r)"
  shows "wd_base_commit w = wd_head w
    \<and> (\<forall>path. Option.bind (ev_anchor e) Anchor_file = Some path \<longrightarrow> bytes_sealed w path)
    \<and> (ev_anchor e = Some AnReview \<longrightarrow>
         (\<forall>path\<in>fst ` set (rs_files raw). if wd_inventory w path then bytes_sealed w path else \<not> is_ok (wd_session_bytes w path)))"
proof -
  obtain inputs j p where i: "import_inputs w = Inr inputs" "plan_all ser (import_of w j inputs) = Inr p" "ti_events r = pn_events p"
    by (rule import_success [OF assms(1)])
  let ?x = "import_of w j inputs"
  have x: "in_world ?x = w" by (simp add: import_of_def)
  note inp = import_inputs_session [OF i(1) assms(2)]
  have "observed_comments raw = Inr (in_comments ?x, in_files ?x)" using inp(1) by (simp add: import_of_def)
  then have keys: "fst ` set (in_files ?x) = fst ` set (rs_files raw)" using observed_result(2) by (metis list.set_map)
  have "event_source ?x (wd_session_id w) e" using plan_all_result(2) [OF i(2)] i(3) assms(3) x by simp
  then have "(\<exists>c. ev_anchor e = Some (ob_anchor c) \<and> anchor_checked ?x c) \<or> ev_anchor e = None
      \<or> (\<exists>path. ev_anchor e = Some (AnFile path) \<and> check_file w path = Inr ())"
    unfolding event_source_def observes_def tombstones_def marks_def x by auto
  then show ?thesis
    using inp(2) keys
    by (auto simp: anchor_checked_def scope_ok_def x check_file_sealed check_scope_sealed split: option.splits)
qed

theorem import_only_on_sealed_bytes_witness:
  "wd_base_commit sample_world = wd_head sample_world \<and> ev_anchor sample_added = Some AnReview"
proof -
  have "wd_session sample_world = Inr sample_session" by (simp add: sample_world_def)
  moreover have "ev_anchor sample_added = Some AnReview"
    by (simp add: sample_added_def sample_planned_def comment_event_def blank_def sample_comment_def)
  ultimately show ?thesis using import_only_on_sealed_bytes [OF sample_import] by simp
qed

end
