(* ===== verification/Git_Raw.thy ===== *)
theory Git_Raw
  imports Sealed_Review Std_Text
begin

text \<open>
  The structured Git stream: \<open>src/crates/deep-diff-forge-patch/src/git_raw.rs\<close>. One
  \<open>git diff --raw -z --patch\<close> output is a section of NUL-terminated raw records and a patch; every
  record is paired with the patch blocks it owns and checked against them. Paths are bytes; a
  \<open>Range\<close> is a pair of offsets; modes, offsets and counts are natural numbers. A method on
  \<open>&mut self\<close> returns the new value beside its result.
\<close>

subsection \<open>Records\<close>

type_synonym GitPath = string

definition GitPath_to_utf8 :: "GitPath \<Rightarrow> string option" where
  "GitPath_to_utf8 p = (if utf8_valid p then Some p else None)"

definition GitPath_display_lossy :: "GitPath \<Rightarrow> string" where
  "GitPath_display_lossy p = from_utf8_lossy p"

datatype GitChangeKind = GkAdded | GkDeleted | GkModified | GkRenamed | GkCopied | GkTypeChanged

fun GitChangeKind_label :: "GitChangeKind \<Rightarrow> string" where
  "GitChangeKind_label GkAdded = ''added''"
| "GitChangeKind_label GkDeleted = ''deleted''"
| "GitChangeKind_label GkModified = ''modified''"
| "GitChangeKind_label GkRenamed = ''renamed''"
| "GitChangeKind_label GkCopied = ''copied''"
| "GitChangeKind_label GkTypeChanged = ''type_changed''"

definition block_count :: "GitChangeKind \<Rightarrow> nat" where
  "block_count k = (if k = GkTypeChanged then 2 else 1)"

datatype GitChangeOrigin = Tracked | Untracked

fun GitChangeOrigin_label :: "GitChangeOrigin \<Rightarrow> string" where
  "GitChangeOrigin_label Tracked = ''tracked''"
| "GitChangeOrigin_label Untracked = ''untracked''"

record GitChange =
  gc_kind :: GitChangeKind
  gc_score :: "nat option"
  gc_old_mode :: "nat option"
  gc_new_mode :: "nat option"
  gc_old_blob :: "string option"
  gc_new_blob :: "string option"
  gc_old_path :: "GitPath option"
  gc_new_path :: "GitPath option"
  gc_origin :: GitChangeOrigin
  gc_binary :: bool
  gc_patch_range :: "nat \<times> nat"
  gc_block_count :: nat

definition review_path :: "GitChange \<Rightarrow> GitPath option" where
  "review_path c = (case gc_new_path c of Some p \<Rightarrow> Some p | None \<Rightarrow> gc_old_path c)"

datatype GitAcquireError =
    InvalidSelection string
  | GitSpawn string string
  | CommandFailed string "int option" string
  | GitTimedOut string nat
  | GitBudgetExceeded nat
  | MalformedRaw nat string
  | UnsupportedStatus nat nat
  | CountMismatch nat nat nat
  | IdentityMismatch nat string
  | NonUtf8Path nat
  | GitParse PatchParseError
  | ParsedFileCountMismatch nat nat
  | FileUnreadable string string
  | FileRefused string string

record RawRecord =
  rr_kind :: GitChangeKind
  rr_score :: "nat option"
  rr_old_mode :: nat
  rr_new_mode :: nat
  rr_old_oid :: string
  rr_new_oid :: string
  rr_old_path :: "GitPath option"
  rr_new_path :: "GitPath option"

subsection \<open>The raw section\<close>

definition malformed :: "nat \<Rightarrow> string \<Rightarrow> GitAcquireError" where
  "malformed offset detail = MalformedRaw offset detail"

definition field_at :: "string \<Rightarrow> nat \<Rightarrow> GitAcquireError + (string \<times> nat)" where
  "field_at output pos =
     (let rest = drop pos output in
      case position (\<lambda>b. b = NUL) rest of
        None \<Rightarrow> Inl (malformed pos ''unterminated field'')
      | Some len \<Rightarrow> Inr (take len rest, pos + len + 1))"

definition path_field :: "string \<Rightarrow> nat \<Rightarrow> GitAcquireError + (GitPath \<times> nat)" where
  "path_field output pos =
     (case field_at output pos of
        Inl e \<Rightarrow> Inl e
      | Inr (bytes, next) \<Rightarrow> if bytes = [] then Inl (malformed pos ''empty path'') else Inr (bytes, next))"

text \<open>\<open>str::parse::<u8>\<close>: an optional plus sign, at least one digit, at most 255.\<close>

definition parse_u8 :: "string \<Rightarrow> nat option" where
  "parse_u8 s =
     (let ds = (case strip_prefix ''+'' s of Some r \<Rightarrow> r | None \<Rightarrow> s) in
      if ds \<noteq> [] \<and> list_all is_ascii_digit ds \<and> dec_value ds \<le> 255 then Some (dec_value ds) else None)"

definition octal_value :: "string \<Rightarrow> nat" where
  "octal_value m = foldl (\<lambda>acc d. acc * 8 + digit_value d) 0 m"

text \<open>\<open>header_mode\<close> and \<open>header_oid\<close> are the closures \<open>mode\<close> and \<open>oid\<close> of \<open>parse_header\<close>, \<open>header_score\<close>
  and \<open>header_kind\<close> its two matches. Six octal digits fit \<open>u32\<close>, so \<open>from_str_radix\<close> does not fail.\<close>

definition header_mode :: "nat \<Rightarrow> string \<Rightarrow> GitAcquireError + nat" where
  "header_mode offset m =
     (if length m = 6 \<and> list_all is_octal m then Inr (octal_value m) else Inl (malformed offset ''invalid mode''))"

definition oid_byte :: "char \<Rightarrow> bool" where
  "oid_byte b \<longleftrightarrow> is_ascii_digit b \<or> (97 \<le> byte b \<and> byte b \<le> 102)"

definition header_oid :: "nat \<Rightarrow> string \<Rightarrow> GitAcquireError + string" where
  "header_oid offset x =
     (if (length x = 40 \<or> length x = 64) \<and> list_all oid_byte x then Inr x
      else Inl (malformed offset ''object ID is not full-length lowercase hex''))"

definition header_score :: "nat \<Rightarrow> string \<Rightarrow> GitAcquireError + nat option" where
  "header_score offset digits =
     (if digits = [] then Inr None
      else case parse_u8 digits of
        Some score \<Rightarrow> if score \<le> 100 \<and> list_all is_ascii_digit digits then Inr (Some score)
                      else Inl (malformed offset ''invalid similarity score'')
      | None \<Rightarrow> Inl (malformed offset ''invalid similarity score''))"

definition header_kind :: "nat \<Rightarrow> nat \<Rightarrow> GitAcquireError + GitChangeKind" where
  "header_kind index letter =
     (if letter = byte CHR ''A'' then Inr GkAdded else if letter = byte CHR ''D'' then Inr GkDeleted
      else if letter = byte CHR ''M'' then Inr GkModified else if letter = byte CHR ''R'' then Inr GkRenamed
      else if letter = byte CHR ''C'' then Inr GkCopied else if letter = byte CHR ''T'' then Inr GkTypeChanged
      else Inl (UnsupportedStatus index letter))"

definition parse_header :: "string \<Rightarrow> nat \<Rightarrow> nat \<Rightarrow> GitAcquireError + RawRecord" where
  "parse_header header offset index =
     (if \<not> utf8_valid header then Inl (malformed offset ''non-ASCII record header'')
      else case strip_prefix '':'' header of
        None \<Rightarrow> Inl (malformed offset ''record header lacks `:`'')
      | Some rest \<Rightarrow>
          (case split_char SPACE rest of
             [old_mode, new_mode, old_oid, new_oid, status] \<Rightarrow>
               res_bind (header_oid offset old_oid) (\<lambda>old_oid.
               res_bind (header_oid offset new_oid) (\<lambda>new_oid.
               if length old_oid \<noteq> length new_oid then Inl (malformed offset ''object IDs have different lengths'')
               else if status = [] then Inl (malformed offset ''empty status'')
               else
                 res_bind (header_score offset (drop (snd (utf8_head status)) status)) (\<lambda>score.
                 res_bind (header_kind index (hd (chars status))) (\<lambda>kind.
                 if ((kind = GkRenamed \<or> kind = GkCopied) \<noteq> (score \<noteq> None)) \<and> \<not> (kind = GkModified \<and> score \<noteq> None)
                 then Inl (malformed offset ''similarity score present on the wrong status'')
                 else
                   res_bind (header_mode offset old_mode) (\<lambda>old_mode.
                   res_bind (header_mode offset new_mode) (\<lambda>new_mode.
                   Inr \<lparr>rr_kind = kind, rr_score = score, rr_old_mode = old_mode, rr_new_mode = new_mode,
                        rr_old_oid = old_oid, rr_new_oid = new_oid, rr_old_path = None, rr_new_path = None\<rparr>))))))
           | _ \<Rightarrow> Inl (malformed offset ''record header does not have five fields'')))"

text \<open>The arm of \<open>parse_raw_section\<close> that reads one record: the header field and its one or two paths.\<close>

definition raw_record :: "string \<Rightarrow> nat \<Rightarrow> nat \<Rightarrow> GitAcquireError + (RawRecord \<times> nat)" where
  "raw_record output pos index =
     res_bind (field_at output pos) (\<lambda>(header, next).
     res_bind (parse_header header pos index) (\<lambda>record.
     res_bind (path_field output next) (\<lambda>(first, next).
     case rr_kind record of
       GkAdded \<Rightarrow> Inr (record\<lparr>rr_new_path := Some first\<rparr>, next)
     | GkDeleted \<Rightarrow> Inr (record\<lparr>rr_old_path := Some first\<rparr>, next)
     | GkRenamed \<Rightarrow> res_bind (path_field output next) (\<lambda>(second, next).
         Inr (record\<lparr>rr_old_path := Some first, rr_new_path := Some second\<rparr>, next))
     | GkCopied \<Rightarrow> res_bind (path_field output next) (\<lambda>(second, next).
         Inr (record\<lparr>rr_old_path := Some first, rr_new_path := Some second\<rparr>, next))
     | GkModified \<Rightarrow> Inr (record\<lparr>rr_old_path := Some first, rr_new_path := Some first\<rparr>, next)
     | GkTypeChanged \<Rightarrow> Inr (record\<lparr>rr_old_path := Some first, rr_new_path := Some first\<rparr>, next))))"

lemma field_at_advances: "field_at out pos = Inr (bytes, next) \<Longrightarrow> pos < next"
  by (auto simp: field_at_def Let_def split: option.splits)

lemma path_field_advances: "path_field out pos = Inr (bytes, next) \<Longrightarrow> pos < next"
  by (auto simp: path_field_def split: sum.splits if_splits dest: field_at_advances)

lemma raw_record_advances:
  assumes "raw_record out pos index = Inr (r, after)"
  shows "pos < after"
proof -
  obtain header mid where f: "field_at out pos = Inr (header, mid)"
    using assms by (cases "field_at out pos") (auto simp: raw_record_def)
  obtain r0 where h: "parse_header header pos index = Inr r0"
    using assms f by (cases "parse_header header pos index") (auto simp: raw_record_def)
  obtain p1 n1 where p: "path_field out mid = Inr (p1, n1)"
    using assms f h by (cases "path_field out mid") (auto simp: raw_record_def)
  have "n1 \<le> after"
    using assms f h p path_field_advances [of out n1]
    by (cases "rr_kind r0"; cases "path_field out n1") (auto simp: raw_record_def less_imp_le)
  then show ?thesis using field_at_advances [OF f] path_field_advances [OF p] by linarith
qed

function raw_loop :: "string \<Rightarrow> RawRecord list \<Rightarrow> nat \<Rightarrow> GitAcquireError + (RawRecord list \<times> nat)" where
  "raw_loop output records pos =
     (case nth_get output pos of
        None \<Rightarrow> if records = [] then Inr (records, pos)
                else Inl (malformed pos ''missing NUL separator before the patch section'')
      | Some b \<Rightarrow>
          if b = NUL then Inr (records, pos + 1)
          else if b = CHR '':'' then
            (case raw_record output pos (length records) of
               Inl e \<Rightarrow> Inl e
             | Inr (record, next) \<Rightarrow> raw_loop output (records @ [record]) next)
          else Inl (malformed pos ''expected `:` or the section separator''))"
  by pat_completeness auto
termination
proof (relation "measure (\<lambda>(output, records, pos). length output - pos)")
  fix out :: string and records :: "RawRecord list" and pos b y r after
  assume "nth_get out pos = Some b" "raw_record out pos (length records) = Inr y" "(r, after) = y"
  then show "((out, records @ [r], after), out, records, pos) \<in> measure (\<lambda>(output, records, pos). length output - pos)"
    using raw_record_advances [of out pos "length records" r after] by (auto simp: nth_get_def split: if_splits)
qed simp

definition parse_raw_section :: "string \<Rightarrow> GitAcquireError + (RawRecord list \<times> nat)" where
  "parse_raw_section output = raw_loop output [] 0"

subsection \<open>Patch blocks\<close>

definition MARKER :: string where
  "MARKER = ''diff --git ''"

definition block_starts :: "string \<Rightarrow> nat list" where
  "block_starts patch =
     filter (\<lambda>i. starts_with MARKER (drop i patch) \<and> (i = 0 \<or> patch ! (i - 1) = LF)) [0..<length patch]"

definition split_blocks :: "string \<Rightarrow> (nat \<times> nat) list" where
  "split_blocks patch =
     (let starts = block_starts patch in
      map (\<lambda>n. (starts ! n, case nth_get starts (n + 1) of Some e \<Rightarrow> e | None \<Rightarrow> length patch)) [0..<length starts])"

definition slice :: "nat \<times> nat \<Rightarrow> string \<Rightarrow> string" where
  "slice r s = take (snd r - fst r) (drop (fst r) s)"

definition git_needs :: "char \<Rightarrow> bool" where
  "git_needs b \<longleftrightarrow> byte b < 32 \<or> byte b = 127 \<or> b = DQUOTE \<or> b = BACKSLASH"

definition git_escape :: "char \<Rightarrow> string" where
  "git_escape b =
     (if byte b = 7 then [BACKSLASH, CHR ''a''] else if byte b = 8 then [BACKSLASH, CHR ''b'']
      else if byte b = 9 then [BACKSLASH, CHR ''t''] else if byte b = 10 then [BACKSLASH, CHR ''n'']
      else if byte b = 11 then [BACKSLASH, CHR ''v''] else if byte b = 12 then [BACKSLASH, CHR ''f'']
      else if byte b = 13 then [BACKSLASH, CHR ''r''] else if b = DQUOTE then [BACKSLASH, DQUOTE]
      else if b = BACKSLASH then [BACKSLASH, BACKSLASH]
      else if git_needs b then
        [BACKSLASH, char_of (byte b div 64 + 48), char_of (byte b div 8 mod 8 + 48), char_of (byte b mod 8 + 48)]
      else [b])"

definition git_quote :: "string \<Rightarrow> string \<Rightarrow> string" where
  "git_quote prefix path =
     (if \<not> list_ex git_needs (prefix @ path) then prefix @ path
      else DQUOTE # concat (map git_escape (prefix @ path)) @ [DQUOTE])"

datatype BlockRole = Whole | TypeDeletion | TypeCreation

definition is_null_oid :: "string \<Rightarrow> bool" where
  "is_null_oid x \<longleftrightarrow> list_all (\<lambda>b. b = CHR ''0'') x"

definition header_line :: "string \<Rightarrow> string \<Rightarrow> string" where
  "header_line old new = ''diff --git '' @ git_quote ''a/'' old @ [SPACE] @ git_quote ''b/'' new"

definition split_once_str :: "string \<Rightarrow> string \<Rightarrow> (string \<times> string) option" where
  "split_once_str p s = map_option (\<lambda>i. (take i s, drop (i + length p) s)) (find_sub p s)"

fun index_ids :: "nat \<Rightarrow> nat \<Rightarrow> (string \<times> string) option \<Rightarrow> string list \<Rightarrow> GitAcquireError + (string \<times> string) option" where
  "index_ids rec_no oid_len index [] = Inr index"
| "index_ids rec_no oid_len index (line # extended) =
     (case strip_prefix ''index '' line of
        None \<Rightarrow> index_ids rec_no oid_len index extended
      | Some rest \<Rightarrow>
          if \<not> utf8_valid rest then Inl (IdentityMismatch rec_no ''non-ASCII `index` line'')
          else (case split_once_str ''..'' (hd (split_char SPACE rest)) of
            None \<Rightarrow> Inl (IdentityMismatch rec_no ''malformed `index` line'')
          | Some (old, new) \<Rightarrow>
              if length old \<noteq> oid_len \<or> length new \<noteq> oid_len
              then Inl (IdentityMismatch rec_no ''`index` line object IDs are abbreviated'')
              else index_ids rec_no oid_len (Some (old, new)) extended))"

record BlockFacts =
  bf_binary :: bool
  bf_index :: "(string \<times> string) option"

fun show_octal :: "nat \<Rightarrow> string" where
  "show_octal n = (if n < 8 then [char_of (n + 48)] else show_octal (n div 8) @ [char_of (n mod 8 + 48)])"

declare show_octal.simps [simp del]

text \<open>The closures of \<open>check_block\<close>: \<open>mode_line\<close> formats with \<open>:06o\<close>, \<open>label\<close> quotes with no prefix, and
  \<open>is_extended\<close> is the test of its \<open>take_while\<close>.\<close>

definition mode_line :: "string \<Rightarrow> nat \<Rightarrow> string" where
  "mode_line key mode = key @ replicate (6 - length (show_octal mode)) (CHR ''0'') @ show_octal mode"

definition path_label :: "string \<Rightarrow> string \<Rightarrow> string" where
  "path_label key path = key @ git_quote [] path"

definition is_extended :: "string \<Rightarrow> bool" where
  "is_extended l \<longleftrightarrow> \<not> (l = [] \<or> starts_with ''--- '' l \<or> starts_with ''@@'' l \<or> starts_with ''Binary files '' l
      \<or> l = ''GIT binary patch'')"

definition old_name :: "RawRecord \<Rightarrow> string" where
  "old_name r = (case rr_old_path r of Some p \<Rightarrow> p | None \<Rightarrow> (case rr_new_path r of Some p \<Rightarrow> p | None \<Rightarrow> []))"

definition new_name :: "RawRecord \<Rightarrow> string" where
  "new_name r = (case rr_new_path r of Some p \<Rightarrow> p | None \<Rightarrow> (case rr_old_path r of Some p \<Rightarrow> p | None \<Rightarrow> []))"

definition wants_new :: "RawRecord \<Rightarrow> BlockRole \<Rightarrow> bool" where
  "wants_new r role \<longleftrightarrow> rr_kind r = GkAdded \<or> role = TypeCreation"

definition wants_deleted :: "RawRecord \<Rightarrow> BlockRole \<Rightarrow> bool" where
  "wants_deleted r role \<longleftrightarrow> \<not> wants_new r role \<and> (rr_kind r = GkDeleted \<or> role = TypeDeletion)"

definition move_keys :: "GitChangeKind \<Rightarrow> (string \<times> string) option" where
  "move_keys k = (case k of GkRenamed \<Rightarrow> Some (''rename from '', ''rename to '')
     | GkCopied \<Rightarrow> Some (''copy from '', ''copy to '') | _ \<Rightarrow> None)"

definition block_lines :: "string \<Rightarrow> string list" where
  "block_lines block = split_char LF block"

definition check_block :: "nat \<Rightarrow> RawRecord \<Rightarrow> BlockRole \<Rightarrow> string \<Rightarrow> GitAcquireError + BlockFacts" where
  "check_block rec_no raw role block =
     (let old = old_name raw; new = new_name raw;
          extended = takeWhile is_extended (tl (block_lines block)) in
      if hd (block_lines block) \<noteq> header_line old new
      then Inl (IdentityMismatch rec_no ''`diff --git` header names different paths'')
      else if wants_new raw role \<and> mode_line ''new file mode '' (rr_new_mode raw) \<notin> set extended
      then Inl (IdentityMismatch rec_no ''missing matching `new file mode` line'')
      else if wants_deleted raw role \<and> mode_line ''deleted file mode '' (rr_old_mode raw) \<notin> set extended
      then Inl (IdentityMismatch rec_no ''missing matching `deleted file mode` line'')
      else if \<not> wants_new raw role \<and> list_ex (starts_with ''new file mode '') extended
      then Inl (IdentityMismatch rec_no ''unexpected `new file mode` line'')
      else if \<not> wants_deleted raw role \<and> list_ex (starts_with ''deleted file mode '') extended
      then Inl (IdentityMismatch rec_no ''unexpected `deleted file mode` line'')
      else if (case move_keys (rr_kind raw) of None \<Rightarrow> False
               | Some (from, to) \<Rightarrow> path_label from old \<notin> set extended \<or> path_label to new \<notin> set extended)
      then Inl (IdentityMismatch rec_no
             (case move_keys (rr_kind raw) of None \<Rightarrow> []
              | Some (from, to) \<Rightarrow> ''missing matching `'' @ trim_end from @ ''`/`'' @ trim_end to @ ''` lines''))
      else if move_keys (rr_kind raw) = None \<and> list_ex (\<lambda>l. starts_with ''rename '' l \<or> starts_with ''copy '' l) extended
      then Inl (IdentityMismatch rec_no ''unexpected rename/copy lines'')
      else if role = Whole \<and> \<not> wants_new raw role \<and> \<not> wants_deleted raw role \<and> rr_old_mode raw \<noteq> rr_new_mode raw
           \<and> (mode_line ''old mode '' (rr_old_mode raw) \<notin> set extended
              \<or> mode_line ''new mode '' (rr_new_mode raw) \<notin> set extended)
      then Inl (IdentityMismatch rec_no ''missing matching `old mode`/`new mode` lines'')
      else res_bind (index_ids rec_no (length (rr_old_oid raw)) None extended) (\<lambda>index.
           Inr \<lparr>bf_binary = list_ex (\<lambda>l. l = ''GIT binary patch'' \<or> starts_with ''Binary files '' l) (block_lines block),
                bf_index = index\<rparr>))"

subsection \<open>Pairing records with blocks\<close>

text \<open>\<open>check_id\<close> is the closure \<open>check\<close> of \<open>pair\<close>; \<open>pair_loop\<close> its loop over the roles and their blocks.\<close>

definition check_id :: "nat \<Rightarrow> string \<Rightarrow> string \<Rightarrow> string \<Rightarrow> string option \<Rightarrow> GitAcquireError + string option" where
  "check_id index side raw from_index slot =
     (if is_null_oid from_index then Inr slot
      else case slot of
        Some known \<Rightarrow>
          if known \<noteq> from_index
          then Inl (IdentityMismatch index (side @ '' object ID '' @ from_index @ '' in `index` line disagrees with raw '' @ raw))
          else Inr slot
      | None \<Rightarrow> Inr (Some from_index))"

fun pair_loop :: "nat \<Rightarrow> RawRecord \<Rightarrow> string \<Rightarrow> string option \<Rightarrow> string option \<Rightarrow> bool \<Rightarrow> (BlockRole \<times> nat \<times> nat) list
    \<Rightarrow> GitAcquireError + (string option \<times> string option \<times> bool)" where
  "pair_loop index raw patch old_blob new_blob binary [] = Inr (old_blob, new_blob, binary)"
| "pair_loop index raw patch old_blob new_blob binary ((role, block) # rest) =
     res_bind (check_block index raw role (slice block patch)) (\<lambda>facts.
     res_bind (case bf_index facts of
                 None \<Rightarrow> Inr (old_blob, new_blob)
               | Some (old, new) \<Rightarrow>
                   res_bind (if role \<noteq> TypeCreation then check_id index ''old'' (rr_old_oid raw) old old_blob else Inr old_blob) (\<lambda>ob.
                   res_bind (if role \<noteq> TypeDeletion then check_id index ''new'' (rr_new_oid raw) new new_blob else Inr new_blob) (\<lambda>nb.
                   Inr (ob, nb)))) (\<lambda>(ob, nb).
     pair_loop index raw patch ob nb (binary \<or> bf_binary facts) rest))"

definition roles_of :: "GitChangeKind \<Rightarrow> BlockRole list" where
  "roles_of k = (if k = GkTypeChanged then [TypeDeletion, TypeCreation] else [Whole])"

definition known_oid :: "string \<Rightarrow> string option" where
  "known_oid x = (if is_null_oid x then None else Some x)"

definition pair :: "nat \<Rightarrow> RawRecord \<Rightarrow> string \<Rightarrow> (nat \<times> nat) list \<Rightarrow> GitChangeOrigin \<Rightarrow> nat \<times> nat \<Rightarrow> GitAcquireError + GitChange" where
  "pair index raw patch blocks origin patch_range =
     res_bind (pair_loop index raw patch (known_oid (rr_old_oid raw)) (known_oid (rr_new_oid raw)) False
                 (zip (roles_of (rr_kind raw)) blocks)) (\<lambda>(old_blob, new_blob, binary).
     let exists_old = (rr_kind raw \<noteq> GkAdded); exists_new = (rr_kind raw \<noteq> GkDeleted) in
     Inr \<lparr>gc_kind = rr_kind raw, gc_score = rr_score raw,
          gc_old_mode = (if exists_old then Some (rr_old_mode raw) else None),
          gc_new_mode = (if exists_new then Some (rr_new_mode raw) else None),
          gc_old_blob = (if exists_old then old_blob else None), gc_new_blob = (if exists_new then new_blob else None),
          gc_old_path = rr_old_path raw, gc_new_path = rr_new_path raw, gc_origin = origin, gc_binary = binary,
          gc_patch_range = patch_range, gc_block_count = length (roles_of (rr_kind raw))\<rparr>)"

subsection \<open>The structured diff\<close>

record StructuredDiff =
  sd_patch :: string
  sd_changes :: "GitChange list"

definition StructuredDiff_default :: StructuredDiff where
  "StructuredDiff_default = \<lparr>sd_patch = [], sd_changes = []\<rparr>"

text \<open>The loop of \<open>append_stream\<close>: \<open>blocks\<close> are those not yet owned. The slice it takes is in range because
  the counts were compared first.\<close>

fun pair_all :: "string \<Rightarrow> GitChangeOrigin \<Rightarrow> nat \<Rightarrow> nat \<Rightarrow> RawRecord list \<Rightarrow> (nat \<times> nat) list \<Rightarrow> GitAcquireError + GitChange list" where
  "pair_all patch origin base index [] blocks = Inr []"
| "pair_all patch origin base index (r # rs) blocks =
     (let owned = take (block_count (rr_kind r)) blocks; range = (fst (hd owned), snd (last owned)) in
      res_bind (pair index r patch owned origin (base + fst range, base + snd range)) (\<lambda>c.
      res_bind (pair_all patch origin base (index + 1) rs (drop (block_count (rr_kind r)) blocks)) (\<lambda>cs.
      Inr (c # cs))))"

definition append_stream :: "StructuredDiff \<Rightarrow> string \<Rightarrow> GitChangeOrigin \<Rightarrow> StructuredDiff \<times> (GitAcquireError + GitChange list)" where
  "append_stream d output origin =
     (case parse_raw_section output of
        Inl e \<Rightarrow> (d, Inl e)
      | Inr (records, patch_offset) \<Rightarrow>
          (let patch = drop patch_offset output; blocks = split_blocks patch;
               expected = sum_list (map (\<lambda>r. block_count (rr_kind r)) records) in
           if (blocks \<noteq> [] \<and> fst (hd blocks) \<noteq> 0) \<or> (blocks = [] \<and> patch \<noteq> [])
           then (d, Inl (MalformedRaw patch_offset ''patch section does not start with a `diff --git` block''))
           else if expected \<noteq> length blocks then (d, Inl (CountMismatch (length records) expected (length blocks)))
           else case pair_all patch origin (length (sd_patch d)) 0 records blocks of
             Inl e \<Rightarrow> (d, Inl e)
           | Inr changes \<Rightarrow> (\<lparr>sd_patch = sd_patch d @ patch, sd_changes = sd_changes d @ changes\<rparr>, Inr changes)))"

definition StructuredDiff_parse :: "string \<Rightarrow> GitAcquireError + StructuredDiff" where
  "StructuredDiff_parse output =
     (case append_stream StructuredDiff_default output Tracked of (d, Inl e) \<Rightarrow> Inl e | (d, Inr _) \<Rightarrow> Inr d)"

definition change_patch :: "StructuredDiff \<Rightarrow> GitChange \<Rightarrow> string" where
  "change_patch d c =
     (let (a, b) = gc_patch_range c in if a \<le> b \<and> b \<le> length (sd_patch d) then slice (a, b) (sd_patch d) else [])"

definition diff_blocks :: "StructuredDiff \<Rightarrow> nat" where
  "diff_blocks d = sum_list (map gc_block_count (sd_changes d))"

definition StructuredDiff_capture :: "StructuredDiff \<Rightarrow> GitAcquireError + CapturedPatch" where
  "StructuredDiff_capture d =
     (case capture_bytes (sd_patch d) of
        Inl e \<Rightarrow> Inl (GitParse e)
      | Inr captured \<Rightarrow>
          if length (cp_files captured) \<noteq> diff_blocks d
          then Inl (ParsedFileCountMismatch (diff_blocks d) (length (cp_files captured))) else Inr captured)"

fun name_files :: "nat \<Rightarrow> GitChange list \<Rightarrow> ReviewFile list \<Rightarrow> GitAcquireError + ReviewFile list" where
  "name_files rec_no [] slots = Inr slots"
| "name_files rec_no (c # cs) slots =
     (case Option.bind (review_path c) GitPath_to_utf8 of
        None \<Rightarrow> Inl (NonUtf8Path rec_no)
      | Some path \<Rightarrow>
          res_bind (name_files (rec_no + 1) cs (drop (gc_block_count c) slots)) (\<lambda>later.
          Inr (map (\<lambda>f. f\<lparr>rf_path := path\<rparr>) (take (gc_block_count c) slots) @ later)))"

definition review_files :: "StructuredDiff \<Rightarrow> CapturedPatch \<Rightarrow> GitAcquireError + ReviewFile list" where
  "review_files d captured =
     (if length (cp_files captured) \<noteq> diff_blocks d
      then Inl (ParsedFileCountMismatch (diff_blocks d) (length (cp_files captured)))
      else name_files 0 (sd_changes d) (cp_files captured))"

definition StructuredDiff_sealed_review :: "StructuredDiff \<Rightarrow> CapturedPatch \<Rightarrow> string \<Rightarrow> GitAcquireError + SealedReview" where
  "StructuredDiff_sealed_review d captured version =
     res_bind (review_files d captured) (\<lambda>files. Inr (SealedReview_from_capture files (original_bytes captured) version))"

end
