(* ===== verification/Git_Raw_Props.thy ===== *)
theory Git_Raw_Props
  imports Git_Raw Core_Text
begin

text \<open>
  The lemmas behind the properties of the structured Git stream: the parser's path decoder reads Git's
  quoting, the raw section is read back from its encoding, the blocks and the changes that own them tile
  the patch, and every change is attested by the lines of its blocks.
\<close>

subsection \<open>Quoting\<close>

lemma git_escape_cases:
  obtains (simple) e where "git_escape b = [BACKSLASH, e]" "simple_escape e = Some b"
  | (octal) "git_escape b = [BACKSLASH, char_of (byte b div 64 + 48), char_of (byte b div 8 mod 8 + 48), char_of (byte b mod 8 + 48)]"
  | (plain) "git_escape b = [b]" "b \<noteq> DQUOTE" "b \<noteq> BACKSLASH" "32 \<le> byte b"
proof -
  have eqs: "byte b = 7 \<longleftrightarrow> b = CHR 0x07" "byte b = 8 \<longleftrightarrow> b = CHR 0x08" "byte b = 9 \<longleftrightarrow> b = TAB" "byte b = 10 \<longleftrightarrow> b = LF"
    "byte b = 11 \<longleftrightarrow> b = CHR 0x0B" "byte b = 12 \<longleftrightarrow> b = CHR 0x0C" "byte b = 13 \<longleftrightarrow> b = CR"
    by (simp_all add: byte_eq_iff [symmetric])
  show thesis
  proof (cases "b \<in> {CHR 0x07, CHR 0x08, TAB, LF, CHR 0x0B, CHR 0x0C, CR, DQUOTE, BACKSLASH}")
    case True
    have "\<exists>e. git_escape b = [BACKSLASH, e] \<and> simple_escape e = Some b"
      using True by (elim insertE emptyE) (simp_all add: git_escape_def simple_escape_def)
    then show thesis using simple by blast
  next
    case False
    then show thesis using octal plain eqs by (cases "git_needs b") (auto simp: git_escape_def git_needs_def)
  qed
qed

lemma dq_loop_git_escape: "dq_loop out (git_escape b @ s) = dq_loop (out @ [b]) s"
proof (cases b rule: git_escape_cases)
  case octal
  have lt: "byte b div 64 < 8" "byte b div 8 mod 8 < 8" "byte b mod 8 < 8"
    using byte_div64_le [of b] by auto
  have val: "char_of (byte b div 64 * 64 + byte b div 8 mod 8 * 8 + byte b mod 8) = b"
    by (simp only: octal_digits char_of_char)
  show ?thesis
    using lt byte_div64_le [of b] val by (simp add: octal octal_chars dq_loop_octal)
qed (simp_all add: dq_loop_simple dq_loop_step)

lemma decode_git_quote:
  assumes "utf8_valid (p @ q)" "NUL \<notin> set (p @ q)"
  shows "decode_path (git_quote p q) = Some (p @ q)"
proof (cases "list_ex git_needs (p @ q)")
  case True
  have "dq_loop out (concat (map git_escape r) @ [DQUOTE]) = (if utf8_valid (out @ r) then Some (out @ r, []) else None)" for out r
    by (induction r arbitrary: out) (simp_all add: dq_loop_git_escape)
  from this [of "[]" "p @ q"] show ?thesis
    using True assms by (simp add: git_quote_def decode_path_def decode_quoted_prefix_def)
next
  case False
  then have "DQUOTE \<notin> set (p @ q)" by (auto simp: list_ex_iff git_needs_def)
  then have "\<not> starts_with [DQUOTE] (p @ q)" by (cases "p @ q") auto
  then show ?thesis using False assms(2) by (simp add: git_quote_def decode_path_def)
qed

subsection \<open>The raw section\<close>

definition octal6 :: "nat \<Rightarrow> string" where
  "octal6 m = mode_line [] m"

lemma octal_value_simps [simp]:
  "octal_value [] = 0" "octal_value (ds @ [d]) = octal_value ds * 8 + digit_value d"
  by (simp_all add: octal_value_def)

lemma octal_value_zeros: "octal_value (replicate n CHR ''0'' @ ds) = octal_value ds"
proof (induction ds rule: rev_induct)
  case Nil
  have "octal_value (replicate n CHR ''0'') = 0"
    by (induction n) (simp_all add: replicate_append_same [symmetric] digit_value_def)
  then show ?case by simp
next
  case (snoc d ds)
  then show ?case using octal_value_simps(2) [of "replicate n CHR ''0'' @ ds" d] by simp
qed

lemma octal_digit: "d < 8 \<Longrightarrow> digit_value (char_of (d + 48)) = d \<and> is_octal (char_of (d + 48)) \<and> is_ascii_digit (char_of (d + 48))"
  by (simp add: digit_value_def is_octal_def is_ascii_digit_def)

lemma show_octal_ok: "octal_value (show_octal m) = m \<and> list_all is_octal (show_octal m)"
proof (induction m rule: show_octal.induct)
  case (1 m)
  show ?case
  proof (cases "m < 8")
    case True
    then show ?thesis
      using octal_digit [OF True] octal_value_simps(2) [of "[]" "char_of (m + 48)"] by (subst (1 2) show_octal.simps) simp
  next
    case False
    then show ?thesis using 1 octal_digit [of "m mod 8"] by (subst (1 2) show_octal.simps) simp
  qed
qed

lemma show_octal_length: "m < 8 ^ Suc k \<Longrightarrow> length (show_octal m) \<le> Suc k"
proof (induction k arbitrary: m)
  case 0
  then show ?case by (subst show_octal.simps) simp
next
  case (Suc k)
  then have "m div 8 < 8 ^ Suc k" by (simp add: less_mult_imp_div_less)
  then show ?case using Suc.IH [of "m div 8"] by (subst show_octal.simps) simp
qed

lemma octal6_ok:
  assumes "m < 8 ^ 6"
  shows "length (octal6 m) = 6" "list_all is_octal (octal6 m)" "octal_value (octal6 m) = m"
  using show_octal_length [of m 5] show_octal_ok [of m] assms
  by (simp_all add: octal6_def mode_line_def octal_value_zeros list_all_iff is_octal_def set_replicate_conv_if)

text \<open>What \<open>git diff --raw -z\<close> documents for a record: five fields separated by blanks, each field and
  path closed by NUL.\<close>

fun kind_letter :: "GitChangeKind \<Rightarrow> char" where
  "kind_letter GkAdded = CHR ''A''" | "kind_letter GkDeleted = CHR ''D''" | "kind_letter GkModified = CHR ''M''"
| "kind_letter GkRenamed = CHR ''R''" | "kind_letter GkCopied = CHR ''C''" | "kind_letter GkTypeChanged = CHR ''T''"

definition show_status :: "RawRecord \<Rightarrow> string" where
  "show_status r = kind_letter (rr_kind r) # (case rr_score r of None \<Rightarrow> [] | Some n \<Rightarrow> show_nat n)"

definition show_header :: "RawRecord \<Rightarrow> string" where
  "show_header r = CHR '':'' # octal6 (rr_old_mode r) @ SPACE # octal6 (rr_new_mode r) @ SPACE # rr_old_oid r
     @ SPACE # rr_new_oid r @ SPACE # show_status r"

definition record_paths :: "RawRecord \<Rightarrow> string list" where
  "record_paths r =
     (case rr_kind r of
        GkRenamed \<Rightarrow> [the (rr_old_path r), the (rr_new_path r)]
      | GkCopied \<Rightarrow> [the (rr_old_path r), the (rr_new_path r)]
      | GkAdded \<Rightarrow> [the (rr_new_path r)]
      | _ \<Rightarrow> [the (rr_old_path r)])"

definition show_record :: "RawRecord \<Rightarrow> string" where
  "show_record r = show_header r @ NUL # concat (map (\<lambda>p. p @ [NUL]) (record_paths r))"

definition path_bytes_ok :: "string \<Rightarrow> bool" where
  "path_bytes_ok p \<longleftrightarrow> p \<noteq> [] \<and> NUL \<notin> set p"

definition paths_of_kind :: "RawRecord \<Rightarrow> bool" where
  "paths_of_kind r =
     (case (rr_kind r, rr_old_path r, rr_new_path r) of
        (GkAdded, None, Some q) \<Rightarrow> path_bytes_ok q
      | (GkDeleted, Some p, None) \<Rightarrow> path_bytes_ok p
      | (GkRenamed, Some p, Some q) \<Rightarrow> path_bytes_ok p \<and> path_bytes_ok q
      | (GkCopied, Some p, Some q) \<Rightarrow> path_bytes_ok p \<and> path_bytes_ok q
      | (GkModified, Some p, Some q) \<Rightarrow> p = q \<and> path_bytes_ok p
      | (GkTypeChanged, Some p, Some q) \<Rightarrow> p = q \<and> path_bytes_ok p
      | _ \<Rightarrow> False)"

definition record_ok :: "RawRecord \<Rightarrow> bool" where
  "record_ok r \<longleftrightarrow>
     rr_old_mode r < 8 ^ 6 \<and> rr_new_mode r < 8 ^ 6
     \<and> (length (rr_old_oid r) = 40 \<or> length (rr_old_oid r) = 64) \<and> length (rr_new_oid r) = length (rr_old_oid r)
     \<and> list_all oid_byte (rr_old_oid r) \<and> list_all oid_byte (rr_new_oid r)
     \<and> (case rr_score r of
          None \<Rightarrow> rr_kind r \<noteq> GkRenamed \<and> rr_kind r \<noteq> GkCopied
        | Some n \<Rightarrow> n \<le> 100 \<and> rr_kind r \<in> {GkRenamed, GkCopied, GkModified})
     \<and> paths_of_kind r"

lemma field_at_here:
  "NUL \<notin> set f \<Longrightarrow> field_at (pre @ f @ NUL # rest) (length pre) = Inr (f, length pre + length f + 1)"
proof -
  assume "NUL \<notin> set f"
  then have "position (\<lambda>b. b = NUL) (f @ NUL # rest) = Some (length f)"
    by (auto simp: position_Some nth_append in_set_conv_nth)
  then show ?thesis by (simp add: field_at_def)
qed

lemma path_field_here:
  "path_bytes_ok p \<Longrightarrow> path_field (pre @ p @ NUL # rest) (length pre) = Inr (p, length pre + length p + 1)"
  by (simp add: path_field_def path_bytes_ok_def field_at_here)

lemma header_bytes:
  assumes "record_ok r"
  shows "set (show_header r) \<subseteq> {c. byte c < 128} - {NUL}" "SPACE \<notin> set (octal6 (rr_old_mode r))" "SPACE \<notin> set (octal6 (rr_new_mode r))"
    "SPACE \<notin> set (rr_old_oid r)" "SPACE \<notin> set (rr_new_oid r)" "SPACE \<notin> set (show_status r)"
proof -
  have ascii: "is_octal c \<Longrightarrow> 32 < byte c \<and> byte c < 128" "oid_byte c \<Longrightarrow> 32 < byte c \<and> byte c < 128"
    "is_ascii_digit c \<Longrightarrow> 32 < byte c \<and> byte c < 128" for c
    by (auto simp: is_octal_def oid_byte_def is_ascii_digit_def)
  have modes: "c \<in> set (octal6 (rr_old_mode r)) \<Longrightarrow> 32 < byte c \<and> byte c < 128" "c \<in> set (octal6 (rr_new_mode r)) \<Longrightarrow> 32 < byte c \<and> byte c < 128" for c
    using octal6_ok(2) assms ascii(1) by (auto simp: record_ok_def list_all_iff)
  have oids: "c \<in> set (rr_old_oid r) \<Longrightarrow> 32 < byte c \<and> byte c < 128" "c \<in> set (rr_new_oid r) \<Longrightarrow> 32 < byte c \<and> byte c < 128" for c
    using assms ascii(2) by (auto simp: record_ok_def list_all_iff)
  have st: "c \<in> set (show_status r) \<Longrightarrow> 32 < byte c \<and> byte c < 128" for c
    using show_nat_digits ascii(3) by (cases "rr_kind r") (auto simp: show_status_def split: option.splits)
  have clean: "32 < byte c \<and> byte c < 128 \<Longrightarrow> c \<noteq> NUL \<and> c \<noteq> SPACE \<and> byte c < 128" for c by auto
  show "SPACE \<notin> set (octal6 (rr_old_mode r))" "SPACE \<notin> set (octal6 (rr_new_mode r))" "SPACE \<notin> set (rr_old_oid r)"
    "SPACE \<notin> set (rr_new_oid r)" "SPACE \<notin> set (show_status r)"
    using modes oids st clean by blast+
  have "c \<in> set (show_header r) \<Longrightarrow> c = CHR '':'' \<or> c = SPACE \<or> (32 < byte c \<and> byte c < 128)" for c
    using modes oids st by (auto simp: show_header_def)
  then show "set (show_header r) \<subseteq> {c. byte c < 128} - {NUL}" by fastforce
qed

lemma header_score_shown:
  assumes "record_ok r"
  shows "header_score pos (case rr_score r of None \<Rightarrow> [] | Some n \<Rightarrow> show_nat n) = Inr (rr_score r)"
proof (cases "rr_score r")
  case (Some n)
  have "\<not> starts_with ''+'' (show_nat n)"
    using show_nat_digits [of n] by (cases "show_nat n") (auto simp: is_ascii_digit_def)
  then have "parse_u8 (show_nat n) = Some n"
    using show_nat_digits [of n] assms Some
    by (auto simp: parse_u8_def starts_with_def list_all_iff record_ok_def Let_def)
  then show ?thesis using assms Some show_nat_digits [of n] by (simp add: header_score_def record_ok_def list_all_iff)
qed (simp add: header_score_def)

lemma header_kind_shown: "header_kind index (byte (kind_letter k)) = Inr k"
  by (cases k) (simp_all add: header_kind_def)

lemma parse_header_shown:
  assumes "record_ok r"
  shows "parse_header (show_header r) pos index = Inr (r\<lparr>rr_old_path := None, rr_new_path := None\<rparr>)"
proof -
  let ?status = "show_status r"
  note b = header_bytes [OF assms]
  have valid: "utf8_valid (show_header r)" using b(1) utf8_valid_ascii_all by blast
  have sp: "split_char SPACE (octal6 (rr_old_mode r) @ SPACE # octal6 (rr_new_mode r) @ SPACE # rr_old_oid r @ SPACE # rr_new_oid r
      @ SPACE # ?status) = [octal6 (rr_old_mode r), octal6 (rr_new_mode r), rr_old_oid r, rr_new_oid r, ?status]"
    using b by (simp add: split_char_append_sep split_char_no_sep)
  have k: "byte (kind_letter (rr_kind r)) < 128" by (cases "rr_kind r") simp_all
  have status: "hd (chars ?status) = byte (kind_letter (rr_kind r))" "?status \<noteq> []"
    "drop (snd (utf8_head ?status)) ?status = (case rr_score r of None \<Rightarrow> [] | Some n \<Rightarrow> show_nat n)"
    using k by (simp_all add: show_status_def)
  have modes: "header_mode pos (octal6 (rr_old_mode r)) = Inr (rr_old_mode r)" "header_mode pos (octal6 (rr_new_mode r)) = Inr (rr_new_mode r)"
    using octal6_ok [of "rr_old_mode r"] octal6_ok [of "rr_new_mode r"] assms by (simp_all add: header_mode_def record_ok_def)
  have oids: "header_oid pos (rr_old_oid r) = Inr (rr_old_oid r)" "header_oid pos (rr_new_oid r) = Inr (rr_new_oid r)"
    "length (rr_new_oid r) = length (rr_old_oid r)"
    using assms by (simp_all add: header_oid_def record_ok_def)
  have scored: "\<not> (((rr_kind r = GkRenamed \<or> rr_kind r = GkCopied) \<noteq> (rr_score r \<noteq> None)) \<and> \<not> (rr_kind r = GkModified \<and> rr_score r \<noteq> None))"
    using assms by (auto simp: record_ok_def split: option.splits)
  show ?thesis
    using valid unfolding parse_header_def show_header_def
    using scored by (auto simp add: sp status modes oids header_score_shown [OF assms] header_kind_shown)
qed

lemma raw_record_shown:
  assumes "record_ok r"
  shows "raw_record (pre @ show_record r @ rest) (length pre) index = Inr (r, length pre + length (show_record r))"
proof -
  let ?paths = "concat (map (\<lambda>p. p @ [NUL]) (record_paths r))"
  have no: "NUL \<notin> set (show_header r)" using header_bytes(1) [OF assms] by auto
  have head: "field_at (pre @ show_record r @ rest) (length pre) = Inr (show_header r, length pre + length (show_header r) + 1)"
    using field_at_here [OF no, of pre "?paths @ rest"] by (simp add: show_record_def)
  define mid where "mid = pre @ show_header r @ [NUL]"
  have mid: "pre @ show_record r @ rest = mid @ ?paths @ rest" "length pre + length (show_header r) + 1 = length mid"
    by (simp_all add: mid_def show_record_def)
  have fst1: "path_field (mid @ p @ NUL # z) (length mid) = Inr (p, length mid + length p + 1)" if "path_bytes_ok p" for p z
    using path_field_here [OF that] by simp
  have snd1: "path_field (mid @ p @ NUL # q @ NUL # z) (length mid + length p + 1) = Inr (q, length mid + length p + length q + 2)"
    if "path_bytes_ok q" for p q z
    using path_field_here [OF that, of "mid @ p @ [NUL]" z] by simp
  have len: "length pre + length (show_record r) = length mid + length ?paths" by (simp add: mid_def show_record_def)
  have "paths_of_kind r" using assms by (simp add: record_ok_def)
  then show ?thesis
    unfolding raw_record_def head [simplified mid] mid len res_bind_simps case_prod_conv parse_header_shown [OF assms]
    using fst1 snd1
    by (cases r; cases "rr_kind r"; cases "rr_old_path r"; cases "rr_new_path r") (simp_all add: paths_of_kind_def record_paths_def)
qed

lemma raw_loop_shown:
  assumes "list_all record_ok rs"
  shows "raw_loop (pre @ concat (map show_record rs) @ NUL # patch) acc (length pre) =
     Inr (acc @ rs, length pre + length (concat (map show_record rs)) + 1)"
  using assms
proof (induction rs arbitrary: pre acc)
  case Nil
  show ?case by (subst raw_loop.simps) (simp add: nth_get_def)
next
  case (Cons r rs)
  define out where "out = pre @ concat (map show_record (r # rs)) @ NUL # patch"
  have c: "nth_get out (length pre) = Some CHR '':''" unfolding out_def by (simp add: nth_get_def show_record_def show_header_def nth_append)
  have "raw_record out (length pre) (length acc) = Inr (r, length pre + length (show_record r))"
    unfolding out_def using raw_record_shown [of r pre "concat (map show_record rs) @ NUL # patch"] Cons.prems by simp
  then have "raw_loop out acc (length pre) = raw_loop out (acc @ [r]) (length (pre @ show_record r))"
    by (subst raw_loop.simps) (simp add: c)
  then show ?case unfolding out_def using Cons.IH [of "pre @ show_record r" "acc @ [r]"] Cons.prems by simp
qed

subsection \<open>Blocks tile the patch\<close>

fun tiles :: "nat \<Rightarrow> (nat \<times> nat) list \<Rightarrow> nat \<Rightarrow> bool" where
  "tiles a [] b \<longleftrightarrow> a = b"
| "tiles a (r # rs) b \<longleftrightarrow> fst r = a \<and> a < snd r \<and> tiles (snd r) rs b"

lemma tiles_le: "tiles a rs b \<Longrightarrow> a \<le> b"
  by (induction a rs b rule: tiles.induct) auto

lemma tiles_bounds: "tiles a rs b \<Longrightarrow> r \<in> set rs \<Longrightarrow> a \<le> fst r \<and> fst r < snd r \<and> snd r \<le> b"
  by (induction a rs b rule: tiles.induct) (auto dest: tiles_le)

lemma tiles_append: "tiles a (rs @ rs') c \<longleftrightarrow> (\<exists>b. tiles a rs b \<and> tiles b rs' c)"
  by (induction rs arbitrary: a) auto

lemma tiles_shift: "tiles a rs b \<Longrightarrow> tiles (n + a) (map (\<lambda>r. (n + fst r, n + snd r)) rs) (n + b)"
  by (induction a rs b rule: tiles.induct) auto

lemma tiles_group:
  assumes "tiles a rs b" "0 < k" "k \<le> length rs"
  shows "fst (hd (take k rs)) = a \<and> a < snd (last (take k rs)) \<and> tiles (snd (last (take k rs))) (drop k rs) b"
  using assms
proof (induction k arbitrary: a rs)
  case (Suc k)
  then obtain r rs' where rs: "rs = r # rs'" by (cases rs) auto
  show ?case
  proof (cases "k = 0")
    case False
    then have "fst (hd (take k rs')) = snd r \<and> snd r < snd (last (take k rs')) \<and> tiles (snd (last (take k rs'))) (drop k rs') b"
      using Suc.IH [of "snd r" rs'] Suc.prems rs by simp
    moreover have "take k rs' \<noteq> []" using False Suc.prems rs by auto
    ultimately show ?thesis using Suc.prems rs by auto
  qed (use Suc.prems rs in auto)
qed simp

lemma slice_tiles:
  "tiles a rs b \<Longrightarrow> b \<le> length s \<Longrightarrow> concat (map (\<lambda>r. slice r s) rs) = slice (a, b) s"
proof (induction a rs b rule: tiles.induct)
  case (2 a r rs b)
  then have le: "snd r \<le> b" "a < snd r" "fst r = a" by (auto dest: tiles_le)
  have "take (b - a) (drop a s) = take (snd r - a) (drop a s) @ take (b - snd r) (drop (snd r - a) (drop a s))"
    using le take_add [of "snd r - a" "b - snd r" "drop a s"] by simp
  then show ?case using 2 le by (simp add: slice_def)
qed (simp add: slice_def)

lemma tiles_zip:
  "sorted_wrt (<) xs \<Longrightarrow> \<forall>x\<in>set xs. x < n \<Longrightarrow> xs \<noteq> [] \<Longrightarrow> tiles (hd xs) (zip xs (tl xs @ [n])) n"
proof (induction xs)
  case (Cons x xs)
  then show ?case by (cases xs) auto
qed simp

lemma split_blocks_zip: "split_blocks patch = zip (block_starts patch) (tl (block_starts patch) @ [length patch])"
  by (rule nth_equalityI) (auto simp: split_blocks_def Let_def nth_get_def nth_append nth_tl)

lemma block_starts_sorted: "sorted_wrt (<) (block_starts patch)" "\<forall>x\<in>set (block_starts patch). x < length patch"
  by (auto simp: block_starts_def intro: sorted_wrt_filter)

lemma split_blocks_tile:
  assumes "\<not> ((split_blocks patch \<noteq> [] \<and> fst (hd (split_blocks patch)) \<noteq> 0) \<or> (split_blocks patch = [] \<and> patch \<noteq> []))"
  shows "tiles 0 (split_blocks patch) (length patch)"
proof (cases "block_starts patch = []")
  case True
  then show ?thesis using assms by (simp add: split_blocks_zip)
next
  case False
  have "fst (hd (split_blocks patch)) = hd (block_starts patch)"
    using False by (cases "block_starts patch"; cases "tl (block_starts patch)") (simp_all add: split_blocks_zip)
  moreover have "split_blocks patch \<noteq> []" using False by (simp add: split_blocks_zip)
  ultimately show ?thesis
    using assms tiles_zip [OF block_starts_sorted False] by (simp add: split_blocks_zip)
qed

lemma pair_fields:
  assumes "pair index r patch blocks origin span = Inr c"
  shows "gc_kind c = rr_kind r" "gc_patch_range c = span" "gc_block_count c = block_count (rr_kind r)" "gc_old_path c = rr_old_path r"
    "gc_new_path c = rr_new_path r" "gc_origin c = origin"
    "gc_old_mode c = (if rr_kind r \<noteq> GkAdded then Some (rr_old_mode r) else None)"
    "gc_new_mode c = (if rr_kind r \<noteq> GkDeleted then Some (rr_new_mode r) else None)"
  using assms by (auto simp: pair_def res_bind_Inr_iff roles_of_def block_count_def Let_def)

lemma pair_all_tiles:
  assumes "pair_all patch origin base index rs blocks = Inr cs" "tiles a blocks b"
    "sum_list (map (\<lambda>r. block_count (rr_kind r)) rs) = length blocks"
  shows "tiles (base + a) (map gc_patch_range cs) (base + b) \<and> map gc_block_count cs = map (\<lambda>r. block_count (rr_kind r)) rs"
  using assms
proof (induction rs arbitrary: index blocks cs a)
  case (Cons r rs)
  let ?k = "block_count (rr_kind r)"
  let ?owned = "take ?k blocks"
  obtain c cs' where c: "cs = c # cs'" "pair index r patch ?owned origin (base + fst (hd ?owned), base + snd (last ?owned)) = Inr c"
    "pair_all patch origin base (index + 1) rs (drop ?k blocks) = Inr cs'"
    using Cons.prems(1) by (auto simp: res_bind_Inr_iff Let_def)
  have k: "0 < ?k" "?k \<le> length blocks" using Cons.prems(3) by (auto simp: block_count_def)
  note g = tiles_group [OF Cons.prems(2) k]
  have "tiles (base + snd (last ?owned)) (map gc_patch_range cs') (base + b) \<and> map gc_block_count cs' = map (\<lambda>r. block_count (rr_kind r)) rs"
    using Cons.IH [OF c(3), of "snd (last ?owned)"] g Cons.prems(3) by simp
  then show ?case using c(1) g pair_fields(2,3) [OF c(2)] by simp
qed auto

subsection \<open>Every change is attested by its blocks\<close>

definition opt_else :: "'a option \<Rightarrow> 'a option \<Rightarrow> 'a option" where
  "opt_else x y = (case x of Some v \<Rightarrow> Some v | None \<Rightarrow> y)"

text \<open>What the text of a change's blocks has to say of it: the header line with both paths, the modes of a side
  that appears or goes, the names of a move, and both modes when they differ.\<close>

definition attests :: "GitChange \<Rightarrow> string \<Rightarrow> bool" where
  "attests c text \<longleftrightarrow>
     (let lines = split_char LF text; kind = gc_kind c;
          old = the (opt_else (gc_old_path c) (gc_new_path c)); new = the (opt_else (gc_new_path c) (gc_old_path c)) in
      hd lines = header_line old new
      \<and> (kind \<in> {GkAdded, GkTypeChanged} \<longrightarrow> mode_line ''new file mode '' (the (gc_new_mode c)) \<in> set lines)
      \<and> (kind \<in> {GkDeleted, GkTypeChanged} \<longrightarrow> mode_line ''deleted file mode '' (the (gc_old_mode c)) \<in> set lines)
      \<and> (kind = GkRenamed \<longrightarrow> path_label ''rename from '' old \<in> set lines \<and> path_label ''rename to '' new \<in> set lines)
      \<and> (kind = GkCopied \<longrightarrow> path_label ''copy from '' old \<in> set lines \<and> path_label ''copy to '' new \<in> set lines)
      \<and> (kind \<in> {GkModified, GkRenamed, GkCopied} \<and> gc_old_mode c \<noteq> gc_new_mode c \<longrightarrow>
           mode_line ''old mode '' (the (gc_old_mode c)) \<in> set lines
           \<and> mode_line ''new mode '' (the (gc_new_mode c)) \<in> set lines))"

definition has_path :: "RawRecord \<Rightarrow> bool" where
  "has_path r \<longleftrightarrow> rr_old_path r \<noteq> None \<or> rr_new_path r \<noteq> None"

lemma path_names:
  assumes "has_path r"
  shows "old_name r = the (opt_else (rr_old_path r) (rr_new_path r))" "new_name r = the (opt_else (rr_new_path r) (rr_old_path r))"
  using assms by (auto simp: has_path_def old_name_def new_name_def opt_else_def split: option.splits)

lemma check_block_ok:
  assumes "check_block i r role block = Inr facts"
  shows "hd (block_lines block) = header_line (old_name r) (new_name r)"
    "wants_new r role \<Longrightarrow> mode_line ''new file mode '' (rr_new_mode r) \<in> set (block_lines block)"
    "wants_deleted r role \<Longrightarrow> mode_line ''deleted file mode '' (rr_old_mode r) \<in> set (block_lines block)"
    "move_keys (rr_kind r) = Some (from, to) \<Longrightarrow>
       path_label from (old_name r) \<in> set (block_lines block) \<and> path_label to (new_name r) \<in> set (block_lines block)"
    "\<lbrakk>role = Whole; \<not> wants_new r role; \<not> wants_deleted r role; rr_old_mode r \<noteq> rr_new_mode r\<rbrakk> \<Longrightarrow>
       mode_line ''old mode '' (rr_old_mode r) \<in> set (block_lines block)
       \<and> mode_line ''new mode '' (rr_new_mode r) \<in> set (block_lines block)"
proof -
  let ?ext = "takeWhile is_extended (tl (block_lines block))"
  have sub: "x \<in> set (block_lines block)" if "x \<in> set ?ext" for x
    using set_takeWhileD [OF that] by (cases "block_lines block") auto
  have a: "hd (block_lines block) = header_line (old_name r) (new_name r)"
    "wants_new r role \<Longrightarrow> mode_line ''new file mode '' (rr_new_mode r) \<in> set ?ext"
    "wants_deleted r role \<Longrightarrow> mode_line ''deleted file mode '' (rr_old_mode r) \<in> set ?ext"
    "move_keys (rr_kind r) = Some (from, to) \<Longrightarrow> path_label from (old_name r) \<in> set ?ext \<and> path_label to (new_name r) \<in> set ?ext"
    "\<lbrakk>role = Whole; \<not> wants_new r role; \<not> wants_deleted r role; rr_old_mode r \<noteq> rr_new_mode r\<rbrakk> \<Longrightarrow>
       mode_line ''old mode '' (rr_old_mode r) \<in> set ?ext \<and> mode_line ''new mode '' (rr_new_mode r) \<in> set ?ext"
    using assms by (simp_all add: check_block_def Let_def split: if_splits)
  show "hd (block_lines block) = header_line (old_name r) (new_name r)" by (rule a(1))
  show "wants_new r role \<Longrightarrow> mode_line ''new file mode '' (rr_new_mode r) \<in> set (block_lines block)" using a(2) sub by blast
  show "wants_deleted r role \<Longrightarrow> mode_line ''deleted file mode '' (rr_old_mode r) \<in> set (block_lines block)" using a(3) sub by blast
  show "move_keys (rr_kind r) = Some (from, to) \<Longrightarrow>
       path_label from (old_name r) \<in> set (block_lines block) \<and> path_label to (new_name r) \<in> set (block_lines block)"
    using a(4) sub by blast
  show "\<lbrakk>role = Whole; \<not> wants_new r role; \<not> wants_deleted r role; rr_old_mode r \<noteq> rr_new_mode r\<rbrakk> \<Longrightarrow>
       mode_line ''old mode '' (rr_old_mode r) \<in> set (block_lines block)
       \<and> mode_line ''new mode '' (rr_new_mode r) \<in> set (block_lines block)"
    using a(5) sub by blast
qed

lemma pair_loop_checked:
  "pair_loop i r patch ob nb bin rs = Inr out \<Longrightarrow> (role, block) \<in> set rs \<Longrightarrow>
     \<exists>facts. check_block i r role (slice block patch) = Inr facts"
  by (induction i r patch ob nb bin rs rule: pair_loop.induct) (auto simp: res_bind_Inr_iff split: prod.splits)

lemma pair_checked:
  assumes "pair i r patch blocks origin span = Inr c" "(role, block) \<in> set (zip (roles_of (rr_kind r)) blocks)"
  shows "\<exists>facts. check_block i r role (slice block patch) = Inr facts"
proof -
  obtain out where "pair_loop i r patch (known_oid (rr_old_oid r)) (known_oid (rr_new_oid r)) False
      (zip (roles_of (rr_kind r)) blocks) = Inr out"
    using assms(1) unfolding pair_def by (auto simp: res_bind_Inr_iff)
  then show ?thesis using pair_loop_checked assms(2) by blast
qed

lemma split_char_join: "split_char c (x @ c # y) = split_char c x @ split_char c y"
proof (induction x)
  case (Cons a x)
  then show ?case by (cases "split_char c x") auto
qed simp

lemma pair_attests_whole:
  assumes "pair i r patch [b] origin span = Inr c" "rr_kind r \<noteq> GkTypeChanged" "has_path r"
  shows "attests c (slice b patch)"
proof -
  obtain facts where "check_block i r Whole (slice b patch) = Inr facts"
    using pair_checked [OF assms(1), of Whole b] assms(2) by (auto simp: roles_of_def)
  note ok = check_block_ok [OF this] and f = pair_fields [OF assms(1)] and n = path_names [OF assms(3), symmetric]
  show ?thesis
    using ok(1-3,5) ok(4) [of "''rename from ''" "''rename to ''"] ok(4) [of "''copy from ''" "''copy to ''"] assms(2)
    unfolding attests_def Let_def f n block_lines_def
    by (cases "rr_kind r") (auto simp: wants_new_def wants_deleted_def move_keys_def)
qed

lemma mode_line_not_Nil: "key \<noteq> [] \<Longrightarrow> mode_line key m \<noteq> []"
  by (simp add: mode_line_def)

lemma pair_attests_type:
  assumes "pair i r patch [b1, b2] origin span = Inr c" "rr_kind r = GkTypeChanged" "has_path r" "slice b1 patch = x @ [LF]"
  shows "attests c (slice b1 patch @ slice b2 patch)"
proof -
  obtain f1 f2 where "check_block i r TypeDeletion (slice b1 patch) = Inr f1" and c2: "check_block i r TypeCreation (slice b2 patch) = Inr f2"
    using pair_checked [OF assms(1), of TypeDeletion b1] pair_checked [OF assms(1), of TypeCreation b2] assms(2)
    by (auto simp: roles_of_def)
  note d = check_block_ok [OF this(1)] and k = check_block_ok [OF c2] and f = pair_fields [OF assms(1)] and n = path_names [OF assms(3), symmetric]
  have l1: "block_lines (slice b1 patch) = split_char LF x @ [[]]"
    using split_char_join [of LF x "[]"] by (simp add: block_lines_def assms(4))
  have lines: "split_char LF (slice b1 patch @ slice b2 patch) = split_char LF x @ block_lines (slice b2 patch)"
    using split_char_join [of LF x] by (simp add: block_lines_def assms(4))
  have "hd (split_char LF x) = header_line (old_name r) (new_name r)"
    using d(1) l1 split_char_not_Nil [of LF x] by simp
  moreover have "mode_line ''deleted file mode '' (rr_old_mode r) \<in> set (split_char LF x)"
    using d(3) l1 mode_line_not_Nil [of "''deleted file mode ''"] assms(2) by (auto simp: wants_new_def wants_deleted_def)
  moreover have "mode_line ''new file mode '' (rr_new_mode r) \<in> set (block_lines (slice b2 patch))"
    using k(2) by (simp add: wants_new_def)
  ultimately show ?thesis
    unfolding attests_def Let_def f n lines using assms(2) split_char_not_Nil [of LF x] by simp
qed

lemma raw_record_has_path:
  assumes "raw_record out pos index = Inr (r, after)"
  shows "has_path r"
proof -
  obtain header mid r0 p1 n1 where f: "field_at out pos = Inr (header, mid)" "parse_header header pos index = Inr r0"
    "path_field out mid = Inr (p1, n1)"
    using assms by (auto simp: raw_record_def res_bind_Inr_iff)
  show ?thesis
    using assms f by (cases "rr_kind r0"; cases "path_field out n1") (auto simp: raw_record_def has_path_def)
qed

lemma raw_loop_has_path:
  "raw_loop out acc pos = Inr (rs, off) \<Longrightarrow> list_all has_path acc \<Longrightarrow> list_all has_path rs"
proof (induction out acc pos rule: raw_loop.induct)
  case (1 out acc pos)
  show ?case
  proof (cases "nth_get out pos = Some CHR '':''")
    case True
    then obtain r after where r: "raw_record out pos (length acc) = Inr (r, after)"
      using "1.prems"(1) by (subst (asm) raw_loop.simps) (auto split: sum.splits prod.splits)
    have "raw_loop out (acc @ [r]) after = Inr (rs, off)"
      using "1.prems"(1) True r by (subst (asm) raw_loop.simps) simp
    then show ?thesis using "1.IH" [OF True _ _ r] r raw_record_has_path [OF r] "1.prems"(2) by simp
  next
    case False
    then show ?thesis
      using 1(2,3) by (subst (asm) raw_loop.simps) (auto split: option.splits if_splits)
  qed
qed

lemma later_block_after_LF:
  assumes "(a, b) \<in> set (split_blocks patch)" "a \<noteq> 0"
  shows "patch ! (a - 1) = LF"
proof -
  have "a \<in> set (block_starts patch)" using assms(1) by (auto simp: split_blocks_zip dest: set_zip_leftD)
  then show ?thesis using assms(2) by (auto simp: block_starts_def)
qed

lemma slice_ends_LF:
  assumes "a < b" "b \<le> length patch" "patch ! (b - 1) = LF"
  shows "slice (a, b) patch = slice (a, b - 1) patch @ [LF]"
proof -
  have "b - a = Suc (b - 1 - a)" using assms(1) by simp
  then have "take (b - a) (drop a patch) = take (b - 1 - a) (drop a patch) @ [drop a patch ! (b - 1 - a)]"
    using assms(1,2) take_Suc_conv_app_nth [of "b - 1 - a" "drop a patch"] by simp
  then show ?thesis using assms by (simp add: slice_def)
qed

lemma pair_attests:
  assumes c: "pair i r patch (take (block_count (rr_kind r)) blocks) origin span = Inr c" and path: "has_path r"
    and t: "tiles a blocks b" and sub: "set blocks \<subseteq> set (split_blocks patch)" and b: "b \<le> length patch"
    and k: "block_count (rr_kind r) \<le> length blocks"
  shows "attests c (slice (a, snd (last (take (block_count (rr_kind r)) blocks))) patch)"
proof (cases "rr_kind r = GkTypeChanged")
  case False
  then obtain b1 bs where bs: "blocks = b1 # bs" using k by (cases blocks) (auto simp: block_count_def)
  have e: "take (block_count (rr_kind r)) blocks = [b1]" using False bs by (simp add: block_count_def)
  have "b1 = (a, snd b1)" using t bs by (cases b1) auto
  then show ?thesis using pair_attests_whole [OF c [unfolded e] False path] by (simp add: e)
next
  case True
  then obtain b1 b2 bs where bs: "blocks = b1 # b2 # bs"
    using k by (cases blocks; cases "tl blocks") (auto simp: block_count_def)
  have e: "take (block_count (rr_kind r)) blocks = [b1, b2]" using True bs by (simp add: block_count_def)
  have t1: "fst b1 = a" "a < snd b1" "fst b2 = snd b1" "snd b1 < snd b2" "tiles (snd b2) bs b" using t bs by auto
  then have le: "snd b2 \<le> length patch" using tiles_le b by fastforce
  have "patch ! (snd b1 - 1) = LF"
    using later_block_after_LF [of "fst b2" "snd b2" patch] sub bs t1 by (cases b2) auto
  then have "slice b1 patch = slice (a, snd b1 - 1) patch @ [LF]"
    using slice_ends_LF [of a "snd b1" patch] t1 le by (cases b1) auto
  then have "attests c (slice b1 patch @ slice b2 patch)" using pair_attests_type [OF c [unfolded e] True path] by blast
  moreover have "slice b1 patch @ slice b2 patch = slice (a, snd b2) patch"
    using slice_tiles [of a "[b1, b2]" "snd b2" patch] t1 le by simp
  ultimately show ?thesis by (simp add: e)
qed

definition attested_in :: "nat \<Rightarrow> string \<Rightarrow> GitChange \<Rightarrow> bool" where
  "attested_in base patch c \<longleftrightarrow>
     (\<exists>a b. gc_patch_range c = (base + a, base + b) \<and> a \<le> b \<and> b \<le> length patch \<and> attests c (slice (a, b) patch))"

lemma pair_all_attested:
  assumes "pair_all patch origin base index rs blocks = Inr cs" "tiles a blocks b"
    "sum_list (map (\<lambda>r. block_count (rr_kind r)) rs) = length blocks" "set blocks \<subseteq> set (split_blocks patch)" "b \<le> length patch"
    "list_all has_path rs"
  shows "list_all (attested_in base patch) cs"
  using assms
proof (induction rs arbitrary: index blocks cs a)
  case (Cons r rs)
  let ?k = "block_count (rr_kind r)"
  let ?owned = "take ?k blocks"
  obtain c cs' where c: "cs = c # cs'" "pair index r patch ?owned origin (base + fst (hd ?owned), base + snd (last ?owned)) = Inr c"
    "pair_all patch origin base (index + 1) rs (drop ?k blocks) = Inr cs'"
    using Cons.prems(1) by (auto simp: res_bind_Inr_iff Let_def)
  have k: "0 < ?k" "?k \<le> length blocks" using Cons.prems(3) by (auto simp: block_count_def)
  note g = tiles_group [OF Cons.prems(2) k]
  have "snd (last ?owned) \<le> b" using g tiles_le by blast
  moreover have "attests c (slice (a, snd (last ?owned)) patch)"
    using pair_attests [OF c(2) _ Cons.prems(2,4,5) k(2)] Cons.prems(6) by simp
  ultimately have "attested_in base patch c"
    unfolding attested_in_def using pair_fields(2) [OF c(2)] g Cons.prems(5) by (intro exI [of _ a] exI [of _ "snd (last ?owned)"]) simp
  moreover have "list_all (attested_in base patch) cs'"
    using Cons.IH [OF c(3), of "snd (last ?owned)"] g Cons.prems set_drop_subset [of ?k blocks] by auto
  ultimately show ?case using c(1) by simp
qed simp

subsection \<open>The diff after any sequence of streams\<close>

definition diff_ok :: "StructuredDiff \<Rightarrow> bool" where
  "diff_ok d \<longleftrightarrow> tiles 0 (map gc_patch_range (sd_changes d)) (length (sd_patch d))
     \<and> list_all (\<lambda>c. attests c (change_patch d c)) (sd_changes d)"

lemma change_patch_shift:
  assumes "attested_in (length pre) patch c"
  shows "attests c (change_patch \<lparr>sd_patch = pre @ patch, sd_changes = cs\<rparr> c)"
  using assms by (auto simp: attested_in_def change_patch_def slice_def)

lemma change_in_range:
  assumes "tiles 0 (map gc_patch_range (sd_changes d)) (length (sd_patch d))" "c \<in> set (sd_changes d)"
  shows "fst (gc_patch_range c) \<le> snd (gc_patch_range c)" "snd (gc_patch_range c) \<le> length (sd_patch d)"
proof -
  have "gc_patch_range c \<in> set (map gc_patch_range (sd_changes d))" using assms(2) by simp
  from tiles_bounds [OF assms(1) this]
  show "fst (gc_patch_range c) \<le> snd (gc_patch_range c)" "snd (gc_patch_range c) \<le> length (sd_patch d)" by simp_all
qed

lemma change_patch_extend:
  assumes "tiles 0 (map gc_patch_range (sd_changes d)) (length (sd_patch d))" "c \<in> set (sd_changes d)"
  shows "change_patch \<lparr>sd_patch = sd_patch d @ patch, sd_changes = cs\<rparr> c = change_patch d c"
  using change_in_range [OF assms] by (cases "gc_patch_range c") (auto simp: change_patch_def slice_def)

lemma append_stream_ok:
  assumes "diff_ok d"
  shows "diff_ok (fst (append_stream d out origin))"
proof (cases "\<exists>cs. snd (append_stream d out origin) = Inr cs")
  case False
  then have "fst (append_stream d out origin) = d"
    by (auto simp: append_stream_def Let_def split: sum.splits)
  then show ?thesis using assms by simp
next
  case True
  then obtain rs off cs where p: "parse_raw_section out = Inr (rs, off)"
    and first: "\<not> ((split_blocks (drop off out) \<noteq> [] \<and> fst (hd (split_blocks (drop off out))) \<noteq> 0) \<or> (split_blocks (drop off out) = [] \<and> drop off out \<noteq> []))"
    and count: "sum_list (map (\<lambda>r. block_count (rr_kind r)) rs) = length (split_blocks (drop off out))"
    and cs: "pair_all (drop off out) origin (length (sd_patch d)) 0 rs (split_blocks (drop off out)) = Inr cs"
    by (auto simp: append_stream_def Let_def split: sum.splits if_splits)
  have d': "fst (append_stream d out origin) = \<lparr>sd_patch = sd_patch d @ drop off out, sd_changes = sd_changes d @ cs\<rparr>"
    using p first count cs unfolding append_stream_def Let_def by auto
  note t = split_blocks_tile [OF first]
  have paths: "list_all has_path rs" using p raw_loop_has_path [of out "[]" 0 rs off] by (simp add: parse_raw_section_def)
  have new: "tiles (length (sd_patch d)) (map gc_patch_range cs) (length (sd_patch d) + length (drop off out))"
    using pair_all_tiles [OF cs t count] by simp
  have "list_all (attested_in (length (sd_patch d)) (drop off out)) cs"
    using pair_all_attested [OF cs t count _ _ paths] by simp
  then have "list_all (\<lambda>c. attests c (change_patch \<lparr>sd_patch = sd_patch d @ drop off out, sd_changes = sd_changes d @ cs\<rparr> c)) cs"
    using change_patch_shift by (simp add: list_all_iff)
  then show ?thesis
    using assms new change_patch_extend [of d] unfolding d' diff_ok_def
    by (auto simp: tiles_append list_all_iff)
qed

definition append_all :: "(string \<times> GitChangeOrigin) list \<Rightarrow> StructuredDiff" where
  "append_all streams = foldl (\<lambda>d (out, origin). fst (append_stream d out origin)) StructuredDiff_default streams"

lemma append_all_ok: "diff_ok (append_all streams)"
proof (induction streams rule: rev_induct)
  case Nil
  show ?case by (simp add: append_all_def StructuredDiff_default_def diff_ok_def)
next
  case (snoc x xs)
  then show ?case by (cases x) (simp add: append_all_def append_stream_ok)
qed

lemma change_patch_tiles:
  assumes "tiles 0 (map gc_patch_range (sd_changes d)) (length (sd_patch d))"
  shows "concat (map (change_patch d) (sd_changes d)) = sd_patch d"
proof -
  have "change_patch d c = slice (gc_patch_range c) (sd_patch d)" if "c \<in> set (sd_changes d)" for c
    using change_in_range [OF assms that] by (cases "gc_patch_range c") (auto simp: change_patch_def)
  then have "map (change_patch d) (sd_changes d) = map (\<lambda>r. slice r (sd_patch d)) (map gc_patch_range (sd_changes d))" by simp
  moreover have "slice (0, length (sd_patch d)) (sd_patch d) = sd_patch d" by (simp add: slice_def)
  ultimately show ?thesis using slice_tiles [OF assms, of "sd_patch d"] by (simp only: order_refl)
qed

subsection \<open>The review under the raw paths\<close>

definition utf8_path :: "GitChange \<Rightarrow> string option" where
  "utf8_path c = Option.bind (review_path c) GitPath_to_utf8"

lemma name_files_result:
  assumes "length slots = sum_list (map gc_block_count cs)"
  shows "case name_files i cs slots of
      Inl e \<Rightarrow> \<exists>k < length cs. e = NonUtf8Path (i + k) \<and> utf8_path (cs ! k) = None
    | Inr files \<Rightarrow> map (Some \<circ> rf_path) files = concat (map (\<lambda>c. replicate (gc_block_count c) (utf8_path c)) cs)
        \<and> map (rf_path_update (\<lambda>_. [])) files = map (rf_path_update (\<lambda>_. [])) slots"
  using assms
proof (induction cs arbitrary: i slots)
  case (Cons c cs)
  have len: "length (drop (gc_block_count c) slots) = sum_list (map gc_block_count cs)" "length (take (gc_block_count c) slots) = gc_block_count c"
    using Cons.prems by simp_all
  show ?case
  proof (cases "utf8_path c")
    case None
    then show ?thesis by (auto simp: utf8_path_def intro: exI [of _ 0])
  next
    case (Some path)
    have "map (\<lambda>x. Some path) (take (gc_block_count c) slots) = replicate (gc_block_count c) (Some path)"
      by (simp only: map_replicate_const len)
    moreover have "map (rf_path_update (\<lambda>_. [])) slots
        = map (rf_path_update (\<lambda>_. [])) (take (gc_block_count c) slots) @ map (rf_path_update (\<lambda>_. [])) (drop (gc_block_count c) slots)"
      by (simp only: map_append [symmetric] append_take_drop_id)
    ultimately have ok: "map (Some \<circ> rf_path) (map (rf_path_update (\<lambda>_. path)) (take (gc_block_count c) slots)) = replicate (gc_block_count c) (Some path)"
      "map (rf_path_update (\<lambda>_. [])) slots
        = map (rf_path_update (\<lambda>_. [])) (take (gc_block_count c) slots) @ map (rf_path_update (\<lambda>_. [])) (drop (gc_block_count c) slots)"
      by (simp_all add: comp_def)
    show ?thesis
    proof (cases "name_files (Suc i) cs (drop (gc_block_count c) slots)")
      case (Inl e)
      then obtain k where "k < length cs" "e = NonUtf8Path (Suc i + k)" "utf8_path (cs ! k) = None"
        using Cons.IH [OF len(1), of "Suc i"] by auto
      then show ?thesis using Inl Some by (auto simp: utf8_path_def intro!: exI [of _ "Suc k"])
    next
      case (Inr later)
      then show ?thesis using Cons.IH [OF len(1), of "Suc i"] Some ok by (auto simp: utf8_path_def)
    qed
  qed
qed simp

end
