(* ===== verification/Git_Claims.thy ===== *)
theory Git_Claims
  imports Git_Raw_Props
begin

text \<open>
  The properties of the structured Git stream, with a stream of one file whose mode changes.
\<close>

subsection \<open>A stream\<close>

definition sample_oid :: "char \<Rightarrow> string" where
  "sample_oid c = replicate 40 c"

definition sample_records :: "RawRecord list" where
  "sample_records =
     [\<lparr>rr_kind = GkModified, rr_score = None, rr_old_mode = 33188, rr_new_mode = 33261, rr_old_oid = sample_oid CHR ''a'',
       rr_new_oid = sample_oid CHR ''a'', rr_old_path = Some ''f'', rr_new_path = Some ''f''\<rparr>]"

definition sample_blocks :: string where
  "sample_blocks = unlines [''diff --git a/f b/f'', ''old mode 100644'', ''new mode 100755'']"

definition sample_stream :: string where
  "sample_stream = concat (map show_record sample_records) @ NUL # sample_blocks"

lemma sample_records_ok: "list_all record_ok sample_records"
  by code_simp

lemma sample_blocks_split: "split_blocks sample_blocks = [(0, 51)]"
  by code_simp

definition sample_change :: GitChange where
  "sample_change =
     \<lparr>gc_kind = GkModified, gc_score = None, gc_old_mode = Some 33188, gc_new_mode = Some 33261,
      gc_old_blob = Some (sample_oid CHR ''a''), gc_new_blob = Some (sample_oid CHR ''a''), gc_old_path = Some ''f'',
      gc_new_path = Some ''f'', gc_origin = Tracked, gc_binary = False, gc_patch_range = (0, 51), gc_block_count = 1\<rparr>"

lemma sample_pairs: "pair_all sample_blocks Tracked 0 0 sample_records [(0, 51)] = Inr [sample_change]"
  by code_simp

lemma sample_counts: "sum_list (map (\<lambda>r. block_count (rr_kind r)) sample_records) = 1"
  by (simp add: sample_records_def block_count_def)

text \<open>The stream is accepted, so the properties below are not about refused streams only.\<close>

lemma sample_stream_changes:
  "append_all [(sample_stream, Tracked)] = \<lparr>sd_patch = sample_blocks, sd_changes = [sample_change]\<rparr>"
proof -
  have raw: "parse_raw_section sample_stream = Inr (sample_records, length (concat (map show_record sample_records)) + 1)"
    using raw_loop_shown [OF sample_records_ok, of "[]" sample_blocks "[]"] by (simp add: parse_raw_section_def sample_stream_def)
  have drop: "drop (length (concat (map show_record sample_records)) + 1) sample_stream = sample_blocks"
    by (simp add: sample_stream_def)
  show ?thesis
    unfolding append_all_def append_stream_def raw drop sample_blocks_split sample_counts foldl_Cons foldl_Nil Let_def prod.case
      sum.case StructuredDiff_default_def
    by (simp add: drop sample_pairs)
qed

subsection \<open>The properties\<close>

text \<open>C14: whatever streams are appended, and whether each is accepted or refused, the changes of the structured diff
  own the whole patch and nothing twice: their byte ranges follow one another from the first byte to the last,
  none is empty, and their bytes put together are the patch.\<close>

theorem git_changes_tile_patch:
  "tiles 0 (map gc_patch_range (sd_changes (append_all streams))) (length (sd_patch (append_all streams)))
   \<and> concat (map (change_patch (append_all streams)) (sd_changes (append_all streams))) = sd_patch (append_all streams)"
  using append_all_ok [of streams] change_patch_tiles [of "append_all streams"] by (simp add: diff_ok_def)

text \<open>C15: no change is paired with a block of another: the text a change owns starts with the diff --git line of exactly
  its two paths, and carries the new file or deleted file line with the mode of the raw record, the quoted names of
  a rename or copy, and both modes when they differ.\<close>

theorem git_changes_attested:
  "list_all (\<lambda>c. attests c (change_patch (append_all streams) c)) (sd_changes (append_all streams))"
  using append_all_ok [of streams] by (simp add: diff_ok_def)

text \<open>C26: the raw section is read back exactly: the records of a well-formed section, in order and with their paths
  as bytes, and the offset at which the patch starts.\<close>

theorem raw_section_roundtrip:
  assumes "list_all record_ok rs"
  shows "parse_raw_section (concat (map show_record rs) @ NUL # patch) = Inr (rs, length (concat (map show_record rs)) + 1)"
  using raw_loop_shown [OF assms, of "[]" patch "[]"] by (simp add: parse_raw_section_def)

theorem raw_section_roundtrip_witness:
  "parse_raw_section sample_stream = Inr (sample_records, length (concat (map show_record sample_records)) + 1)"
  using raw_section_roundtrip [OF sample_records_ok, of sample_blocks] by (simp add: sample_stream_def)

text \<open>The quoting the pairing expects of Git is the quoting the parser reads: decoding a quoted path gives the
  prefix and the path back, for every UTF-8 path without a NUL byte.\<close>

theorem git_quote_decodes:
  assumes "utf8_valid (prefix @ path)" "NUL \<notin> set (prefix @ path)"
  shows "decode_path (git_quote prefix path) = Some (prefix @ path)"
  using assms by (rule decode_git_quote)

theorem git_quote_decodes_witness:
  "decode_path (git_quote ''b/'' [CHR ''h'', TAB, DQUOTE, CHR 0x7F]) = Some [CHR ''b'', CHR ''/'', CHR ''h'', TAB, DQUOTE, CHR 0x7F]"
proof -
  have "utf8_valid (''b/'' @ [CHR ''h'', TAB, DQUOTE, CHR 0x7F])" by code_simp
  then show ?thesis using git_quote_decodes [of "''b/''" "[CHR ''h'', TAB, DQUOTE, CHR 0x7F]"] by simp
qed

text \<open>The review names its files by the raw records: a review of a capture with one file for each block has the
  captured files in order, nothing but their paths changed, each named by the new path of its change (the old one
  of a deletion); it is refused only when the counts differ or a path is not UTF-8, and the error says which.\<close>

theorem git_review_names_raw_paths:
  "case review_files d captured of
     Inl e \<Rightarrow> (if length (cp_files captured) = diff_blocks d
                then \<exists>k < length (sd_changes d). e = NonUtf8Path k \<and> utf8_path (sd_changes d ! k) = None
                else e = ParsedFileCountMismatch (diff_blocks d) (length (cp_files captured)))
   | Inr files \<Rightarrow>
       length (cp_files captured) = diff_blocks d
       \<and> map (Some \<circ> rf_path) files = concat (map (\<lambda>c. replicate (gc_block_count c) (utf8_path c)) (sd_changes d))
       \<and> map (rf_path_update (\<lambda>_. [])) files = map (rf_path_update (\<lambda>_. [])) (cp_files captured)"
  using name_files_result [of "cp_files captured" "sd_changes d" 0]
  by (cases "length (cp_files captured) = diff_blocks d") (auto simp: review_files_def diff_blocks_def split: sum.splits)

end
