(* ===== verification/Runs.thy ===== *)
theory Runs
  imports Main
begin

text \<open>
  Runs of a component: a sequence of operations applied one after the other. The locale \<open>run_invariant\<close>
  lifts a property of the state and of the operations so far from the single steps to every run.
\<close>

locale run_invariant =
  fixes init :: 's
    and step :: "'s \<Rightarrow> 'op \<Rightarrow> 's"
    and inv :: "'op list \<Rightarrow> 's \<Rightarrow> bool"
  assumes inv_init: "inv [] init"
    and inv_step: "inv ops s \<Longrightarrow> inv (ops @ [op]) (step s op)"
begin

lemma inv_run: "inv ops (foldl step init ops)"
  by (induction ops rule: rev_induct) (simp_all add: inv_init inv_step)

end

end
