(* ===== verification/Annotations.thy ===== *)
theory Annotations
  imports Runs Hunk_Address Std_Text Core_Text
begin

text \<open>
  Annotations and the evidence they cite: the annotation records of \<open>core/lib.rs\<close> and
  \<open>src/crates/deep-diff-forge-agent/src/\<close> \<open>lib.rs\<close>, \<open>anchor.rs\<close>, \<open>store.rs\<close> and \<open>evidence.rs\<close>. A method on
  \<open>&mut self\<close> returns the new value beside its result; the \<open>BTreeMap\<close> of the registry is only read by key
  and is a map.
\<close>

datatype AnnotationAnchor = AaFile string | AaHunk string nat | AaSemanticSpan string nat

record AnnotationProvenance =
  ap_agent :: string
  ap_model :: "string option"
  ap_evidence :: "string list"

record AgentAnnotation =
  an_id :: string
  an_anchor :: AnnotationAnchor
  an_body :: string
  an_provenance :: AnnotationProvenance
  an_grounded :: bool

subsection \<open>Trust\<close>

definition MAX_BODY_LEN :: nat where
  "MAX_BODY_LEN = 4096"

datatype GroundingLevel = Grounded | PartiallyGrounded | Ungrounded

fun GroundingLevel_label :: "GroundingLevel \<Rightarrow> string" where
  "GroundingLevel_label Grounded = ''grounded''"
| "GroundingLevel_label PartiallyGrounded = ''partially_grounded''"
| "GroundingLevel_label Ungrounded = ''ungrounded''"

datatype AnnotationSource = AsHuman | AsAgent | AsSystem

fun AnnotationSource_label :: "AnnotationSource \<Rightarrow> string" where
  "AnnotationSource_label AsHuman = ''human''"
| "AnnotationSource_label AsAgent = ''agent''"
| "AnnotationSource_label AsSystem = ''system''"

definition grounding_of :: "AgentAnnotation \<Rightarrow> GroundingLevel" where
  "grounding_of a = (if ap_evidence (an_provenance a) = [] then Ungrounded else PartiallyGrounded)"

definition SYSTEM_AGENT_ID :: string where
  "SYSTEM_AGENT_ID = ''deep-diff-forge/system''"

definition source_of :: "AgentAnnotation \<Rightarrow> AnnotationSource" where
  "source_of a = (if ap_agent (an_provenance a) = SYSTEM_AGENT_ID then AsSystem else AsAgent)"

definition sanitize_body :: "string \<Rightarrow> string" where
  "sanitize_body raw =
     str_trim (concat (map utf8_encode (take MAX_BODY_LEN (filter (\<lambda>c. \<not> is_unsafe_in_untrusted_text c) (chars raw)))))"

subsection \<open>Anchors\<close>

fun anchor_path :: "AnnotationAnchor \<Rightarrow> string" where
  "anchor_path (AaFile path) = path"
| "anchor_path (AaHunk path hunk_id) = path"
| "anchor_path (AaSemanticSpan path span_id) = path"

definition validate_anchor :: "AnnotationAnchor \<Rightarrow> ReviewFile list \<Rightarrow> bool" where
  "validate_anchor anchor files \<longleftrightarrow>
     list_ex (\<lambda>f. case anchor of
         AaFile path \<Rightarrow> True
       | AaHunk path hunk_id \<Rightarrow> list_ex (\<lambda>h. ph_id h = hunk_id) (pt_hunks (rf_patch_twin f))
       | AaSemanticSpan path span_id \<Rightarrow>
           opt_is_some_and (\<lambda>t. list_ex (\<lambda>s. ss_id s = span_id) (st_spans t)) (rf_semantic_twin f))
       (filter (\<lambda>f. rf_path f = anchor_path anchor) files)"

subsection \<open>The annotation store\<close>

record AnnotationStore =
  as_annotations :: "AgentAnnotation list"
  as_resolved :: "string list"

definition AnnotationStore_new :: AnnotationStore where
  "AnnotationStore_new = \<lparr>as_annotations = [], as_resolved = []\<rparr>"

definition store_add :: "AnnotationStore \<Rightarrow> AgentAnnotation \<Rightarrow> AnnotationStore \<times> bool" where
  "store_add st a =
     (if an_id a = [] \<or> list_ex (\<lambda>b. an_id b = an_id a) (as_annotations st) then (st, False)
      else (st\<lparr>as_annotations := as_annotations st @ [a]\<rparr>, True))"

definition downgrade :: "AgentAnnotation \<Rightarrow> AgentAnnotation" where
  "downgrade a =
     (let p = an_provenance a in
      a\<lparr>an_provenance := (if ap_agent p = SYSTEM_AGENT_ID then p\<lparr>ap_agent := []\<rparr> else p),
        an_grounded := False, an_body := sanitize_body (an_body a)\<rparr>)"

definition add_untrusted :: "AnnotationStore \<Rightarrow> AgentAnnotation \<Rightarrow> AnnotationStore \<times> bool" where
  "add_untrusted st a = store_add st (downgrade a)"

definition is_resolved :: "AnnotationStore \<Rightarrow> string \<Rightarrow> bool" where
  "is_resolved st i \<longleftrightarrow> list_ex (\<lambda>r. r = i) (as_resolved st)"

definition store_resolve :: "AnnotationStore \<Rightarrow> string \<Rightarrow> AnnotationStore \<times> bool" where
  "store_resolve st i =
     (if \<not> list_ex (\<lambda>a. an_id a = i) (as_annotations st) \<or> is_resolved st i then (st, False)
      else (st\<lparr>as_resolved := as_resolved st @ [i]\<rparr>, True))"

definition unresolved :: "AnnotationStore \<Rightarrow> AgentAnnotation list" where
  "unresolved st = filter (\<lambda>a. \<not> is_resolved st (an_id a)) (as_annotations st)"

definition by_grounding :: "AnnotationStore \<Rightarrow> GroundingLevel \<Rightarrow> AgentAnnotation list" where
  "by_grounding st level = filter (\<lambda>a. grounding_of a = level) (as_annotations st)"

definition by_source :: "AnnotationStore \<Rightarrow> AnnotationSource \<Rightarrow> AgentAnnotation list" where
  "by_source st src = filter (\<lambda>a. source_of a = src) (as_annotations st)"

subsection \<open>The evidence registry\<close>

type_synonym ReviewRevision = string

definition is_lower_hex :: "char \<Rightarrow> bool" where
  "is_lower_hex b \<longleftrightarrow> is_ascii_digit b \<or> (97 \<le> byte b \<and> byte b \<le> 102)"

definition from_patch :: "string \<Rightarrow> ReviewRevision" where
  "from_patch bytes = sha256_hex bytes"

definition from_review_id :: "string \<Rightarrow> ReviewRevision option" where
  "from_review_id i = (if length i = 64 \<and> list_all is_lower_hex i then Some i else None)"

record BoundAnchor =
  ba_revision :: ReviewRevision
  ba_anchor :: AnnotationAnchor

definition BoundAnchor_validates :: "BoundAnchor \<Rightarrow> ReviewRevision \<Rightarrow> ReviewFile list \<Rightarrow> bool" where
  "BoundAnchor_validates b current files \<longleftrightarrow> ba_revision b = current \<and> validate_anchor (ba_anchor b) files"

datatype EvidenceState = EvMissing | EvLinked | EvSupported string string | EvContradicted string string | EvStale

record Artifact =
  af_digest :: string
  af_revision :: ReviewRevision
  af_state :: EvidenceState

type_synonym EvidenceRegistry = "string \<rightharpoonup> Artifact"

definition registry_capture :: "EvidenceRegistry \<Rightarrow> string \<Rightarrow> ReviewRevision \<Rightarrow> string \<Rightarrow> EvidenceRegistry \<times> bool" where
  "registry_capture r i revision bytes =
     (if i = [] \<or> r i \<noteq> None then (r, False)
      else (r(i \<mapsto> \<lparr>af_digest = sha256_hex bytes, af_revision = revision, af_state = EvLinked\<rparr>), True))"

definition registry_matches :: "EvidenceRegistry \<Rightarrow> string \<Rightarrow> string \<Rightarrow> bool" where
  "registry_matches r i bytes \<longleftrightarrow> opt_is_some_and (\<lambda>a. af_digest a = sha256_hex bytes) (r i)"

definition registry_assess :: "EvidenceRegistry \<Rightarrow> string \<Rightarrow> ReviewRevision \<Rightarrow> string \<Rightarrow> string \<Rightarrow> bool \<Rightarrow> EvidenceRegistry \<times> bool" where
  "registry_assess r i current evaluator rationale supports =
     (case r i of
        None \<Rightarrow> (r, False)
      | Some a \<Rightarrow>
          if af_revision a \<noteq> current \<or> str_trim evaluator = [] \<or> str_trim rationale = [] then (r, False)
          else (r(i \<mapsto> a\<lparr>af_state := (if supports then EvSupported evaluator rationale else EvContradicted evaluator rationale)\<rparr>), True))"

definition registry_state :: "EvidenceRegistry \<Rightarrow> string \<Rightarrow> ReviewRevision \<Rightarrow> EvidenceState" where
  "registry_state r i current =
     (case r i of None \<Rightarrow> EvMissing | Some a \<Rightarrow> if af_revision a = current then af_state a else EvStale)"

definition registry_inspect :: "EvidenceRegistry \<Rightarrow> AgentAnnotation \<Rightarrow> ReviewRevision \<Rightarrow> EvidenceState list" where
  "registry_inspect r annotation current = map (\<lambda>i. registry_state r i current) (ap_evidence (an_provenance annotation))"

subsection \<open>Sanitised text\<close>

lemma trim_start_chars: "set (chars (trim_start s)) \<subseteq> set (chars s) \<and> length (chars (trim_start s)) \<le> length (chars s)"
proof (induction s rule: trim_start.induct)
  case (1 s)
  show ?case
  proof (cases "s \<noteq> [] \<and> fst (utf8_head s) \<and> is_whitespace (utf8_code (take (snd (utf8_head s)) s))")
    case True
    then have "trim_start s = trim_start (drop (snd (utf8_head s)) s)" by (subst trim_start.simps) simp
    moreover have "chars s = utf8_code (take (snd (utf8_head s)) s) # chars (drop (snd (utf8_head s)) s)"
      using True by (subst chars.simps) simp
    ultimately show ?thesis using 1 True by auto
  next
    case False
    then have "trim_start s = s" by (subst trim_start.simps) auto
    then show ?thesis by simp
  qed
qed

lemma chars_encode_all: "\<forall>c\<in>set cs. is_scalar c \<Longrightarrow> chars (concat (map utf8_encode cs)) = cs"
proof (induction cs)
  case (Cons c cs)
  then show ?case using encode_single [of c] by (simp add: chars_append)
qed simp

lemma str_trim_chars: "set (chars (str_trim s)) \<subseteq> set (chars s) \<and> length (chars (str_trim s)) \<le> length (chars s)"
proof -
  let ?cs = "rev (dropWhile is_whitespace (rev (chars (trim_start s))))"
  have sub: "set ?cs \<subseteq> set (chars (trim_start s))" using set_dropWhileD by fastforce
  then have "chars (str_trim s) = ?cs"
    using chars_encode_all [of ?cs] chars_scalar [of "trim_start s"] by (auto simp: str_trim_def trim_end_def)
  moreover have "length ?cs \<le> length (chars (trim_start s))" using length_dropWhile_le [of is_whitespace "rev (chars (trim_start s))"] by simp
  ultimately show ?thesis using sub trim_start_chars [of s] by auto
qed

text \<open>Nothing unsafe is left in a sanitised body, and it is at most the longest body allowed.\<close>

lemma sanitize_body_safe:
  "(\<forall>c\<in>set (chars (sanitize_body raw)). \<not> is_unsafe_in_untrusted_text c) \<and> length (chars (sanitize_body raw)) \<le> MAX_BODY_LEN"
proof -
  let ?cs = "take MAX_BODY_LEN (filter (\<lambda>c. \<not> is_unsafe_in_untrusted_text c) (chars raw))"
  have "set ?cs \<subseteq> {c \<in> set (chars raw). \<not> is_unsafe_in_untrusted_text c}" using set_take_subset by fastforce
  moreover have "chars (concat (map utf8_encode ?cs)) = ?cs"
    using calculation chars_scalar [of raw] by (intro chars_encode_all) blast
  ultimately show ?thesis
    using str_trim_chars [of "concat (map utf8_encode ?cs)"] by (auto simp: sanitize_body_def)
qed

subsection \<open>Runs of the store\<close>

datatype StoreOp = OpAdd AgentAnnotation | OpAddUntrusted AgentAnnotation | OpResolve string

fun store_op :: "AnnotationStore \<Rightarrow> StoreOp \<Rightarrow> AnnotationStore" where
  "store_op st (OpAdd a) = fst (store_add st a)"
| "store_op st (OpAddUntrusted a) = fst (add_untrusted st a)"
| "store_op st (OpResolve i) = fst (store_resolve st i)"

definition store_inv :: "StoreOp list \<Rightarrow> AnnotationStore \<Rightarrow> bool" where
  "store_inv ops st \<longleftrightarrow>
     distinct (map an_id (as_annotations st)) \<and> [] \<notin> an_id ` set (as_annotations st)
     \<and> distinct (as_resolved st) \<and> set (as_resolved st) \<subseteq> an_id ` set (as_annotations st) \<inter> {i. OpResolve i \<in> set ops}
     \<and> set (as_annotations st) \<subseteq> {a. OpAdd a \<in> set ops} \<union> downgrade ` {a. OpAddUntrusted a \<in> set ops}"

lemma store_add_inv:
  assumes "store_inv ops st" "OpAdd a \<in> set ops' \<or> a \<in> downgrade ` {b. OpAddUntrusted b \<in> set ops'}" "set ops \<subseteq> set ops'"
  shows "store_inv ops' (fst (store_add st a))"
proof (cases "an_id a = [] \<or> list_ex (\<lambda>b. an_id b = an_id a) (as_annotations st)")
  case True
  then have "fst (store_add st a) = st" by (simp add: store_add_def)
  then show ?thesis using assms(1,3) unfolding store_inv_def by (auto 0 3)
next
  case False
  then have "fst (store_add st a) = st\<lparr>as_annotations := as_annotations st @ [a]\<rparr>" "an_id a \<notin> an_id ` set (as_annotations st)" "an_id a \<noteq> []"
    by (auto simp: store_add_def list_ex_iff)
  then show ?thesis using assms unfolding store_inv_def by (auto 0 3)
qed

lemma store_op_inv:
  assumes "store_inv ops st"
  shows "store_inv (ops @ [op]) (store_op st op)"
proof (cases op)
  case (OpAdd a)
  then show ?thesis using store_add_inv [OF assms, of a "ops @ [op]"] by auto
next
  case (OpAddUntrusted a)
  then show ?thesis using store_add_inv [OF assms, of "downgrade a" "ops @ [op]"] by (auto simp: add_untrusted_def)
next
  case (OpResolve i)
  then show ?thesis using assms by (auto 0 3 simp: store_inv_def store_resolve_def is_resolved_def list_ex_iff)
qed

interpretation annotation_store: run_invariant AnnotationStore_new store_op store_inv
  by unfold_locales (simp_all add: store_op_inv, simp add: store_inv_def AnnotationStore_new_def)

lemma downgraded: "source_of (downgrade a) = AsAgent \<and> \<not> an_grounded (downgrade a) \<and> an_body (downgrade a) = sanitize_body (an_body a)"
  by (simp add: downgrade_def source_of_def Let_def SYSTEM_AGENT_ID_def)

subsection \<open>Runs of the registry\<close>

datatype RegistryOp = OpCapture string ReviewRevision string | OpAssess string ReviewRevision string string bool

fun registry_op :: "EvidenceRegistry \<Rightarrow> RegistryOp \<Rightarrow> EvidenceRegistry" where
  "registry_op r (OpCapture i revision bytes) = fst (registry_capture r i revision bytes)"
| "registry_op r (OpAssess i current evaluator rationale supports) = fst (registry_assess r i current evaluator rationale supports)"

definition judged :: "RegistryOp list \<Rightarrow> string \<Rightarrow> Artifact \<Rightarrow> bool" where
  "judged ops i a \<longleftrightarrow>
     (case af_state a of
        EvLinked \<Rightarrow> True
      | EvSupported e w \<Rightarrow> OpAssess i (af_revision a) e w True \<in> set ops \<and> str_trim e \<noteq> [] \<and> str_trim w \<noteq> []
      | EvContradicted e w \<Rightarrow> OpAssess i (af_revision a) e w False \<in> set ops \<and> str_trim e \<noteq> [] \<and> str_trim w \<noteq> []
      | _ \<Rightarrow> False)"

definition registry_inv :: "RegistryOp list \<Rightarrow> EvidenceRegistry \<Rightarrow> bool" where
  "registry_inv ops r \<longleftrightarrow>
     (\<forall>i a. r i = Some a \<longrightarrow>
        i \<noteq> [] \<and> judged ops i a \<and> (\<exists>bytes. OpCapture i (af_revision a) bytes \<in> set ops \<and> af_digest a = sha256_hex bytes))"

lemma registry_op_inv:
  assumes "registry_inv ops r"
  shows "registry_inv (ops @ [op]) (registry_op r op)"
proof -
  have keep: "judged (ops @ [op]) i a" if "judged ops i a" for i a
    using that by (auto simp: judged_def split: EvidenceState.splits)
  show ?thesis
  proof (cases op)
    case (OpCapture i revision bytes)
    then show ?thesis
      using assms keep unfolding registry_inv_def
      by (auto simp: registry_capture_def judged_def split: if_splits) blast+
  next
    case (OpAssess i current e w supports)
    then show ?thesis
      using assms keep unfolding registry_inv_def
      by (auto simp: registry_assess_def judged_def split: option.splits if_splits)
  qed
qed

interpretation evidence_registry: run_invariant Map.empty registry_op registry_inv
  by unfold_locales (simp_all add: registry_op_inv, simp add: registry_inv_def)

end
