(* ===== verification/Findings.thy ===== *)
theory Findings
  imports Annotations
begin

text \<open>
  Verified agent findings: \<open>src/crates/deep-diff-forge-agent/src/findings.rs\<close>. The JSON reader is serde's and a
  parameter \<open>rd\<close>; \<open>Value\<close> is its document type, with the unsigned value of a number where it has one
  (\<open>as_u64\<close>). The hash map of hunk addresses is a map, filled in review order.
\<close>

datatype Value = VNull | VBool bool | VNumber "nat option" | VString string | VArray "Value list" | VObject "(string \<times> Value) list"

type_synonym reader = "string \<Rightarrow> Value option"

definition FINDING_SCHEMA :: string where
  "FINDING_SCHEMA = ''deep-diff-forge.finding.v0''"

definition MAX_FINDINGS :: nat where
  "MAX_FINDINGS = 10000"

definition MAX_TITLE_CHARS :: nat where
  "MAX_TITLE_CHARS = 200"

definition MAX_FINDING_BODY_CHARS :: nat where
  "MAX_FINDING_BODY_CHARS = MAX_BODY_LEN"

definition MAX_EVIDENCE_ITEMS :: nat where
  "MAX_EVIDENCE_ITEMS = 16"

definition MAX_EVIDENCE_CHARS :: nat where
  "MAX_EVIDENCE_CHARS = 500"

definition LINE_TEXT_BYTES :: nat where
  "LINE_TEXT_BYTES = 200"

definition EXCERPT_BYTES :: nat where
  "EXCERPT_BYTES = 120"

definition FIELDS :: "string list" where
  "FIELDS = [''agent'', ''severity'', ''title'', ''body'', ''address'', ''path'', ''side'', ''line'', ''review'', ''id'',
     ''model'', ''evidence'', ''schema'']"

datatype FindingSeverity = SvInfo | SvLow | SvMedium | SvHigh | SvCritical

definition FindingSeverity_ALL :: "FindingSeverity list" where
  "FindingSeverity_ALL = [SvInfo, SvLow, SvMedium, SvHigh, SvCritical]"

fun FindingSeverity_label :: "FindingSeverity \<Rightarrow> string" where
  "FindingSeverity_label SvInfo = ''info''"
| "FindingSeverity_label SvLow = ''low''"
| "FindingSeverity_label SvMedium = ''medium''"
| "FindingSeverity_label SvHigh = ''high''"
| "FindingSeverity_label SvCritical = ''critical''"

definition FindingSeverity_parse :: "string \<Rightarrow> FindingSeverity option" where
  "FindingSeverity_parse s = List.find (\<lambda>v. FindingSeverity_label v = s) FindingSeverity_ALL"

datatype Refusal = Malformed | StaleReview | UnknownPath | UnknownAddress | LineOutsideHunk | Duplicate | TooLong

fun Refusal_label :: "Refusal \<Rightarrow> string" where
  "Refusal_label Malformed = ''malformed''"
| "Refusal_label StaleReview = ''stale_review''"
| "Refusal_label UnknownPath = ''unknown_path''"
| "Refusal_label UnknownAddress = ''unknown_address''"
| "Refusal_label LineOutsideHunk = ''line_outside_hunk''"
| "Refusal_label Duplicate = ''duplicate''"
| "Refusal_label TooLong = ''too_long''"

datatype FindingSide = FsNew | FsOld

fun FindingSide_label :: "FindingSide \<Rightarrow> string" where
  "FindingSide_label FsNew = ''new''"
| "FindingSide_label FsOld = ''old''"

datatype AnchorKind = AkAddress | AkLine | AkFile

fun AnchorKind_label :: "AnchorKind \<Rightarrow> string" where
  "AnchorKind_label AkAddress = ''address''"
| "AnchorKind_label AkLine = ''line''"
| "AnchorKind_label AkFile = ''file''"

record AcceptedLine =
  al_side :: FindingSide
  al_number :: nat
  al_kind :: string
  al_text :: string

record Accepted =
  ac_index :: nat
  ac_agent :: string
  ac_model :: "string option"
  ac_id :: "string option"
  ac_severity :: FindingSeverity
  ac_title :: string
  ac_body :: string
  ac_path :: string
  ac_anchor :: AnchorKind
  ac_address :: "string option"
  ac_line :: "AcceptedLine option"
  ac_evidence :: "string list"

record Refused =
  re_index :: nat
  re_reason :: Refusal
  re_excerpt :: string

record Verdict =
  vd_accepted :: "Accepted list"
  vd_refused :: "Refused list"
  vd_over_limit :: nat

definition Verdict_total :: "Verdict \<Rightarrow> nat" where
  "Verdict_total v = length (vd_accepted v) + length (vd_refused v) + vd_over_limit v"

subsection \<open>Where a finding points\<close>

definition string_field :: "(string \<times> Value) list \<Rightarrow> string \<Rightarrow> Refusal + string option" where
  "string_field object key =
     (case map_of object key of None \<Rightarrow> Inr None | Some (VString s) \<Rightarrow> Inr (Some s) | Some _ \<Rightarrow> Inl Malformed)"

definition required_field :: "(string \<times> Value) list \<Rightarrow> string \<Rightarrow> Refusal + string" where
  "required_field object key = res_bind (string_field object key) (ok_or Malformed)"

definition line_of_side :: "FindingSide \<Rightarrow> PatchLine \<Rightarrow> nat option" where
  "line_of_side side l = (case side of FsNew \<Rightarrow> pl_new_line l | FsOld \<Rightarrow> pl_old_line l)"

fun line_kind_name :: "PatchLineKind \<Rightarrow> string" where
  "line_kind_name LkAdded = ''added''"
| "line_kind_name LkRemoved = ''removed''"
| "line_kind_name LkContext = ''context''"

definition line_in :: "PatchHunk \<Rightarrow> FindingSide \<Rightarrow> nat \<Rightarrow> AcceptedLine option" where
  "line_in hunk side number =
     map_option (\<lambda>l. \<lparr>al_side = side, al_number = number, al_kind = line_kind_name (pl_kind l),
                      al_text = display_safe_bounded (pl_text l) LINE_TEXT_BYTES\<rparr>)
       (List.find (\<lambda>l. line_of_side side l = Some number) (ph_lines hunk))"

text \<open>\<open>entry(..).or_insert(..)\<close>: a key keeps the first value given to it.\<close>

definition or_insert :: "('k \<rightharpoonup> 'v) \<Rightarrow> 'k \<times> 'v \<Rightarrow> ('k \<rightharpoonup> 'v)" where
  "or_insert m kv = (if m (fst kv) = None then m(fst kv \<mapsto> snd kv) else m)"

definition address_entries :: "ReviewFile list \<Rightarrow> (string \<times> nat \<times> nat) list" where
  "address_entries files =
     concat (map (\<lambda>(f, file). map (\<lambda>(h, hunk). (PatchHunk_address hunk (rf_path file), f, h)) (enumerate 0 (pt_hunks (rf_patch_twin file))))
       (enumerate 0 files))"

definition by_address :: "ReviewFile list \<Rightarrow> string \<rightharpoonup> nat \<times> nat" where
  "by_address files = foldl or_insert Map.empty (address_entries files)"

definition Addresses_find :: "ReviewFile list \<Rightarrow> string \<Rightarrow> (ReviewFile \<times> PatchHunk) option" where
  "Addresses_find files address =
     map_option (\<lambda>(f, h). (files ! f, pt_hunks (rf_patch_twin (files ! f)) ! h)) (by_address files address)"

definition resolve_finding :: "ReviewFile list \<Rightarrow> string option \<Rightarrow> string option \<Rightarrow> nat option \<Rightarrow> FindingSide
    \<Rightarrow> Refusal + (ReviewFile \<times> AnchorKind \<times> PatchHunk option)" where
  "resolve_finding files path address line side =
     (case address of
        Some address \<Rightarrow>
          (case Addresses_find files address of
             Some (file, hunk) \<Rightarrow> if opt_is_none_or (\<lambda>p. p = rf_path file) path then Inr (file, AkAddress, Some hunk) else Inl UnknownAddress
           | None \<Rightarrow> Inl UnknownAddress)
      | None \<Rightarrow>
          (case path of
             None \<Rightarrow> Inl Malformed
           | Some path \<Rightarrow>
               (case filter (\<lambda>f. rf_path f = path) files of
                  [] \<Rightarrow> Inl UnknownPath
                | first # rest \<Rightarrow>
                    (case line of
                       None \<Rightarrow> Inr (first, AkFile, None)
                     | Some number \<Rightarrow>
                         ok_or LineOutsideHunk
                           (find_map (\<lambda>file. map_option (\<lambda>h. (file, AkLine, Some h))
                              (List.find (\<lambda>h. line_in h side number \<noteq> None) (pt_hunks (rf_patch_twin file)))) (first # rest))))))"

subsection \<open>One finding\<close>

definition read_side :: "(string \<times> Value) list \<Rightarrow> Refusal + FindingSide" where
  "read_side object =
     res_bind (string_field object ''side'') (\<lambda>s.
     case s of None \<Rightarrow> Inr FsNew
     | Some t \<Rightarrow> if t = ''new'' then Inr FsNew else if t = ''old'' then Inr FsOld else Inl Malformed)"

definition read_line :: "(string \<times> Value) list \<Rightarrow> Refusal + nat option" where
  "read_line object =
     (case map_of object ''line'' of
        None \<Rightarrow> Inr None
      | Some (VNumber (Some n)) \<Rightarrow> if n \<le> u32_max \<and> 0 < n then Inr (Some n) else Inl Malformed
      | Some _ \<Rightarrow> Inl Malformed)"

fun read_strings :: "Value list \<Rightarrow> Refusal + string list" where
  "read_strings [] = Inr []"
| "read_strings (v # vs) =
     (case v of VString s \<Rightarrow> res_bind (read_strings vs) (\<lambda>ss. Inr (s # ss)) | _ \<Rightarrow> Inl Malformed)"

definition read_evidence :: "(string \<times> Value) list \<Rightarrow> Refusal + string list" where
  "read_evidence object =
     (case map_of object ''evidence'' of None \<Rightarrow> Inr [] | Some (VArray items) \<Rightarrow> read_strings items | Some _ \<Rightarrow> Inl Malformed)"

definition too_long :: "string \<Rightarrow> string \<Rightarrow> string list \<Rightarrow> bool" where
  "too_long title body evidence \<longleftrightarrow>
     length (chars title) > MAX_TITLE_CHARS \<or> length (chars body) > MAX_FINDING_BODY_CHARS
     \<or> length evidence > MAX_EVIDENCE_ITEMS \<or> list_ex (\<lambda>e. length (chars e) > MAX_EVIDENCE_CHARS) evidence"

text \<open>The fields \<open>check\<close> reads, in its order; then \<open>check\<close> itself, which places them.\<close>

record Fields =
  fl_agent :: string
  fl_severity :: FindingSeverity
  fl_title :: string
  fl_body :: string
  fl_side :: FindingSide
  fl_line :: "nat option"
  fl_evidence :: "string list"
  fl_address :: "string option"
  fl_path :: "string option"
  fl_model :: "string option"
  fl_id :: "string option"
  fl_review :: "string option"

definition read_fields :: "(string \<times> Value) list \<Rightarrow> Refusal + Fields" where
  "read_fields object =
     (if list_ex (\<lambda>k. k \<notin> set FIELDS) (map fst object) then Inl Malformed
      else
        res_bind (string_field object ''schema'') (\<lambda>schema.
        if opt_is_some_and (\<lambda>s. s \<noteq> FINDING_SCHEMA) schema then Inl Malformed
        else
          res_bind (required_field object ''agent'') (\<lambda>agent.
          res_bind (required_field object ''severity'') (\<lambda>label.
          res_bind (ok_or Malformed (FindingSeverity_parse label)) (\<lambda>severity.
          res_bind (required_field object ''title'') (\<lambda>title.
          res_bind (required_field object ''body'') (\<lambda>body.
          res_bind (read_side object) (\<lambda>side.
          res_bind (read_line object) (\<lambda>line.
          res_bind (read_evidence object) (\<lambda>evidence.
          res_bind (string_field object ''address'') (\<lambda>address.
          res_bind (string_field object ''path'') (\<lambda>path.
          res_bind (string_field object ''model'') (\<lambda>model.
          res_bind (string_field object ''id'') (\<lambda>i.
          if str_trim agent = [] \<or> (address = None \<and> path = None) then Inl Malformed
          else
            res_bind (string_field object ''review'') (\<lambda>review.
            Inr \<lparr>fl_agent = agent, fl_severity = severity, fl_title = title, fl_body = body, fl_side = side, fl_line = line,
                 fl_evidence = evidence, fl_address = address, fl_path = path, fl_model = model, fl_id = i, fl_review = review\<rparr>)))))))))))))))"

definition accept :: "Fields \<Rightarrow> nat \<Rightarrow> ReviewFile \<Rightarrow> AnchorKind \<Rightarrow> PatchHunk option \<Rightarrow> AcceptedLine option \<Rightarrow> Accepted" where
  "accept x index file anchor hunk line =
     \<lparr>ac_index = index, ac_agent = sanitize_body (fl_agent x), ac_model = map_option sanitize_body (fl_model x),
      ac_id = map_option sanitize_body (fl_id x), ac_severity = fl_severity x, ac_title = sanitize_body (fl_title x),
      ac_body = sanitize_body (fl_body x), ac_path = rf_path file, ac_anchor = anchor,
      ac_address = map_option (\<lambda>h. PatchHunk_address h (rf_path file)) hunk, ac_line = line,
      ac_evidence = map sanitize_body (fl_evidence x)\<rparr>"

definition placed_line :: "Fields \<Rightarrow> PatchHunk option \<Rightarrow> Refusal + AcceptedLine option" where
  "placed_line x hunk =
     (case (fl_line x, hunk) of
        (Some number, Some h) \<Rightarrow> map_sum id Some (ok_or LineOutsideHunk (line_in h (fl_side x) number))
      | (Some number, None) \<Rightarrow> Inl LineOutsideHunk
      | (None, _) \<Rightarrow> Inr None)"

definition check_finding :: "reader \<Rightarrow> ReviewFile list \<Rightarrow> string \<Rightarrow> string \<Rightarrow> nat \<Rightarrow> Refusal + Accepted" where
  "check_finding rd files input_sha256 raw index =
     (case rd raw of
        Some (VObject object) \<Rightarrow>
          res_bind (read_fields object) (\<lambda>x.
          if opt_is_some_and (\<lambda>r. r \<noteq> input_sha256) (fl_review x) then Inl StaleReview
          else if too_long (fl_title x) (fl_body x) (fl_evidence x) then Inl TooLong
          else
            res_bind (resolve_finding files (fl_path x) (fl_address x) (fl_line x) (fl_side x)) (\<lambda>(file, anchor, hunk).
            res_bind (placed_line x hunk) (\<lambda>line.
            Inr (accept x index file anchor hunk line))))
      | _ \<Rightarrow> Inl Malformed)"

subsection \<open>All findings\<close>

type_synonym DuplicateKey = "string \<times> string \<times> string \<times> string option \<times> (FindingSide \<times> nat) option"

definition DuplicateKey_of :: "Accepted \<Rightarrow> DuplicateKey" where
  "DuplicateKey_of a = (ac_agent a, ac_title a, ac_path a, ac_address a, map_option (\<lambda>l. (al_side l, al_number l)) (ac_line a))"

fun verify_loop :: "reader \<Rightarrow> ReviewFile list \<Rightarrow> string \<Rightarrow> string list \<Rightarrow> nat \<Rightarrow> DuplicateKey list \<Rightarrow> Verdict \<Rightarrow> Verdict" where
  "verify_loop rd files sha [] index known verdict = verdict"
| "verify_loop rd files sha (raw # findings) index known verdict =
     (if str_trim raw = [] then verify_loop rd files sha findings index known verdict
      else if MAX_FINDINGS \<le> index
      then verify_loop rd files sha findings index known (verdict\<lparr>vd_over_limit := vd_over_limit verdict + 1\<rparr>)
      else
        (let refuse = (\<lambda>reason. verdict\<lparr>vd_refused := vd_refused verdict
               @ [\<lparr>re_index = index, re_reason = reason, re_excerpt = display_safe_bounded raw EXCERPT_BYTES\<rparr>]\<rparr>) in
         case check_finding rd files sha raw index of
           Inl reason \<Rightarrow> verify_loop rd files sha findings (index + 1) known (refuse reason)
         | Inr found \<Rightarrow>
             if DuplicateKey_of found \<in> set known
             then verify_loop rd files sha findings (index + 1) known (refuse Duplicate)
             else verify_loop rd files sha findings (index + 1) (known @ [DuplicateKey_of found])
                    (verdict\<lparr>vd_accepted := vd_accepted verdict @ [found]\<rparr>)))"

definition Verdict_default :: Verdict where
  "Verdict_default = \<lparr>vd_accepted = [], vd_refused = [], vd_over_limit = 0\<rparr>"

definition verify :: "reader \<Rightarrow> ReviewFile list \<Rightarrow> string \<Rightarrow> string list \<Rightarrow> Verdict" where
  "verify rd files input_sha256 findings = verify_loop rd files input_sha256 findings 0 [] Verdict_default"

subsection \<open>Findings as annotations\<close>

definition finding_hunk :: "Accepted \<Rightarrow> ReviewFile list \<Rightarrow> PatchHunk option" where
  "finding_hunk a files =
     Option.bind (ac_address a) (\<lambda>address.
       find_map (\<lambda>f. List.find (\<lambda>h. PatchHunk_address h (rf_path f) = address) (pt_hunks (rf_patch_twin f)))
         (filter (\<lambda>f. rf_path f = ac_path a) files))"

definition finding_annotation :: "ReviewFile list \<Rightarrow> Accepted \<Rightarrow> AgentAnnotation" where
  "finding_annotation files a =
     \<lparr>an_id = ''finding/'' @ ac_agent a @ ''/'' @ show_nat (ac_index a),
      an_anchor = (case finding_hunk a files of None \<Rightarrow> AaFile (ac_path a) | Some h \<Rightarrow> AaHunk (ac_path a) (ph_id h)),
      an_body = ''['' @ FindingSeverity_label (ac_severity a) @ ''] '' @ ac_title a
        @ (case ac_line a of None \<Rightarrow> [] | Some l \<Rightarrow> '' ('' @ FindingSide_label (al_side l) @ '' line '' @ show_nat (al_number l) @ '')'')
        @ '' '' @ utf8_encode 0x2014 @ '' '' @ ac_body a,
      an_provenance = \<lparr>ap_agent = ''agent:'' @ ac_agent a, ap_model = ac_model a, ap_evidence = ac_evidence a\<rparr>,
      an_grounded = False\<rparr>"

definition finding_annotations :: "Accepted list \<Rightarrow> ReviewFile list \<Rightarrow> AgentAnnotation list" where
  "finding_annotations accepted files = map (finding_annotation files) accepted"

end
