(* ===== verification/Agent_Claims.thy ===== *)
theory Agent_Claims
  imports Findings
begin

text \<open>
  What annotations, evidence and verified findings promise, over every run of their operations and every
  set of findings.
\<close>

subsection \<open>Addresses\<close>

lemma foldl_or_insert: "foldl or_insert m kvs k = (case m k of Some v \<Rightarrow> Some v | None \<Rightarrow> map_of kvs k)"
  by (induction kvs arbitrary: m) (auto simp: or_insert_def split: option.splits)

lemma Addresses_find_sound:
  assumes "Addresses_find files address = Some (file, hunk)"
  shows "file \<in> set files" "hunk \<in> set (pt_hunks (rf_patch_twin file))" "PatchHunk_address hunk (rf_path file) = address"
proof -
  obtain f h where fh: "by_address files address = Some (f, h)" "file = files ! f" "hunk = pt_hunks (rf_patch_twin file) ! h"
    using assms by (auto simp: Addresses_find_def)
  then have "(address, f, h) \<in> set (address_entries files)"
    using map_of_SomeD by (fastforce simp: by_address_def foldl_or_insert)
  then have "f < length files" "h < length (pt_hunks (rf_patch_twin (files ! f)))" "address = PatchHunk_address (pt_hunks (rf_patch_twin (files ! f)) ! h) (rf_path (files ! f))"
    by (auto simp: address_entries_def in_set_enumerate_eq)
  then show "file \<in> set files" "hunk \<in> set (pt_hunks (rf_patch_twin file))" "PatchHunk_address hunk (rf_path file) = address"
    using fh by auto
qed

subsection \<open>Where an accepted finding points\<close>

definition shows_line :: "PatchHunk \<Rightarrow> AcceptedLine \<Rightarrow> bool" where
  "shows_line h l \<longleftrightarrow>
     list_ex (\<lambda>p. line_of_side (al_side l) p = Some (al_number l) \<and> al_kind l = line_kind_name (pl_kind p)
                \<and> al_text l = display_safe_bounded (pl_text p) LINE_TEXT_BYTES) (ph_lines h)"

definition finding_points :: "ReviewFile list \<Rightarrow> Accepted \<Rightarrow> bool" where
  "finding_points files a \<longleftrightarrow>
     list_ex (\<lambda>f. rf_path f = ac_path a
       \<and> (case ac_address a of
            None \<Rightarrow> ac_anchor a = AkFile \<and> ac_line a = None
          | Some address \<Rightarrow>
              list_ex (\<lambda>h. PatchHunk_address h (rf_path f) = address
                 \<and> (case ac_line a of None \<Rightarrow> True | Some l \<Rightarrow> shows_line h l)) (pt_hunks (rf_patch_twin f)))) files"

lemma find_SomeD: "List.find P xs = Some x \<Longrightarrow> x \<in> set xs \<and> P x"
  by (auto simp: find_Some_iff)

lemma line_in_shows:
  assumes "line_in h side n = Some l"
  shows "shows_line h l"
proof -
  obtain p where "List.find (\<lambda>l. line_of_side side l = Some n) (ph_lines h) = Some p"
    "l = \<lparr>al_side = side, al_number = n, al_kind = line_kind_name (pl_kind p), al_text = display_safe_bounded (pl_text p) LINE_TEXT_BYTES\<rparr>"
    using assms by (auto simp: line_in_def)
  then show ?thesis using find_SomeD [of _ "ph_lines h" p] by (auto simp: shows_line_def list_ex_iff)
qed

lemma resolve_finding_sound:
  assumes "resolve_finding files path address line side = Inr (file, anchor, hunk)"
  shows "file \<in> set files \<and> (case hunk of None \<Rightarrow> anchor = AkFile \<and> line = None | Some h \<Rightarrow> h \<in> set (pt_hunks (rf_patch_twin file)))"
proof (cases address)
  case (Some x)
  then obtain h where "Addresses_find files x = Some (file, h)" "hunk = Some h"
    using assms by (auto simp: resolve_finding_def split: option.splits prod.splits if_splits)
  then show ?thesis using Addresses_find_sound by auto
next
  case None
  then obtain p first rest where p: "path = Some p" "filter (\<lambda>f. rf_path f = p) files = first # rest"
    using assms by (auto simp: resolve_finding_def split: option.splits list.splits)
  have sub: "set (first # rest) \<subseteq> set files" unfolding p(2) [symmetric] by simp
  show ?thesis
  proof (cases line)
    case line: None
    then show ?thesis using assms None p sub by (auto simp: resolve_finding_def)
  next
    case (Some n)
    let ?pick = "\<lambda>file. List.find (\<lambda>h. line_in h side n \<noteq> None) (pt_hunks (rf_patch_twin file))"
    have "find_map (\<lambda>file. map_option (\<lambda>h. (file, AkLine, Some h)) (?pick file)) (first # rest) = Some (file, anchor, hunk)"
      using assms None p Some by (simp add: resolve_finding_def ok_or_Inr_iff del: find_map.simps)
    from find_map_Some [OF this] obtain g where g: "g \<in> set (first # rest)"
      "map_option (\<lambda>h. (g, AkLine, Some h)) (?pick g) = Some (file, anchor, hunk)" by (elim bexE)
    from g(2) obtain h where "?pick g = Some h" "(g, AkLine, Some h) = (file, anchor, hunk)" unfolding map_option_eq_Some by (elim exE conjE)
    then have h: "?pick g = Some h" "g = file" "hunk = Some h" by simp_all
    then have "h \<in> set (pt_hunks (rf_patch_twin file))" using find_SomeD by fast
    then show ?thesis using g(1) sub h by auto
  qed
qed

lemma check_finding_points:
  assumes "check_finding rd files sha raw index = Inr a"
  shows "finding_points files a \<and> ac_index a = index"
proof -
  obtain object where o: "rd raw = Some (VObject object)"
    using assms by (auto simp: check_finding_def split: option.splits Value.splits)
  obtain x where x: "read_fields object = Inr x" using assms o by (auto simp: check_finding_def res_bind_Inr_iff)
  obtain sec anchor hunk where r: "resolve_finding files (fl_path x) (fl_address x) (fl_line x) (fl_side x) = Inr (sec, anchor, hunk)"
    using assms o x by (auto simp: check_finding_def res_bind_Inr_iff split: if_splits)
  obtain line where l: "placed_line x hunk = Inr line" and a: "a = accept x index sec anchor hunk line"
    using assms o x r by (auto simp: check_finding_def res_bind_Inr_iff split: if_splits)
  note rs = resolve_finding_sound [OF r]
  have shown: "case line of None \<Rightarrow> True | Some k \<Rightarrow> (case hunk of None \<Rightarrow> False | Some h \<Rightarrow> shows_line h k)"
    using l line_in_shows by (auto simp: placed_line_def ok_or_def split: option.splits)
  have none: "hunk = None \<Longrightarrow> line = None" using l rs by (auto simp: placed_line_def split: option.splits)
  have "ac_path a = rf_path sec" "ac_line a = line" "ac_anchor a = anchor" "ac_index a = index"
    "ac_address a = map_option (\<lambda>h. PatchHunk_address h (rf_path sec)) hunk"
    by (simp_all add: a accept_def)
  then show ?thesis
    using rs shown none by (cases hunk; cases line) (auto simp: finding_points_def list_ex_iff)
qed

subsection \<open>Every finding is accounted for\<close>

definition entries :: "string list \<Rightarrow> string list" where
  "entries findings = filter (\<lambda>r. str_trim r \<noteq> []) findings"

definition numbered_upto :: "nat \<Rightarrow> Verdict \<Rightarrow> bool" where
  "numbered_upto n v \<longleftrightarrow>
     set (map ac_index (vd_accepted v)) \<union> set (map re_index (vd_refused v)) = {0..<n} \<and> length (vd_accepted v) + length (vd_refused v) = n"

lemma numbered_refuse:
  "numbered_upto n v \<Longrightarrow> re_index r = n \<Longrightarrow> numbered_upto (n + 1) (v\<lparr>vd_refused := vd_refused v @ [r]\<rparr>)"
  by (auto simp: numbered_upto_def)

lemma numbered_accept:
  "numbered_upto n v \<Longrightarrow> ac_index a = n \<Longrightarrow> numbered_upto (n + 1) (v\<lparr>vd_accepted := vd_accepted v @ [a]\<rparr>)"
  by (auto simp: numbered_upto_def)

lemma verify_loop_counts:
  assumes "numbered_upto index v" "index \<le> MAX_FINDINGS"
  shows "numbered_upto (min (index + length (entries findings)) MAX_FINDINGS) (verify_loop rd files sha findings index known v)
     \<and> vd_over_limit (verify_loop rd files sha findings index known v) = vd_over_limit v + (index + length (entries findings) - MAX_FINDINGS)"
  using assms
proof (induction findings arbitrary: index known v)
  case Nil
  then show ?case by (simp add: entries_def min_def)
next
  case (Cons raw findings)
  consider "str_trim raw = []" | "str_trim raw \<noteq> []" "MAX_FINDINGS \<le> index"
    | r where "str_trim raw \<noteq> []" "index < MAX_FINDINGS" "verify_loop rd files sha (raw # findings) index known v =
        verify_loop rd files sha findings (index + 1) known (v\<lparr>vd_refused := vd_refused v @ [r]\<rparr>)" "re_index r = index"
    | a where "str_trim raw \<noteq> []" "index < MAX_FINDINGS" "verify_loop rd files sha (raw # findings) index known v =
        verify_loop rd files sha findings (index + 1) (known @ [DuplicateKey_of a]) (v\<lparr>vd_accepted := vd_accepted v @ [a]\<rparr>)" "ac_index a = index"
  proof (cases "check_finding rd files sha raw index")
    case (Inl e)
    then show ?thesis using that by (cases "str_trim raw = []"; cases "MAX_FINDINGS \<le> index") (auto simp: Let_def)
  next
    case (Inr a)
    then show ?thesis
      using that check_finding_points [OF Inr]
      by (cases "str_trim raw = []"; cases "MAX_FINDINGS \<le> index"; cases "DuplicateKey_of a \<in> set known") (auto simp: Let_def)
  qed
  then show ?case
  proof cases
    case 1
    then show ?thesis using Cons by (simp add: entries_def)
  next
    case 2
    then have "numbered_upto index (v\<lparr>vd_over_limit := vd_over_limit v + 1\<rparr>)" using Cons.prems(1) by (simp add: numbered_upto_def)
    from Cons.IH [OF this Cons.prems(2), of known] show ?thesis using 2 by (simp add: entries_def)
  next
    case 3
    from Cons.IH [OF numbered_refuse [OF Cons.prems(1) 3(4)], of known] show ?thesis using 3 by (simp add: entries_def)
  next
    case 4
    from Cons.IH [OF numbered_accept [OF Cons.prems(1) 4(4)], of "known @ [DuplicateKey_of a]"] show ?thesis using 4 by (simp add: entries_def)
  qed
qed

lemma verify_loop_accepts:
  assumes "known = map DuplicateKey_of (vd_accepted v)" "distinct known" "list_all (finding_points files) (vd_accepted v)"
  shows "distinct (map DuplicateKey_of (vd_accepted (verify_loop rd files sha findings index known v)))
     \<and> list_all (finding_points files) (vd_accepted (verify_loop rd files sha findings index known v))"
  using assms
proof (induction findings arbitrary: index known v)
  case (Cons raw findings)
  have keep: "distinct (map DuplicateKey_of (vd_accepted (verify_loop rd files sha findings i known w)))
      \<and> list_all (finding_points files) (vd_accepted (verify_loop rd files sha findings i known w))"
    if "vd_accepted w = vd_accepted v" for w i
    using Cons.IH [of known w i] Cons.prems that by simp
  show ?case
  proof (cases "check_finding rd files sha raw index")
    case (Inl e)
    then show ?thesis using keep [of v] keep [of "vd_over_limit_update _ v"] keep [of "vd_refused_update _ v"] by (simp add: Let_def)
  next
    case (Inr a)
    have new: "distinct (map DuplicateKey_of (vd_accepted (verify_loop rd files sha findings i k w))) \<and> list_all (finding_points files) (vd_accepted (verify_loop rd files sha findings i k w))"
      if "vd_accepted w = vd_accepted v @ [a]" "DuplicateKey_of a \<notin> set known" "k = known @ [DuplicateKey_of a]" for w i k
      using Cons.IH [of k w i] Cons.prems that check_finding_points [OF Inr] by simp
    then show ?thesis
      using Inr keep [of v] keep [of "vd_over_limit_update _ v"] keep [of "vd_refused_update _ v"] by (simp add: Let_def)
  qed
qed simp

subsection \<open>Findings in the cockpit\<close>

lemma finding_annotation_valid:
  assumes "finding_points files a"
  shows "validate_anchor (an_anchor (finding_annotation files a)) files"
proof (cases "finding_hunk a files")
  case None
  then show ?thesis using assms by (auto simp: finding_annotation_def validate_anchor_def finding_points_def list_ex_iff)
next
  case (Some h)
  then obtain address where find: "find_map (\<lambda>f. List.find (\<lambda>h. PatchHunk_address h (rf_path f) = address) (pt_hunks (rf_patch_twin f)))
      (filter (\<lambda>f. rf_path f = ac_path a) files) = Some h"
    by (cases "ac_address a") (simp_all add: finding_hunk_def)
  from find_map_Some [OF this] obtain f where f: "f \<in> set (filter (\<lambda>f. rf_path f = ac_path a) files)"
    "List.find (\<lambda>h. PatchHunk_address h (rf_path f) = address) (pt_hunks (rf_patch_twin f)) = Some h" by (elim bexE)
  then have "h \<in> set (pt_hunks (rf_patch_twin f))" using find_SomeD by fast
  then show ?thesis using f(1) Some by (auto simp: finding_annotation_def validate_anchor_def list_ex_iff)
qed

lemma finding_annotation_untrusted: "source_of (finding_annotation files a) = AsAgent \<and> \<not> an_grounded (finding_annotation files a)"
  by (simp add: finding_annotation_def source_of_def SYSTEM_AGENT_ID_def)

subsection \<open>The properties\<close>

text \<open>No finding is lost or judged twice: the accepted and the refused findings carry exactly the numbers of the
  entries that are not blank, up to the limit, each once; the entries past the limit are counted; and no two
  accepted findings have the same agent, title and anchor.\<close>

theorem findings_all_accounted:
  "set (map ac_index (vd_accepted (verify rd files sha findings))) \<union> set (map re_index (vd_refused (verify rd files sha findings)))
     = {0..<min (length (entries findings)) MAX_FINDINGS}
   \<and> length (vd_accepted (verify rd files sha findings)) + length (vd_refused (verify rd files sha findings))
     = min (length (entries findings)) MAX_FINDINGS
   \<and> vd_over_limit (verify rd files sha findings) = length (entries findings) - MAX_FINDINGS
   \<and> distinct (map DuplicateKey_of (vd_accepted (verify rd files sha findings)))"
  using verify_loop_counts [of 0 Verdict_default findings rd files sha "[]"]
    verify_loop_accepts [of "[]" Verdict_default files rd sha findings 0]
  by (simp add: verify_def numbered_upto_def Verdict_default_def)

text \<open>C22: an accepted finding points at something real, whatever the JSON reader returns: its path is a path of the
  review, its address that of a hunk of a section with that path, and its line a line of that hunk with the kind and the escaped text the
  review has; as an annotation it resolves in the review, is an agent's and is never grounded.\<close>

theorem accepted_findings_are_real:
  "list_all (\<lambda>a. finding_points files a
       \<and> validate_anchor (an_anchor (finding_annotation files a)) files
       \<and> source_of (finding_annotation files a) = AsAgent \<and> \<not> an_grounded (finding_annotation files a))
     (vd_accepted (verify rd files sha findings))"
  using verify_loop_accepts [of "[]" Verdict_default files rd sha findings 0] finding_annotation_valid finding_annotation_untrusted
  by (auto simp: verify_def Verdict_default_def list_all_iff)

text \<open>C23: the annotation store keeps the trust boundary over every sequence of operations: ids are distinct and not
  empty, only known annotations are resolved, each once and by an explicit resolve, and an annotation that reads
  as the engine's own or as grounded was added by the engine, never through the untrusted entry.\<close>

theorem store_keeps_trust_boundary:
  "distinct (map an_id (as_annotations (foldl store_op AnnotationStore_new ops)))
   \<and> [] \<notin> an_id ` set (as_annotations (foldl store_op AnnotationStore_new ops))
   \<and> distinct (as_resolved (foldl store_op AnnotationStore_new ops))
   \<and> set (as_resolved (foldl store_op AnnotationStore_new ops))
       \<subseteq> an_id ` set (as_annotations (foldl store_op AnnotationStore_new ops)) \<inter> {i. OpResolve i \<in> set ops}
   \<and> {a \<in> set (as_annotations (foldl store_op AnnotationStore_new ops)). source_of a = AsSystem \<or> an_grounded a}
       \<subseteq> {a. OpAdd a \<in> set ops}"
  using annotation_store.inv_run [of ops] downgraded by (auto simp: store_inv_def)

text \<open>Evidence counts as support only while it is fresh: an artifact reads as supported under a revision only
  when it was captured under that very revision and an evaluator who gave a name and a reason judged it to support
  the claim under that revision.\<close>

theorem support_is_fresh:
  assumes "registry_state (foldl registry_op Map.empty ops) i current = EvSupported evaluator rationale"
  shows "(\<exists>bytes. OpCapture i current bytes \<in> set ops) \<and> OpAssess i current evaluator rationale True \<in> set ops
     \<and> str_trim evaluator \<noteq> [] \<and> str_trim rationale \<noteq> []"
proof -
  obtain a where a: "foldl registry_op Map.empty ops i = Some a" "af_revision a = current" "af_state a = EvSupported evaluator rationale"
    using assms by (auto simp: registry_state_def split: option.splits if_splits)
  then have "judged ops i a \<and> (\<exists>bytes. OpCapture i (af_revision a) bytes \<in> set ops)"
    using evidence_registry.inv_run [of ops] unfolding registry_inv_def by blast
  then show ?thesis using a by (simp add: judged_def)
qed

theorem support_is_fresh_witness:
  "OpAssess ''a'' ''r1'' ''eve'' ''ran it'' True \<in> set [OpCapture ''a'' ''r1'' ''log'', OpAssess ''a'' ''r1'' ''eve'' ''ran it'' True]"
proof -
  have "str_trim ''eve'' \<noteq> [] \<and> str_trim ''ran it'' \<noteq> []" by code_simp
  then have "registry_state (foldl registry_op Map.empty [OpCapture ''a'' ''r1'' ''log'', OpAssess ''a'' ''r1'' ''eve'' ''ran it'' True]) ''a'' ''r1''
      = EvSupported ''eve'' ''ran it''"
    by (simp add: registry_state_def registry_capture_def registry_assess_def)
  from support_is_fresh [OF this] show ?thesis by blast
qed

end
