(* ===== verification/Cockpit.thy ===== *)
theory Cockpit
  imports Runs Annotations Rank
begin

text \<open>
  The state of the review cockpit: \<open>src/crates/deep-diff-forge-tui/src/\<close> \<open>state.rs\<close>, the row geometry of \<open>tree.rs\<close>
  and \<open>ui.rs\<close>, the key and menu bindings of \<open>input.rs\<close>, the theme cycle of \<open>theme.rs\<close> and the command list of
  \<open>command.rs\<close>. What a command prints is a parameter \<open>run\<close>, because it reads the daemon and the learning store;
  it never changes the app.
\<close>

subsection \<open>Data\<close>

datatype AppEvent =
    AeQuit | AeNext | AePrev | AeToggleLayout | AeScrollUp | AeScrollDown | AeTop | AeBottom | AeToggleFold | AeToggleWrap
  | AeToggleNotes | AeCycleTheme | AeFocusSidebar | AeFocusDiff | AeToggleViewed | AeSelectTreeRow nat | AeToggleHelp
  | AeOpenPalette | AeSelect | AeCancel | AeNone

datatype LayoutMode = LmInline | LmSideBySide

fun LayoutMode_toggled :: "LayoutMode \<Rightarrow> LayoutMode" where
  "LayoutMode_toggled LmInline = LmSideBySide"
| "LayoutMode_toggled LmSideBySide = LmInline"

fun LayoutMode_label :: "LayoutMode \<Rightarrow> string" where
  "LayoutMode_label LmInline = ''inline''"
| "LayoutMode_label LmSideBySide = ''side-by-side''"

datatype Focus = FoSidebar | FoDiff

datatype Overlay = OvNone | OvHelp | OvPalette | OvPanel

datatype ThemeKind = TkDark | TkMidnight | TkMono

fun ThemeKind_next :: "ThemeKind \<Rightarrow> ThemeKind" where
  "ThemeKind_next TkDark = TkMidnight"
| "ThemeKind_next TkMidnight = TkMono"
| "ThemeKind_next TkMono = TkDark"

fun ThemeKind_label :: "ThemeKind \<Rightarrow> string" where
  "ThemeKind_label TkDark = ''dark''"
| "ThemeKind_label TkMidnight = ''midnight''"
| "ThemeKind_label TkMono = ''mono''"

datatype Command =
    CmRank | CmOutline | CmCluster | CmSummary | CmNotes | CmReviewJson | CmDaemon | CmLearning | CmMaturity

definition Command_all :: "Command list" where
  "Command_all = [CmRank, CmOutline, CmCluster, CmSummary, CmNotes, CmReviewJson, CmDaemon, CmLearning, CmMaturity]"

fun Command_label :: "Command \<Rightarrow> string" where
  "Command_label CmRank = ''rank''"
| "Command_label CmOutline = ''outline''"
| "Command_label CmCluster = ''cluster''"
| "Command_label CmSummary = ''summary''"
| "Command_label CmNotes = ''notes''"
| "Command_label CmReviewJson = ''review json''"
| "Command_label CmDaemon = ''daemon''"
| "Command_label CmLearning = ''learning''"
| "Command_label CmMaturity = ''maturity''"

definition Command_menu :: "Command \<Rightarrow> string" where
  "Command_menu c =
     (if c \<in> {CmRank, CmSummary, CmReviewJson} then ''File'' else if c \<in> {CmOutline, CmCluster, CmNotes} then ''Agent'' else ''Help'')"

record CommandOutput =
  co_title :: string
  co_lines :: "string list"

definition CommandOutput_default :: CommandOutput where
  "CommandOutput_default = \<lparr>co_title = [], co_lines = []\<rparr>"

record ViewOptions =
  vo_fold :: bool
  vo_wrap_lines :: bool
  vo_show_notes :: bool

definition ViewOptions_default :: ViewOptions where
  "ViewOptions_default = \<lparr>vo_fold = True, vo_wrap_lines = False, vo_show_notes = True\<rparr>"

record ReviewApp =
  ra_ranked :: "RankedFile list"
  ra_content :: "ReviewFile list"
  ra_annotations :: "AgentAnnotation list"
  ra_viewed :: "bool list"
  ra_selected :: nat
  ra_scroll :: nat
  ra_layout :: LayoutMode
  ra_theme :: ThemeKind
  ra_focus :: Focus
  ra_view :: ViewOptions
  ra_overlay :: Overlay
  ra_palette_index :: nat
  ra_panel :: CommandOutput
  ra_panel_scroll :: nat
  ra_running :: bool

definition aligned :: "ReviewFile list \<Rightarrow> RankedFile list \<Rightarrow> (RankedFile \<times> ReviewFile) list" where
  "aligned files ranked = List.map_filter (\<lambda>r. map_option (Pair r) (List.find (\<lambda>f. rf_path f = rk_path r) files)) ranked"

definition from_review_with_annotations :: "ReviewFile list \<Rightarrow> AgentAnnotation list \<Rightarrow> ReviewApp" where
  "from_review_with_annotations files annotations =
     (let pairs = aligned files (rank files) in
      \<lparr>ra_ranked = map fst pairs, ra_content = map snd pairs, ra_annotations = annotations,
       ra_viewed = replicate (length pairs) False, ra_selected = 0, ra_scroll = 0, ra_layout = LmInline, ra_theme = TkDark,
       ra_focus = FoSidebar, ra_view = ViewOptions_default, ra_overlay = OvNone, ra_palette_index = 0,
       ra_panel = CommandOutput_default, ra_panel_scroll = 0, ra_running = True\<rparr>)"

definition from_review :: "ReviewFile list \<Rightarrow> ReviewApp" where
  "from_review files = from_review_with_annotations files []"

subsection \<open>The file tree\<close>

definition dir_of :: "string \<Rightarrow> string" where
  "dir_of path = (case rfind_sub [SLASH] path of Some i \<Rightarrow> take i path | None \<Rightarrow> [])"

definition base_of :: "string \<Rightarrow> string" where
  "base_of path = (case rfind_sub [SLASH] path of Some i \<Rightarrow> drop (i + 1) path | None \<Rightarrow> path)"

fun group_push :: "string \<Rightarrow> nat \<Rightarrow> (string \<times> nat list) list \<Rightarrow> (string \<times> nat list) list" where
  "group_push dir i [] = [(dir, [i])]"
| "group_push dir i ((d, is) # groups) = (if d = dir then (d, is @ [i]) # groups else (d, is) # group_push dir i groups)"

fun group_loop :: "nat \<Rightarrow> RankedFile list \<Rightarrow> (string \<times> nat list) list \<Rightarrow> (string \<times> nat list) list" where
  "group_loop i [] groups = groups"
| "group_loop i (f # fs) groups = group_loop (i + 1) fs (group_push (dir_of (rk_path f)) i groups)"

definition grouped :: "ReviewApp \<Rightarrow> (string \<times> nat list) list" where
  "grouped app = group_loop 0 (ra_ranked app) []"

text \<open>The loops over the tree's rows: the inner loop ends with the index it looked for or with the next row number.\<close>

fun index_at :: "nat \<Rightarrow> nat \<Rightarrow> nat list \<Rightarrow> nat + nat" where
  "index_at target row [] = Inr row"
| "index_at target row (i # is) = (if row = target then Inl i else index_at target (row + 1) is)"

fun row_loop :: "nat \<Rightarrow> nat \<Rightarrow> (string \<times> nat list) list \<Rightarrow> nat option" where
  "row_loop target row [] = None"
| "row_loop target row ((d, is) # groups) =
     (if row = target then None
      else case index_at target (row + 1) is of Inl i \<Rightarrow> Some i | Inr row' \<Rightarrow> row_loop target row' groups)"

definition file_index_at_row :: "ReviewApp \<Rightarrow> nat \<Rightarrow> nat option" where
  "file_index_at_row app target_row = row_loop target_row 0 (grouped app)"

fun row_of :: "nat \<Rightarrow> nat \<Rightarrow> nat list \<Rightarrow> nat + nat" where
  "row_of selected row [] = Inr row"
| "row_of selected row (i # is) = (if i = selected then Inl row else row_of selected (row + 1) is)"

fun selected_loop :: "nat \<Rightarrow> nat \<Rightarrow> (string \<times> nat list) list \<Rightarrow> nat" where
  "selected_loop selected row [] = 0"
| "selected_loop selected row ((d, is) # groups) =
     (case row_of selected (row + 1) is of Inl r \<Rightarrow> r | Inr row' \<Rightarrow> selected_loop selected row' groups)"

definition selected_row :: "ReviewApp \<Rightarrow> nat" where
  "selected_row app = selected_loop (ra_selected app) 0 (grouped app)"

definition keep_visible :: "nat \<Rightarrow> nat \<Rightarrow> nat" where
  "keep_visible row height = (if height = 0 \<or> row < height then 0 else row - height + 1)"

definition tree_scroll :: "ReviewApp \<Rightarrow> nat \<Rightarrow> nat" where
  "tree_scroll app height = keep_visible (selected_row app) height"

text \<open>\<open>tree_window\<close>, with a row in place of its painted line.\<close>

datatype TreeRow = NoFiles | DirRow string | FileRow nat

fun window_files :: "nat \<Rightarrow> nat \<Rightarrow> nat \<Rightarrow> nat list \<Rightarrow> TreeRow list \<Rightarrow> TreeRow list \<times> nat" where
  "window_files from to row [] lines = (lines, row)"
| "window_files from to row (i # is) lines =
     window_files from to (row + 1) is (if from \<le> row \<and> row < to then lines @ [FileRow i] else lines)"

fun window_loop :: "nat \<Rightarrow> nat \<Rightarrow> nat \<Rightarrow> (string \<times> nat list) list \<Rightarrow> TreeRow list \<Rightarrow> TreeRow list" where
  "window_loop from to row [] lines = lines"
| "window_loop from to row ((d, is) # groups) lines =
     (if to \<le> row then lines
      else
        (let (lines, row) = window_files from to (row + 1) is (if from \<le> row \<and> row < to then lines @ [DirRow d] else lines) in
         window_loop from to row groups lines))"

definition tree_window :: "ReviewApp \<Rightarrow> nat \<times> nat \<Rightarrow> TreeRow list" where
  "tree_window app window =
     (if ra_ranked app = [] then (if fst window = 0 \<and> 0 < snd window then [NoFiles] else [])
      else window_loop (fst window) (snd window) 0 (grouped app) [])"

subsection \<open>Events\<close>

definition select_next :: "ReviewApp \<Rightarrow> ReviewApp" where
  "select_next app =
     (if ra_selected app + 1 < length (ra_ranked app) then app\<lparr>ra_selected := ra_selected app + 1, ra_scroll := 0\<rparr> else app)"

definition select_prev :: "ReviewApp \<Rightarrow> ReviewApp" where
  "select_prev app = (if 0 < ra_selected app then app\<lparr>ra_selected := ra_selected app - 1, ra_scroll := 0\<rparr> else app)"

definition toggle_viewed :: "ReviewApp \<Rightarrow> ReviewApp" where
  "toggle_viewed app =
     (case nth_get (ra_viewed app) (ra_selected app) of
        None \<Rightarrow> app
      | Some flag \<Rightarrow>
          (let app' = app\<lparr>ra_viewed := (ra_viewed app)[ra_selected app := \<not> flag]\<rparr> in
           if \<not> flag then select_next app' else app'))"

definition select_tree_row :: "ReviewApp \<Rightarrow> nat \<Rightarrow> ReviewApp" where
  "select_tree_row app row =
     (case file_index_at_row app row of
        Some index \<Rightarrow> app\<lparr>ra_selected := index, ra_scroll := 0, ra_focus := FoSidebar\<rparr>
      | None \<Rightarrow> app)"

fun handle_review :: "ReviewApp \<Rightarrow> AppEvent \<Rightarrow> ReviewApp" where
  "handle_review app AeNext = select_next app"
| "handle_review app AePrev = select_prev app"
| "handle_review app AeToggleLayout = app\<lparr>ra_layout := LayoutMode_toggled (ra_layout app)\<rparr>"
| "handle_review app AeScrollUp = app\<lparr>ra_scroll := ra_scroll app - 1\<rparr>"
| "handle_review app AeScrollDown = app\<lparr>ra_scroll := sat_add_usize (ra_scroll app) 1\<rparr>"
| "handle_review app AeTop = app\<lparr>ra_selected := 0, ra_scroll := 0\<rparr>"
| "handle_review app AeBottom = app\<lparr>ra_selected := length (ra_ranked app) - 1, ra_scroll := 0\<rparr>"
| "handle_review app AeToggleFold = app\<lparr>ra_view := (ra_view app)\<lparr>vo_fold := \<not> vo_fold (ra_view app)\<rparr>\<rparr>"
| "handle_review app AeToggleWrap = app\<lparr>ra_view := (ra_view app)\<lparr>vo_wrap_lines := \<not> vo_wrap_lines (ra_view app)\<rparr>\<rparr>"
| "handle_review app AeToggleNotes = app\<lparr>ra_view := (ra_view app)\<lparr>vo_show_notes := \<not> vo_show_notes (ra_view app)\<rparr>\<rparr>"
| "handle_review app AeCycleTheme = app\<lparr>ra_theme := ThemeKind_next (ra_theme app)\<rparr>"
| "handle_review app AeFocusSidebar = app\<lparr>ra_focus := FoSidebar\<rparr>"
| "handle_review app AeFocusDiff = app\<lparr>ra_focus := FoDiff\<rparr>"
| "handle_review app AeSelect = app\<lparr>ra_focus := FoDiff\<rparr>"
| "handle_review app AeToggleViewed = toggle_viewed app"
| "handle_review app (AeSelectTreeRow row) = select_tree_row app row"
| "handle_review app AeToggleHelp = app\<lparr>ra_overlay := OvHelp\<rparr>"
| "handle_review app AeOpenPalette = app\<lparr>ra_overlay := OvPalette, ra_palette_index := 0\<rparr>"
| "handle_review app AeCancel = app\<lparr>ra_running := False\<rparr>"
| "handle_review app AeQuit = app"
| "handle_review app AeNone = app"

definition handle_help :: "ReviewApp \<Rightarrow> AppEvent \<Rightarrow> ReviewApp" where
  "handle_help app event = (if event = AeToggleHelp \<or> event = AeCancel then app\<lparr>ra_overlay := OvNone\<rparr> else app)"

type_synonym runner = "Command \<Rightarrow> ReviewApp \<Rightarrow> CommandOutput"

definition run_selected_command :: "runner \<Rightarrow> ReviewApp \<Rightarrow> ReviewApp" where
  "run_selected_command run app =
     app\<lparr>ra_panel := run (Command_all ! ra_palette_index app) app, ra_panel_scroll := 0, ra_overlay := OvPanel\<rparr>"

definition handle_palette :: "runner \<Rightarrow> ReviewApp \<Rightarrow> AppEvent \<Rightarrow> ReviewApp" where
  "handle_palette run app event =
     (let count = length Command_all in
      case event of
        AeNext \<Rightarrow> app\<lparr>ra_palette_index := (ra_palette_index app + 1) mod count\<rparr>
      | AePrev \<Rightarrow> app\<lparr>ra_palette_index := (ra_palette_index app + count - 1) mod count\<rparr>
      | AeTop \<Rightarrow> app\<lparr>ra_palette_index := 0\<rparr>
      | AeBottom \<Rightarrow> app\<lparr>ra_palette_index := count - 1\<rparr>
      | AeSelect \<Rightarrow> run_selected_command run app
      | AeCancel \<Rightarrow> app\<lparr>ra_overlay := OvNone\<rparr>
      | AeOpenPalette \<Rightarrow> app\<lparr>ra_overlay := OvNone\<rparr>
      | _ \<Rightarrow> app)"

definition handle_panel :: "ReviewApp \<Rightarrow> AppEvent \<Rightarrow> ReviewApp" where
  "handle_panel app event =
     (case event of
        AeScrollDown \<Rightarrow> app\<lparr>ra_panel_scroll := sat_add_usize (ra_panel_scroll app) 1\<rparr>
      | AeNext \<Rightarrow> app\<lparr>ra_panel_scroll := sat_add_usize (ra_panel_scroll app) 1\<rparr>
      | AeScrollUp \<Rightarrow> app\<lparr>ra_panel_scroll := ra_panel_scroll app - 1\<rparr>
      | AePrev \<Rightarrow> app\<lparr>ra_panel_scroll := ra_panel_scroll app - 1\<rparr>
      | AeTop \<Rightarrow> app\<lparr>ra_panel_scroll := 0\<rparr>
      | AeCancel \<Rightarrow> app\<lparr>ra_overlay := OvPalette\<rparr>
      | AeOpenPalette \<Rightarrow> app\<lparr>ra_overlay := OvNone\<rparr>
      | _ \<Rightarrow> app)"

definition handle :: "runner \<Rightarrow> ReviewApp \<Rightarrow> AppEvent \<Rightarrow> ReviewApp" where
  "handle run app event =
     (if event = AeQuit then app\<lparr>ra_running := False\<rparr>
      else case ra_overlay app of
        OvNone \<Rightarrow> handle_review app event
      | OvHelp \<Rightarrow> handle_help app event
      | OvPalette \<Rightarrow> handle_palette run app event
      | OvPanel \<Rightarrow> handle_panel app event)"

definition is_viewed :: "ReviewApp \<Rightarrow> nat \<Rightarrow> bool" where
  "is_viewed app index = (case nth_get (ra_viewed app) index of Some v \<Rightarrow> v | None \<Rightarrow> False)"

definition viewed_count :: "ReviewApp \<Rightarrow> nat" where
  "viewed_count app = length (filter (\<lambda>v. v) (ra_viewed app))"

definition selected_file :: "ReviewApp \<Rightarrow> RankedFile option" where
  "selected_file app = nth_get (ra_ranked app) (ra_selected app)"

definition selected_content :: "ReviewApp \<Rightarrow> ReviewFile option" where
  "selected_content app = nth_get (ra_content app) (ra_selected app)"

subsection \<open>Bindings\<close>

text \<open>The key codes of the terminal library, as far as a binding names them.\<close>

datatype KeyCode = KeyChar char | KeyEsc | KeyEnter | KeyTab | KeyDown | KeyUp | KeyLeft | KeyRight | KeyPageDown | KeyPageUp | KeyHome | KeyEnd | KeyOther

definition char_event :: "bool \<Rightarrow> char \<Rightarrow> AppEvent" where
  "char_event ctrl c =
     (if c = CHR ''q'' then AeQuit else if c = CHR '':'' then AeOpenPalette else if c = CHR ''j'' then AeNext
      else if c = CHR ''k'' then AePrev else if c = CHR ''t'' \<or> c = CHR ''s'' then AeToggleLayout
      else if c = CHR ''z'' then AeToggleFold else if c = CHR ''w'' then AeToggleWrap else if c = CHR ''n'' then AeToggleNotes
      else if c = CHR ''v'' \<or> c = SPACE then AeToggleViewed else if c = CHR ''T'' then AeCycleTheme
      else if c = CHR ''?'' then AeToggleHelp else if c = CHR ''h'' then AeFocusSidebar else if c = CHR ''l'' then AeFocusDiff
      else if c = CHR ''d'' \<and> ctrl then AeScrollDown else if c = CHR ''u'' \<and> ctrl then AeScrollUp
      else if c = CHR ''g'' then AeTop else if c = CHR ''G'' then AeBottom else AeNone)"

fun map_key :: "KeyCode \<Rightarrow> bool \<Rightarrow> AppEvent" where
  "map_key (KeyChar c) ctrl = char_event ctrl c"
| "map_key KeyEsc ctrl = AeCancel"
| "map_key KeyEnter ctrl = AeSelect"
| "map_key KeyTab ctrl = AeToggleLayout"
| "map_key KeyDown ctrl = AeNext"
| "map_key KeyUp ctrl = AePrev"
| "map_key KeyLeft ctrl = AeFocusSidebar"
| "map_key KeyRight ctrl = AeFocusDiff"
| "map_key KeyPageDown ctrl = AeScrollDown"
| "map_key KeyPageUp ctrl = AeScrollUp"
| "map_key KeyHome ctrl = AeTop"
| "map_key KeyEnd ctrl = AeBottom"
| "map_key KeyOther ctrl = AeNone"

definition MENUS :: string where
  "MENUS = ''File(:)   View(s z w n)   Navigate(j/k g/G)   Theme(T)   Agent(:)   Help(?)''"

definition menu_actions :: "(string \<times> AppEvent) list" where
  "menu_actions =
     [(''File(:)'', AeOpenPalette), (''View(s z w n)'', AeToggleLayout), (''Navigate(j/k g/G)'', AeFocusSidebar),
      (''Theme(T)'', AeCycleTheme), (''Agent(:)'', AeOpenPalette), (''Help(?)'', AeToggleHelp)]"

definition map_menu_click :: "nat \<Rightarrow> AppEvent" where
  "map_menu_click column =
     (case find_map (\<lambda>(label, event). Option.bind (find_sub label MENUS) (\<lambda>start.
              if start \<le> column \<and> column < start + length (chars label) then Some event else None)) menu_actions of
        Some event \<Rightarrow> event | None \<Rightarrow> AeNone)"

end
