(* ===== verification/Cockpit_Claims.thy ===== *)
theory Cockpit_Claims
  imports Cockpit
begin

text \<open>
  The cockpit's invariant over every sequence of events, and the geometry of its file tree against the plain
  list of rows.
\<close>

subsection \<open>The rows of the tree\<close>

definition tree_rows :: "(string \<times> nat list) list \<Rightarrow> TreeRow list" where
  "tree_rows groups = concat (map (\<lambda>(d, ns). DirRow d # map FileRow ns) groups)"

fun row_file :: "TreeRow \<Rightarrow> nat option" where
  "row_file (FileRow i) = Some i" | "row_file (DirRow d) = None" | "row_file NoFiles = None"

lemma tree_rows_simps [simp]:
  "tree_rows [] = []" "tree_rows ((d, ns) # gs) = DirRow d # map FileRow ns @ tree_rows gs"
  by (simp_all add: tree_rows_def)

lemma index_at_eq:
  "r \<le> t \<Longrightarrow> index_at t r ns = (if t - r < length ns then Inl (ns ! (t - r)) else Inr (r + length ns))"
  by (induction ns arbitrary: r) (auto simp: nth_Cons')

lemma row_loop_eq: "r \<le> t \<Longrightarrow> row_loop t r gs = Option.bind (nth_get (tree_rows gs) (t - r)) row_file"
proof (induction gs arbitrary: r)
  case (Cons g gs)
  obtain d ns where g: "g = (d, ns)" by (cases g)
  show ?case
  proof (cases "r = t")
    case True
    then show ?thesis by (simp add: g nth_get_def)
  next
    case False
    then have r: "r + 1 \<le> t" using Cons.prems by simp
    show ?thesis
    proof (cases "t - (r + 1) < length ns")
      case True
      then have "tree_rows (g # gs) ! (t - r) = FileRow (ns ! (t - (r + 1)))" "t - r < length (tree_rows (g # gs))"
        using False r by (auto simp: g nth_append nth_Cons' Suc_diff_Suc)
      then show ?thesis using True False index_at_eq [OF r, of ns] by (simp add: g nth_get_def)
    next
      case out: False
      have d: "t - r = Suc (length ns) + (t - (r + 1 + length ns))" using out r by simp
      have "nth_get (tree_rows (g # gs)) (t - r) = nth_get (tree_rows gs) (t - (r + 1 + length ns))"
        unfolding d by (auto simp: g nth_get_def nth_append)
      then show ?thesis using out False index_at_eq [OF r, of ns] Cons.IH [of "r + 1 + length ns"] r by (simp add: g)
    qed
  qed
qed (simp add: nth_get_def)

lemma row_of_eq:
  "row_of s r ns = (case position (\<lambda>i. i = s) ns of Some k \<Rightarrow> Inl (r + k) | None \<Rightarrow> Inr (r + length ns))"
  by (induction ns arbitrary: r) (auto split: option.splits)

lemma selected_loop_row:
  "s \<in> set (concat (map snd gs)) \<Longrightarrow>
     r \<le> selected_loop s r gs \<and> selected_loop s r gs - r < length (tree_rows gs) \<and> tree_rows gs ! (selected_loop s r gs - r) = FileRow s"
proof (induction gs arbitrary: r)
  case (Cons g gs)
  obtain d ns where g: "g = (d, ns)" by (cases g)
  show ?case
  proof (cases "position (\<lambda>i. i = s) ns")
    case None
    then have "s \<notin> set ns" by (auto simp: position_None)
    then have "s \<in> set (concat (map snd gs))" using Cons.prems g by auto
    from Cons.IH [OF this, of "r + 1 + length ns"] show ?thesis
      using None by (auto simp: g row_of_eq nth_append nth_Cons')
  next
    case (Some k)
    then have "k < length ns" "ns ! k = s" by (auto simp: position_Some)
    then show ?thesis using Some by (simp add: g row_of_eq nth_append)
  qed
qed simp

definition clip :: "nat \<Rightarrow> nat \<Rightarrow> nat \<Rightarrow> 'a list \<Rightarrow> 'a list" where
  "clip from to row xs = map snd (filter (\<lambda>(k, x). from \<le> k \<and> k < to) (enumerate row xs))"

lemma clip_simps [simp]:
  "clip from to row [] = []"
  "clip from to row (x # xs) = (if from \<le> row \<and> row < to then [x] else []) @ clip from to (row + 1) xs"
  by (simp_all add: clip_def)

lemma clip_append: "clip from to row (xs @ ys) = clip from to row xs @ clip from to (row + length xs) ys"
  by (induction xs arbitrary: row) auto

lemma clip_take_drop: "clip from to row xs = take (to - max row from) (drop (from - row) xs)"
proof (induction xs arbitrary: row)
  case (Cons x xs)
  show ?case
  proof (cases "from \<le> row")
    case True
    then show ?thesis using Cons.IH [of "row + 1"] by (cases "row < to") (auto simp: max_def take_Cons' Suc_diff_Suc)
  next
    case False
    then have "from - row = Suc (from - (row + 1))" "max row from = from" "max (row + 1) from = from" by auto
    then show ?thesis using Cons.IH [of "row + 1"] False by simp
  qed
qed simp

lemma clip_past: "to \<le> row \<Longrightarrow> clip from to row xs = []"
  by (simp add: clip_take_drop)

lemma window_files_eq: "window_files from to row ns lines = (lines @ clip from to row (map FileRow ns), row + length ns)"
  by (induction ns arbitrary: row lines) simp_all

lemma window_loop_eq: "window_loop from to row gs lines = lines @ clip from to row (tree_rows gs)"
proof (induction gs arbitrary: row lines)
  case (Cons g gs)
  then show ?case by (cases g) (auto simp: window_files_eq clip_append clip_past)
qed simp

subsection \<open>The groups\<close>

definition groups_ok :: "RankedFile list \<Rightarrow> nat \<Rightarrow> (string \<times> nat list) list \<Rightarrow> bool" where
  "groups_ok fs n gs \<longleftrightarrow>
     mset (concat (map snd gs)) = mset [0..<n] \<and> distinct (map fst gs)
     \<and> (\<forall>g\<in>set gs. sorted_wrt (<) (snd g) \<and> (\<forall>i\<in>set (snd g). i < n \<and> dir_of (rk_path (fs ! i)) = fst g))"

lemma group_push_parts:
  "mset (concat (map snd (group_push d i gs))) = add_mset i (mset (concat (map snd gs)))"
  "set (map fst (group_push d i gs)) = insert d (set (map fst gs))"
  "distinct (map fst gs) \<Longrightarrow> distinct (map fst (group_push d i gs))"
proof -
  have dirs: "set (map fst (group_push d i gs)) = insert d (set (map fst gs))" for gs
  proof (induction gs)
    case (Cons g gs)
    then show ?case by (cases g) auto
  qed simp
  show "set (map fst (group_push d i gs)) = insert d (set (map fst gs))" by (rule dirs)
  show "mset (concat (map snd (group_push d i gs))) = add_mset i (mset (concat (map snd gs)))"
    by (induction gs) auto
  show "distinct (map fst gs) \<Longrightarrow> distinct (map fst (group_push d i gs))"
  proof (induction gs)
    case (Cons g gs)
    then show ?case using dirs [of gs] by (cases g) auto
  qed simp
qed

lemma group_push_members:
  "g \<in> set (group_push d i gs) \<Longrightarrow> g \<in> set gs \<or> (\<exists>ns. g = (d, ns @ [i]) \<and> (ns = [] \<or> (d, ns) \<in> set gs))"
proof (induction gs)
  case (Cons h gs)
  then show ?case by (cases h) (auto split: if_splits)
qed simp

lemma groups_ok_push:
  assumes "groups_ok fs n gs" "dir_of (rk_path (fs ! n)) = d"
  shows "groups_ok fs (n + 1) (group_push d n gs)"
proof -
  have "sorted_wrt (<) (snd g) \<and> (\<forall>i\<in>set (snd g). i < n + 1 \<and> dir_of (rk_path (fs ! i)) = fst g)" if g: "g \<in> set (group_push d n gs)" for g
  proof -
    consider "g \<in> set gs" | xs where "g = (d, xs @ [n])" "xs = [] \<or> (d, xs) \<in> set gs" using group_push_members [OF g] by blast
    then show ?thesis
    proof cases
      case 1
      then show ?thesis using assms(1) by (auto simp: groups_ok_def less_SucI)
    next
      case 2
      then show ?thesis using assms by (auto 0 3 simp: groups_ok_def sorted_wrt_append less_SucI)
    qed
  qed
  then show ?thesis using assms(1) group_push_parts [where d = d and i = n and gs = gs] by (simp add: groups_ok_def)
qed

lemma group_loop_ok: "groups_ok fs n gs \<Longrightarrow> n \<le> length fs \<Longrightarrow> groups_ok fs (length fs) (group_loop n (drop n fs) gs)"
proof (induction "length fs - n" arbitrary: n gs)
  case (Suc k)
  then have "drop n fs = fs ! n # drop (n + 1) fs" by (simp add: Cons_nth_drop_Suc)
  then show ?case using Suc.hyps(1) [of "n + 1"] Suc.hyps(2) Suc.prems groups_ok_push by simp
qed simp

lemma grouped_ok: "groups_ok (ra_ranked app) (length (ra_ranked app)) (grouped app)"
  using group_loop_ok [of "ra_ranked app" 0 "[]"] by (simp add: grouped_def groups_ok_def)

lemma grouped_indices: "set (concat (map snd (grouped app))) = {0..<length (ra_ranked app)}"
  using grouped_ok [of app] unfolding groups_ok_def by (metis mset_eq_setD set_upt)

subsection \<open>The tree as a list\<close>

text \<open>The directory of a path, everything before its last slash, nothing when it has none; the directories of the files in the order they
  are first seen; and the rows of a tree: every directory followed by its files, in rank order.\<close>

definition parent_dir :: "string \<Rightarrow> string" where
  "parent_dir path = rev (drop 1 (dropWhile (\<lambda>c. c \<noteq> SLASH) (rev path)))"

definition first_seen :: "'a list \<Rightarrow> 'a list" where
  "first_seen xs = rev (remdups (rev xs))"

definition files_of :: "string list \<Rightarrow> string \<Rightarrow> nat list" where
  "files_of paths d = filter (\<lambda>i. parent_dir (paths ! i) = d) [0..<length paths]"

definition tree_of :: "string list \<Rightarrow> TreeRow list" where
  "tree_of paths = concat (map (\<lambda>d. DirRow d # map FileRow (files_of paths d)) (first_seen (map parent_dir paths)))"

lemma first_seen_snoc: "first_seen (xs @ [x]) = (if x \<in> set xs then first_seen xs else first_seen xs @ [x])"
  by (simp add: first_seen_def)

lemma first_seen_set [simp]: "set (first_seen xs) = set xs" "distinct (first_seen xs)"
  by (simp_all add: first_seen_def)

lemma rfind_slash_None: "rfind_sub [SLASH] p = None \<longleftrightarrow> SLASH \<notin> set p"
  by (induction p) (auto split: option.split)

lemma parent_dir_Cons: "parent_dir (c # p) = (if SLASH \<in> set p then c # parent_dir p else [])"
proof -
  have hit: "dropWhile (\<lambda>x. x \<noteq> SLASH) (xs @ ys) = dropWhile (\<lambda>x. x \<noteq> SLASH) xs @ ys \<and> dropWhile (\<lambda>x. x \<noteq> SLASH) xs \<noteq> []"
    if "SLASH \<in> set xs" for xs ys using that by (induction xs) auto
  have miss: "dropWhile (\<lambda>x. x \<noteq> SLASH) (xs @ ys) = dropWhile (\<lambda>x. x \<noteq> SLASH) ys" if "SLASH \<notin> set xs" for xs ys
    using that by (induction xs) auto
  show ?thesis
    using hit [of "rev p" "[c]"] miss [of "rev p" "[c]"] by (cases "SLASH \<in> set p") (auto simp: parent_dir_def neq_Nil_conv Suc_le_eq)
qed

lemma dir_of_parent: "dir_of p = parent_dir p"
proof (induction p)
  case (Cons c p)
  show ?case
  proof (cases "rfind_sub [SLASH] p")
    case None
    then have "SLASH \<notin> set p" by (simp add: rfind_slash_None)
    then show ?thesis using None by (simp add: dir_of_def parent_dir_Cons)
  next
    case (Some i)
    then have "SLASH \<in> set p" using rfind_slash_None [of p] by auto
    then show ?thesis using Cons.IH Some by (simp add: dir_of_def parent_dir_Cons)
  qed
qed (simp add: dir_of_def parent_dir_def)

lemma group_push_map:
  "distinct ds \<Longrightarrow> group_push d i (map (\<lambda>x. (x, F x)) ds) =
     map (\<lambda>x. (x, if x = d then F x @ [i] else F x)) ds @ (if d \<in> set ds then [] else [(d, [i])])"
  by (induction ds) auto

lemma files_of_snoc:
  "files_of (ps @ [p]) d = (if parent_dir p = d then files_of ps d @ [length ps] else files_of ps d)"
proof -
  have "filter (\<lambda>i. parent_dir ((ps @ [p]) ! i) = d) [0..<length ps] = files_of ps d"
    unfolding files_of_def by (rule filter_cong) (auto simp: nth_append)
  then show ?thesis by (simp add: files_of_def nth_append)
qed

lemma files_of_none: "d \<notin> set (map parent_dir ps) \<Longrightarrow> files_of ps d = []"
  by (auto simp: files_of_def filter_empty_conv)

lemma group_push_snoc:
  "group_push (parent_dir p) (length ps) (map (\<lambda>d. (d, files_of ps d)) (first_seen (map parent_dir ps)))
     = map (\<lambda>d. (d, files_of (ps @ [p]) d)) (first_seen (map parent_dir (ps @ [p])))"
  by (auto simp: group_push_map first_seen_snoc files_of_snoc files_of_none)

lemma group_loop_files:
  "group_loop (length ps) fs (map (\<lambda>d. (d, files_of ps d)) (first_seen (map parent_dir ps)))
     = map (\<lambda>d. (d, files_of (ps @ map rk_path fs) d)) (first_seen (map parent_dir (ps @ map rk_path fs)))"
proof (induction fs arbitrary: ps)
  case (Cons f fs)
  then show ?case using Cons.IH [of "ps @ [rk_path f]"] by (simp add: dir_of_parent group_push_snoc del: map_append)
qed simp

lemma tree_rows_spec: "tree_rows (grouped app) = tree_of (map rk_path (ra_ranked app))"
proof -
  have g: "grouped app = map (\<lambda>d. (d, files_of (map rk_path (ra_ranked app)) d)) (first_seen (map parent_dir (map rk_path (ra_ranked app))))"
    using group_loop_files [of "[]" "ra_ranked app"] by (simp add: grouped_def first_seen_def)
  show ?thesis unfolding g tree_rows_def tree_of_def by (simp add: comp_def)
qed

lemma row_files: "List.map_filter row_file (tree_rows gs) = concat (map snd gs)"
proof (induction gs)
  case (Cons g gs)
  have "List.map_filter row_file (map FileRow ns @ xs) = ns @ List.map_filter row_file xs" for ns xs
    by (induction ns) (simp_all add: map_filter_simps)
  then show ?case using Cons by (cases g) (simp add: map_filter_simps)
qed (simp add: map_filter_simps)

lemma file_index_at_row_less:
  assumes "file_index_at_row app r = Some i"
  shows "i < length (ra_ranked app)"
proof -
  have "i \<in> set (List.map_filter row_file (tree_rows (grouped app)))"
    using assms row_loop_eq [of 0 r "grouped app"]
    by (auto simp: file_index_at_row_def map_filter_def nth_get_def bind_eq_Some_conv split: if_splits intro!: image_eqI)
  then show ?thesis using grouped_indices [of app] unfolding row_files by (metis atLeastLessThan_iff)
qed

subsection \<open>Every run of events\<close>

definition app_ok :: "ReviewFile list \<Rightarrow> AgentAnnotation list \<Rightarrow> ReviewApp \<Rightarrow> bool" where
  "app_ok files anns app \<longleftrightarrow>
     ra_ranked app = map fst (aligned files (rank files)) \<and> ra_content app = map snd (aligned files (rank files))
     \<and> ra_annotations app = anns \<and> length (ra_viewed app) = length (ra_ranked app)
     \<and> (if ra_ranked app = [] then ra_selected app = 0 else ra_selected app < length (ra_ranked app))
     \<and> ra_palette_index app < length Command_all \<and> ra_scroll app \<le> usize_max \<and> ra_panel_scroll app \<le> usize_max"

lemma sat_add_usize_le: "sat_add_usize a b \<le> usize_max"
  by (simp add: sat_add_usize_def)

lemmas event_defs = select_next_def select_prev_def toggle_viewed_def select_tree_row_def handle_help_def handle_palette_def handle_panel_def
  run_selected_command_def

lemma handle_review_ok:
  assumes "app_ok files anns app"
  shows "app_ok files anns (handle_review app event)"
proof (cases event)
  case (AeSelectTreeRow row)
  then show ?thesis
    using assms file_index_at_row_less [of app row] by (cases "file_index_at_row app row") (auto simp: app_ok_def event_defs)
next
  case AeToggleViewed
  then show ?thesis using assms by (auto simp: app_ok_def event_defs Let_def split: option.splits)
qed (use assms in \<open>auto simp: app_ok_def event_defs sat_add_usize_le\<close>)

lemma handle_ok:
  assumes "app_ok files anns app"
  shows "app_ok files anns (handle run app event)"
proof (cases "ra_overlay app")
  case OvNone
  then show ?thesis using assms handle_review_ok [OF assms, of event] by (auto simp: handle_def app_ok_def)
next
  case OvHelp
  then show ?thesis using assms by (auto simp: handle_def app_ok_def event_defs)
next
  case OvPalette
  then show ?thesis using assms by (cases event) (auto simp: handle_def app_ok_def event_defs Let_def Command_all_def)
next
  case OvPanel
  then show ?thesis using assms by (cases event) (auto simp: handle_def app_ok_def event_defs sat_add_usize_le)
qed

interpretation cockpit: run_invariant "from_review_with_annotations files anns" "handle run" "\<lambda>_. app_ok files anns" for files anns run
  by unfold_locales (simp_all add: handle_ok, simp add: from_review_with_annotations_def app_ok_def Let_def Command_all_def usize_max_def)

lemma aligned_paths: "map rk_path (map fst (aligned files ranked)) = map rf_path (map snd (aligned files ranked))"
proof -
  have "rk_path (fst x) = rf_path (snd x)" if x: "x \<in> set (aligned files ranked)" for x
  proof -
    obtain r f where "List.find (\<lambda>f. rf_path f = rk_path r) files = Some f" "x = (r, f)"
      using x by (auto simp: aligned_def map_filter_def)
    then show ?thesis by (auto simp: find_Some_iff)
  qed
  then show ?thesis by simp
qed

subsection \<open>Sweeping the review\<close>

definition swept :: "ReviewApp \<Rightarrow> nat \<Rightarrow> ReviewApp \<Rightarrow> bool" where
  "swept start k app \<longleftrightarrow>
     ra_ranked app = ra_ranked start \<and> ra_overlay app = OvNone \<and> ra_running app
     \<and> ra_viewed app = replicate k True @ replicate (length (ra_ranked start) - k) False
     \<and> ra_selected app = min k (length (ra_ranked start) - 1)"

lemma swept_step:
  assumes "swept start k app" "k < length (ra_ranked start)"
  shows "swept start (k + 1) (handle run app AeToggleViewed)"
proof -
  let ?n = "length (ra_ranked start)"
  have v: "ra_viewed app = replicate k True @ False # replicate (?n - (k + 1)) False"
    using assms by (simp add: swept_def Suc_diff_Suc flip: replicate_Suc)
  have sel: "ra_selected app = k" using assms by (simp add: swept_def)
  have "nth_get (ra_viewed app) k = Some False" by (simp add: v nth_get_def nth_append)
  moreover have "(ra_viewed app)[k := True] = replicate (k + 1) True @ replicate (?n - (k + 1)) False"
    using replicate_append_same [of k True] by (simp add: v list_update_append flip: append_assoc)
  ultimately show ?thesis
    using assms sel by (auto simp: swept_def handle_def toggle_viewed_def Let_def select_next_def)
qed

lemma swept_all: "k \<le> length (ra_ranked start) \<Longrightarrow> swept start 0 start \<Longrightarrow> swept start k (foldl (handle run) start (replicate k AeToggleViewed))"
proof (induction k)
  case (Suc k)
  then show ?case using swept_step [of start k] by (simp add: replicate_append_same [symmetric])
qed simp

subsection \<open>The properties\<close>

text \<open>C35: no sequence of keys, clicks and commands takes the cockpit out of range: the ranking, the content and the notes
  stay what the review opened with, entry by entry for the same paths, the flags cover every file, the selection names a file
  unless there is none, the palette index names a command, and the scroll offsets stay within the machine word.\<close>

theorem cockpit_stays_in_range:
  "ra_ranked (foldl (handle run) (from_review_with_annotations files anns) events) = ra_ranked (from_review_with_annotations files anns)
   \<and> ra_content (foldl (handle run) (from_review_with_annotations files anns) events) = ra_content (from_review_with_annotations files anns)
   \<and> ra_annotations (foldl (handle run) (from_review_with_annotations files anns) events) = anns
   \<and> map rk_path (ra_ranked (from_review_with_annotations files anns)) = map rf_path (ra_content (from_review_with_annotations files anns))
   \<and> length (ra_viewed (foldl (handle run) (from_review_with_annotations files anns) events)) = length (ra_ranked (from_review_with_annotations files anns))
   \<and> (if ra_ranked (from_review_with_annotations files anns) = []
      then ra_selected (foldl (handle run) (from_review_with_annotations files anns) events) = 0
      else ra_selected (foldl (handle run) (from_review_with_annotations files anns) events) < length (ra_ranked (from_review_with_annotations files anns)))
   \<and> ra_palette_index (foldl (handle run) (from_review_with_annotations files anns) events) < length Command_all
   \<and> ra_scroll (foldl (handle run) (from_review_with_annotations files anns) events) \<le> usize_max
   \<and> ra_panel_scroll (foldl (handle run) (from_review_with_annotations files anns) events) \<le> usize_max"
proof -
  have "app_ok files anns (foldl (handle run) (from_review_with_annotations files anns) events)" by (rule cockpit.inv_run)
  moreover have "app_ok files anns (from_review_with_annotations files anns)" by (rule cockpit.inv_init)
  ultimately show ?thesis using aligned_paths [of files "rank files"] unfolding app_ok_def by (auto split: if_splits)
qed

text \<open>C34: the tree shows every file once and its row computations agree: the rows are the directories of the
  ranked paths in the order they are first seen, each followed by its files in rank order, the window built for a viewport is exactly that part of the rows, a row resolves to the file it shows,
  the row of the selection resolves to the selection, and the scroll keeps it inside the viewport.\<close>

theorem tree_rows_agree:
  assumes "ra_selected app < length (ra_ranked app)" "0 < height"
  shows "tree_rows (grouped app) = tree_of (map rk_path (ra_ranked app))
     \<and> mset (List.map_filter row_file (tree_rows (grouped app))) = mset [0..<length (ra_ranked app)]
     \<and> tree_window app (a, b) = take (b - a) (drop a (tree_rows (grouped app)))
     \<and> file_index_at_row app row = Option.bind (nth_get (tree_rows (grouped app)) row) row_file
     \<and> file_index_at_row app (selected_row app) = Some (ra_selected app)
     \<and> tree_scroll app height \<le> selected_row app \<and> selected_row app < tree_scroll app height + height"
proof -
  have "ra_selected app \<in> set (concat (map snd (grouped app)))" unfolding grouped_indices using assms(1) by simp
  note sel = selected_loop_row [OF this, of 0]
  have "ra_ranked app \<noteq> []" using assms(1) by auto
  then have "tree_window app (a, b) = take (b - a) (drop a (tree_rows (grouped app)))"
    by (simp add: tree_window_def window_loop_eq clip_take_drop)
  moreover have at: "file_index_at_row app r = Option.bind (nth_get (tree_rows (grouped app)) r) row_file" for r
    using row_loop_eq [of 0 r "grouped app"] by (simp add: file_index_at_row_def)
  moreover have "file_index_at_row app (selected_row app) = Some (ra_selected app)"
    using sel at [of "selected_row app"] by (simp add: selected_row_def nth_get_def)
  moreover have "mset (List.map_filter row_file (tree_rows (grouped app))) = mset [0..<length (ra_ranked app)]"
    using grouped_ok [of app] by (simp only: row_files groups_ok_def)
  moreover have "tree_scroll app height \<le> selected_row app" "selected_row app < tree_scroll app height + height"
    using assms(2) by (auto simp: tree_scroll_def keep_visible_def)
  ultimately show ?thesis using tree_rows_spec [of app] by blast
qed

definition sample_app :: ReviewApp where
  "sample_app = (from_review [])\<lparr>ra_ranked := map (\<lambda>p. \<lparr>rk_path = p, rk_status = FsModified, rk_score = 0, rk_signals = [], rk_evidence = [],
     rk_evidence_truncated = False\<rparr>) [''b/x'', ''c'', ''b/y''], ra_selected := 2\<rparr>"

theorem tree_rows_agree_witness:
  "tree_window sample_app (0, 3) = [DirRow ''b'', FileRow 0, FileRow 2] \<and> file_index_at_row sample_app (selected_row sample_app) = Some 2"
proof -
  have sel: "ra_selected sample_app = 2" "length (ra_ranked sample_app) = 3" by (simp_all add: sample_app_def)
  have rows: "tree_rows (grouped sample_app) = [DirRow ''b'', FileRow 0, FileRow 2, DirRow [], FileRow 1]"
    by (simp add: grouped_def sample_app_def dir_of_def tree_rows_def)
  show ?thesis using tree_rows_agree [of sample_app 1 0 3 0] by (simp add: sel rows)
qed

text \<open>One key reviews everything: pressing the reviewed key once for each file marks every file reviewed, from the first to
  the last, and leaves the review open.\<close>

theorem sweep_reviews_all:
  "swept (from_review_with_annotations files anns) (length (ra_ranked (from_review_with_annotations files anns)))
     (foldl (handle run) (from_review_with_annotations files anns)
        (replicate (length (ra_ranked (from_review_with_annotations files anns))) AeToggleViewed))
   \<and> viewed_count (foldl (handle run) (from_review_with_annotations files anns)
        (replicate (length (ra_ranked (from_review_with_annotations files anns))) AeToggleViewed))
     = length (ra_ranked (from_review_with_annotations files anns))"
proof -
  have "swept (from_review_with_annotations files anns) 0 (from_review_with_annotations files anns)"
    by (simp add: swept_def from_review_with_annotations_def Let_def)
  from swept_all [OF order_refl this, of run] show ?thesis by (simp add: swept_def viewed_count_def)
qed

end
