(* ===== verification/Std_More.thy ===== *)
theory Std_More
  imports Std_Text
begin

text \<open>
  The parts of the standard library that only the structural diff, the shared review service and the engine's notes
  call: sub-slices, \<open>str::get\<close> on a byte range, \<open>str::lines\<close>, \<open>join\<close> and saturating multiplication.
\<close>

definition sub_range :: "'a list \<Rightarrow> nat \<Rightarrow> nat \<Rightarrow> 'a list" where
  "sub_range xs a b = take (b - a) (drop a xs)"

fun str_join :: "string \<Rightarrow> string list \<Rightarrow> string" where
  "str_join sep [] = []"
| "str_join sep [s] = s"
| "str_join sep (s # t # ts) = s @ sep @ str_join sep (t # ts)"

text \<open>A byte offset is a character boundary at the ends and before every byte that does not continue a character.\<close>

definition is_char_boundary :: "string \<Rightarrow> nat \<Rightarrow> bool" where
  "is_char_boundary s i \<longleftrightarrow> i = 0 \<or> i = length s \<or> i < length s \<and> \<not> (128 \<le> byte (s ! i) \<and> byte (s ! i) < 192)"

definition str_get :: "string \<Rightarrow> nat \<Rightarrow> nat \<Rightarrow> string option" where
  "str_get s a b =
     (if a \<le> b \<and> b \<le> length s \<and> is_char_boundary s a \<and> is_char_boundary s b then Some (sub_range s a b) else None)"

text \<open>\<open>str::lines\<close>: the parts between line feeds without a last empty one, each without one trailing carriage return.\<close>

definition strip_cr :: "string \<Rightarrow> string" where
  "strip_cr s = (if s \<noteq> [] \<and> last s = CR then butlast s else s)"

text \<open>The carriage return goes only together with its line feed.\<close>

definition str_lines :: "string \<Rightarrow> string list" where
  "str_lines s =
     (let parts = split_char LF s in
      map strip_cr (butlast parts) @ (if last parts = [] then [] else [last parts]))"

definition sat_mul_usize :: "nat \<Rightarrow> nat \<Rightarrow> nat" where
  "sat_mul_usize a b = min (a * b) usize_max"

lemma sub_range_length [simp]: "length (sub_range xs a b) = min (length xs - a) (b - a)"
  by (simp add: sub_range_def min.commute)

lemma sub_range_nth: "a + k < b \<Longrightarrow> b \<le> length xs \<Longrightarrow> sub_range xs a b ! k = xs ! (a + k)"
  by (simp add: sub_range_def)

lemma sub_range_split: "a \<le> b \<Longrightarrow> b \<le> c \<Longrightarrow> sub_range xs a c = sub_range xs a b @ sub_range xs b c"
proof -
  assume "a \<le> b" "b \<le> c"
  then have "sub_range xs a c = take (b - a + (c - b)) (drop a xs)" by (simp add: sub_range_def)
  also have "\<dots> = sub_range xs a b @ sub_range xs b c"
    using \<open>a \<le> b\<close> by (simp only: take_add sub_range_def) (simp add: drop_drop)
  finally show ?thesis .
qed

lemma sub_range_all [simp]: "sub_range xs 0 (length xs) = xs"
  by (simp add: sub_range_def)

lemma sub_range_same [simp]: "sub_range xs a a = []"
  by (simp add: sub_range_def)

end
