(* ===== verification/Structural.thy ===== *)
theory Structural
  imports Core_Model Std_More
begin

text \<open>
  The structural diff: \<open>src/crates/deep-diff-forge-syntax/src/\<close> \<open>language.rs\<close> and \<open>structural.rs\<close>. The grammar library
  is a parameter: whether its language loads, the tree it parses a source into (none when the parse is cancelled) and
  whether that tree has errors. The longest-common-subsequence tables are the flat vectors of the code, filled in the
  order of its loops; a hash map is an association list, a queue map a function.
\<close>

subsection \<open>Languages\<close>

datatype SyntaxLanguage = SlRust | SlUnsupported

fun SyntaxLanguage_name :: "SyntaxLanguage \<Rightarrow> string" where
  "SyntaxLanguage_name SlRust = ''rust''"
| "SyntaxLanguage_name SlUnsupported = ''unsupported''"

definition SyntaxLanguage_is_supported :: "SyntaxLanguage \<Rightarrow> bool" where
  "SyntaxLanguage_is_supported l \<longleftrightarrow> l = SlRust"

definition syntax_detect_language :: "string \<Rightarrow> SyntaxLanguage" where
  "syntax_detect_language path =
     (let ext = rsplit_first (CHR ''.'') path in if ext \<noteq> path \<and> ext = ''rs'' then SlRust else SlUnsupported)"

subsection \<open>Tokens\<close>

definition LCS_CELL_BUDGET :: nat where
  "LCS_CELL_BUDGET = 4000000"

definition SYNTAX_BYTE_BUDGET :: nat where
  "SYNTAX_BYTE_BUDGET = 2 * 1024 * 1024"

record Token =
  tk_text :: string
  tk_line :: nat

datatype ChangeKind = CkUnchanged | CkAdded | CkRemoved | CkMoved

fun ChangeKind_label :: "ChangeKind \<Rightarrow> string" where
  "ChangeKind_label CkUnchanged = ''unchanged''"
| "ChangeKind_label CkAdded = ''added''"
| "ChangeKind_label CkRemoved = ''removed''"
| "ChangeKind_label CkMoved = ''moved''"

record TokenChange =
  tc_kind :: ChangeKind
  tc_text :: string
  tc_old_line :: "nat option"
  tc_new_line :: "nat option"

datatype StructuralState = StUnavailable FallbackReason | StDegraded | StLineAnchored | StMinimal bool

record StructuralDiff =
  sf_language :: SyntaxLanguage
  sf_changes :: "TokenChange list"
  sf_unchanged :: nat
  sf_added :: nat
  sf_removed :: nat
  sf_moved :: nat
  sf_state :: StructuralState

definition reformat_only :: "StructuralDiff \<Rightarrow> bool" where
  "reformat_only d \<longleftrightarrow> sf_state d = StMinimal True"

definition degraded :: "StructuralDiff \<Rightarrow> bool" where
  "degraded d \<longleftrightarrow> (case sf_state d of StDegraded \<Rightarrow> True | StUnavailable r \<Rightarrow> True | _ \<Rightarrow> False)"

definition is_minimal :: "StructuralDiff \<Rightarrow> bool" where
  "is_minimal d \<longleftrightarrow> (case sf_state d of StMinimal r \<Rightarrow> True | _ \<Rightarrow> False)"

definition unavailable :: "StructuralDiff \<Rightarrow> FallbackReason option" where
  "unavailable d = (case sf_state d of StUnavailable r \<Rightarrow> Some r | _ \<Rightarrow> None)"

text \<open>A node of the library's tree, as far as the walk reads it, and the library itself.\<close>

datatype TsNode = TsNode (ts_kind: string) (ts_start: nat) (ts_end: nat) (ts_row: nat) (ts_children: "TsNode list")

record Grammar =
  gr_loads :: bool
  gr_parse :: "string \<Rightarrow> TsNode option"
  gr_has_error :: "TsNode \<Rightarrow> bool"

definition comment_token :: "string \<Rightarrow> string" where
  "comment_token text = str_join [LF] (map trim_end (str_lines text))"

definition is_comment :: "string \<Rightarrow> bool" where
  "is_comment kind \<longleftrightarrow> kind = ''line_comment'' \<or> kind = ''block_comment''"

definition is_whole_token :: "string \<Rightarrow> bool" where
  "is_whole_token kind \<longleftrightarrow> is_comment kind \<or> kind = ''string_literal'' \<or> kind = ''raw_string_literal''"

definition leaf_token :: "string \<Rightarrow> TsNode \<Rightarrow> Token list" where
  "leaf_token source node =
     (case str_get source (ts_start node) (ts_end node) of
        None \<Rightarrow> []
      | Some text \<Rightarrow>
          if str_trim text = [] then []
          else [\<lparr>tk_text = (if is_comment (ts_kind node) then comment_token text else text), tk_line = min (ts_row node + 1) u32_max\<rparr>])"

text \<open>The walk; the top of the stack is the head, so the reversed pushes leave the children in order.\<close>

function leaf_loop :: "string \<Rightarrow> TsNode list \<Rightarrow> nat \<Rightarrow> Token list \<Rightarrow> FallbackReason + Token list" where
  "leaf_loop source [] visited tokens = Inr tokens"
| "leaf_loop source (node # stack) visited tokens =
     (if 200000 < visited + 1 then Inl NodeBudgetExceeded
      else if ts_children node = [] \<or> is_whole_token (ts_kind node)
      then leaf_loop source stack (visited + 1) (tokens @ leaf_token source node)
      else leaf_loop source (ts_children node @ stack) (visited + 1) tokens)"
  by pat_completeness auto
termination
proof (relation "measure (\<lambda>(source, stack, visited, tokens). sum_list (map size stack))")
  fix node :: TsNode and stack :: "TsNode list" and source :: string and visited :: nat and tokens :: "Token list"
  have "sum_list (map size cs) \<le> size_list size cs" for cs :: "TsNode list" by (induction cs) auto
  then show "((source, ts_children node @ stack, visited + 1, tokens), source, node # stack, visited, tokens)
      \<in> measure (\<lambda>(source, stack, visited, tokens). sum_list (map size stack))"
    by (cases node) (simp add: le_imp_less_Suc)
next
  fix node :: TsNode and stack :: "TsNode list" and source :: string and visited :: nat and tokens :: "Token list"
  show "((source, stack, visited + 1, tokens @ leaf_token source node), source, node # stack, visited, tokens)
      \<in> measure (\<lambda>(source, stack, visited, tokens). sum_list (map size stack))"
    by (cases node) simp
qed simp

definition tokenize_checked :: "Grammar \<Rightarrow> SyntaxLanguage \<Rightarrow> string \<Rightarrow> FallbackReason + Token list" where
  "tokenize_checked grammar language source =
     (if language \<noteq> SlRust then Inl UnsupportedLanguage
      else if SYNTAX_BYTE_BUDGET < length source then Inl ByteBudgetExceeded
      else if \<not> gr_loads grammar then Inl UnsupportedLanguage
      else case gr_parse grammar source of
        None \<Rightarrow> Inl TimeBudgetExceeded
      | Some root \<Rightarrow> if gr_has_error grammar root then Inl ParseErrorsExceeded else leaf_loop source [root] 0 [])"

definition tokenize :: "Grammar \<Rightarrow> SyntaxLanguage \<Rightarrow> string \<Rightarrow> Token list" where
  "tokenize grammar language source = (case tokenize_checked grammar language source of Inl e \<Rightarrow> [] | Inr ts \<Rightarrow> ts)"

subsection \<open>The edit script\<close>

datatype Op = OpEqual nat nat | OpDelete nat | OpInsert nat

definition same_text :: "Token \<times> Token \<Rightarrow> bool" where
  "same_text p \<longleftrightarrow> tk_text (fst p) = tk_text (snd p)"

definition common_affixes :: "Token list \<Rightarrow> Token list \<Rightarrow> nat \<times> nat" where
  "common_affixes old new =
     (let prefix = length (takeWhile same_text (zip old new)) in
      (prefix, length (takeWhile same_text (zip (rev (drop prefix old)) (rev (drop prefix new))))))"

text \<open>The table both passes fill: one row and one column more than the keys, cell \<open>(i, j)\<close> at \<open>i * width + j\<close>.\<close>

definition table_cell :: "'k list \<Rightarrow> 'k list \<Rightarrow> nat \<Rightarrow> nat \<Rightarrow> nat list \<Rightarrow> nat" where
  "table_cell xs ys i j table =
     (let width = length ys + 1 in
      if xs ! i = ys ! j then table ! ((i + 1) * width + (j + 1)) + 1
      else max (table ! ((i + 1) * width + j)) (table ! (i * width + (j + 1))))"

definition table_row :: "'k list \<Rightarrow> 'k list \<Rightarrow> nat \<Rightarrow> nat list \<Rightarrow> nat list" where
  "table_row xs ys i table =
     foldl (\<lambda>t j. t[i * (length ys + 1) + j := table_cell xs ys i j t]) table (rev [0..<length ys])"

definition lcs_table :: "'k list \<Rightarrow> 'k list \<Rightarrow> nat list" where
  "lcs_table xs ys =
     foldl (\<lambda>t i. table_row xs ys i t) (replicate ((length xs + 1) * (length ys + 1)) 0) (rev [0..<length xs])"

definition drop_old :: "nat \<Rightarrow> nat list \<Rightarrow> nat \<Rightarrow> nat \<Rightarrow> bool" where
  "drop_old width table i j \<longleftrightarrow> table ! (i * width + (j + 1)) \<le> table ! ((i + 1) * width + j)"

function lcs_loop :: "'k list \<Rightarrow> 'k list \<Rightarrow> nat list \<Rightarrow> nat \<Rightarrow> nat \<Rightarrow> nat \<Rightarrow> Op list" where
  "lcs_loop xs ys table prefix i j =
     (if i < length xs \<and> j < length ys then
        if xs ! i = ys ! j then OpEqual (prefix + i) (prefix + j) # lcs_loop xs ys table prefix (i + 1) (j + 1)
        else if drop_old (length ys + 1) table i j then OpDelete (prefix + i) # lcs_loop xs ys table prefix (i + 1) j
        else OpInsert (prefix + j) # lcs_loop xs ys table prefix i (j + 1)
      else map (\<lambda>k. OpDelete (prefix + k)) [i..<length xs] @ map (\<lambda>k. OpInsert (prefix + k)) [j..<length ys])"
  by pat_completeness auto
termination by (relation "measure (\<lambda>(xs, ys, table, prefix, i, j). (length xs - i) + (length ys - j))") auto

declare lcs_loop.simps [simp del]

definition lcs_ops :: "Token list \<Rightarrow> Token list \<Rightarrow> Op list" where
  "lcs_ops old new =
     (let (prefix, suffix) = common_affixes old new;
          n = length old - prefix - suffix;
          m = length new - prefix - suffix;
          old_mid = map tk_text (sub_range old prefix (prefix + n));
          new_mid = map tk_text (sub_range new prefix (prefix + m)) in
      map (\<lambda>k. OpEqual k k) [0..<prefix]
      @ lcs_loop old_mid new_mid (lcs_table old_mid new_mid) prefix 0 0
      @ map (\<lambda>k. OpEqual (prefix + n + k) (prefix + m + k)) [0..<suffix])"

definition run_push :: "Token list \<Rightarrow> (nat \<times> nat) list \<Rightarrow> nat \<Rightarrow> (nat \<times> nat) list" where
  "run_push tokens runs k =
     (if runs \<noteq> [] \<and> tk_line (tokens ! fst (last runs)) = tk_line (tokens ! k)
      then butlast runs @ [(fst (last runs), k + 1)] else runs @ [(k, k + 1)])"

definition line_runs :: "Token list \<Rightarrow> (nat \<times> nat) list" where
  "line_runs tokens = foldl (run_push tokens) [] [0..<length tokens]"

type_synonym line_ids = "(string list \<times> nat) list"

definition run_texts :: "Token list \<Rightarrow> nat \<times> nat \<Rightarrow> string list" where
  "run_texts tokens run = map tk_text (sub_range tokens (fst run) (snd run))"

fun intern_lines :: "line_ids \<Rightarrow> Token list \<Rightarrow> (nat \<times> nat) list \<Rightarrow> line_ids \<times> nat list" where
  "intern_lines ids side [] = (ids, [])"
| "intern_lines ids side (run # runs) =
     (let key = run_texts side run;
          (ids', i) = (case map_of ids key of Some i \<Rightarrow> (ids, i) | None \<Rightarrow> (ids @ [(key, length ids)], length ids));
          (ids'', is) = intern_lines ids' side runs in
      (ids'', i # is))"

fun shift_op :: "nat \<Rightarrow> nat \<Rightarrow> Op \<Rightarrow> Op" where
  "shift_op a b (OpEqual i j) = OpEqual (a + i) (b + j)"
| "shift_op a b (OpDelete i) = OpDelete (a + i)"
| "shift_op a b (OpInsert j) = OpInsert (b + j)"

definition gap_ops :: "Token list \<Rightarrow> Token list \<Rightarrow> nat \<times> nat \<Rightarrow> nat \<times> nat \<Rightarrow> nat \<Rightarrow> (nat \<times> Op list) option" where
  "gap_ops old new from to spent =
     (let spent' = sat_add_usize spent (sat_mul_usize (fst to - fst from) (snd to - snd from)) in
      if LCS_CELL_BUDGET < spent' then None
      else Some (spent',
        map (shift_op (fst from) (snd from)) (lcs_ops (sub_range old (fst from) (fst to)) (sub_range new (snd from) (snd to)))))"

text \<open>The walk over anchored lines: it returns the ops it emits, the cursors where they end and the cells spent.\<close>

record LineSide =
  ls_tokens :: "Token list"
  ls_runs :: "(nat \<times> nat) list"
  ls_ids :: "nat list"

function anchor_loop :: "LineSide \<Rightarrow> LineSide \<Rightarrow> nat list \<Rightarrow> nat \<Rightarrow> nat \<Rightarrow> nat \<Rightarrow> nat \<times> nat \<Rightarrow> nat
    \<Rightarrow> (Op list \<times> (nat \<times> nat) \<times> nat) option" where
  "anchor_loop old new table prefix i j cursor spent =
     (if i < length (ls_ids old) \<and> j < length (ls_ids new) then
        if ls_ids old ! i = ls_ids new ! j then
          (let old_line = prefix + fst (ls_runs old ! i);
               new_line = prefix + fst (ls_runs new ! j);
               len = snd (ls_runs old ! i) - fst (ls_runs old ! i) in
           Option.bind (gap_ops (ls_tokens old) (ls_tokens new) cursor (old_line, new_line) spent) (\<lambda>(spent', ops).
           map_option (\<lambda>(rest, end). (ops @ map (\<lambda>k. OpEqual (old_line + k) (new_line + k)) [0..<len] @ rest, end))
             (anchor_loop old new table prefix (i + 1) (j + 1) (old_line + len, new_line + len) spent')))
        else if drop_old (length (ls_ids new) + 1) table i j then anchor_loop old new table prefix (i + 1) j cursor spent
        else anchor_loop old new table prefix i (j + 1) cursor spent
      else Some ([], cursor, spent))"
  by pat_completeness auto
termination
  by (relation "measure (\<lambda>(old, new, table, prefix, i, j, cursor, spent). (length (ls_ids old) - i) + (length (ls_ids new) - j))") auto

declare anchor_loop.simps [simp del]

definition line_anchored_ops :: "Token list \<Rightarrow> Token list \<Rightarrow> Op list option" where
  "line_anchored_ops old new =
     (let (prefix, suffix) = common_affixes old new;
          old_end = length old - suffix;
          new_end = length new - suffix;
          old_lines = line_runs (sub_range old prefix old_end);
          new_lines = line_runs (sub_range new prefix new_end) in
      if LCS_CELL_BUDGET < sat_mul_usize (length old_lines) (length new_lines) then None
      else
        (let (ids, old_ids) = intern_lines [] (sub_range old prefix old_end) old_lines;
             (ids', new_ids) = intern_lines ids (sub_range new prefix new_end) new_lines in
         Option.bind (anchor_loop \<lparr>ls_tokens = old, ls_runs = old_lines, ls_ids = old_ids\<rparr>
             \<lparr>ls_tokens = new, ls_runs = new_lines, ls_ids = new_ids\<rparr> (lcs_table old_ids new_ids) prefix 0 0 (prefix, prefix) 0)
           (\<lambda>(ops, cursor, spent).
         map_option (\<lambda>(spent', last_ops). map (\<lambda>k. OpEqual k k) [0..<prefix] @ ops @ last_ops
               @ map (\<lambda>k. OpEqual (old_end + k) (new_end + k)) [0..<suffix])
           (gap_ops old new cursor (old_end, new_end) spent))))"

subsection \<open>Moves\<close>

definition MIN_MOVE_RUN :: nat where
  "MIN_MOVE_RUN = 3"

fun is_delete :: "Op \<Rightarrow> bool" where
  "is_delete (OpDelete i) = True"
| "is_delete op = False"

fun is_insert :: "Op \<Rightarrow> bool" where
  "is_insert (OpInsert j) = True"
| "is_insert op = False"

function skip_while :: "(Op \<Rightarrow> bool) \<Rightarrow> Op list \<Rightarrow> nat \<Rightarrow> nat" where
  "skip_while p ops k = (if k < length ops \<and> p (ops ! k) then skip_while p ops (k + 1) else k)"
  by pat_completeness auto
termination by (relation "measure (\<lambda>(p, ops, k). length ops - k)") auto

declare skip_while.simps [simp del]

lemma skip_while_ge: "k \<le> skip_while p ops k"
proof (induction p ops k rule: skip_while.induct)
  case (1 p ops k)
  then show ?case by (subst skip_while.simps) (auto dest: Suc_leD)
qed

lemma skip_while_gt: "k < length ops \<Longrightarrow> p (ops ! k) \<Longrightarrow> k < skip_while p ops k"
  using skip_while_ge [of "k + 1" p ops] by (subst skip_while.simps) simp

text \<open>The runs of deletes and of inserts, as ranges of op positions.\<close>

function op_runs :: "Op list \<Rightarrow> nat \<Rightarrow> (nat \<times> nat) list \<times> (nat \<times> nat) list" where
  "op_runs ops k =
     (if length ops \<le> k then ([], [])
      else if is_delete (ops ! k) then
        (let e = skip_while is_delete ops k; (ds, is) = op_runs ops e in ((k, e) # ds, is))
      else if is_insert (ops ! k) then
        (let e = skip_while is_insert ops k; (ds, is) = op_runs ops e in (ds, (k, e) # is))
      else op_runs ops (k + 1))"
  by pat_completeness auto
termination
proof (relation "measure (\<lambda>(ops, k). length ops - k)")
  fix ops k e
  assume "\<not> length ops \<le> k" "is_delete (ops ! k)" "e = skip_while is_delete ops k"
  then show "((ops, e), ops, k) \<in> measure (\<lambda>(ops, k). length ops - k)"
    using skip_while_gt [of k ops is_delete] by simp
next
  fix ops k e
  assume "\<not> length ops \<le> k" "is_insert (ops ! k)" "e = skip_while is_insert ops k"
  then show "((ops, e), ops, k) \<in> measure (\<lambda>(ops, k). length ops - k)"
    using skip_while_gt [of k ops is_insert] by simp
qed auto

declare op_runs.simps [simp del]

fun op_text :: "Token list \<Rightarrow> Token list \<Rightarrow> Op \<Rightarrow> string option" where
  "op_text old new (OpDelete i) = Some (tk_text (old ! i))"
| "op_text old new (OpInsert j) = Some (tk_text (new ! j))"
| "op_text old new (OpEqual i j) = None"

definition run_text :: "Op list \<Rightarrow> Token list \<Rightarrow> Token list \<Rightarrow> nat \<times> nat \<Rightarrow> string list" where
  "run_text ops old new run = List.map_filter (op_text old new) (sub_range ops (fst run) (snd run))"

type_synonym run_index = "string list \<rightharpoonup> (nat \<times> nat) list"

definition index_push :: "string list \<Rightarrow> nat \<times> nat \<Rightarrow> run_index \<Rightarrow> run_index" where
  "index_push text ins unused = unused(text \<mapsto> (case unused text of None \<Rightarrow> [] | Some q \<Rightarrow> q) @ [ins])"

definition index_runs :: "Op list \<Rightarrow> Token list \<Rightarrow> Token list \<Rightarrow> (nat \<times> nat) list \<Rightarrow> run_index" where
  "index_runs ops old new insert_runs =
     foldl (\<lambda>unused ins. let text = run_text ops old new ins in
              if MIN_MOVE_RUN \<le> length text then index_push text ins unused else unused) Map.empty insert_runs"

definition match_run :: "Op list \<Rightarrow> Token list \<Rightarrow> Token list \<Rightarrow> run_index \<times> nat set \<Rightarrow> nat \<times> nat \<Rightarrow> run_index \<times> nat set" where
  "match_run ops old new st d =
     (case fst st (run_text ops old new d) of
        Some (ins # q) \<Rightarrow> ((fst st)(run_text ops old new d \<mapsto> q), snd st \<union> {fst d..<snd d} \<union> {fst ins..<snd ins})
      | _ \<Rightarrow> st)"

definition moved_ops :: "Op list \<Rightarrow> Token list \<Rightarrow> Token list \<Rightarrow> nat set" where
  "moved_ops ops old new =
     (let (delete_runs, insert_runs) = op_runs ops 0 in
      snd (foldl (match_run ops old new) (index_runs ops old new insert_runs, {}) delete_runs))"

fun op_change :: "Token list \<Rightarrow> Token list \<Rightarrow> bool \<Rightarrow> Op \<Rightarrow> TokenChange" where
  "op_change old new moved (OpEqual i j) =
     \<lparr>tc_kind = CkUnchanged, tc_text = tk_text (old ! i), tc_old_line = Some (tk_line (old ! i)), tc_new_line = Some (tk_line (new ! j))\<rparr>"
| "op_change old new moved (OpDelete i) =
     \<lparr>tc_kind = (if moved then CkMoved else CkRemoved), tc_text = tk_text (old ! i), tc_old_line = Some (tk_line (old ! i)), tc_new_line = None\<rparr>"
| "op_change old new moved (OpInsert j) =
     \<lparr>tc_kind = (if moved then CkMoved else CkAdded), tc_text = tk_text (new ! j), tc_old_line = None, tc_new_line = Some (tk_line (new ! j))\<rparr>"

definition mark_moves :: "Op list \<Rightarrow> Token list \<Rightarrow> Token list \<Rightarrow> TokenChange list" where
  "mark_moves ops old new =
     (let moved = moved_ops ops old new in
      map (\<lambda>idx. op_change old new (idx \<in> moved) (ops ! idx)) [0..<length ops])"

subsection \<open>The diff\<close>

definition coarse_diff :: "SyntaxLanguage \<Rightarrow> Token list \<Rightarrow> Token list \<Rightarrow> StructuralDiff" where
  "coarse_diff language old new =
     \<lparr>sf_language = language,
      sf_changes = map (\<lambda>t. \<lparr>tc_kind = CkRemoved, tc_text = tk_text t, tc_old_line = Some (tk_line t), tc_new_line = None\<rparr>) old
        @ map (\<lambda>t. \<lparr>tc_kind = CkAdded, tc_text = tk_text t, tc_old_line = None, tc_new_line = Some (tk_line t)\<rparr>) new,
      sf_unchanged = 0, sf_added = length new, sf_removed = length old, sf_moved = 0, sf_state = StDegraded\<rparr>"

definition count_changes :: "ChangeKind \<Rightarrow> TokenChange list \<Rightarrow> nat" where
  "count_changes kind changes = length (filter (\<lambda>c. tc_kind c = kind) changes)"

definition script_diff :: "SyntaxLanguage \<Rightarrow> Token list \<Rightarrow> Token list \<Rightarrow> Op list \<Rightarrow> bool \<Rightarrow> StructuralDiff" where
  "script_diff language old new ops minimal =
     (let changes = mark_moves ops old new;
          same = count_changes CkAdded changes = 0 \<and> count_changes CkRemoved changes = 0 \<and> count_changes CkMoved changes = 0 in
      \<lparr>sf_language = language, sf_changes = (if same then [] else changes),
       sf_unchanged = count_changes CkUnchanged changes, sf_added = count_changes CkAdded changes,
       sf_removed = count_changes CkRemoved changes, sf_moved = count_changes CkMoved changes,
       sf_state = (if same then StMinimal True else if minimal then StMinimal False else StLineAnchored)\<rparr>)"

definition diff_tokens :: "SyntaxLanguage \<Rightarrow> Token list \<Rightarrow> Token list \<Rightarrow> StructuralDiff" where
  "diff_tokens language old new =
     (let (prefix, suffix) = common_affixes old new in
      if sat_mul_usize (length old - prefix - suffix) (length new - prefix - suffix) \<le> LCS_CELL_BUDGET
      then script_diff language old new (lcs_ops old new) True
      else case line_anchored_ops old new of
        Some ops \<Rightarrow> script_diff language old new ops False
      | None \<Rightarrow> coarse_diff language old new)"

definition structural_diff :: "Grammar \<Rightarrow> SyntaxLanguage \<Rightarrow> string \<Rightarrow> string \<Rightarrow> StructuralDiff" where
  "structural_diff grammar language old_source new_source =
     (case (tokenize_checked grammar language old_source, tokenize_checked grammar language new_source) of
        (Inr old, Inr new) \<Rightarrow> diff_tokens language old new
      | (Inl reason, _) \<Rightarrow> \<lparr>sf_language = language, sf_changes = [], sf_unchanged = 0, sf_added = 0, sf_removed = 0, sf_moved = 0, sf_state = StUnavailable reason\<rparr>
      | (Inr old, Inl reason) \<Rightarrow> \<lparr>sf_language = language, sf_changes = [], sf_unchanged = 0, sf_added = 0, sf_removed = 0, sf_moved = 0, sf_state = StUnavailable reason\<rparr>)"

end
