(* ===== verification/Structural_Props.thy ===== *)
theory Structural_Props
  imports Structural "HOL-Library.Sublist" "HOL-Library.Multiset"
begin

text \<open>
  The structural diff is right: the table holds longest-common-subsequence lengths, every script is an exact walk through
  both token streams, the direct script matches as many tokens as any common subsequence, and moved blocks come in pairs.
\<close>

subsection \<open>Longest common subsequences\<close>

fun lcs_len :: "'k list \<Rightarrow> 'k list \<Rightarrow> nat" where
  "lcs_len [] ys = 0"
| "lcs_len xs [] = 0"
| "lcs_len (x # xs) (y # ys) = (if x = y then lcs_len xs ys + 1 else max (lcs_len xs (y # ys)) (lcs_len (x # xs) ys))"

lemma lcs_len_Nil2 [simp]: "lcs_len xs [] = 0"
  by (cases xs) auto

lemma lcs_len_attained: "\<exists>zs. subseq zs xs \<and> subseq zs ys \<and> length zs = lcs_len xs ys"
proof (induction xs ys rule: lcs_len.induct)
  case (3 x xs y ys)
  show ?case
  proof (cases "x = y")
    case True
    with 3(1) obtain zs where "subseq zs xs" "subseq zs ys" "length zs = lcs_len xs ys" by auto
    then show ?thesis using True by (intro exI [of _ "x # zs"]) simp
  next
    case False
    with 3(2,3) obtain zs ws where "subseq zs xs" "subseq zs (y # ys)" "length zs = lcs_len xs (y # ys)"
      "subseq ws (x # xs)" "subseq ws ys" "length ws = lcs_len (x # xs) ys" by auto
    then show ?thesis using False
      by (cases "lcs_len (x # xs) ys \<le> lcs_len xs (y # ys)") (auto intro: list_emb_Cons exI [of _ zs] exI [of _ ws])
  qed
qed auto

lemma lcs_len_upper: "subseq zs xs \<Longrightarrow> subseq zs ys \<Longrightarrow> length zs \<le> lcs_len xs ys"
proof (induction xs ys arbitrary: zs rule: lcs_len.induct)
  case (3 x xs y ys)
  show ?case
  proof (cases zs)
    case (Cons z zs')
    show ?thesis
    proof (cases "x = y")
      case True
      have "length zs' \<le> lcs_len xs ys"
        using 3(1) [OF True, of zs'] 3(4,5) Cons True by (auto dest: subseq_Cons' split: if_splits)
      then show ?thesis using True Cons by simp
    next
      case False
      then consider "z \<noteq> x" | "z \<noteq> y" by auto
      then show ?thesis
      proof cases
        case 1
        then have "subseq zs xs" using 3(4) Cons by (auto elim: list_emb.cases)
        then show ?thesis using 3(2) [OF False] 3(5) False by (simp add: max.coboundedI1)
      next
        case 2
        then have "subseq zs ys" using 3(5) Cons by (auto elim: list_emb.cases)
        then show ?thesis using 3(3) [OF False] 3(4) False by (simp add: max.coboundedI2)
      qed
    qed
  qed simp
qed (auto dest: list_emb_length)

lemma subseq_rev: "subseq xs ys \<Longrightarrow> subseq (rev xs) (rev ys)"
  by (induction rule: list_emb.induct) (auto intro: subseq_rev_drop_many list_emb_append_mono)

lemma lcs_len_rev: "lcs_len (rev xs) (rev ys) = lcs_len xs ys"
proof -
  have "lcs_len xs ys \<le> lcs_len (rev xs) (rev ys)" for xs ys :: "'a list"
    using lcs_len_attained [of xs ys] lcs_len_upper [OF subseq_rev subseq_rev] by (metis length_rev)
  from this [of xs ys] this [of "rev xs" "rev ys"] show ?thesis by simp
qed

lemma lcs_len_prefix: "lcs_len (ps @ xs) (ps @ ys) = length ps + lcs_len xs ys"
  by (induction ps) auto

lemma lcs_len_suffix: "lcs_len (xs @ ss) (ys @ ss) = lcs_len xs ys + length ss"
  using lcs_len_prefix [of "rev ss" "rev xs" "rev ys"] lcs_len_rev [of "xs @ ss" "ys @ ss"] by (simp add: lcs_len_rev)

lemma lcs_len_le: "lcs_len xs ys \<le> length xs" "lcs_len xs ys \<le> length ys"
  using lcs_len_attained [of xs ys] by (auto dest: list_emb_length)

subsection \<open>The table\<close>

definition filled :: "'k list \<Rightarrow> 'k list \<Rightarrow> nat \<Rightarrow> nat \<Rightarrow> nat list \<Rightarrow> bool" where
  "filled xs ys i j t \<longleftrightarrow>
     length t = (length xs + 1) * (length ys + 1)
     \<and> (\<forall>a\<le>length xs. \<forall>b\<le>length ys.
          t ! (a * (length ys + 1) + b) = (if i < a \<or> a = i \<and> j \<le> b then lcs_len (drop a xs) (drop b ys) else 0))"

lemma cell_index: "b < w \<Longrightarrow> j < w \<Longrightarrow> a * w + b = i * w + j \<longleftrightarrow> a = i \<and> b = (j :: nat)"
  by (metis add.commute div_mult_self1 div_less add_0 mod_less mod_mult_self1 mult.commute not_less_zero)

lemma cell_bound: "a \<le> n \<Longrightarrow> b < w \<Longrightarrow> a * w + b < (n + 1) * (w :: nat)"
  by (metis Suc_eq_plus1 add.commute add_less_le_mono mult_Suc mult_le_mono1)

lemma lcs_len_drop:
  assumes "i < length xs" "j < length ys"
  shows "lcs_len (drop i xs) (drop j ys) =
    (if xs ! i = ys ! j then lcs_len (drop (i + 1) xs) (drop (j + 1) ys) + 1
     else max (lcs_len (drop (i + 1) xs) (drop j ys)) (lcs_len (drop i xs) (drop (j + 1) ys)))"
  using assms by (simp add: Cons_nth_drop_Suc [symmetric])

lemma filled_cell:
  assumes "filled xs ys i (j + 1) t" "i < length xs" "j < length ys"
  shows "filled xs ys i j (t[i * (length ys + 1) + j := table_cell xs ys i j t])"
proof -
  let ?w = "length ys + 1"
  have t: "t ! (a * ?w + b) = (if i < a \<or> a = i \<and> j + 1 \<le> b then lcs_len (drop a xs) (drop b ys) else 0)"
    if "a \<le> length xs" "b \<le> length ys" for a b using assms(1) that by (simp add: filled_def)
  have "table_cell xs ys i j t = lcs_len (drop i xs) (drop j ys)"
    unfolding table_cell_def Let_def lcs_len_drop [OF assms(2,3)]
    using t [of "i + 1" "j + 1"] t [of "i + 1" j] t [of i "j + 1"] assms(2,3) by simp
  moreover have "i * ?w + j < length t" using assms cell_bound [of i "length xs" j ?w] by (simp add: filled_def)
  ultimately have "t[i * ?w + j := table_cell xs ys i j t] ! (a * ?w + b) =
      (if i < a \<or> a = i \<and> j \<le> b then lcs_len (drop a xs) (drop b ys) else 0)"
    if ab: "a \<le> length xs" "b \<le> length ys" for a b
    using t [OF ab] cell_index [of b ?w j a i] ab assms(2,3) by (auto simp: nth_list_update)
  then show ?thesis using assms(1) by (simp add: filled_def)
qed

lemma filled_row:
  assumes "filled xs ys (i + 1) 0 t" "i < length xs"
  shows "filled xs ys i 0 (table_row xs ys i t)"
proof -
  have start: "filled xs ys i (length ys) t"
    using assms by (auto simp: filled_def)
  have "filled xs ys i j
      (foldl (\<lambda>t j. t[i * (length ys + 1) + j := table_cell xs ys i j t]) t (rev [j..<length ys]))" if "j \<le> length ys" for j
    using that
  proof (induction j rule: inc_induct)
    case (step j)
    then show ?case using filled_cell [of xs ys i j] assms(2) by (simp add: upt_conv_Cons)
  qed (simp add: start)
  then show ?thesis by (simp add: table_row_def)
qed

lemma lcs_table_filled: "filled xs ys 0 0 (lcs_table xs ys)"
proof -
  have start: "filled xs ys (length xs) 0 (replicate ((length xs + 1) * (length ys + 1)) 0)"
    using cell_bound [of _ "length xs" _ "length ys + 1"] by (auto simp: filled_def nth_replicate simp del: replicate_Suc)
  have "filled xs ys i 0
      (foldl (\<lambda>t i. table_row xs ys i t) (replicate ((length xs + 1) * (length ys + 1)) 0) (rev [i..<length xs]))"
    if "i \<le> length xs" for i
    using that
  proof (induction i rule: inc_induct)
    case (step i)
    then show ?case using filled_row [of xs ys i] by (simp add: upt_conv_Cons)
  qed (use start in simp)
  then show ?thesis by (simp add: lcs_table_def)
qed

lemma lcs_table_cell:
  "i \<le> length xs \<Longrightarrow> j \<le> length ys \<Longrightarrow> lcs_table xs ys ! (i * (length ys + 1) + j) = lcs_len (drop i xs) (drop j ys)"
  using lcs_table_filled [of xs ys] by (auto simp: filled_def)

subsection \<open>Scripts as walks through both streams\<close>

text \<open>Where a script ends when it is read from position \<open>i\<close> of the old and \<open>j\<close> of the new stream, none when an op does not
  apply there.\<close>

fun script_end :: "string list \<Rightarrow> string list \<Rightarrow> nat \<Rightarrow> nat \<Rightarrow> Op list \<Rightarrow> (nat \<times> nat) option" where
  "script_end xs ys i j [] = Some (i, j)"
| "script_end xs ys i j (OpEqual a b # ops) =
     (if a = i \<and> b = j \<and> i < length xs \<and> j < length ys \<and> xs ! i = ys ! j then script_end xs ys (i + 1) (j + 1) ops else None)"
| "script_end xs ys i j (OpDelete a # ops) = (if a = i \<and> i < length xs then script_end xs ys (i + 1) j ops else None)"
| "script_end xs ys i j (OpInsert b # ops) = (if b = j \<and> j < length ys then script_end xs ys i (j + 1) ops else None)"

lemma script_end_append:
  "script_end xs ys i j (ops @ ops') = Option.bind (script_end xs ys i j ops) (\<lambda>(i', j'). script_end xs ys i' j' ops')"
  by (induction xs ys i j ops rule: script_end.induct) auto

lemma script_end_equal:
  "a + l \<le> length xs \<Longrightarrow> b + l \<le> length ys \<Longrightarrow> (\<forall>k<l. xs ! (a + k) = ys ! (b + k)) \<Longrightarrow>
   script_end xs ys a b (map (\<lambda>k. OpEqual (a + k) (b + k)) [0..<l]) = Some (a + l, b + l)"
  by (induction l) (auto simp: script_end_append)

lemma script_end_delete:
  "i \<le> n \<Longrightarrow> p + n \<le> length xs \<Longrightarrow> script_end xs ys (p + i) j (map (\<lambda>k. OpDelete (p + k)) [i..<n]) = Some (p + n, j)"
  by (induction n rule: dec_induct) (auto simp: script_end_append)

lemma script_end_insert:
  "j \<le> n \<Longrightarrow> p + n \<le> length ys \<Longrightarrow> script_end xs ys i (p + j) (map (\<lambda>k. OpInsert (p + k)) [j..<n]) = Some (i, p + n)"
  by (induction n rule: dec_induct) (auto simp: script_end_append)

lemma script_end_shift:
  assumes "script_end (sub_range xs a a') (sub_range ys b b') i j ops = Some (i', j')" "a' \<le> length xs" "b' \<le> length ys"
  shows "script_end xs ys (a + i) (b + j) (map (shift_op a b) ops) = Some (a + i', b + j')"
  using assms
  by (induction "sub_range xs a a'" "sub_range ys b b'" i j ops rule: script_end.induct)
     (auto simp: sub_range_nth less_diff_conv2 split: if_splits)

text \<open>\<open>us\<close> is the part of \<open>xs\<close> that starts at \<open>p\<close>.\<close>

definition part_at :: "'a list \<Rightarrow> nat \<Rightarrow> 'a list \<Rightarrow> bool" where
  "part_at us p xs \<longleftrightarrow> p + length us \<le> length xs \<and> (\<forall>k<length us. us ! k = xs ! (p + k))"

lemma part_at_sub_range: "a \<le> b \<Longrightarrow> b \<le> length xs \<Longrightarrow> part_at (sub_range xs a b) a xs"
  by (auto simp: part_at_def sub_range_nth)

lemma lcs_loop_walks:
  assumes "part_at us p xs" "part_at vs p ys" "i \<le> length us" "j \<le> length vs"
  shows "script_end xs ys (p + i) (p + j) (lcs_loop us vs t p i j) = Some (p + length us, p + length vs)"
  using assms
proof (induction us vs t p i j rule: lcs_loop.induct)
  case (1 us vs t p i j)
  show ?case
  proof (cases "i < length us \<and> j < length vs")
    case True
    with 1 show ?thesis by (subst lcs_loop.simps) (auto simp: part_at_def)
  next
    case False
    have "p + length us \<le> length xs" "p + length vs \<le> length ys" using "1.prems" by (auto simp: part_at_def)
    then show ?thesis using False "1.prems"
      by (subst lcs_loop.simps) (auto simp: script_end_append script_end_delete script_end_insert)
  qed
qed

fun is_equal :: "Op \<Rightarrow> bool" where
  "is_equal (OpEqual i j) = True"
| "is_equal op = False"

definition matches :: "Op list \<Rightarrow> nat" where
  "matches ops = length (filter is_equal ops)"

lemma matches_simps [simp]:
  "matches [] = 0" "matches (op # ops) = (if is_equal op then 1 else 0) + matches ops" "matches (ops @ ops') = matches ops + matches ops'"
  by (simp_all add: matches_def)

lemma matches_maps [simp]:
  "matches (map (\<lambda>k. OpEqual (f k) (g k)) ks) = length ks" "matches (map (\<lambda>k. OpDelete (f k)) ks) = 0"
  "matches (map (\<lambda>k. OpInsert (f k)) ks) = 0"
  by (induction ks) auto

lemma lcs_loop_matches:
  "i \<le> length us \<Longrightarrow> j \<le> length vs \<Longrightarrow> matches (lcs_loop us vs (lcs_table us vs) p i j) = lcs_len (drop i us) (drop j vs)"
proof (induction us vs "lcs_table us vs" p i j rule: lcs_loop.induct)
  case (1 us vs p i j)
  show ?case
  proof (cases "i < length us \<and> j < length vs")
    case True
    then have "lcs_table us vs ! ((i + 1) * (length vs + 1) + j) = lcs_len (drop (i + 1) us) (drop j vs)"
      "lcs_table us vs ! (i * (length vs + 1) + (j + 1)) = lcs_len (drop i us) (drop (j + 1) vs)"
      by (intro lcs_table_cell; simp)+
    with 1 True show ?thesis
      by (subst lcs_loop.simps) (auto simp: lcs_len_drop drop_old_def max_def)
  next
    case False
    then show ?thesis using "1.prems" by (subst lcs_loop.simps) auto
  qed
qed

subsection \<open>Common prefix and suffix\<close>

lemma takeWhile_zip_nth:
  "k < length (takeWhile P (zip xs ys)) \<Longrightarrow> k < length xs \<and> k < length ys \<and> P (xs ! k, ys ! k)"
  by (metis (no_types, lifting) length_takeWhile_le length_zip min_less_iff_conj nth_mem nth_zip order_less_le_trans set_takeWhileD takeWhile_nth)

lemma common_affixes_ok:
  assumes "common_affixes old new = (p, s)"
  shows "p + s \<le> length old" "p + s \<le> length new" "\<And>k. k < p \<Longrightarrow> tk_text (old ! k) = tk_text (new ! k)"
    "\<And>k. k < s \<Longrightarrow> tk_text (old ! (length old - s + k)) = tk_text (new ! (length new - s + k))"
proof -
  let ?z = "zip (rev (drop p old)) (rev (drop p new))"
  have p: "p = length (takeWhile same_text (zip old new))" and s: "s = length (takeWhile same_text ?z)"
    using assms by (auto simp: common_affixes_def Let_def)
  have "p \<le> length old" "p \<le> length new" using length_takeWhile_le [of same_text "zip old new"] p by auto
  moreover have "s \<le> length old - p" "s \<le> length new - p" using length_takeWhile_le [of same_text ?z] s by auto
  ultimately show b: "p + s \<le> length old" "p + s \<le> length new" by auto
  show "tk_text (old ! k) = tk_text (new ! k)" if "k < p" for k
    using takeWhile_zip_nth [of k same_text old new] that p by (simp add: same_text_def)
  show "tk_text (old ! (length old - s + k)) = tk_text (new ! (length new - s + k))" if "k < s" for k
  proof -
    have "s - 1 - k < length (takeWhile same_text ?z)" using that s by simp
    from takeWhile_zip_nth [OF this] have "tk_text (rev (drop p old) ! (s - 1 - k)) = tk_text (rev (drop p new) ! (s - 1 - k))"
      by (simp add: same_text_def)
    moreover have "rev (drop p xs) ! (s - 1 - k) = xs ! (length xs - s + k)" if "p + s \<le> length xs" for xs :: "Token list"
      using that \<open>k < s\<close> by (simp add: rev_nth)
    ultimately show ?thesis using b by simp
  qed
qed

lemma sub_range_map: "map f (sub_range xs a b) = sub_range (map f xs) a b"
  by (simp add: sub_range_def take_map drop_map)

lemma affix_texts:
  assumes "common_affixes old new = (p, s)"
  shows "take p (map tk_text old) = take p (map tk_text new)"
    "drop (length old - s) (map tk_text old) = drop (length new - s) (map tk_text new)"
proof -
  note ok = common_affixes_ok [OF assms]
  show "take p (map tk_text old) = take p (map tk_text new)"
    using ok by (intro nth_equalityI) auto
  show "drop (length old - s) (map tk_text old) = drop (length new - s) (map tk_text new)"
    using ok by (intro nth_equalityI) auto
qed

lemma lcs_ops_walks: "script_end (map tk_text old) (map tk_text new) 0 0 (lcs_ops old new) = Some (length old, length new)"
proof -
  let ?xs = "map tk_text old" and ?ys = "map tk_text new"
  obtain p s where ps: "common_affixes old new = (p, s)" by fastforce
  note ok = common_affixes_ok [OF ps]
  let ?n = "length old - p - s" and ?m = "length new - p - s"
  let ?us = "map tk_text (sub_range old p (p + ?n))" and ?vs = "map tk_text (sub_range new p (p + ?m))"
  have "part_at ?us p ?xs" "part_at ?vs p ?ys"
    unfolding sub_range_map using ok(1,2) by (auto intro!: part_at_sub_range)
  moreover have "length ?us = ?n" "length ?vs = ?m" using ok(1,2) by simp_all
  ultimately have "script_end ?xs ?ys p p (lcs_loop ?us ?vs (lcs_table ?us ?vs) p 0 0) = Some (p + ?n, p + ?m)"
    using lcs_loop_walks [of ?us p ?xs ?vs ?ys 0 0] by simp
  moreover have "script_end ?xs ?ys 0 0 (map (\<lambda>k. OpEqual k k) [0..<p]) = Some (p, p)"
    using script_end_equal [of 0 p ?xs 0 ?ys] ok by simp
  moreover have "script_end ?xs ?ys (p + ?n) (p + ?m) (map (\<lambda>k. OpEqual (p + ?n + k) (p + ?m + k)) [0..<s]) = Some (length old, length new)"
    using script_end_equal [of "p + ?n" s ?xs "p + ?m" ?ys] ok by simp
  ultimately show ?thesis by (simp add: lcs_ops_def ps Let_def script_end_append)
qed

lemma lcs_ops_matches: "matches (lcs_ops old new) = lcs_len (map tk_text old) (map tk_text new)"
proof -
  obtain p s where ps: "common_affixes old new = (p, s)" by fastforce
  note ok = common_affixes_ok [OF ps]
  have split: "map tk_text ts = take p (map tk_text ts) @ map tk_text (sub_range ts p (length ts - s)) @ drop (length ts - s) (map tk_text ts)"
    if "p + s \<le> length ts" for ts
  proof -
    have "ts = sub_range ts 0 p @ sub_range ts p (length ts - s) @ sub_range ts (length ts - s) (length ts)"
      using that sub_range_split [of 0 p "length ts" ts] sub_range_split [of p "length ts - s" "length ts" ts] by simp
    then have "map tk_text ts = map tk_text (sub_range ts 0 p) @ map tk_text (sub_range ts p (length ts - s)) @ map tk_text (sub_range ts (length ts - s) (length ts))"
      by (metis map_append)
    moreover have "map tk_text (sub_range ts 0 p) = take p (map tk_text ts)"
      "map tk_text (sub_range ts (length ts - s) (length ts)) = drop (length ts - s) (map tk_text ts)"
      by (simp_all add: sub_range_def take_map drop_map)
    ultimately show ?thesis by simp
  qed
  let ?us = "map tk_text (sub_range old p (length old - s))" and ?vs = "map tk_text (sub_range new p (length new - s))"
  have "lcs_len (map tk_text old) (map tk_text new) = p + (lcs_len ?us ?vs + s)"
    using split [OF ok(1)] split [OF ok(2)] affix_texts [OF ps] ok(1,2)
      lcs_len_prefix [of "take p (map tk_text old)"] lcs_len_suffix [of ?us "drop (length old - s) (map tk_text old)" ?vs]
    by (metis (no_types, lifting) add_leD1 add_leD2 diff_diff_cancel length_drop length_map length_take min.absorb2)
  moreover have "p + (length old - p - s) = length old - s" "p + (length new - p - s) = length new - s" using ok(1,2) by simp_all
  ultimately show ?thesis
    using lcs_loop_matches [of 0 ?us 0 ?vs p] by (simp add: lcs_ops_def ps Let_def)
qed

subsection \<open>Scripts anchored on lines\<close>

lemma gap_ops_walks:
  assumes "gap_ops old new (a, b) (a', b') spent = Some (spent', ops)" "a \<le> a'" "a' \<le> length old" "b \<le> b'" "b' \<le> length new"
  shows "script_end (map tk_text old) (map tk_text new) a b ops = Some (a', b')"
proof -
  have "ops = map (shift_op a b) (lcs_ops (sub_range old a a') (sub_range new b b'))"
    using assms(1) by (auto simp: gap_ops_def Let_def split: if_splits)
  moreover have "script_end (sub_range (map tk_text old) a a') (sub_range (map tk_text new) b b') 0 0
      (lcs_ops (sub_range old a a') (sub_range new b b')) = Some (a' - a, b' - b)"
    using lcs_ops_walks [of "sub_range old a a'" "sub_range new b b'"] assms(2-5) by (simp add: sub_range_map)
  ultimately show ?thesis
    using script_end_shift [of "map tk_text old" a a' "map tk_text new" b b' 0 0] assms(2-5) by simp
qed

fun runs_from :: "nat \<Rightarrow> (nat \<times> nat) list \<Rightarrow> nat \<Rightarrow> bool" where
  "runs_from a [] b \<longleftrightarrow> a = b"
| "runs_from a (r # rs) b \<longleftrightarrow> fst r = a \<and> a < snd r \<and> runs_from (snd r) rs b"

lemma runs_from_append: "runs_from a (rs @ rs') b \<longleftrightarrow> (\<exists>c. runs_from a rs c \<and> runs_from c rs' b)"
  by (induction rs arbitrary: a) auto

lemma runs_from_le: "runs_from a rs b \<Longrightarrow> a \<le> b"
  by (induction rs arbitrary: a) fastforce+

lemma run_push_from: "runs_from 0 runs k \<Longrightarrow> runs_from 0 (run_push tokens runs k) (Suc k)"
  by (cases runs rule: rev_cases) (auto simp: run_push_def runs_from_append)

lemma line_runs_from: "runs_from 0 (line_runs tokens) (length tokens)"
proof -
  have "runs_from 0 (foldl (run_push tokens) [] [0..<k]) k" for k
    by (induction k) (simp_all add: run_push_from)
  then show ?thesis by (simp add: line_runs_def)
qed

lemma runs_from_nth:
  "runs_from a rs b \<Longrightarrow> i < length rs \<Longrightarrow> a \<le> fst (rs ! i) \<and> fst (rs ! i) < snd (rs ! i) \<and> snd (rs ! i) \<le> b"
proof (induction rs arbitrary: a i)
  case (Cons r rs)
  have "snd r \<le> b" using Cons.prems(1) by (auto dest: runs_from_le)
  with Cons show ?case by (cases i) fastforce+
qed simp

lemma runs_from_order: "runs_from a rs b \<Longrightarrow> i < j \<Longrightarrow> j < length rs \<Longrightarrow> snd (rs ! i) \<le> fst (rs ! j)"
proof (induction rs arbitrary: a i j)
  case (Cons r rs)
  then obtain j' where j: "j = Suc j'" by (cases j) auto
  show ?case
  proof (cases i)
    case 0
    then show ?thesis using runs_from_nth [of "snd r" rs b j'] Cons.prems j by simp
  next
    case (Suc i')
    then show ?thesis using Cons.IH [of "snd r" i' j'] Cons.prems j by simp
  qed
qed simp

text \<open>Interned lines with the same number have the same texts.\<close>

definition ids_ok :: "line_ids \<Rightarrow> bool" where
  "ids_ok ids \<longleftrightarrow> (\<forall>k v. map_of ids k = Some v \<longrightarrow> v < length ids)
     \<and> (\<forall>k k' v. map_of ids k = Some v \<longrightarrow> map_of ids k' = Some v \<longrightarrow> k = k')"

lemma map_of_snoc: "map_of ids key = None \<Longrightarrow> map_of (ids @ [(key, n)]) = (map_of ids)(key \<mapsto> n)"
  by (rule ext) (auto simp: map_add_def split: option.splits)

lemma ids_ok_snoc: "ids_ok ids \<Longrightarrow> map_of ids key = None \<Longrightarrow> ids_ok (ids @ [(key, length ids)])"
  by (auto simp: ids_ok_def map_of_snoc less_Suc_eq split: if_splits) (metis less_irrefl)+

lemma intern_lines_ok:
  assumes "intern_lines ids side runs = (ids', is)" "ids_ok ids"
  shows "ids_ok ids' \<and> map_of ids \<subseteq>\<^sub>m map_of ids' \<and> length is = length runs
     \<and> (\<forall>i<length runs. map_of ids' (run_texts side (runs ! i)) = Some (is ! i))"
  using assms
proof (induction ids side runs arbitrary: ids' "is" rule: intern_lines.induct)
  case (2 ids side run runs)
  let ?key = "run_texts side run"
  define step where "step = (case map_of ids ?key of Some i \<Rightarrow> (ids, i) | None \<Rightarrow> (ids @ [(?key, length ids)], length ids))"
  obtain ids1 i1 where s: "step = (ids1, i1)" by fastforce
  obtain ids2 is2 where r: "intern_lines ids1 side runs = (ids2, is2)" by fastforce
  have res: "ids' = ids2" "is = i1 # is2" using 2(2) s r by (auto simp: step_def Let_def)
  have one: "ids_ok ids1 \<and> map_of ids \<subseteq>\<^sub>m map_of ids1 \<and> map_of ids1 ?key = Some i1"
    using s 2(3) ids_ok_snoc [of ids ?key]
    by (cases "map_of ids ?key") (auto simp: step_def map_of_snoc map_le_def map_add_def domI split: if_splits option.splits)
  have ih: "ids_ok ids2 \<and> map_of ids1 \<subseteq>\<^sub>m map_of ids2 \<and> length is2 = length runs
     \<and> (\<forall>i<length runs. map_of ids2 (run_texts side (runs ! i)) = Some (is2 ! i))"
    using 2(1) [OF refl step_def s [symmetric] r] one by auto
  have "map_of ids2 ?key = Some i1" using one ih by (auto simp: map_le_def dom_def)
  then show ?case using one ih res by (auto simp: nth_Cons' intro: map_le_trans)
qed simp

text \<open>One side of the anchored walk: its runs, counted from \<open>p\<close>, are in order and end by \<open>e\<close>, and each has a number.\<close>

definition side_ok :: "LineSide \<Rightarrow> nat \<Rightarrow> nat \<Rightarrow> bool" where
  "side_ok s p e \<longleftrightarrow> runs_from 0 (ls_runs s) (e - p) \<and> p \<le> e \<and> e \<le> length (ls_tokens s) \<and> length (ls_ids s) = length (ls_runs s)"

definition line_texts :: "LineSide \<Rightarrow> nat \<Rightarrow> nat \<Rightarrow> string list" where
  "line_texts s p i = map tk_text (sub_range (ls_tokens s) (p + fst (ls_runs s ! i)) (p + snd (ls_runs s ! i)))"

text \<open>A cursor is before every line from the \<open>i\<close>-th on.\<close>

definition cursor_ok :: "LineSide \<Rightarrow> nat \<Rightarrow> nat \<Rightarrow> nat \<Rightarrow> nat \<Rightarrow> bool" where
  "cursor_ok s p e i a \<longleftrightarrow> a \<le> e \<and> (\<forall>k. i \<le> k \<longrightarrow> k < length (ls_runs s) \<longrightarrow> a \<le> p + fst (ls_runs s ! k))"

lemma cursor_ok_Suc: "cursor_ok s p e i a \<Longrightarrow> cursor_ok s p e (i + 1) a"
  by (simp add: cursor_ok_def)

lemma side_run:
  assumes "side_ok s p e" "i < length (ls_ids s)"
  shows "fst (ls_runs s ! i) < snd (ls_runs s ! i)" "p + snd (ls_runs s ! i) \<le> e" "e \<le> length (ls_tokens s)"
    "cursor_ok s p e (i + 1) (p + snd (ls_runs s ! i))"
proof -
  have r: "runs_from 0 (ls_runs s) (e - p)" "i < length (ls_runs s)" "p \<le> e" using assms by (auto simp: side_ok_def)
  note n = runs_from_nth [OF r(1,2)]
  show "fst (ls_runs s ! i) < snd (ls_runs s ! i)" "p + snd (ls_runs s ! i) \<le> e" using n r(3) by auto
  then show "cursor_ok s p e (i + 1) (p + snd (ls_runs s ! i))"
    using runs_from_order [OF r(1)] by (auto simp: cursor_ok_def)
  show "e \<le> length (ls_tokens s)" using assms by (simp add: side_ok_def)
qed

lemma anchored_line_walks:
  assumes "side_ok old p oe" "side_ok new p ne" "i < length (ls_ids old)" "j < length (ls_ids new)"
    and "line_texts old p i = line_texts new p j"
  defines "len \<equiv> snd (ls_runs old ! i) - fst (ls_runs old ! i)"
  shows "p + fst (ls_runs new ! j) + len = p + snd (ls_runs new ! j)"
    "script_end (map tk_text (ls_tokens old)) (map tk_text (ls_tokens new)) (p + fst (ls_runs old ! i)) (p + fst (ls_runs new ! j))
       (map (\<lambda>k. OpEqual (p + fst (ls_runs old ! i) + k) (p + fst (ls_runs new ! j) + k)) [0..<len])
     = Some (p + snd (ls_runs old ! i), p + snd (ls_runs new ! j))"
proof -
  note o = side_run [OF assms(1,3)] and n = side_run [OF assms(2,4)]
  let ?a = "fst (ls_runs old ! i)" and ?a' = "snd (ls_runs old ! i)" and ?b = "fst (ls_runs new ! j)" and ?b' = "snd (ls_runs new ! j)"
  have "length (line_texts old p i) = ?a' - ?a" "length (line_texts new p j) = ?b' - ?b"
    using o(1-3) n(1-3) by (simp_all add: line_texts_def)
  then have l: "?b' - ?b = len" using assms(5) by (simp add: len_def)
  show e: "p + ?b + len = p + ?b'" using l n(1) by simp
  have "tk_text (ls_tokens old ! (p + ?a + k)) = tk_text (ls_tokens new ! (p + ?b + k))" if "k < len" for k
  proof -
    have "line_texts old p i ! k = tk_text (ls_tokens old ! (p + ?a + k))" "line_texts new p j ! k = tk_text (ls_tokens new ! (p + ?b + k))"
      using that l o(1-3) n(1-3) by (auto simp: line_texts_def len_def sub_range_nth)
    then show ?thesis using assms(5) by simp
  qed
  then show "script_end (map tk_text (ls_tokens old)) (map tk_text (ls_tokens new)) (p + ?a) (p + ?b)
       (map (\<lambda>k. OpEqual (p + ?a + k) (p + ?b + k)) [0..<len]) = Some (p + ?a', p + ?b')"
    using script_end_equal [of "p + ?a" len "map tk_text (ls_tokens old)" "p + ?b" "map tk_text (ls_tokens new)"] o(1-3) n(1-3) e
    by (simp add: len_def)
qed

lemma anchor_loop_walks:
  assumes "anchor_loop old new table p i j (a, b) spent = Some (ops, (a', b'), spent')"
    and "side_ok old p oe" "side_ok new p ne" "cursor_ok old p oe i a" "cursor_ok new p ne j b"
    and ids: "\<And>i j. i < length (ls_ids old) \<Longrightarrow> j < length (ls_ids new) \<Longrightarrow> ls_ids old ! i = ls_ids new ! j \<Longrightarrow> line_texts old p i = line_texts new p j"
  shows "script_end (map tk_text (ls_tokens old)) (map tk_text (ls_tokens new)) a b ops = Some (a', b') \<and> a' \<le> oe \<and> b' \<le> ne"
  using assms
proof (induction old new table p i j "(a, b)" spent arbitrary: a b ops a' b' spent' rule: anchor_loop.induct)
  case (1 old new table p i j spent a b)
  note prems = "1.prems"
  let ?xs = "map tk_text (ls_tokens old)" and ?ys = "map tk_text (ls_tokens new)"
  show ?case
  proof (cases "i < length (ls_ids old) \<and> j < length (ls_ids new)")
    case False
    then show ?thesis using prems(1,4,5) by (subst (asm) anchor_loop.simps) (auto simp: cursor_ok_def)
  next
    case inside: True
    show ?thesis
    proof (cases "ls_ids old ! i = ls_ids new ! j")
      case True
      let ?ol = "p + fst (ls_runs old ! i)" and ?nl = "p + fst (ls_runs new ! j)"
      let ?len = "snd (ls_runs old ! i) - fst (ls_runs old ! i)"
      have cur: "a \<le> ?ol" "b \<le> ?nl" using prems(2-5) inside by (auto simp: cursor_ok_def side_ok_def)
      obtain s1 gap rest where g: "gap_ops (ls_tokens old) (ls_tokens new) (a, b) (?ol, ?nl) spent = Some (s1, gap)"
        and r: "anchor_loop old new table p (i + 1) (j + 1) (?ol + ?len, ?nl + ?len) s1 = Some (rest, (a', b'), spent')"
        and ops: "ops = gap @ map (\<lambda>k. OpEqual (?ol + k) (?nl + k)) [0..<?len] @ rest"
        using prems(1) inside True by (subst (asm) anchor_loop.simps) (auto simp: Let_def bind_eq_Some_conv)
      note o = side_run [OF prems(2) conjunct1 [OF inside]] and n = side_run [OF prems(3) conjunct2 [OF inside]]
      have same: "line_texts old p i = line_texts new p j" using prems(6) inside True by blast
      note line = anchored_line_walks [OF prems(2,3) conjunct1 [OF inside] conjunct2 [OF inside] same]
      have e: "?ol + ?len = p + snd (ls_runs old ! i)" using o(1) by simp
      have "script_end ?xs ?ys a b gap = Some (?ol, ?nl)"
        using gap_ops_walks [OF g cur(1) _ cur(2)] o(1-3) n(1-3) by simp
      moreover have "cursor_ok old p oe (i + 1) (?ol + ?len)" "cursor_ok new p ne (j + 1) (?nl + ?len)"
        unfolding e line(1) by (rule o(4), rule n(4))
      then have "script_end ?xs ?ys (?ol + ?len) (?nl + ?len) rest = Some (a', b') \<and> a' \<le> oe \<and> b' \<le> ne"
        by (rule "1.hyps"(1) [OF inside True refl refl refl g refl r prems(2,3) _ _ prems(6)])
      ultimately show ?thesis unfolding ops script_end_append e line(1) by (simp add: line(2))
    next
      case False
      have eq: "anchor_loop old new table p i j (a, b) spent =
          (if drop_old (length (ls_ids new) + 1) table i j then anchor_loop old new table p (i + 1) j (a, b) spent
           else anchor_loop old new table p i (j + 1) (a, b) spent)"
        by (subst anchor_loop.simps) (simp add: inside False)
      show ?thesis
      proof (cases "drop_old (length (ls_ids new) + 1) table i j")
        case True
        then have "anchor_loop old new table p (i + 1) j (a, b) spent = Some (ops, (a', b'), spent')" using prems(1) eq by simp
        then show ?thesis by (rule "1.hyps"(2) [OF inside False True _ prems(2,3) cursor_ok_Suc [OF prems(4)] prems(5,6)])
      next
        case stay: False
        then have "anchor_loop old new table p i (j + 1) (a, b) spent = Some (ops, (a', b'), spent')" using prems(1) eq by simp
        then show ?thesis by (rule "1.hyps"(3) [OF inside False stay _ prems(2,3,4) cursor_ok_Suc [OF prems(5)] prems(6)])
      qed
    qed
  qed
qed

lemma sub_range_sub_range: "b \<le> e - p \<Longrightarrow> sub_range (sub_range xs p e) a b = sub_range xs (p + a) (p + b)"
  by (simp add: sub_range_def drop_take min_def add.commute)

lemma line_side_ok:
  assumes "p \<le> e" "e \<le> length tokens" "length is = length (line_runs (sub_range tokens p e))"
  defines "s \<equiv> \<lparr>ls_tokens = tokens, ls_runs = line_runs (sub_range tokens p e), ls_ids = is\<rparr>"
  shows "side_ok s p e" "cursor_ok s p e 0 p"
    "\<And>i. i < length is \<Longrightarrow> line_texts s p i = run_texts (sub_range tokens p e) (line_runs (sub_range tokens p e) ! i)"
proof -
  have r: "runs_from 0 (line_runs (sub_range tokens p e)) (e - p)"
    using line_runs_from [of "sub_range tokens p e"] assms(1,2) by simp
  then show "side_ok s p e" using assms by (simp add: side_ok_def)
  show "cursor_ok s p e 0 p" using assms(1) by (simp add: cursor_ok_def)
  show "line_texts s p i = run_texts (sub_range tokens p e) (line_runs (sub_range tokens p e) ! i)" if "i < length is" for i
    using runs_from_nth [OF r, of i] that assms(3) by (simp add: line_texts_def run_texts_def sub_range_sub_range s_def)
qed

lemma line_anchored_ops_walks:
  assumes "line_anchored_ops old new = Some ops"
  shows "script_end (map tk_text old) (map tk_text new) 0 0 ops = Some (length old, length new)"
proof -
  let ?xs = "map tk_text old" and ?ys = "map tk_text new"
  obtain p s where ps: "common_affixes old new = (p, s)" by fastforce
  note ok = common_affixes_ok [OF ps]
  let ?oe = "length old - s" and ?ne = "length new - s"
  let ?ol = "line_runs (sub_range old p ?oe)" and ?nl = "line_runs (sub_range new p ?ne)"
  obtain ids is1 where i1: "intern_lines [] (sub_range old p ?oe) ?ol = (ids, is1)" by fastforce
  obtain ids' is2 where i2: "intern_lines ids (sub_range new p ?ne) ?nl = (ids', is2)" by fastforce
  let ?o = "\<lparr>ls_tokens = old, ls_runs = ?ol, ls_ids = is1\<rparr>" and ?n = "\<lparr>ls_tokens = new, ls_runs = ?nl, ls_ids = is2\<rparr>"
  obtain mid a b spent spent' last_ops where
    a: "anchor_loop ?o ?n (lcs_table is1 is2) p 0 0 (p, p) 0 = Some (mid, (a, b), spent)"
    and g: "gap_ops old new (a, b) (?oe, ?ne) spent = Some (spent', last_ops)"
    and ops: "ops = map (\<lambda>k. OpEqual k k) [0..<p] @ mid @ last_ops @ map (\<lambda>k. OpEqual (?oe + k) (?ne + k)) [0..<s]"
    using assms by (auto simp: line_anchored_ops_def ps Let_def i1 i2 bind_eq_Some_conv split: if_splits)
  have "ids_ok []" by (simp add: ids_ok_def)
  note I1 = intern_lines_ok [OF i1 this]
  note I2 = intern_lines_ok [OF i2 conjunct1 [OF I1]]
  have pe: "p \<le> ?oe" "?oe \<le> length old" "p \<le> ?ne" "?ne \<le> length new" using ok(1,2) by auto
  note o = line_side_ok [OF pe(1,2), of is1] and n = line_side_ok [OF pe(3,4), of is2]
  have "line_texts ?o p i = line_texts ?n p j" if ij: "i < length (ls_ids ?o)" "j < length (ls_ids ?n)" "ls_ids ?o ! i = ls_ids ?n ! j" for i j
  proof -
    have "map_of ids' (run_texts (sub_range old p ?oe) (?ol ! i)) = Some (is1 ! i)"
      using I1 I2 ij(1) by (auto simp: map_le_def dom_def)
    moreover have "map_of ids' (run_texts (sub_range new p ?ne) (?nl ! j)) = Some (is1 ! i)" using I2 ij by auto
    ultimately have "run_texts (sub_range old p ?oe) (?ol ! i) = run_texts (sub_range new p ?ne) (?nl ! j)"
      using I2 unfolding ids_ok_def by blast
    then show ?thesis using o(3) n(3) I1 I2 ij(1,2) by simp
  qed
  then have m: "script_end ?xs ?ys p p mid = Some (a, b) \<and> a \<le> ?oe \<and> b \<le> ?ne"
    using anchor_loop_walks [OF a o(1) n(1) o(2) n(2)] I1 I2 by simp
  have "script_end ?xs ?ys 0 0 (map (\<lambda>k. OpEqual k k) [0..<p]) = Some (p, p)"
    using script_end_equal [of 0 p ?xs 0 ?ys] ok by simp
  moreover have "script_end ?xs ?ys a b last_ops = Some (?oe, ?ne)" using gap_ops_walks [OF g] m by simp
  moreover have "script_end ?xs ?ys ?oe ?ne (map (\<lambda>k. OpEqual (?oe + k) (?ne + k)) [0..<s]) = Some (length old, length new)"
    using script_end_equal [of ?oe s ?xs ?ne ?ys] ok by simp
  ultimately show ?thesis using m by (simp add: ops script_end_append)
qed

subsection \<open>Changes replay both streams\<close>

text \<open>The tokens a change list says the old and the new file have.\<close>

definition old_side :: "TokenChange list \<Rightarrow> (string \<times> nat) list" where
  "old_side changes = List.map_filter (\<lambda>c. map_option (Pair (tc_text c)) (tc_old_line c)) changes"

definition new_side :: "TokenChange list \<Rightarrow> (string \<times> nat) list" where
  "new_side changes = List.map_filter (\<lambda>c. map_option (Pair (tc_text c)) (tc_new_line c)) changes"

definition token_pairs :: "Token list \<Rightarrow> (string \<times> nat) list" where
  "token_pairs tokens = map (\<lambda>t. (tk_text t, tk_line t)) tokens"

lemma sides_append [simp]: "old_side (cs @ ds) = old_side cs @ old_side ds" "new_side (cs @ ds) = new_side cs @ new_side ds"
  by (simp_all add: old_side_def new_side_def List.map_filter_def)

lemma sides_Nil [simp]: "old_side [] = []" "new_side [] = []"
  by (simp_all add: old_side_def new_side_def)

lemma script_end_le: "script_end xs ys i j ops = Some (i', j') \<Longrightarrow> i \<le> i' \<and> j \<le> j'"
  by (induction xs ys i j ops rule: script_end.induct) (auto split: if_splits)

lemma replay_sides:
  assumes "script_end (map tk_text old) (map tk_text new) i j ops = Some (length old, length new)"
    and "length flags = length ops"
  shows "old_side (map2 (op_change old new) flags ops) = token_pairs (drop i old)
       \<and> new_side (map2 (op_change old new) flags ops) = token_pairs (drop j new)"
  using assms
proof (induction "map tk_text old" "map tk_text new" i j ops arbitrary: flags rule: script_end.induct)
  case (1 i j)
  then show ?case by (simp add: token_pairs_def)
next
  case (2 i j a b ops)
  then obtain f fs where f: "flags = f # fs" by (cases flags) auto
  have b: "a = i" "b = j" "i < length old" "j < length new" "tk_text (old ! i) = tk_text (new ! j)"
    using 2(2) by (auto split: if_splits)
  then have "old_side (map2 (op_change old new) fs ops) = token_pairs (drop (i + 1) old)
       \<and> new_side (map2 (op_change old new) fs ops) = token_pairs (drop (j + 1) new)"
    using 2 f by (auto split: if_splits)
  then show ?case using b by (auto simp: f token_pairs_def old_side_def new_side_def List.map_filter_def Cons_nth_drop_Suc [symmetric])
next
  case (3 i j a ops)
  then obtain f fs where f: "flags = f # fs" by (cases flags) auto
  have b: "a = i" "i < length old" using 3(2) by (auto split: if_splits)
  then have "old_side (map2 (op_change old new) fs ops) = token_pairs (drop (i + 1) old)
       \<and> new_side (map2 (op_change old new) fs ops) = token_pairs (drop j new)"
    using 3 f by (auto split: if_splits)
  then show ?case using b by (auto simp: f token_pairs_def old_side_def new_side_def List.map_filter_def Cons_nth_drop_Suc [symmetric])
next
  case (4 i j b' ops)
  then obtain f fs where f: "flags = f # fs" by (cases flags) auto
  have b: "b' = j" "j < length new" using 4(2) by (auto split: if_splits)
  then have "old_side (map2 (op_change old new) fs ops) = token_pairs (drop i old)
       \<and> new_side (map2 (op_change old new) fs ops) = token_pairs (drop (j + 1) new)"
    using 4 f by (auto split: if_splits)
  then show ?case using b by (auto simp: f token_pairs_def old_side_def new_side_def List.map_filter_def Cons_nth_drop_Suc [symmetric])
qed

lemma mark_moves_map2: "mark_moves ops old new = map2 (op_change old new) (map (\<lambda>k. k \<in> moved_ops ops old new) [0..<length ops]) ops"
  by (rule nth_equalityI) (simp_all add: mark_moves_def Let_def)

lemma mark_moves_sides:
  assumes "script_end (map tk_text old) (map tk_text new) 0 0 ops = Some (length old, length new)"
  shows "old_side (mark_moves ops old new) = token_pairs old" "new_side (mark_moves ops old new) = token_pairs new"
  unfolding mark_moves_map2 using replay_sides [OF assms] by simp_all

lemma mark_moves_unchanged: "count_changes CkUnchanged (mark_moves ops old new) = matches ops"
proof -
  have "length flags = length ops \<Longrightarrow> length (filter (\<lambda>c. tc_kind c = CkUnchanged) (map2 (op_change old new) flags ops)) = matches ops" for flags
  proof (induction ops arbitrary: flags)
    case (Cons op ops)
    then obtain f fs where "flags = f # fs" by (cases flags) auto
    with Cons show ?case by (cases op) auto
  qed simp
  then show ?thesis by (simp add: count_changes_def mark_moves_map2)
qed

end
