(* ===== verification/Structural_Moves.thy ===== *)
theory Structural_Moves
  imports Structural_Props
begin

text \<open>
  Moved blocks: the runs of deletes and inserts are disjoint stretches of one kind, the index of insert runs gives each
  run out once, and so the tokens marked as moved come in pairs of blocks with the same texts.
\<close>

subsection \<open>Runs\<close>

lemma skip_while_run: "k \<le> length ops \<Longrightarrow> skip_while p ops k \<le> length ops \<and> (\<forall>x. k \<le> x \<longrightarrow> x < skip_while p ops k \<longrightarrow> p (ops ! x))"
proof (induction p ops k rule: skip_while.induct)
  case (1 p ops k)
  show ?case
  proof (cases "k < length ops \<and> p (ops ! k)")
    case True
    then have "skip_while p ops k = skip_while p ops (k + 1)" by (subst skip_while.simps) simp
    with 1 True show ?thesis by (metis Suc_eq_plus1 Suc_leI le_neq_implies_less)
  next
    case False
    then have "skip_while p ops k = k" by (subst skip_while.simps) auto
    with 1 show ?thesis by auto
  qed
qed

definition pure_run :: "(Op \<Rightarrow> bool) \<Rightarrow> Op list \<Rightarrow> nat \<Rightarrow> nat \<times> nat \<Rightarrow> bool" where
  "pure_run p ops k r \<longleftrightarrow> k \<le> fst r \<and> fst r < snd r \<and> snd r \<le> length ops \<and> (\<forall>x. fst r \<le> x \<longrightarrow> x < snd r \<longrightarrow> p (ops ! x))"

definition apart :: "nat \<times> nat \<Rightarrow> nat \<times> nat \<Rightarrow> bool" where
  "apart r r' \<longleftrightarrow> snd r \<le> fst r'"

lemma pure_run_skip: "k < length ops \<Longrightarrow> p (ops ! k) \<Longrightarrow> pure_run p ops k (k, skip_while p ops k)"
  using skip_while_run [of k ops p] skip_while_gt [of k ops p] by (auto simp: pure_run_def)

lemma pure_run_mono: "pure_run p ops k r \<Longrightarrow> k' \<le> k \<Longrightarrow> pure_run p ops k' r"
  by (auto simp: pure_run_def)

lemma pure_run_apart: "pure_run p ops e r \<Longrightarrow> apart (k, e) r"
  by (simp add: pure_run_def apart_def)

lemma op_runs_ok:
  "op_runs ops k = (ds, is) \<Longrightarrow>
   list_all (pure_run is_delete ops k) ds \<and> list_all (pure_run is_insert ops k) is \<and> sorted_wrt apart ds \<and> sorted_wrt apart is"
proof (induction ops k arbitrary: ds "is" rule: op_runs.induct)
  case (1 ops k)
  consider "length ops \<le> k" | "k < length ops" "is_delete (ops ! k)" | "k < length ops" "is_insert (ops ! k)" "\<not> is_delete (ops ! k)"
    | "k < length ops" "\<not> is_delete (ops ! k)" "\<not> is_insert (ops ! k)" by fastforce
  then show ?case
  proof cases
    case 1
    then show ?thesis using "1.prems" by (subst (asm) op_runs.simps) auto
  next
    case 2
    let ?e = "skip_while is_delete ops k"
    obtain ds1 where r: "op_runs ops ?e = (ds1, is)" and ds: "ds = (k, ?e) # ds1"
      using "1.prems" 2 by (subst (asm) op_runs.simps) (auto simp: Let_def split: prod.splits)
    have e: "k \<le> ?e" by (rule skip_while_ge)
    have "list_all (pure_run is_delete ops ?e) ds1 \<and> list_all (pure_run is_insert ops ?e) is \<and> sorted_wrt apart ds1 \<and> sorted_wrt apart is"
      using "1.IH"(1) [OF _ _ refl r] 2 by simp
    then show ?thesis
      using pure_run_skip [of k ops is_delete, OF 2] pure_run_mono [OF _ e] by (auto simp: ds list_all_iff intro: pure_run_apart)
  next
    case 3
    let ?e = "skip_while is_insert ops k"
    obtain is1 where r: "op_runs ops ?e = (ds, is1)" and "is": "is = (k, ?e) # is1"
      using "1.prems" 3 by (subst (asm) op_runs.simps) (auto simp: Let_def split: prod.splits)
    have e: "k \<le> ?e" by (rule skip_while_ge)
    have "list_all (pure_run is_delete ops ?e) ds \<and> list_all (pure_run is_insert ops ?e) is1 \<and> sorted_wrt apart ds \<and> sorted_wrt apart is1"
      using "1.IH"(2) [OF _ _ _ refl r] 3 by simp
    then show ?thesis
      using pure_run_skip [of k ops is_insert, OF 3(1,2)] pure_run_mono [OF _ e] by (auto simp: "is" list_all_iff intro: pure_run_apart)
  next
    case 4
    then have r: "op_runs ops (k + 1) = (ds, is)" using "1.prems" by (subst (asm) op_runs.simps) auto
    show ?thesis using "1.IH"(3) [OF _ _ _ r] 4 pure_run_mono [of _ ops "k + 1" _ k] by (auto simp: list_all_iff)
  qed
qed

definition span :: "nat \<times> nat \<Rightarrow> nat set" where
  "span r = {fst r..<snd r}"

lemma spans_disjoint:
  assumes "sorted_wrt apart rs" "list_all (pure_run p ops k) rs" "r \<in> set rs" "r' \<in> set rs" "r \<noteq> r'"
  shows "span r \<inter> span r' = {}"
  using assms
proof (induction rs)
  case (Cons x rs)
  have "\<forall>y\<in>set rs. span x \<inter> span y = {}" using Cons.prems(1) by (auto simp: apart_def span_def)
  then show ?case using Cons by (cases "r = x"; cases "r' = x") (simp_all add: Int_commute)
qed simp

lemma runs_distinct: "sorted_wrt apart rs \<Longrightarrow> list_all (pure_run p ops k) rs \<Longrightarrow> distinct rs"
  by (induction rs) (fastforce simp: apart_def pure_run_def list_all_iff)+

subsection \<open>The index of insert runs\<close>

lemma index_runs_eq:
  "index_runs ops old new runs key =
     (let q = filter (\<lambda>r. run_text ops old new r = key) runs in if q = [] \<or> length key < MIN_MOVE_RUN then None else Some q)"
proof (induction runs rule: rev_induct)
  case Nil
  then show ?case by (simp add: index_runs_def)
next
  case (snoc r rs)
  have "index_runs ops old new (rs @ [r]) =
      (if MIN_MOVE_RUN \<le> length (run_text ops old new r) then index_push (run_text ops old new r) r (index_runs ops old new rs)
       else index_runs ops old new rs)"
    by (simp add: index_runs_def Let_def)
  then show ?case using snoc by (auto simp: index_push_def Let_def split: option.splits if_splits)
qed

subsection \<open>Matched blocks\<close>

definition text_at :: "Op list \<Rightarrow> Token list \<Rightarrow> Token list \<Rightarrow> nat \<Rightarrow> string" where
  "text_at ops old new x = the (op_text old new (ops ! x))"

definition side_texts :: "Op list \<Rightarrow> Token list \<Rightarrow> Token list \<Rightarrow> (Op \<Rightarrow> bool) \<Rightarrow> nat set \<Rightarrow> string multiset" where
  "side_texts ops old new p M = image_mset (text_at ops old new) (mset_set {x \<in> M. p (ops ! x)})"

lemma side_texts_Un:
  "finite A \<Longrightarrow> finite B \<Longrightarrow> A \<inter> B = {} \<Longrightarrow> side_texts ops old new p (A \<union> B) = side_texts ops old new p A + side_texts ops old new p B"
proof -
  assume "finite A" "finite B" "A \<inter> B = {}"
  moreover have "{x \<in> A \<union> B. p (ops ! x)} = {x \<in> A. p (ops ! x)} \<union> {x \<in> B. p (ops ! x)}" by auto
  moreover have "{x \<in> A. p (ops ! x)} \<inter> {x \<in> B. p (ops ! x)} = {}" using \<open>A \<inter> B = {}\<close> by auto
  ultimately show ?thesis by (simp add: side_texts_def mset_set_Union)
qed

lemma run_text_at:
  assumes "pure_run p ops k r" "\<And>op. p op \<Longrightarrow> op_text old new op \<noteq> None"
  shows "run_text ops old new r = map (text_at ops old new) [fst r..<snd r]"
proof -
  have "sub_range ops (fst r) (snd r) = map ((!) ops) [fst r..<snd r]"
    using assms(1) by (intro nth_equalityI) (auto simp: pure_run_def sub_range_nth)
  moreover have "List.map_filter (op_text old new) (map ((!) ops) xs) = map (text_at ops old new) xs" if "\<forall>x\<in>set xs. p (ops ! x)" for xs
    using that assms(2) by (induction xs) (auto simp: List.map_filter_simps text_at_def split: option.splits)
  ultimately show ?thesis using assms(1) by (simp add: run_text_def pure_run_def)
qed

lemma side_texts_run:
  assumes "pure_run p ops k r" "\<And>op. p op \<Longrightarrow> op_text old new op \<noteq> None" "\<And>op. p op \<Longrightarrow> \<not> q op"
  shows "side_texts ops old new p (span r) = mset (run_text ops old new r)" "side_texts ops old new q (span r) = {#}"
proof -
  have "{x \<in> span r. p (ops ! x)} = {fst r..<snd r}" using assms(1) by (auto simp: span_def pure_run_def)
  then show "side_texts ops old new p (span r) = mset (run_text ops old new r)"
    by (simp add: side_texts_def run_text_at [OF assms(1,2)])
  have "{x \<in> span r. q (ops ! x)} = {}" using assms(1,3) by (auto simp: span_def pure_run_def)
  then show "side_texts ops old new q (span r) = {#}"
    by (simp only: side_texts_def mset_set.empty image_mset_empty)
qed

lemma delete_insert_facts:
  "is_delete op \<Longrightarrow> op_text old new op \<noteq> None" "is_insert op \<Longrightarrow> op_text old new op \<noteq> None"
  "is_delete op \<Longrightarrow> \<not> is_insert op" "is_insert op \<Longrightarrow> \<not> is_delete op"
  by (cases op; simp)+

lemma kinds_disjoint:
  assumes "pure_run is_delete ops k d" "pure_run is_insert ops k r"
  shows "span d \<inter> span r = {}"
proof -
  have "is_delete (ops ! x)" if "x \<in> span d" for x using assms(1) that by (auto simp: span_def pure_run_def)
  moreover have "is_insert (ops ! x)" if "x \<in> span r" for x using assms(2) that by (auto simp: span_def pure_run_def)
  ultimately show ?thesis using delete_insert_facts(3) by blast
qed

text \<open>What holds while the delete runs are matched: \<open>M\<close> is the set of moved positions so far, \<open>ds\<close> the delete runs to come.\<close>

definition block_pair :: "Op list \<Rightarrow> Token list \<Rightarrow> Token list \<Rightarrow> nat set \<Rightarrow> nat \<times> nat \<Rightarrow> nat \<times> nat \<Rightarrow> bool" where
  "block_pair ops old new M d ins \<longleftrightarrow>
     pure_run is_delete ops 0 d \<and> pure_run is_insert ops 0 ins \<and> span d \<union> span ins \<subseteq> M
     \<and> run_text ops old new d = run_text ops old new ins \<and> MIN_MOVE_RUN \<le> length (run_text ops old new d)"

definition matching :: "Op list \<Rightarrow> Token list \<Rightarrow> Token list \<Rightarrow> (nat \<times> nat) list \<Rightarrow> (nat \<times> nat) list \<Rightarrow> run_index \<times> nat set \<Rightarrow> bool" where
  "matching ops old new is ds st \<longleftrightarrow>
     snd st \<subseteq> {..<length ops}
     \<and> side_texts ops old new is_delete (snd st) = side_texts ops old new is_insert (snd st)
     \<and> (\<forall>x\<in>snd st. \<exists>d ins. x \<in> span d \<union> span ins \<and> block_pair ops old new (snd st) d ins)
     \<and> (\<forall>d\<in>set ds. span d \<inter> snd st = {})
     \<and> (\<forall>key q. fst st key = Some q \<longrightarrow> distinct q \<and> MIN_MOVE_RUN \<le> length key
          \<and> (\<forall>ins\<in>set q. ins \<in> set is \<and> run_text ops old new ins = key \<and> span ins \<inter> snd st = {}))"

lemma matching_step:
  assumes m: "matching ops old new is (d # ds) st"
    and ds: "list_all (pure_run is_delete ops 0) (d # ds)" "sorted_wrt apart (d # ds)"
    and "is": "list_all (pure_run is_insert ops 0) is" "sorted_wrt apart is"
  shows "matching ops old new is ds (match_run ops old new st d)"
proof -
  let ?key = "run_text ops old new d"
  obtain u M where st: "st = (u, M)" by (cases st)
  show ?thesis
  proof (cases "\<exists>ins q. u ?key = Some (ins # q)")
    case False
    then have "match_run ops old new st d = st" by (auto simp: match_run_def st split: option.splits list.splits)
    then show ?thesis using m by (auto simp: matching_def)
  next
    case True
    then obtain ins q where q: "u ?key = Some (ins # q)" by blast
    let ?M = "M \<union> span d \<union> span ins"
    have res: "match_run ops old new st d = (u(?key \<mapsto> q), ?M)" by (simp add: match_run_def st q span_def)
    have pd: "pure_run is_delete ops 0 d" using ds(1) by simp
    have queue: "distinct q0 \<and> MIN_MOVE_RUN \<le> length key
          \<and> (\<forall>ins\<in>set q0. ins \<in> set is \<and> run_text ops old new ins = key \<and> span ins \<inter> M = {})" if "u key = Some q0" for key q0
      using m that unfolding matching_def st fst_conv snd_conv by blast
    have i: "ins \<in> set is" "run_text ops old new ins = ?key" "span ins \<inter> M = {}" "distinct (ins # q)" "MIN_MOVE_RUN \<le> length ?key"
      using queue [OF q] by auto
    then have pi: "pure_run is_insert ops 0 ins" using "is"(1) by (simp add: list_all_iff)
    have dM: "span d \<inter> M = {}" and MM: "M \<subseteq> {..<length ops}" using m by (auto simp: matching_def st)
    have di: "span d \<inter> span r = {}" if "pure_run is_insert ops 0 r" for r
      by (rule kinds_disjoint [OF pd that])
    have fin: "finite M" "finite (span d)" "finite (span ins)" using MM finite_subset by (auto simp: span_def)
    have "(M \<union> span d) \<inter> span ins = {}" "M \<inter> span d = {}" using dM i(3) di [OF pi] by auto
    then have "side_texts ops old new p ?M = side_texts ops old new p M + side_texts ops old new p (span d) + side_texts ops old new p (span ins)" for p
      using side_texts_Un [of "M \<union> span d" "span ins"] side_texts_Un [of M "span d"] fin by simp
    then have bal: "side_texts ops old new is_delete ?M = side_texts ops old new is_insert ?M"
      using m side_texts_run [OF pd delete_insert_facts(1,3)] side_texts_run [OF pi delete_insert_facts(2,4)] i(2)
      by (simp add: matching_def st)
    have pair: "block_pair ops old new ?M d ins" using pd pi i(2,5) by (auto simp: block_pair_def)
    have old_pairs: "block_pair ops old new ?M d' ins'" if "block_pair ops old new M d' ins'" for d' ins'
      using that by (auto simp: block_pair_def)
    have cover: "\<forall>x\<in>?M. \<exists>d ins. x \<in> span d \<union> span ins \<and> block_pair ops old new ?M d ins"
    proof
      fix x assume "x \<in> ?M"
      then consider "x \<in> M" | "x \<in> span d \<union> span ins" by auto
      then show "\<exists>d ins. x \<in> span d \<union> span ins \<and> block_pair ops old new ?M d ins"
      proof cases
        case 1
        then have "\<exists>d ins. x \<in> span d \<union> span ins \<and> block_pair ops old new M d ins"
          using m unfolding matching_def st snd_conv by blast
        then show ?thesis using old_pairs by blast
      next
        case 2
        then show ?thesis using pair by blast
      qed
    qed
    have left: "\<forall>d'\<in>set ds. span d' \<inter> ?M = {}"
    proof
      fix d' assume d': "d' \<in> set ds"
      then have "span d' \<inter> span d = {}" using spans_disjoint [OF ds(2,1), of d' d] runs_distinct [OF ds(2,1)] by auto
      moreover have "span d' \<inter> span ins = {}"
        using d' ds(1) by (intro kinds_disjoint [OF _ pi]) (simp add: list_all_iff)
      moreover have "span d' \<inter> M = {}" using m d' by (auto simp: matching_def st)
      ultimately show "span d' \<inter> ?M = {}" by auto
    qed
    have queues: "distinct q' \<and> MIN_MOVE_RUN \<le> length key
          \<and> (\<forall>r\<in>set q'. r \<in> set is \<and> run_text ops old new r = key \<and> span r \<inter> ?M = {})" if q': "(u(?key \<mapsto> q)) key = Some q'" for key q'
    proof -
      have "\<exists>q0. u key = Some q0 \<and> set q' \<subseteq> set q0 \<and> distinct q' \<and> ins \<notin> set q'"
        using q' q i queue [of key q'] by (cases "key = ?key") auto
      then obtain q0 where q0: "u key = Some q0" "set q' \<subseteq> set q0" "distinct q'" "ins \<notin> set q'" by blast
      have "r \<in> set is \<and> run_text ops old new r = key \<and> span r \<inter> M = {}" if "r \<in> set q'" for r
        using queue [OF q0(1)] q0(2) that by auto
      moreover have "span r \<inter> span ins = {}" "span r \<inter> span d = {}" if "r \<in> set q'" "r \<in> set is" for r
        using spans_disjoint [OF "is"(2,1), of r ins] i(1) q0(4) that di [of r] "is"(1) by (auto simp: list_all_iff)
      moreover have "MIN_MOVE_RUN \<le> length key" using queue [OF q0(1)] by simp
      ultimately show ?thesis using q0(3) by (auto simp: Int_Un_distrib)
    qed
    have "?M \<subseteq> {..<length ops}" using MM pd pi by (auto simp: span_def pure_run_def)
    then show ?thesis using bal cover left queues unfolding matching_def res fst_conv snd_conv by blast
  qed
qed

lemma moved_matching: "\<exists>u is. matching ops old new is [] (u, moved_ops ops old new)"
proof -
  obtain ds "is" where r: "op_runs ops 0 = (ds, is)" by fastforce
  note ok = op_runs_ok [OF r]
  have "matching ops old new is ds (index_runs ops old new is, {})"
    using runs_distinct [of "is" is_insert ops 0] ok
    by (auto simp: matching_def index_runs_eq side_texts_def Let_def split: if_splits)
  moreover have "matching ops old new is [] (foldl (match_run ops old new) st ds)"
    if "matching ops old new is ds st" "list_all (pure_run is_delete ops 0) ds" "sorted_wrt apart ds" for ds st
    using that
  proof (induction ds arbitrary: st)
    case (Cons d ds)
    then show ?case using matching_step [OF Cons.prems] ok by simp
  qed simp
  ultimately have "matching ops old new is [] (foldl (match_run ops old new) (index_runs ops old new is, {}) ds)" using ok by blast
  then show ?thesis by (metis (mono_tags, lifting) case_prod_conv moved_ops_def r surjective_pairing)
qed

lemma moved_op_kinds:
  "tc_kind (op_change old new moved op) = CkMoved \<longleftrightarrow> moved \<and> \<not> is_equal op"
  "tc_old_line (op_change old new moved op) = None \<longleftrightarrow> is_insert op"
  "tc_new_line (op_change old new moved op) = None \<longleftrightarrow> is_delete op"
  by (cases op; simp)+

lemma moved_line_kinds:
  "tc_kind (op_change old new m op) = CkMoved \<and> tc_old_line (op_change old new m op) \<noteq> None \<longleftrightarrow> m \<and> is_delete op"
  "tc_kind (op_change old new m op) = CkMoved \<and> tc_new_line (op_change old new m op) \<noteq> None \<longleftrightarrow> m \<and> is_insert op"
  by (cases op; simp)+

lemma op_change_text: "is_delete op \<or> is_insert op \<Longrightarrow> tc_text (op_change old new moved op) = the (op_text old new op)"
  by (cases op) auto

text \<open>The texts moved away from the old file and to the new one, and the blocks they come in.\<close>

definition moved_texts :: "(TokenChange \<Rightarrow> nat option) \<Rightarrow> TokenChange list \<Rightarrow> string multiset" where
  "moved_texts line changes = image_mset tc_text (filter_mset (\<lambda>c. tc_kind c = CkMoved \<and> line c \<noteq> None) (mset changes))"

definition moved_block :: "TokenChange list \<Rightarrow> (TokenChange \<Rightarrow> nat option) \<Rightarrow> nat \<Rightarrow> nat \<Rightarrow> bool" where
  "moved_block changes other a b \<longleftrightarrow>
     a + MIN_MOVE_RUN \<le> b \<and> b \<le> length changes \<and> (\<forall>k. a \<le> k \<longrightarrow> k < b \<longrightarrow> tc_kind (changes ! k) = CkMoved \<and> other (changes ! k) = None)"

lemma moved_texts_side:
  assumes "M \<subseteq> {..<length ops}" "\<And>op. p op \<Longrightarrow> op_text old new op \<noteq> None" "\<And>op. p op \<Longrightarrow> is_delete op \<or> is_insert op"
    and "\<And>m op. tc_kind (op_change old new m op) = CkMoved \<and> line (op_change old new m op) \<noteq> None \<longleftrightarrow> m \<and> p op"
  shows "moved_texts line (map (\<lambda>k. op_change old new (k \<in> M) (ops ! k)) [0..<length ops]) = side_texts ops old new p M"
proof -
  have "{k. k < length ops \<and> tc_kind (op_change old new (k \<in> M) (ops ! k)) = CkMoved \<and> line (op_change old new (k \<in> M) (ops ! k)) \<noteq> None}
      = {x \<in> M. p (ops ! x)}" unfolding assms(4) using assms(1) by auto
  then have "moved_texts line (map (\<lambda>k. op_change old new (k \<in> M) (ops ! k)) [0..<length ops]) =
      image_mset (\<lambda>k. tc_text (op_change old new (k \<in> M) (ops ! k))) (mset_set {x \<in> M. p (ops ! x)})"
    by (simp add: moved_texts_def filter_mset_image_mset multiset.map_comp comp_def del: not_None_eq)
  also have "\<dots> = side_texts ops old new p M"
    unfolding side_texts_def text_at_def
    by (rule image_mset_cong) (use assms(1,3) finite_subset [OF assms(1)] in \<open>auto simp: op_change_text\<close>)
  finally show ?thesis .
qed

lemma mark_moves_conserved:
  "moved_texts tc_old_line (mark_moves ops old new) = moved_texts tc_new_line (mark_moves ops old new)"
proof -
  let ?M = "moved_ops ops old new"
  obtain u "is" where m: "matching ops old new is [] (u, ?M)" using moved_matching by blast
  then have M: "?M \<subseteq> {..<length ops}" and bal: "side_texts ops old new is_delete ?M = side_texts ops old new is_insert ?M"
    by (auto simp: matching_def)
  have "moved_texts tc_old_line (mark_moves ops old new) = side_texts ops old new is_delete ?M"
    unfolding mark_moves_def Let_def by (rule moved_texts_side [OF M delete_insert_facts(1) _ moved_line_kinds(1)]) auto
  moreover have "moved_texts tc_new_line (mark_moves ops old new) = side_texts ops old new is_insert ?M"
    unfolding mark_moves_def Let_def by (rule moved_texts_side [OF M delete_insert_facts(2) _ moved_line_kinds(2)]) auto
  ultimately show ?thesis using bal by simp
qed

lemma moved_run_changes:
  assumes "pure_run p ops 0 r" "span r \<subseteq> moved_ops ops old new" "\<And>op. p op \<Longrightarrow> op_text old new op \<noteq> None"
    "\<And>op. p op \<Longrightarrow> is_delete op \<or> is_insert op" "\<And>op. p op \<Longrightarrow> other (op_change old new True op) = None"
    "MIN_MOVE_RUN \<le> length (run_text ops old new r)"
  shows "moved_block (mark_moves ops old new) other (fst r) (snd r)"
    "map tc_text (sub_range (mark_moves ops old new) (fst r) (snd r)) = run_text ops old new r"
proof -
  let ?c = "mark_moves ops old new"
  have b: "fst r < snd r" "snd r \<le> length ops" "length ?c = length ops" using assms(1) by (auto simp: pure_run_def mark_moves_def Let_def)
  have at: "?c ! k = op_change old new True (ops ! k) \<and> p (ops ! k)" if "fst r \<le> k" "k < snd r" for k
    using assms(1,2) that by (auto simp: pure_run_def mark_moves_def Let_def span_def subset_iff)
  have kind: "tc_kind (op_change old new True op) = CkMoved" if "p op" for op using assms(4) [OF that] by (cases op) auto
  have run: "run_text ops old new r = map (text_at ops old new) [fst r..<snd r]"
    by (rule run_text_at [OF assms(1)]) (rule assms(3))
  show "moved_block ?c other (fst r) (snd r)"
  proof -
    have "fst r + MIN_MOVE_RUN \<le> snd r" using assms(6) b(1) unfolding run by simp
    then show ?thesis using b at kind assms(5) by (simp add: moved_block_def)
  qed
  show "map tc_text (sub_range ?c (fst r) (snd r)) = run_text ops old new r"
    unfolding run using b at assms(4) by (intro nth_equalityI) (auto simp: sub_range_nth op_change_text text_at_def)
qed

text \<open>Two blocks of a change list, one taken from the old file and one put into the new file, with the same texts.\<close>

definition moved_pair :: "TokenChange list \<Rightarrow> nat \<times> nat \<Rightarrow> nat \<times> nat \<Rightarrow> bool" where
  "moved_pair cs d ins \<longleftrightarrow>
     moved_block cs tc_new_line (fst d) (snd d) \<and> moved_block cs tc_old_line (fst ins) (snd ins)
     \<and> map tc_text (sub_range cs (fst d) (snd d)) = map tc_text (sub_range cs (fst ins) (snd ins))"

definition moved_positions :: "TokenChange list \<Rightarrow> nat set" where
  "moved_positions cs = {x. x < length cs \<and> tc_kind (cs ! x) = CkMoved}"

lemma moved_pair_positions: "moved_pair cs d ins \<Longrightarrow> span d \<union> span ins \<subseteq> moved_positions cs"
  by (auto simp: moved_pair_def moved_block_def moved_positions_def span_def)

lemma mark_moves_blocks:
  "moved_positions (mark_moves ops old new) = \<Union>{span d \<union> span ins | d ins. moved_pair (mark_moves ops old new) d ins}"
proof
  let ?c = "mark_moves ops old new" and ?M = "moved_ops ops old new"
  obtain u "is" where m: "matching ops old new is [] (u, ?M)" using moved_matching by blast
  show "moved_positions ?c \<subseteq> \<Union>{span d \<union> span ins | d ins. moved_pair ?c d ins}"
  proof
    fix x assume "x \<in> moved_positions ?c"
    then have "x \<in> ?M" by (auto simp: moved_positions_def mark_moves_def Let_def moved_op_kinds)
    then obtain d ins where x: "x \<in> span d \<union> span ins" and "block_pair ops old new ?M d ins"
      using m unfolding matching_def snd_conv by blast
    then have b: "pure_run is_delete ops 0 d" "pure_run is_insert ops 0 ins" "span d \<subseteq> ?M" "span ins \<subseteq> ?M"
      "run_text ops old new d = run_text ops old new ins" "MIN_MOVE_RUN \<le> length (run_text ops old new d)"
      by (auto simp: block_pair_def)
    have "moved_pair ?c d ins"
      using moved_run_changes [OF b(1,3) delete_insert_facts(1), where other = tc_new_line]
        moved_run_changes [OF b(2,4) delete_insert_facts(2), where other = tc_old_line] b(5,6)
      by (simp add: moved_pair_def moved_op_kinds)
    then show "x \<in> \<Union>{span d \<union> span ins | d ins. moved_pair ?c d ins}" using x by blast
  qed
  show "\<Union>{span d \<union> span ins | d ins. moved_pair ?c d ins} \<subseteq> moved_positions ?c" using moved_pair_positions by blast
qed

end
