(* ===== verification/Structural_Claims.thy ===== *)
theory Structural_Claims
  imports Structural_Moves
begin

text \<open>
  The properties of the structural diff: the token walk, the script against both files, minimality, the formatting-only
  verdict and the moved blocks.
\<close>

subsection \<open>The token walk\<close>

text \<open>The reference: the tokens of the leaves from left to right, and the nodes the walk has to visit for them.\<close>

function leaves :: "string \<Rightarrow> TsNode \<Rightarrow> Token list" where
  "leaves source (TsNode kind a b row cs) =
     (if cs = [] \<or> is_whole_token kind then leaf_token source (TsNode kind a b row cs) else concat (map (leaves source) cs))"
  by pat_completeness auto
termination
  by (relation "measure (\<lambda>(source, node). size node)") (auto simp: size_list_estimation' less_Suc_eq_le)

function node_visits :: "TsNode \<Rightarrow> nat" where
  "node_visits (TsNode kind a b row cs) = 1 + (if cs = [] \<or> is_whole_token kind then 0 else sum_list (map node_visits cs))"
  by pat_completeness auto
termination
  by (relation "measure size") (auto simp: size_list_estimation' less_Suc_eq_le)

lemma leaf_loop_eq:
  "leaf_loop source stack visited tokens =
     (if visited + sum_list (map node_visits stack) \<le> 200000 then Inr (tokens @ concat (map (leaves source) stack)) 
      else if stack = [] then Inr tokens else Inl NodeBudgetExceeded)"
proof (induction source stack visited tokens rule: leaf_loop.induct)
  case (2 source node stack visited tokens)
  obtain kind a b row cs where n: "node = TsNode kind a b row cs" by (cases node)
  show ?case
  proof (cases "cs = [] \<or> is_whole_token kind")
    case True
    then show ?thesis using 2 by (auto simp: n)
  next
    case False
    then have "sum_list (map node_visits cs) \<ge> 1" by (cases cs; cases "hd cs") auto
    then show ?thesis using 2 False by (auto simp: n)
  qed
qed simp

subsection \<open>The diff of two token streams\<close>

lemma equal_affixes:
  assumes "map tk_text old = map tk_text new"
  shows "common_affixes old new = (length old, 0)"
proof -
  have "length (takeWhile same_text (zip old new)) = length old"
    using assms by (induction old new rule: list_induct2') (auto simp: same_text_def)
  then show ?thesis by (simp add: common_affixes_def)
qed

text \<open>Which script the diff uses, if any: all of them walk both streams to the end.\<close>

lemma diff_tokens_cases:
  obtains (script) ops minimal where "diff_tokens l old new = script_diff l old new ops minimal"
      "script_end (map tk_text old) (map tk_text new) 0 0 ops = Some (length old, length new)"
      "minimal \<longrightarrow> ops = lcs_ops old new"
  | (coarse) "diff_tokens l old new = coarse_diff l old new" "map tk_text old \<noteq> map tk_text new"
proof -
  obtain p s where ps: "common_affixes old new = (p, s)" by fastforce
  note ok = common_affixes_ok [OF ps]
  consider "sat_mul_usize (length old - p - s) (length new - p - s) \<le> LCS_CELL_BUDGET"
    | ops where "LCS_CELL_BUDGET < sat_mul_usize (length old - p - s) (length new - p - s)" "line_anchored_ops old new = Some ops"
    | "LCS_CELL_BUDGET < sat_mul_usize (length old - p - s) (length new - p - s)" "line_anchored_ops old new = None" by fastforce
  then show ?thesis
  proof cases
    case 1
    then show ?thesis using script [of "lcs_ops old new" True] lcs_ops_walks by (simp add: diff_tokens_def ps)
  next
    case 2
    then show ?thesis using script [of _ False] line_anchored_ops_walks [OF 2(2)] by (simp add: diff_tokens_def ps)
  next
    case 3
    have "map tk_text old \<noteq> map tk_text new"
    proof
      assume same: "map tk_text old = map tk_text new"
      have "p = length old" using equal_affixes [OF same] ps by simp
      then show False using 3(1) by (simp add: sat_mul_usize_def)
    qed
    then show ?thesis using coarse 3 by (simp add: diff_tokens_def ps)
  qed
qed

lemma no_edits_same_texts:
  assumes "script_end (map tk_text old) (map tk_text new) 0 0 ops = Some (length old, length new)"
  defines "cs \<equiv> mark_moves ops old new"
  shows "count_changes CkAdded cs = 0 \<and> count_changes CkRemoved cs = 0 \<and> count_changes CkMoved cs = 0 \<Longrightarrow>
    map tk_text old = map tk_text new \<and> count_changes CkUnchanged cs = length old"
proof -
  assume none: "count_changes CkAdded cs = 0 \<and> count_changes CkRemoved cs = 0 \<and> count_changes CkMoved cs = 0"
  have all: "tc_kind c = CkUnchanged" if "c \<in> set cs" for c
    using none that by (cases "tc_kind c") (auto simp: count_changes_def filter_empty_conv)
  have lines: "tc_old_line c \<noteq> None \<and> tc_new_line c \<noteq> None" if c: "c \<in> set cs" for c
  proof -
    obtain op m where "c = op_change old new m op" using c by (auto simp: cs_def mark_moves_def Let_def)
    then show ?thesis using all [OF c] by (cases op) (auto split: if_splits)
  qed
  have "map fst (old_side ds) = map tc_text ds \<and> map fst (new_side ds) = map tc_text ds" if "set ds \<subseteq> set cs" for ds
    using that lines by (induction ds) (fastforce simp: old_side_def new_side_def List.map_filter_simps)+
  from this [of cs] have "map fst (token_pairs old) = map tc_text cs" "map fst (token_pairs new) = map tc_text cs"
    using mark_moves_sides [OF assms(1)] by (simp_all add: cs_def)
  then have t: "map tk_text old = map tc_text cs" "map tk_text new = map tc_text cs" by (simp_all add: token_pairs_def comp_def)
  have "filter (\<lambda>c. tc_kind c = CkUnchanged) cs = cs" using all by (simp add: filter_id_conv)
  then have "count_changes CkUnchanged cs = length old" using t(1) by (metis count_changes_def length_map)
  with t show ?thesis by simp
qed

lemma equal_texts_ops:
  assumes "map tk_text old = map tk_text new"
  shows "diff_tokens l old new = \<lparr>sf_language = l, sf_changes = [], sf_unchanged = length old, sf_added = 0, sf_removed = 0, sf_moved = 0,
    sf_state = StMinimal True\<rparr>"
proof -
  have len: "length old = length new" using assms by (metis length_map)
  note ps = equal_affixes [OF assms]
  have loop: "lcs_loop [] [] t k 0 0 = []" for t :: "nat list" and k by (subst lcs_loop.simps) simp
  have ops: "lcs_ops old new = map (\<lambda>k. OpEqual k k) [0..<length old]"
    using len by (simp add: lcs_ops_def ps sub_range_def loop)
  have kinds: "tc_kind c = CkUnchanged" if "c \<in> set (mark_moves (lcs_ops old new) old new)" for c
    using that by (auto simp: mark_moves_def Let_def ops)
  then have "count_changes k (mark_moves (lcs_ops old new) old new) = (if k = CkUnchanged then length old else 0)" for k
    using mark_moves_unchanged [of "lcs_ops old new" old new]
    by (cases "k = CkUnchanged") (auto simp: count_changes_def filter_empty_conv ops)
  then show ?thesis by (simp add: diff_tokens_def ps script_diff_def Let_def sat_mul_usize_def)
qed

lemma coarse_sides:
  "old_side (sf_changes (coarse_diff l old new)) = token_pairs old" "new_side (sf_changes (coarse_diff l old new)) = token_pairs new"
proof -
  have "old_side (map (\<lambda>t. \<lparr>tc_kind = CkRemoved, tc_text = tk_text t, tc_old_line = Some (tk_line t), tc_new_line = None\<rparr>) ts) = token_pairs ts"
    "new_side (map (\<lambda>t. \<lparr>tc_kind = CkRemoved, tc_text = tk_text t, tc_old_line = Some (tk_line t), tc_new_line = None\<rparr>) ts) = []"
    "old_side (map (\<lambda>t. \<lparr>tc_kind = CkAdded, tc_text = tk_text t, tc_old_line = None, tc_new_line = Some (tk_line t)\<rparr>) ts) = []"
    "new_side (map (\<lambda>t. \<lparr>tc_kind = CkAdded, tc_text = tk_text t, tc_old_line = None, tc_new_line = Some (tk_line t)\<rparr>) ts) = token_pairs ts" for ts
    by (induction ts) (simp_all add: old_side_def new_side_def token_pairs_def List.map_filter_simps)
  then show "old_side (sf_changes (coarse_diff l old new)) = token_pairs old" "new_side (sf_changes (coarse_diff l old new)) = token_pairs new"
    by (simp_all add: coarse_diff_def)
qed

lemma coarse_counts:
  "count_changes k (sf_changes (coarse_diff l old new)) = (case k of CkRemoved \<Rightarrow> length old | CkAdded \<Rightarrow> length new | _ \<Rightarrow> 0)"
  by (cases k) (auto simp: coarse_diff_def count_changes_def filter_empty_conv)

text \<open>The counts of a diff are those of its changes.\<close>

definition counts_agree :: "StructuralDiff \<Rightarrow> bool" where
  "counts_agree d \<longleftrightarrow>
     sf_unchanged d = count_changes CkUnchanged (sf_changes d) \<and> sf_added d = count_changes CkAdded (sf_changes d)
     \<and> sf_removed d = count_changes CkRemoved (sf_changes d) \<and> sf_moved d = count_changes CkMoved (sf_changes d)"

lemma script_diff_changed:
  assumes "script_end (map tk_text old) (map tk_text new) 0 0 ops = Some (length old, length new)" "map tk_text old \<noteq> map tk_text new"
  shows "sf_changes (script_diff l old new ops m) = mark_moves ops old new" "counts_agree (script_diff l old new ops m)"
    "sf_state (script_diff l old new ops m) = (if m then StMinimal False else StLineAnchored)"
proof -
  have "\<not> (count_changes CkAdded (mark_moves ops old new) = 0 \<and> count_changes CkRemoved (mark_moves ops old new) = 0
      \<and> count_changes CkMoved (mark_moves ops old new) = 0)"
    using no_edits_same_texts [OF assms(1)] assms(2) by blast
  then show "sf_changes (script_diff l old new ops m) = mark_moves ops old new" "counts_agree (script_diff l old new ops m)"
    "sf_state (script_diff l old new ops m) = (if m then StMinimal False else StLineAnchored)"
    by (auto simp: script_diff_def counts_agree_def Let_def)
qed

lemma diff_tokens_reformat: "reformat_only (diff_tokens l old new) \<longleftrightarrow> map tk_text old = map tk_text new"
proof (cases "map tk_text old = map tk_text new")
  case True
  then show ?thesis by (simp add: equal_texts_ops reformat_only_def)
next
  case False
  then show ?thesis
    by (cases rule: diff_tokens_cases [of l old new]) (auto simp: reformat_only_def script_diff_changed coarse_diff_def)
qed

subsection \<open>The properties\<close>

text \<open>C33: the token walk reads a tree's leaves from left to right, a comment or string literal as one leaf, and gives up exactly
  when it would have to visit more nodes than the budget allows.\<close>

theorem token_walk_is_leaf_order:
  "leaf_loop source [root] 0 [] = (if node_visits root \<le> 200000 then Inr (leaves source root) else Inl NodeBudgetExceeded)"
  using leaf_loop_eq [of source "[root]" 0 "[]"] by simp

text \<open>C6: the diff of two token streams is exact whichever way it was computed: equal texts give an empty script that counts every
  token as unchanged; otherwise the changes, read on either side, are that file's tokens with their lines, in order, and the counts are
  those of the changes.\<close>

theorem structural_diff_replays_both_files:
  "if map tk_text old = map tk_text new
   then diff_tokens l old new = \<lparr>sf_language = l, sf_changes = [], sf_unchanged = length old, sf_added = 0, sf_removed = 0, sf_moved = 0,
     sf_state = StMinimal True\<rparr>
   else \<not> reformat_only (diff_tokens l old new) \<and> unavailable (diff_tokens l old new) = None
     \<and> old_side (sf_changes (diff_tokens l old new)) = token_pairs old
     \<and> new_side (sf_changes (diff_tokens l old new)) = token_pairs new \<and> counts_agree (diff_tokens l old new)"
proof (cases "map tk_text old = map tk_text new")
  case True
  then show ?thesis using equal_texts_ops by simp
next
  case False
  show ?thesis
  proof (cases rule: diff_tokens_cases [of l old new])
    case (script ops m)
    note s = script_diff_changed [OF script(2) False, of l m]
    show ?thesis using False s mark_moves_sides [OF script(2)]
      by (simp add: script(1) reformat_only_def unavailable_def)
  next
    case coarse
    then show ?thesis using False coarse_sides [of l old new] coarse_counts [of _ l old new]
      by (simp add: reformat_only_def unavailable_def counts_agree_def) (simp add: coarse_diff_def)
  qed
qed

lemma lcs_len_same: "lcs_len xs xs = length xs"
  by (induction xs) auto

lemma diff_tokens_unchanged:
  assumes "is_minimal (diff_tokens l old new)"
  shows "sf_unchanged (diff_tokens l old new) = lcs_len (map tk_text old) (map tk_text new)"
proof (cases "map tk_text old = map tk_text new")
  case True
  have "sf_unchanged (diff_tokens l old new) = length old" using equal_texts_ops [OF True, of l] by simp
  also have "\<dots> = lcs_len (map tk_text old) (map tk_text old)" by (simp add: lcs_len_same)
  finally show ?thesis using True by simp
next
  case False
  show ?thesis
  proof (cases rule: diff_tokens_cases [of l old new])
    case (script ops m)
    note s = script_diff_changed [OF script(2) False, of l m]
    have m: m using assms s(3) by (cases m) (auto simp: script(1) is_minimal_def)
    have "sf_unchanged (diff_tokens l old new) = matches ops"
      using s(1,2) mark_moves_unchanged [of ops old new] by (simp add: script(1) counts_agree_def)
    then show ?thesis using script(3) m lcs_ops_matches by simp
  next
    case coarse
    then show ?thesis using assms by (simp add: is_minimal_def coarse_diff_def)
  qed
qed

lemma small_is_minimal:
  assumes "length old * length new \<le> LCS_CELL_BUDGET"
  shows "is_minimal (diff_tokens l old new)"
proof -
  obtain p s where ps: "common_affixes old new = (p, s)" by fastforce
  have "(length old - p - s) * (length new - p - s) \<le> length old * length new" by (intro mult_le_mono) auto
  then have "sat_mul_usize (length old - p - s) (length new - p - s) \<le> LCS_CELL_BUDGET" using assms by (simp add: sat_mul_usize_def)
  then show ?thesis by (simp add: diff_tokens_def ps is_minimal_def script_diff_def Let_def)
qed

text \<open>C7: a diff that calls itself minimal matches a longest common subsequence of the two token streams: some common subsequence
  has as many tokens as it reports unchanged, and none has more.\<close>

theorem structural_diff_minimal:
  assumes "is_minimal (diff_tokens l old new)"
  shows "(\<exists>zs. subseq zs (map tk_text old) \<and> subseq zs (map tk_text new) \<and> length zs = sf_unchanged (diff_tokens l old new))
     \<and> (\<forall>zs. subseq zs (map tk_text old) \<and> subseq zs (map tk_text new) \<longrightarrow> length zs \<le> sf_unchanged (diff_tokens l old new))"
  unfolding diff_tokens_unchanged [OF assms] using lcs_len_attained lcs_len_upper by blast

definition sample_tokens :: "string list \<Rightarrow> Token list" where
  "sample_tokens ts = map (\<lambda>t. \<lparr>tk_text = t, tk_line = 1\<rparr>) ts"

theorem structural_diff_minimal_witness:
  "2 \<le> sf_unchanged (diff_tokens SlRust (sample_tokens [''a'', ''+'', ''b'']) (sample_tokens [''+'', ''c'', ''b'']))"
proof -
  have "is_minimal (diff_tokens SlRust (sample_tokens [''a'', ''+'', ''b'']) (sample_tokens [''+'', ''c'', ''b'']))"
    by (rule small_is_minimal) (simp add: sample_tokens_def LCS_CELL_BUDGET_def)
  from structural_diff_minimal [OF this] have "length [''+'', ''b''] \<le> sf_unchanged (diff_tokens SlRust (sample_tokens [''a'', ''+'', ''b'']) (sample_tokens [''+'', ''c'', ''b'']))"
    by (auto simp: sample_tokens_def)
  then show ?thesis by simp
qed

text \<open>C8: a change is called formatting only exactly when both files were tokenized and their tokens have the same texts; a source
  that cannot be analysed is never called unchanged.\<close>

theorem reformat_only_means_same_tokens:
  "reformat_only (structural_diff g l old_source new_source) \<longleftrightarrow>
     (\<exists>old new. tokenize_checked g l old_source = Inr old \<and> tokenize_checked g l new_source = Inr new
        \<and> map tk_text old = map tk_text new)"
proof -
  show ?thesis
    by (cases "tokenize_checked g l old_source"; cases "tokenize_checked g l new_source")
       (simp_all add: structural_diff_def diff_tokens_reformat, simp_all add: reformat_only_def)
qed

definition moves_paired :: "TokenChange list \<Rightarrow> bool" where
  "moves_paired cs \<longleftrightarrow>
     moved_positions cs = \<Union>{span d \<union> span ins | d ins. moved_pair cs d ins} \<and> moved_texts tc_old_line cs = moved_texts tc_new_line cs"

lemma structural_changes:
  obtains "sf_changes (structural_diff g l so sn) = []"
  | old new where "sf_changes (structural_diff g l so sn) = sf_changes (coarse_diff l old new)"
  | old new ops where "sf_changes (structural_diff g l so sn) = mark_moves ops old new"
proof (cases "tokenize_checked g l so"; cases "tokenize_checked g l sn")
  fix old new assume t: "tokenize_checked g l so = Inr old" "tokenize_checked g l sn = Inr new"
  show thesis
  proof (cases rule: diff_tokens_cases [of l old new])
    case (script ops m)
    then have "sf_changes (structural_diff g l so sn) \<in> {[], mark_moves ops old new}"
      by (simp add: structural_diff_def t script_diff_def Let_def)
    then show thesis using \<open>sf_changes (structural_diff g l so sn) = [] \<Longrightarrow> thesis\<close> that(3) by blast
  next
    case coarse
    then show thesis using that(2) [of old new] by (simp add: structural_diff_def t)
  qed
qed (auto simp: structural_diff_def intro: that(1))

text \<open>C9: what a diff calls moved was moved: the tokens marked so are exactly those of pairs of blocks, at least three tokens long,
  one taken out of the old file and one put into the new file with the same texts; and the texts moved out and in agree token by
  token.\<close>

theorem moved_blocks_come_in_pairs:
  "moves_paired (sf_changes (structural_diff g l old_source new_source))"
proof -
  have none: "moves_paired xs" if "\<forall>c\<in>set xs. tc_kind c \<noteq> CkMoved" for xs
  proof -
    have "moved_positions xs = {}" using that nth_mem by (fastforce simp: moved_positions_def)
    moreover from this have "\<Union>{span d \<union> span ins | d ins. moved_pair xs d ins} = {}" using moved_pair_positions [of xs] by blast
    moreover have "moved_texts line xs = {#}" for line
      using that by (auto simp: moved_texts_def filter_mset_eq_mempty_iff)
    ultimately show ?thesis by (simp add: moves_paired_def)
  qed
  show ?thesis
  proof (cases rule: structural_changes [of g l old_source new_source])
    case 1
    then show ?thesis using none [of "[]"] by simp
  next
    case (2 old new)
    have "\<forall>c\<in>set (sf_changes (coarse_diff l old new)). tc_kind c \<noteq> CkMoved" by (auto simp: coarse_diff_def)
    then show ?thesis using none 2 by simp
  next
    case (3 old new ops)
    then show ?thesis using mark_moves_blocks mark_moves_conserved by (simp add: moves_paired_def)
  qed
qed

end
