(* ===== verification/Review_Service.thy ===== *)
theory Review_Service
  imports Structural Sealed_Review Btree "HOL-Library.Option_ord"
begin

text \<open>
  The shared review service: \<open>src/crates/deep-diff-forge-pipeline/src/review.rs\<close> and the snapshot digest of
  \<open>src/crates/deep-diff-forge-core/src/snapshot.rs\<close>. A captured patch and the full sources of its files become a bundle
  in which every file has a coverage record; the sources are refused unless the patch turns the one into the other. The
  grammar library stays a parameter. The JSON envelope of a bundle is not modelled; the regions it lists are.
\<close>

subsection \<open>Data\<close>

record SourcePair =
  sp_path :: string
  sp_old :: "string option"
  sp_new :: "string option"

datatype Coverage = CvAnalyzed | CvPartialLcs | CvMissingSource | CvUnsupportedChange | CvUnavailable FallbackReason

fun Coverage_label :: "Coverage \<Rightarrow> string" where
  "Coverage_label CvAnalyzed = ''analyzed''"
| "Coverage_label CvPartialLcs = ''partial_lcs''"
| "Coverage_label CvMissingSource = ''missing_source''"
| "Coverage_label CvUnsupportedChange = ''unsupported_change''"
| "Coverage_label (CvUnavailable r) = ''unavailable''"

record FileAnalysis =
  fa_path :: string
  fa_coverage :: Coverage
  fa_structural :: "StructuralDiff option"

record ReviewBundle =
  rb_patch :: CapturedPatch
  rb_id :: string
  rb_base_id :: string
  rb_candidate_id :: string
  rb_files :: "ReviewFile list"
  rb_analyses :: "FileAnalysis list"

text \<open>The messages of an invalid source, one constructor each.\<close>

datatype SourceFault = RepeatedSections | SourceBudget | DuplicateOrExtra string | NotTransformed string

datatype ReviewError = RePatch PatchParseError | ReInvalidSources SourceFault

subsection \<open>Snapshot identities\<close>

definition snapshot_frame :: "string \<Rightarrow> string" where
  "snapshot_frame bytes = be_bytes 8 (length bytes mod 2 ^ 64) @ bytes"

definition snapshot_entry :: "string \<times> string option \<Rightarrow> string" where
  "snapshot_entry e =
     snapshot_frame (fst e) @ (case snd e of None \<Rightarrow> [CHR 0x00] | Some bytes \<Rightarrow> CHR 0x01 # snapshot_frame bytes)"

definition snapshot_bytes :: "(string \<times> string option) list \<Rightarrow> string" where
  "snapshot_bytes sources = ''ddf.changed-source-snapshot.v1'' @ [NUL] @ concat (map snapshot_entry (sort_key fst sources))"

definition changed_source_snapshot_id :: "(string \<times> string option) list \<Rightarrow> string" where
  "changed_source_snapshot_id sources = sha256_hex (snapshot_bytes sources)"

definition snapshot_id :: "(string \<times> SourcePair) list \<Rightarrow> bool \<Rightarrow> string" where
  "snapshot_id pairs old =
     changed_source_snapshot_id (map (\<lambda>(path, pair). (path, if old then sp_old pair else sp_new pair)) pairs)"

subsection \<open>The patch against the sources\<close>

definition line_body :: "PatchLine \<Rightarrow> string" where
  "line_body l = pl_text l @ (if pl_no_newline l then [] else [LF])"

fun match_lines :: "string list \<Rightarrow> PatchLine list \<Rightarrow> nat \<times> string \<times> nat \<Rightarrow> (nat \<times> string \<times> nat) option" where
  "match_lines old_lines [] st = Some st"
| "match_lines old_lines (l # ls) (cursor, out, out_lines) =
     (if pl_kind l \<noteq> LkAdded \<and> nth_get old_lines cursor \<noteq> Some (line_body l) then None
      else match_lines old_lines ls
        (if pl_kind l \<noteq> LkAdded then cursor + 1 else cursor,
         if pl_kind l \<noteq> LkRemoved then out @ line_body l else out,
         if pl_kind l \<noteq> LkRemoved then out_lines + 1 else out_lines))"

definition hunk_old_count :: "PatchHunk \<Rightarrow> nat" where
  "hunk_old_count h = length (filter (\<lambda>l. pl_kind l \<noteq> LkAdded) (ph_lines h))"

definition hunk_new_count :: "PatchHunk \<Rightarrow> nat" where
  "hunk_new_count h = length (filter (\<lambda>l. pl_kind l \<noteq> LkRemoved) (ph_lines h))"

definition hunk_start :: "PatchHunk \<Rightarrow> nat" where
  "hunk_start h =
     (let declared = (case ph_old_start h of None \<Rightarrow> 0 | Some n \<Rightarrow> n) in if hunk_old_count h = 0 then declared else declared - 1)"

definition match_hunk :: "string list \<Rightarrow> PatchHunk \<Rightarrow> nat \<times> string \<times> nat \<Rightarrow> (nat \<times> string \<times> nat) option" where
  "match_hunk old_lines h st =
     (case st of (cursor, out, out_lines) \<Rightarrow>
        let start = hunk_start h in
        if start < cursor \<or> length old_lines < start then None
        else
          (let out_lines' = out_lines + (start - cursor);
               expected = (if hunk_new_count h = 0 then out_lines' else out_lines' + 1) in
           if ph_new_start h \<noteq> Some expected then None
           else match_lines old_lines (ph_lines h) (start, out @ concat (sub_range old_lines cursor start), out_lines')))"

fun match_hunks :: "string list \<Rightarrow> PatchHunk list \<Rightarrow> nat \<times> string \<times> nat \<Rightarrow> (nat \<times> string \<times> nat) option" where
  "match_hunks old_lines [] st = Some st"
| "match_hunks old_lines (h # hs) st = Option.bind (match_hunk old_lines h st) (match_hunks old_lines hs)"

definition patch_matches :: "ReviewFile \<Rightarrow> string \<Rightarrow> string \<Rightarrow> bool" where
  "patch_matches file old new =
     (let old_lines = split_inclusive LF old in
      case match_hunks old_lines (pt_hunks (rf_patch_twin file)) (0, [], 0) of
        None \<Rightarrow> False
      | Some (cursor, out, out_lines) \<Rightarrow> out @ concat (drop cursor old_lines) = new)"

subsection \<open>Enriching a file\<close>

fun ranges_loop :: "nat \<Rightarrow> nat \<Rightarrow> string list \<Rightarrow> TextRange list" where
  "ranges_loop index offset [] = []"
| "ranges_loop index offset (part # parts) =
     \<lparr>tr_start_byte = offset, tr_end_byte = offset + length part, tr_start_line = min (index + 1) u32_max, tr_end_line = min (index + 1) u32_max\<rparr>
     # ranges_loop (index + 1) (offset + length part) parts"

definition line_ranges :: "string \<Rightarrow> TextRange list" where
  "line_ranges source = ranges_loop 0 0 (split_inclusive LF source)"

type_synonym hunk_index = "nat \<rightharpoonup> nat"

definition index_line :: "(PatchLine \<Rightarrow> nat option) \<Rightarrow> nat \<Rightarrow> hunk_index \<Rightarrow> PatchLine \<Rightarrow> hunk_index" where
  "index_line line hunk m l = (case line l of None \<Rightarrow> m | Some n \<Rightarrow> m(n \<mapsto> hunk))"

definition index_hunks :: "(PatchLine \<Rightarrow> nat option) \<Rightarrow> PatchHunk list \<Rightarrow> hunk_index" where
  "index_hunks line hunks = foldl (\<lambda>m h. foldl (index_line line (ph_id h)) m (ph_lines h)) Map.empty hunks"

definition in_hunk :: "nat \<Rightarrow> nat option \<Rightarrow> hunk_index \<Rightarrow> nat option" where
  "in_hunk extra start hunks = Option.bind start (\<lambda>s. find_map hunks [s..<sat_add32 s extra + 1])"

fun change_span_kind :: "ChangeKind \<Rightarrow> SemanticChangeKind option" where
  "change_span_kind CkAdded = Some AddedNode"
| "change_span_kind CkRemoved = Some RemovedNode"
| "change_span_kind CkMoved = Some MovedNode"
| "change_span_kind CkUnchanged = None"

definition change_hunk :: "hunk_index \<Rightarrow> hunk_index \<Rightarrow> TokenChange \<Rightarrow> nat option" where
  "change_hunk old_hunks new_hunks change =
     (let extra = min (length (filter (\<lambda>c. c = LF) (tc_text change))) u32_max in
      case in_hunk extra (tc_old_line change) old_hunks of
        Some h \<Rightarrow> Some h
      | None \<Rightarrow> in_hunk extra (tc_new_line change) new_hunks)"

definition change_range :: "TextRange list \<Rightarrow> nat option \<Rightarrow> TextRange option" where
  "change_range ranges line = Option.bind line (\<lambda>n. nth_get ranges (n - 1))"

text \<open>The loop over the changes; it returns the spans, the next span number and whether a change was in no hunk.\<close>

fun span_loop :: "hunk_index \<Rightarrow> hunk_index \<Rightarrow> TextRange list \<Rightarrow> TextRange list \<Rightarrow> nat \<Rightarrow> TokenChange list
    \<Rightarrow> SemanticSpan list \<times> nat \<times> bool" where
  "span_loop old_hunks new_hunks old_ranges new_ranges span_id [] = ([], span_id, False)"
| "span_loop old_hunks new_hunks old_ranges new_ranges span_id (c # cs) =
     (case (change_span_kind (tc_kind c), change_hunk old_hunks new_hunks c) of
        (None, _) \<Rightarrow> span_loop old_hunks new_hunks old_ranges new_ranges span_id cs
      | (Some kind, None) \<Rightarrow>
          (let (spans, next, lost) = span_loop old_hunks new_hunks old_ranges new_ranges span_id cs in (spans, next, True))
      | (Some kind, Some hunk) \<Rightarrow>
          (let (spans, next, lost) = span_loop old_hunks new_hunks old_ranges new_ranges (span_id + 1) cs in
           (\<lparr>ss_id = span_id, ss_hunk_id = hunk, ss_kind = kind, ss_old_range = change_range old_ranges (tc_old_line c),
             ss_new_range = change_range new_ranges (tc_new_line c)\<rparr> # spans, next, lost)))"

definition opt_text :: "string option \<Rightarrow> string" where
  "opt_text s = (case s of None \<Rightarrow> [] | Some t \<Rightarrow> t)"

definition enrich_file :: "Grammar \<Rightarrow> ReviewFile \<Rightarrow> SourcePair \<Rightarrow> nat \<Rightarrow> ReviewFile \<times> FileAnalysis \<times> nat" where
  "enrich_file g file pair span_id =
     (let old = opt_text (sp_old pair);
          new = opt_text (sp_new pair);
          diff = structural_diff g (syntax_detect_language (rf_path file)) old new;
          hunks = pt_hunks (rf_patch_twin file);
          (spans, next, lost) = span_loop (index_hunks pl_old_line hunks) (index_hunks pl_new_line hunks) (line_ranges old) (line_ranges new)
            span_id (sf_changes diff);
          first = (case unavailable diff of Some r \<Rightarrow> CvUnavailable r | None \<Rightarrow> if degraded diff then CvPartialLcs else CvAnalyzed);
          coverage = (if lost \<and> first = CvAnalyzed then CvPartialLcs else first);
          planner = (case unavailable diff of
              Some r \<Rightarrow> (rf_planner file)\<lparr>pd_fallback := Some r\<rparr>
            | None \<Rightarrow> (rf_planner file)\<lparr>pd_strategy := DsSyntax\<rparr>);
          twin = \<lparr>st_language = SyntaxLanguage_name (sf_language diff),
            st_parse_status = (case unavailable diff of None \<Rightarrow> Parsed | Some r \<Rightarrow> Fallback r), st_spans = spans\<rparr> in
      (file\<lparr>rf_semantic_twin := Some twin, rf_planner := planner\<rparr>,
       \<lparr>fa_path = rf_path file, fa_coverage = coverage, fa_structural = Some diff\<rparr>, next))"

subsection \<open>The service\<close>

fun collect_pairs :: "string set \<Rightarrow> nat \<Rightarrow> SourcePair list \<Rightarrow> (string \<times> SourcePair) list \<Rightarrow> ReviewError + (string \<times> SourcePair) list" where
  "collect_pairs paths bytes [] pairs = Inr pairs"
| "collect_pairs paths bytes (p # ps) pairs =
     (let bytes' = sat_add_usize (sat_add_usize bytes (length (opt_text (sp_old p)))) (length (opt_text (sp_new p))) in
      if DEFAULT_BYTE_BUDGET < bytes' then Inl (ReInvalidSources SourceBudget)
      else if bt_get pairs (sp_path p) \<noteq> None \<or> sp_path p \<notin> paths then Inl (ReInvalidSources (DuplicateOrExtra (sp_path p)))
      else collect_pairs paths bytes' ps (bt_insert (sp_path p) p pairs))"

definition supported_change :: "ReviewFile \<Rightarrow> bool" where
  "supported_change file \<longleftrightarrow>
     rf_status file \<in> {FsAdded, FsDeleted, FsModified} \<and> pt_hunks (rf_patch_twin file) \<noteq> []
     \<and> \<not> list_ex (starts_with ''copy from '') (pt_metadata (rf_patch_twin file))"

definition absence_valid :: "FileStatus \<Rightarrow> SourcePair \<Rightarrow> bool" where
  "absence_valid status pair =
     (case status of
        FsAdded \<Rightarrow> sp_old pair = None \<and> sp_new pair \<noteq> None
      | FsDeleted \<Rightarrow> sp_old pair \<noteq> None \<and> sp_new pair = None
      | _ \<Rightarrow> sp_old pair \<noteq> None \<and> sp_new pair \<noteq> None)"

fun service_loop :: "Grammar \<Rightarrow> (string \<times> SourcePair) list \<Rightarrow> nat \<Rightarrow> ReviewFile list \<Rightarrow> ReviewError + (ReviewFile \<times> FileAnalysis) list" where
  "service_loop g pairs span_id [] = Inr []"
| "service_loop g pairs span_id (file # files) =
     (case bt_get pairs (rf_path file) of
        None \<Rightarrow> res_bind (service_loop g pairs span_id files) (\<lambda>rest.
          Inr ((file, \<lparr>fa_path = rf_path file, fa_coverage = CvMissingSource, fa_structural = None\<rparr>) # rest))
      | Some pair \<Rightarrow>
          if \<not> supported_change file then res_bind (service_loop g pairs span_id files) (\<lambda>rest.
            Inr ((file, \<lparr>fa_path = rf_path file, fa_coverage = CvUnsupportedChange, fa_structural = None\<rparr>) # rest))
          else if \<not> absence_valid (rf_status file) pair \<or> \<not> patch_matches file (opt_text (sp_old pair)) (opt_text (sp_new pair))
          then Inl (ReInvalidSources (NotTransformed (rf_path file)))
          else case enrich_file g file pair span_id of
            (file', analysis, span_id') \<Rightarrow>
              res_bind (service_loop g pairs span_id' files) (\<lambda>rest. Inr ((file', analysis) # rest)))"

definition analyze_review :: "Grammar \<Rightarrow> string \<Rightarrow> SourcePair list \<Rightarrow> ReviewError + ReviewBundle" where
  "analyze_review g raw sources =
     (case capture raw of
        Inl e \<Rightarrow> Inl (RePatch e)
      | Inr patch \<Rightarrow>
          (let paths = set (map rf_path (cp_files patch)) in
           if card paths \<noteq> length (cp_files patch) then Inl (ReInvalidSources RepeatedSections)
           else res_bind (collect_pairs paths 0 sources []) (\<lambda>pairs.
             let base_id = snapshot_id pairs True; candidate_id = snapshot_id pairs False in
             res_bind (service_loop g pairs 0 (cp_files patch)) (\<lambda>results.
             Inr \<lparr>rb_patch = patch,
               rb_id = sha256_hex (''ddf.review.v1'' @ [NUL] @ cp_digest patch @ [NUL] @ base_id @ [NUL] @ candidate_id),
               rb_base_id = base_id, rb_candidate_id = candidate_id, rb_files = map fst results, rb_analyses = map snd results\<rparr>))))"

subsection \<open>Regions\<close>

type_synonym line_range = "(nat \<times> nat) option"

definition range_lines :: "TextRange option \<Rightarrow> line_range" where
  "range_lines r = map_option (\<lambda>r. (tr_start_line r, tr_end_line r)) r"

fun adjoins :: "line_range \<Rightarrow> line_range \<Rightarrow> bool" where
  "adjoins None None \<longleftrightarrow> True"
| "adjoins (Some (s, e)) (Some (s', e')) \<longleftrightarrow> s \<le> s' \<and> s' \<le> sat_add32 e 1"
| "adjoins _ _ \<longleftrightarrow> False"

fun widen :: "line_range \<Rightarrow> line_range \<Rightarrow> line_range" where
  "widen (Some (s, e)) (Some (s', e')) = Some (s, max e e')"
| "widen run _ = run"

fun SemanticChangeKind_rank :: "SemanticChangeKind \<Rightarrow> nat" where
  "SemanticChangeKind_rank AddedNode = 0"
| "SemanticChangeKind_rank RemovedNode = 1"
| "SemanticChangeKind_rank ModifiedNode = 2"
| "SemanticChangeKind_rank MovedNode = 3"
| "SemanticChangeKind_rank ReformattedOnly = 4"
| "SemanticChangeKind_rank RenamedSymbol = 5"

definition span_key :: "SemanticSpan \<Rightarrow> nat \<times> nat \<times> line_range \<times> line_range" where
  "span_key s = (ss_hunk_id s, SemanticChangeKind_rank (ss_kind s), range_lines (ss_old_range s), range_lines (ss_new_range s))"

type_synonym region = "SemanticSpan \<times> line_range \<times> line_range \<times> nat"

definition region_push :: "region list \<Rightarrow> SemanticSpan \<Rightarrow> region list" where
  "region_push regions s =
     (let old = range_lines (ss_old_range s); new = range_lines (ss_new_range s) in
      case last_get regions of
        Some (first, run_old, run_new, count) \<Rightarrow>
          if ss_hunk_id first = ss_hunk_id s \<and> ss_kind first = ss_kind s \<and> adjoins run_old old \<and> adjoins run_new new
          then butlast regions @ [(first, widen run_old old, widen run_new new, count + 1)]
          else regions @ [(s, old, new, 1)]
      | None \<Rightarrow> regions @ [(s, old, new, 1)])"

definition span_regions :: "SemanticSpan list \<Rightarrow> region list" where
  "span_regions spans = foldl region_push [] (sort_key span_key spans)"

end
