(* ===== verification/Engine_Notes.thy ===== *)
theory Engine_Notes
  imports Annotations Rank Std_More
begin

text \<open>
  The engine's own notes: \<open>src/crates/deep-diff-forge-tui/src/notes.rs\<close>. The property at the end: on a review that
  names no path twice, every note is the engine's, carries evidence and resolves in the review.
\<close>

definition em_dash :: string where
  "em_dash = utf8_encode 0x2014"

definition EVIDENCE_BASIS :: string where
  "EVIDENCE_BASIS = ''lexical''"

fun Side_label :: "Side \<Rightarrow> string" where
  "Side_label SideNew = ''new''"
| "Side_label SideOld = ''old''"

fun code_phrase :: "EvidenceSignal \<Rightarrow> string" where
  "code_phrase UnsafeAdded = ''`unsafe` added.''"
| "code_phrase ProcessSpawn = ''Starts a process.''"
| "code_phrase NetworkFetch = ''Makes a network call or download.''"
| "code_phrase DynamicEval = ''Builds and runs code from data.''"
| "code_phrase CiPrivilege = ''CI workflow gains a privilege.''"
| "code_phrase BuildHook = ''Runs at build or install time.''"
| "code_phrase SecretLike = ''Looks like a credential.''"
| "code_phrase CheckSuppressed = ''A lint, type or coverage check is switched off.''"
| "code_phrase TestRemoved = ''A test is removed.''"

fun signal_phrase :: "RiskSignal \<Rightarrow> string" where
  "signal_phrase PublicApiSurface = ''Public API surface '' @ em_dash @ '' review first.''"
| "signal_phrase NewFile = ''New file.''"
| "signal_phrase DeletedFile = ''File deleted '' @ em_dash @ '' check for lost behaviour.''"
| "signal_phrase BinaryChange = ''Binary change '' @ em_dash @ '' no reviewable text.''"
| "signal_phrase LargeChange = ''Large change by line count.''"
| "signal_phrase ManyHunks = ''Many hunks '' @ em_dash @ '' scattered edits.''"
| "signal_phrase ConfigOrLockfile = ''Config/lockfile change.''"
| "signal_phrase TestOnly = ''Test-only change (lower priority).''"
| "signal_phrase GeneratedOrVendored = ''Generated/vendored path '' @ em_dash @ '' lower priority, but its author chose the path.''"
| "signal_phrase HazardousText =
     ''Hidden or control characters, or a traversing path '' @ em_dash @ '' what you see may not be what applies.''"
| "signal_phrase SymlinkChange = ''Symlink '' @ em_dash @ '' check where it points.''"
| "signal_phrase ExecutableBit = ''Becomes executable '' @ em_dash @ '' check what runs it.''"
| "signal_phrase (RsCode signal) = code_phrase signal"

fun semantic_phrase :: "SemanticChangeKind \<Rightarrow> string" where
  "semantic_phrase AddedNode = ''node added''"
| "semantic_phrase RemovedNode = ''node removed''"
| "semantic_phrase ModifiedNode = ''node modified''"
| "semantic_phrase MovedNode = ''node moved''"
| "semantic_phrase ReformattedOnly = ''reformatted only''"
| "semantic_phrase RenamedSymbol = ''symbol renamed''"

definition first_anchor :: "ReviewFile \<Rightarrow> AnnotationAnchor" where
  "first_anchor f =
     (case pt_hunks (rf_patch_twin f) of [] \<Rightarrow> AaFile (rf_path f) | h # hs \<Rightarrow> AaHunk (rf_path f) (ph_id h))"

definition system_note :: "string \<Rightarrow> AnnotationAnchor \<Rightarrow> string \<Rightarrow> string list \<Rightarrow> AgentAnnotation" where
  "system_note i anchor body evidence =
     \<lparr>an_id = i, an_anchor = anchor, an_body = body,
      an_provenance = \<lparr>ap_agent = SYSTEM_AGENT_ID, ap_model = None, ap_evidence = evidence\<rparr>, an_grounded = True\<rparr>"

definition risk_note :: "ReviewFile \<Rightarrow> RiskSignal list \<Rightarrow> AgentAnnotation" where
  "risk_note f signals =
     system_note (''ddf/sys/risk:'' @ rf_path f) (first_anchor f) (str_join '' '' (map signal_phrase signals)) (map RiskSignal_label signals)"

definition evidence_notes :: "ReviewFile \<Rightarrow> RankedFile \<Rightarrow> AgentAnnotation list" where
  "evidence_notes f ranked =
     map (\<lambda>item. system_note
            (''ddf/sys/evidence:'' @ rf_path f @ '':'' @ ev_address item @ '':'' @ Side_label (ev_side item) @ '':'' @ EvidenceSignal_label (ev_signal item))
            (AaHunk (rf_path f) (ev_hunk item))
            (code_phrase (ev_signal item) @ '' ('' @ Side_label (ev_side item) @ '' line '' @ show_nat (ev_line item) @ '')'')
            [EvidenceSignal_label (ev_signal item), ''basis:'' @ EVIDENCE_BASIS])
       (rk_evidence ranked)"

text \<open>The kinds of the spans, counted, in order of first appearance.\<close>

fun count_kind :: "SemanticChangeKind \<Rightarrow> (SemanticChangeKind \<times> nat) list \<Rightarrow> (SemanticChangeKind \<times> nat) list" where
  "count_kind k [] = [(k, 1)]"
| "count_kind k ((j, n) # ks) = (if j = k then (j, n + 1) # ks else (j, n) # count_kind k ks)"

definition semantic_note :: "ReviewFile \<Rightarrow> AgentAnnotation option" where
  "semantic_note f =
     Option.bind (rf_semantic_twin f) (\<lambda>twin.
     case st_spans twin of
       [] \<Rightarrow> None
     | first # rest \<Rightarrow>
         (let kinds = foldl (\<lambda>ks s. count_kind (ss_kind s) ks) [] (st_spans twin);
              breakdown = map (\<lambda>(kind, count). show_nat count @ '' '' @ semantic_phrase kind) kinds in
          Some (system_note (''ddf/sys/sem:'' @ rf_path f) (AaHunk (rf_path f) (ss_hunk_id first))
            (show_nat (length (st_spans twin)) @ '' semantic change(s): '' @ str_join '', '' breakdown @ '' (tree-sitter, '' @ st_language twin @ '').'')
            [''language:'' @ st_language twin, ''spans:'' @ show_nat (length (st_spans twin))])))"

definition entry_notes :: "ReviewFile list \<Rightarrow> RankedFile \<Rightarrow> AgentAnnotation list" where
  "entry_notes files entry =
     (case List.find (\<lambda>f. rf_path f = rk_path entry) files of
        None \<Rightarrow> []
      | Some f \<Rightarrow>
          (if rk_signals entry = [] then [] else [risk_note f (rk_signals entry)])
          @ evidence_notes f entry
          @ (case semantic_note f of None \<Rightarrow> [] | Some n \<Rightarrow> [n]))"

definition engine_annotations :: "ReviewFile list \<Rightarrow> RankedFile list \<Rightarrow> AgentAnnotation list" where
  "engine_annotations files ranked = concat (map (entry_notes files) ranked)"

fun duplicate_loop :: "string set \<Rightarrow> string list \<Rightarrow> string option" where
  "duplicate_loop known [] = None"
| "duplicate_loop known (p # ps) = (if p \<in> known then Some p else duplicate_loop (insert p known) ps)"

definition duplicate_path :: "ReviewFile list \<Rightarrow> string option" where
  "duplicate_path files = duplicate_loop {} (map rf_path files)"

definition file_annotations :: "AgentAnnotation list \<Rightarrow> string \<Rightarrow> AgentAnnotation list" where
  "file_annotations annotations path = filter (\<lambda>a. an_anchor a = AaFile path) annotations"

definition hunk_annotations :: "AgentAnnotation list \<Rightarrow> string \<Rightarrow> nat \<Rightarrow> AgentAnnotation list" where
  "hunk_annotations annotations path hunk = filter (\<lambda>a. an_anchor a = AaHunk path hunk) annotations"

subsection \<open>Notes resolve\<close>

lemma duplicate_loop_None: "duplicate_loop known ps = None \<longleftrightarrow> distinct ps \<and> set ps \<inter> known = {}"
  by (induction ps arbitrary: known) auto

lemma find_path_unique:
  assumes "distinct (map rf_path files)" "f \<in> set files"
  shows "List.find (\<lambda>g. rf_path g = rf_path f) files = Some f"
  using assms by (induction files) (auto split: if_splits)

definition spans_anchored :: "ReviewFile \<Rightarrow> bool" where
  "spans_anchored f \<longleftrightarrow>
     (case rf_semantic_twin f of None \<Rightarrow> True | Some t \<Rightarrow> ss_hunk_id ` set (st_spans t) \<subseteq> ph_id ` set (pt_hunks (rf_patch_twin f)))"

definition note_ok :: "ReviewFile list \<Rightarrow> AgentAnnotation \<Rightarrow> bool" where
  "note_ok files n \<longleftrightarrow> source_of n = AsSystem \<and> ap_evidence (an_provenance n) \<noteq> [] \<and> validate_anchor (an_anchor n) files"

lemma system_note_ok: "evidence \<noteq> [] \<Longrightarrow> validate_anchor anchor files \<Longrightarrow> note_ok files (system_note i anchor body evidence)"
  by (simp add: note_ok_def system_note_def source_of_def)

lemma hunk_anchor_valid:
  "f \<in> set files \<Longrightarrow> k \<in> ph_id ` set (pt_hunks (rf_patch_twin f)) \<Longrightarrow> validate_anchor (AaHunk (rf_path f) k) files"
  by (auto simp: validate_anchor_def list_ex_iff)

lemma first_anchor_valid: "f \<in> set files \<Longrightarrow> validate_anchor (first_anchor f) files"
  by (cases "pt_hunks (rf_patch_twin f)") (auto simp: first_anchor_def validate_anchor_def list_ex_iff)

lemma entry_notes_ok:
  assumes f: "f \<in> set files" "distinct (map rf_path files)" "spans_anchored f"
  shows "list_all (note_ok files) (entry_notes files (RankedFile_scored f))"
proof -
  have path: "rk_path (RankedFile_scored f) = rf_path f" by (simp add: RankedFile_scored_def Let_def)
  have hunk: "ev_hunk e \<in> ph_id ` set (pt_hunks (rf_patch_twin f))" if "e \<in> set (rk_evidence (RankedFile_scored f))" for e
  proof -
    have "e \<in> set (file_evidence f)"
      using that set_take_subset by (fastforce simp: RankedFile_scored_def Let_def assess_file_spec)
    then show ?thesis unfolding file_evidence_iff by auto
  qed
  have ev: "list_all (note_ok files) (evidence_notes f (RankedFile_scored f))"
    using hunk hunk_anchor_valid [OF f(1)] system_note_ok by (auto simp: evidence_notes_def list_all_iff)
  have sem: "note_ok files n" if n: "semantic_note f = Some n" for n
  proof -
    obtain t where t1: "rf_semantic_twin f = Some t"
      using n by (cases "rf_semantic_twin f") (auto simp: semantic_note_def)
    obtain s ss where t2: "st_spans t = s # ss"
      using n t1 by (cases "st_spans t") (auto simp: semantic_note_def)
    note t = t1 t2
    have "ss_hunk_id s \<in> ph_id ` set (pt_hunks (rf_patch_twin f))" using t f(3) by (auto simp: spans_anchored_def)
    then show ?thesis using n t hunk_anchor_valid [OF f(1)] by (auto simp: semantic_note_def Let_def intro!: system_note_ok)
  qed
  have "rk_signals (RankedFile_scored f) = [] \<or> note_ok files (risk_note f (rk_signals (RankedFile_scored f)))"
    using first_anchor_valid [OF f(1)] by (cases "rk_signals (RankedFile_scored f)") (auto simp: risk_note_def intro!: system_note_ok)
  then show ?thesis
    using ev sem find_path_unique [OF f(2,1)] by (auto simp: entry_notes_def path split: option.splits)
qed

lemma engine_notes_ok:
  assumes "duplicate_path files = None" "list_all spans_anchored files"
  shows "list_all (note_ok files) (engine_annotations files (rank files))"
proof -
  have d: "distinct (map rf_path files)" using assms(1) by (simp add: duplicate_path_def duplicate_loop_None)
  have "set (rank files) = RankedFile_scored ` set files"
    using sort_ranked_mset [of "map RankedFile_scored files"] by (metis mset_eq_setD rank_def set_map)
  then have "list_all (note_ok files) (entry_notes files r)" if "r \<in> set (rank files)" for r
    using that entry_notes_ok d assms(2) by (auto simp: list_all_iff)
  then show ?thesis by (auto simp: engine_annotations_def list_all_iff)
qed

text \<open>On a review that names no path twice, every note the engine writes is its own, carries evidence and points at a
  file or hunk of the review, provided the semantic spans name hunks of their file.\<close>

theorem engine_notes_resolve:
  assumes "duplicate_path files = None" "list_all spans_anchored files"
  shows "list_all (note_ok files) (engine_annotations files (rank files))"
  using assms by (rule engine_notes_ok)

definition sample_noted :: ReviewFile where
  "sample_noted =
     \<lparr>rf_path = ''src/lib.rs'', rf_status = FsAdded,
      rf_patch_twin = \<lparr>pt_binary_body = [], pt_hunks = [\<lparr>ph_id = 7, ph_old_start = Some 0, ph_new_start = Some 1, ph_section = None, ph_lines = []\<rparr>],
        pt_metadata = [], pt_lossy_lines = 0\<rparr>,
      rf_semantic_twin = Some \<lparr>st_language = ''rust'', st_parse_status = Parsed,
        st_spans = [\<lparr>ss_id = 1, ss_hunk_id = 7, ss_kind = AddedNode, ss_old_range = None, ss_new_range = None\<rparr>]\<rparr>,
      rf_planner = \<lparr>pd_strategy = DsLine, pd_fallback = None, pd_notes = []\<rparr>\<rparr>"

theorem engine_notes_resolve_witness:
  "list_all (note_ok [sample_noted]) (engine_annotations [sample_noted] (rank [sample_noted]))"
  by (rule engine_notes_resolve) (simp_all add: duplicate_path_def spans_anchored_def sample_noted_def)

end
