(* ===== verification/Review_Claims.thy ===== *)
theory Review_Claims
  imports Review_Service Engine_Notes Section_Inv
begin

text \<open>
  The properties of the shared review service: its check of the sources is patch application, every file is accounted for,
  the notes the engine writes on an enriched review resolve, and the snapshot digest is of bytes that determine the sources.
\<close>

subsection \<open>What it means to apply a patch\<close>

text \<open>The bytes a line of a hunk stands for, and the lines a hunk expects in the old file and leaves in the new one.\<close>

definition line_bytes :: "PatchLine \<Rightarrow> string" where
  "line_bytes l = (if pl_no_newline l then pl_text l else pl_text l @ [LF])"

definition old_body :: "PatchHunk \<Rightarrow> string list" where
  "old_body h = map line_bytes (filter (\<lambda>l. pl_kind l \<in> {LkContext, LkRemoved}) (ph_lines h))"

definition new_body :: "PatchHunk \<Rightarrow> string list" where
  "new_body h = map line_bytes (filter (\<lambda>l. pl_kind l \<in> {LkContext, LkAdded}) (ph_lines h))"

text \<open>A declared start names a place with \<open>k\<close> lines of the side before it: the number of the line before the place when the hunk has
  no line on that side, else the number of its first line. On the old side a start that is not declared, or declared 0, is the
  place before every line.\<close>

definition starts_at :: "string list \<Rightarrow> nat option \<Rightarrow> nat \<Rightarrow> bool" where
  "starts_at body start k \<longleftrightarrow> start = Some (if body = [] then k else k + 1)"

text \<open>The header of a hunk names the place it is applied at: \<open>i\<close> lines of the old and \<open>j\<close> of the new file come before it.\<close>

definition header_at :: "PatchHunk \<Rightarrow> nat \<Rightarrow> nat \<Rightarrow> bool" where
  "header_at h i j \<longleftrightarrow>
     (starts_at (old_body h) (ph_old_start h) i \<or> (i = 0 \<and> ph_old_start h \<in> {None, Some 0}))
     \<and> starts_at (new_body h) (ph_new_start h) j"

text \<open>\<open>transforms i j hunks old new\<close>: the rest \<open>old\<close> of a file, after \<open>i\<close> of its lines and \<open>j\<close> of the result, becomes \<open>new\<close>. Lines
  outside every hunk are kept; a hunk replaces the lines of its old side with those of its new side.\<close>

inductive transforms :: "nat \<Rightarrow> nat \<Rightarrow> PatchHunk list \<Rightarrow> string list \<Rightarrow> string list \<Rightarrow> bool" where
  kept: "transforms i j [] lines lines"
| hunk: "header_at h (i + length keep) (j + length keep) \<Longrightarrow>
    transforms (i + length keep + length (old_body h)) (j + length keep + length (new_body h)) hs old new \<Longrightarrow>
    transforms i j (h # hs) (keep @ old_body h @ old) (keep @ new_body h @ new)"

inductive_cases transforms_NilE: "transforms i j [] old new"
inductive_cases transforms_ConsE: "transforms i j (h # hs) old new"

lemma line_body_eq: "line_body = line_bytes"
  by (rule ext) (simp add: line_body_def line_bytes_def)

lemma old_body_eq: "old_body h = map line_body (filter (\<lambda>l. pl_kind l \<noteq> LkAdded) (ph_lines h))"
proof -
  have kinds: "(\<lambda>l. pl_kind l \<in> {LkContext, LkRemoved}) = (\<lambda>l. pl_kind l \<noteq> LkAdded)"
  proof
    show "pl_kind l \<in> {LkContext, LkRemoved} \<longleftrightarrow> pl_kind l \<noteq> LkAdded" for l by (cases "pl_kind l") auto
  qed
  show ?thesis unfolding old_body_def line_body_eq kinds ..
qed

lemma new_body_eq: "new_body h = map line_body (filter (\<lambda>l. pl_kind l \<noteq> LkRemoved) (ph_lines h))"
proof -
  have kinds: "(\<lambda>l. pl_kind l \<in> {LkContext, LkAdded}) = (\<lambda>l. pl_kind l \<noteq> LkRemoved)"
  proof
    show "pl_kind l \<in> {LkContext, LkAdded} \<longleftrightarrow> pl_kind l \<noteq> LkRemoved" for l by (cases "pl_kind l") auto
  qed
  show ?thesis unfolding new_body_def line_body_eq kinds ..
qed

lemma match_lines_eq:
  "match_lines old_lines ls (c, out, n) =
     (let olds = map line_body (filter (\<lambda>l. pl_kind l \<noteq> LkAdded) ls); news = map line_body (filter (\<lambda>l. pl_kind l \<noteq> LkRemoved) ls) in
      if take (length olds) (drop c old_lines) = olds then Some (c + length olds, out @ concat news, n + length news) else None)"
proof (induction ls arbitrary: c out n)
  case (Cons l ls)
  show ?case
  proof (cases "pl_kind l = LkAdded")
    case True
    then show ?thesis using Cons by (simp add: Let_def)
  next
    case False
    show ?thesis
    proof (cases "nth_get old_lines c = Some (line_body l)")
      case True
      then have "drop c old_lines = line_body l # drop (Suc c) old_lines"
        by (metis Cons_nth_drop_Suc nth_get_Some)
      then show ?thesis using Cons False True by (simp add: Let_def)
    next
      case no: False
      then have "take (Suc k) (drop c old_lines) \<noteq> line_body l # ws" for k ws
        by (cases "c < length old_lines") (auto simp: nth_get_def Cons_nth_drop_Suc [symmetric])
      then show ?thesis using False no by (simp add: Let_def)
    qed
  qed
qed simp

lemma counts_body: "hunk_old_count h = length (old_body h)" "hunk_new_count h = 0 \<longleftrightarrow> new_body h = []"
  by (auto simp: hunk_old_count_def hunk_new_count_def old_body_eq new_body_eq)

lemma hunk_start_eq:
  "hunk_start h = i \<longleftrightarrow> starts_at (old_body h) (ph_old_start h) i \<or> (i = 0 \<and> ph_old_start h \<in> {None, Some 0})"
  by (cases "ph_old_start h") (auto simp: hunk_start_def starts_at_def counts_body Let_def)

lemma header_at_eq:
  "header_at h i j \<longleftrightarrow> hunk_start h = i \<and> ph_new_start h = Some (if new_body h = [] then j else j + 1)"
  by (simp only: header_at_def hunk_start_eq starts_at_def)

lemma match_hunk_eq:
  assumes "c \<le> length old_lines"
  shows "match_hunk old_lines h (c, out, n) = Some st \<longleftrightarrow>
    (\<exists>keep rest. drop c old_lines = keep @ old_body h @ rest \<and> header_at h (c + length keep) (n + length keep)
       \<and> st = (c + length keep + length (old_body h), out @ concat keep @ concat (new_body h), n + length keep + length (new_body h)))"
proof -
  let ?s = "hunk_start h"
  have split: "drop c old_lines = sub_range old_lines c ?s @ drop ?s old_lines \<and> length (sub_range old_lines c ?s) = ?s - c"
    if "c \<le> ?s" "?s \<le> length old_lines"
    using that by (simp add: sub_range_def) (metis add.commute append_take_drop_id drop_drop le_add_diff_inverse)
  show ?thesis
  proof
    assume m: "match_hunk old_lines h (c, out, n) = Some st"
    then have s: "c \<le> ?s" "?s \<le> length old_lines" by (auto simp: match_hunk_def Let_def split: if_splits)
    have t: "take (length (old_body h)) (drop ?s old_lines) = old_body h"
      using m by (auto simp: match_hunk_def match_lines_eq Let_def old_body_eq split: if_splits)
    have st: "st = (?s + length (old_body h), out @ concat (sub_range old_lines c ?s) @ concat (new_body h), n + (?s - c) + length (new_body h))"
      using m by (auto simp: match_hunk_def match_lines_eq Let_def old_body_eq new_body_eq split: if_splits)
    have "ph_new_start h = Some (if new_body h = [] then n + (?s - c) else n + (?s - c) + 1)"
      using m by (auto simp: match_hunk_def Let_def counts_body split: if_splits)
    then show "\<exists>keep rest. drop c old_lines = keep @ old_body h @ rest \<and> header_at h (c + length keep) (n + length keep)
       \<and> st = (c + length keep + length (old_body h), out @ concat keep @ concat (new_body h), n + length keep + length (new_body h))"
      using split [OF s] s t st append_take_drop_id [of "length (old_body h)" "drop ?s old_lines"]
      by (intro exI [of _ "sub_range old_lines c ?s"] exI [of _ "drop (length (old_body h)) (drop ?s old_lines)"]) (simp add: header_at_eq)
  next
    assume "\<exists>keep rest. drop c old_lines = keep @ old_body h @ rest \<and> header_at h (c + length keep) (n + length keep)
       \<and> st = (c + length keep + length (old_body h), out @ concat keep @ concat (new_body h), n + length keep + length (new_body h))"
    then obtain keep rest where d: "drop c old_lines = keep @ old_body h @ rest" and h: "header_at h (c + length keep) (n + length keep)"
      and st: "st = (c + length keep + length (old_body h), out @ concat keep @ concat (new_body h), n + length keep + length (new_body h))" by blast
    have "length (drop c old_lines) = length keep + length (old_body h) + length rest" using d by simp
    then have s: "?s = c + length keep" "?s \<le> length old_lines" using h assms by (auto simp: header_at_eq)
    have "sub_range old_lines c ?s = keep" using d s(1) by (simp add: sub_range_def)
    moreover have "drop ?s old_lines = old_body h @ rest" using d s(1) by (metis add.commute append_eq_conv_conj drop_drop)
    ultimately show "match_hunk old_lines h (c, out, n) = Some st"
      using s h by (auto simp: match_hunk_def match_lines_eq Let_def st header_at_eq counts_body old_body_eq [symmetric] new_body_eq [symmetric])
  qed
qed

lemma match_hunks_output:
  "c \<le> length old_lines \<Longrightarrow> match_hunks old_lines hs (c, out, n) = Some (c', out', n') \<Longrightarrow> \<exists>w. out' = out @ w"
proof (induction hs arbitrary: c out n)
  case (Cons h hs)
  then obtain c1 out1 n1 where m: "match_hunk old_lines h (c, out, n) = Some (c1, out1, n1)"
    and r: "match_hunks old_lines hs (c1, out1, n1) = Some (c', out', n')" by (auto simp: bind_eq_Some_conv)
  obtain keep rest where k: "drop c old_lines = keep @ old_body h @ rest" "c1 = c + length keep + length (old_body h)"
      "out1 = out @ concat keep @ concat (new_body h)"
    using m unfolding match_hunk_eq [OF Cons.prems(1)] by auto
  have "length (drop c old_lines) = length keep + length (old_body h) + length rest" using k(1) by simp
  then have "c1 \<le> length old_lines" using k(2) Cons.prems(1) by simp
  from Cons.IH [OF this r] show ?case using k(3) by auto
qed simp

lemma match_hunks_eq:
  assumes "c \<le> length old_lines"
  shows "(\<exists>c' out' n'. match_hunks old_lines hs (c, out, n) = Some (c', out', n') \<and> out' @ concat (drop c' old_lines) = out @ t) \<longleftrightarrow>
    (\<exists>news. transforms c n hs (drop c old_lines) news \<and> concat news = t)"
  using assms
proof (induction hs arbitrary: c out n t)
  case Nil
  then show ?case by (auto intro: transforms.kept elim: transforms_NilE)
next
  case (Cons h hs)
  have next_drop: "c1 \<le> length old_lines \<and> drop c1 old_lines = rest"
    if "drop c old_lines = keep @ old_body h @ rest" "c1 = c + length keep + length (old_body h)" for keep rest c1
  proof -
    have "length old_lines - c = length keep + length (old_body h) + length rest" using that(1) by (metis add.assoc length_append length_drop)
    moreover have "drop c1 old_lines = drop (length keep + length (old_body h)) (drop c old_lines)" using that(2) by (simp add: add.commute add.left_commute)
    ultimately show ?thesis using that Cons.prems by simp
  qed
  show ?case
  proof
    assume "\<exists>c' out' n'. match_hunks old_lines (h # hs) (c, out, n) = Some (c', out', n') \<and> out' @ concat (drop c' old_lines) = out @ t"
    then obtain c' out' n' c1 out1 n1 where m: "match_hunk old_lines h (c, out, n) = Some (c1, out1, n1)"
      and r: "match_hunks old_lines hs (c1, out1, n1) = Some (c', out', n')" and t: "out' @ concat (drop c' old_lines) = out @ t"
      by (auto simp: bind_eq_Some_conv)
    obtain keep rest where k: "drop c old_lines = keep @ old_body h @ rest" "header_at h (c + length keep) (n + length keep)"
        "c1 = c + length keep + length (old_body h)" "out1 = out @ concat keep @ concat (new_body h)" "n1 = n + length keep + length (new_body h)"
      using m unfolding match_hunk_eq [OF Cons.prems] by auto
    note nd = next_drop [OF k(1,3)]
    obtain w where w: "out' = out1 @ w" using match_hunks_output [OF _ r] nd by blast
    then have "out' @ concat (drop c' old_lines) = out1 @ (w @ concat (drop c' old_lines))" by simp
    with r Cons.IH [of c1 out1 n1 "w @ concat (drop c' old_lines)"] nd
    obtain news where "transforms c1 n1 hs rest news" "concat news = w @ concat (drop c' old_lines)" by blast
    then show "\<exists>news. transforms c n (h # hs) (drop c old_lines) news \<and> concat news = t"
      using transforms.hunk [OF k(2), of hs rest news] k t w by (intro exI [of _ "keep @ new_body h @ news"]) simp
  next
    assume "\<exists>news. transforms c n (h # hs) (drop c old_lines) news \<and> concat news = t"
    then obtain keep rest news where k: "drop c old_lines = keep @ old_body h @ rest" "header_at h (c + length keep) (n + length keep)"
      and tr: "transforms (c + length keep + length (old_body h)) (n + length keep + length (new_body h)) hs rest news"
      and t: "t = concat keep @ concat (new_body h) @ concat news"
      by (auto elim!: transforms_ConsE)
    let ?c1 = "c + length keep + length (old_body h)" and ?out1 = "out @ concat keep @ concat (new_body h)" and ?n1 = "n + length keep + length (new_body h)"
    note nd = next_drop [OF k(1) refl]
    have "match_hunk old_lines h (c, out, n) = Some (?c1, ?out1, ?n1)" unfolding match_hunk_eq [OF Cons.prems] using k by blast
    moreover have "\<exists>c' out' n'. match_hunks old_lines hs (?c1, ?out1, ?n1) = Some (c', out', n') \<and> out' @ concat (drop c' old_lines) = ?out1 @ concat news"
      using Cons.IH [of ?c1 ?out1 ?n1 "concat news"] nd tr by auto
    ultimately show "\<exists>c' out' n'. match_hunks old_lines (h # hs) (c, out, n) = Some (c', out', n') \<and> out' @ concat (drop c' old_lines) = out @ t"
      by (auto simp: t)
  qed
qed

subsection \<open>Spans\<close>

lemma index_hunks_ids: "ran (index_hunks line hunks) \<subseteq> ph_id ` set hunks"
proof -
  have line: "ran (foldl (index_line line k) m ls) \<subseteq> insert k (ran m)" for k m and ls :: "PatchLine list"
  proof (induction ls arbitrary: m)
    case (Cons l ls)
    have "ran (index_line line k m l) \<subseteq> insert k (ran m)" by (auto simp: index_line_def ran_def split: option.splits if_splits)
    then show ?case using Cons [of "index_line line k m l"] by auto
  qed auto
  have "ran (foldl (\<lambda>m h. foldl (index_line line (ph_id h)) m (ph_lines h)) m hs) \<subseteq> ran m \<union> ph_id ` set hs" for m and hs :: "PatchHunk list"
  proof (induction hs arbitrary: m)
    case (Cons h hs)
    show ?case using Cons [of "foldl (index_line line (ph_id h)) m (ph_lines h)"] line [of "ph_id h" m "ph_lines h"] by auto
  qed simp
  from this [of Map.empty hunks] show ?thesis by (simp add: index_hunks_def)
qed

lemma in_hunk_ran: "in_hunk extra start m = Some h \<Longrightarrow> h \<in> ran m"
  by (auto simp: in_hunk_def bind_eq_Some_conv ran_def dest: find_map_Some)

lemma change_hunk_ran: "change_hunk m m' c = Some h \<Longrightarrow> h \<in> ran m \<union> ran m'"
  by (auto simp: change_hunk_def Let_def dest: in_hunk_ran split: option.splits)

text \<open>The spans of a file: they lie in its hunks, are numbered in a row, and there is one for every changed token unless some token
  is in no hunk.\<close>

lemma span_loop_spec:
  "span_loop m m' ro rn k cs = (spans, k', lost) \<Longrightarrow>
   ss_hunk_id ` set spans \<subseteq> ran m \<union> ran m' \<and> map ss_id spans = [k..<k'] \<and> k \<le> k'
   \<and> (\<not> lost \<longrightarrow> map Some (map ss_kind spans) = filter (\<lambda>x. x \<noteq> None) (map (change_span_kind \<circ> tc_kind) cs))"
proof (induction m m' ro rn k cs arbitrary: spans k' lost rule: span_loop.induct)
  case (2 m m' ro rn k c cs)
  show ?case
  proof (cases "change_span_kind (tc_kind c)")
    case None
    then show ?thesis using 2 by simp
  next
    case (Some kind)
    show ?thesis
    proof (cases "change_hunk m m' c")
      case None
      obtain sp k1 lo where r: "span_loop m m' ro rn k cs = (sp, k1, lo)" by (cases "span_loop m m' ro rn k cs")
      from 2(2) [OF refl Some None r] Some None r 2(4) show ?thesis by auto
    next
      case h: (Some h)
      obtain sp k1 lo where r: "span_loop m m' ro rn (k + 1) cs = (sp, k1, lo)" by (cases "span_loop m m' ro rn (k + 1) cs")
      obtain s where s: "spans = s # sp" "ss_hunk_id s = h" "ss_id s = k" "ss_kind s = kind" "k' = k1" "lost = lo"
        using 2(4) Some h r by auto
      have "h \<in> ran m \<union> ran m'" by (rule change_hunk_ran [OF h])
      then show ?thesis using 2(3) [OF refl Some h r] Some by (simp add: s upt_conv_Cons)
    qed
  qed
qed simp

subsection \<open>The hunk and the lines of a changed token\<close>

definition holds_line :: "(PatchLine \<Rightarrow> nat option) \<Rightarrow> nat \<Rightarrow> PatchHunk \<Rightarrow> bool" where
  "holds_line line n h \<longleftrightarrow> (\<exists>l\<in>set (ph_lines h). line l = Some n)"

text \<open>\<open>h\<close> holds the first of the lines of a token, one more than the line feeds of its text, that any hunk holds on that side.\<close>

definition first_held :: "(PatchLine \<Rightarrow> nat option) \<Rightarrow> PatchHunk list \<Rightarrow> nat option \<Rightarrow> string \<Rightarrow> PatchHunk \<Rightarrow> bool" where
  "first_held line hunks start tok h \<longleftrightarrow>
     h \<in> set hunks
     \<and> (\<exists>m n. start = Some m \<and> m \<le> n \<and> n \<le> min (m + count_list tok LF) u32_max \<and> holds_line line n h
          \<and> (\<forall>k\<in>{m..<n}. \<forall>h'\<in>set hunks. \<not> holds_line line k h'))"

text \<open>The byte range and line number of line \<open>m\<close>, counted from 1, of a source.\<close>

definition line_extent :: "string \<Rightarrow> nat option \<Rightarrow> TextRange option" where
  "line_extent source line =
     (case line of
        None \<Rightarrow> None
      | Some m \<Rightarrow>
          let parts = split_inclusive LF source; start = length (concat (take (m - 1) parts)) in
          if m - 1 < length parts
          then Some \<lparr>tr_start_byte = start, tr_end_byte = start + length (parts ! (m - 1)),
                 tr_start_line = min (m - 1 + 1) u32_max, tr_end_line = min (m - 1 + 1) u32_max\<rparr>
          else None)"

text \<open>The span \<open>s\<close> shows the changed token \<open>c\<close>: its kind, a hunk that holds its lines, on the old side where one does, and the lines
  it is on in the sources.\<close>

definition shows_change :: "PatchHunk list \<Rightarrow> string \<Rightarrow> string \<Rightarrow> TokenChange \<Rightarrow> SemanticSpan \<Rightarrow> bool" where
  "shows_change hunks old new c s \<longleftrightarrow>
     (tc_kind c, ss_kind s) \<in> {(CkAdded, AddedNode), (CkRemoved, RemovedNode), (CkMoved, MovedNode)}
     \<and> (\<exists>h. ph_id h = ss_hunk_id s
          \<and> (first_held pl_old_line hunks (tc_old_line c) (tc_text c) h
             \<or> (\<nexists>h'. first_held pl_old_line hunks (tc_old_line c) (tc_text c) h')
               \<and> first_held pl_new_line hunks (tc_new_line c) (tc_text c) h))
     \<and> ss_old_range s = line_extent old (tc_old_line c) \<and> ss_new_range s = line_extent new (tc_new_line c)"

lemma index_lines_eq:
  "foldl (index_line line k) m ls n = (if \<exists>l\<in>set ls. line l = Some n then Some k else m n)"
  by (induction ls arbitrary: m) (auto simp: index_line_def split: option.splits)

lemma index_hunks_fold:
  "(foldl (\<lambda>m h. foldl (index_line line (ph_id h)) m (ph_lines h)) m hunks n = None \<longleftrightarrow> m n = None \<and> (\<forall>h\<in>set hunks. \<not> holds_line line n h))
   \<and> (\<forall>k. foldl (\<lambda>m h. foldl (index_line line (ph_id h)) m (ph_lines h)) m hunks n = Some k
        \<longrightarrow> m n = Some k \<or> (\<exists>h\<in>set hunks. holds_line line n h \<and> ph_id h = k))"
proof (induction hunks arbitrary: m)
  case (Cons h hunks)
  show ?case using Cons [of "foldl (index_line line (ph_id h)) m (ph_lines h)"]
    by (auto simp: index_lines_eq holds_line_def split: if_splits)
qed simp

lemma index_hunks_None: "index_hunks line hunks n = None \<longleftrightarrow> (\<forall>h\<in>set hunks. \<not> holds_line line n h)"
  using index_hunks_fold [of line Map.empty hunks n] by (simp add: index_hunks_def)

lemma index_hunks_Some: "index_hunks line hunks n = Some k \<Longrightarrow> \<exists>h\<in>set hunks. holds_line line n h \<and> ph_id h = k"
  using index_hunks_fold [of line Map.empty hunks n] by (simp add: index_hunks_def)

lemma find_map_first:
  "find_map f xs = Some y \<Longrightarrow> \<exists>i<length xs. f (xs ! i) = Some y \<and> (\<forall>j<i. f (xs ! j) = None)"
proof (induction xs)
  case (Cons x xs)
  show ?case
  proof (cases "f x")
    case None
    with Cons obtain i where "i < length xs" "f (xs ! i) = Some y" "\<forall>j<i. f (xs ! j) = None" by auto
    then show ?thesis using None by (intro exI [of _ "Suc i"]) (auto simp: less_Suc_eq_0_disj)
  qed (use Cons.prems in auto)
qed simp

lemma find_map_upt:
  assumes "find_map f [a..<b] = Some y"
  shows "\<exists>n\<ge>a. n < b \<and> f n = Some y \<and> (\<forall>k\<in>{a..<n}. f k = None)"
proof -
  obtain i where i: "i < b - a" "f (a + i) = Some y" "\<forall>j<i. f (a + j) = None" using find_map_first [OF assms] by auto
  have "f k = None" if "k \<in> {a..<a + i}" for k using i(3) [rule_format, of "k - a"] that by auto
  then show ?thesis using i(1,2) by (intro exI [of _ "a + i"]) auto
qed

lemma length_filter_LF: "length (filter (\<lambda>c. c = LF) cs) = count_list cs LF"
  by (induction cs) auto

lemma token_lines: "sat_add32 m (min n u32_max) = min (m + n) u32_max"
  by (simp add: sat_add32_def)

lemma in_hunk_Some:
  assumes "in_hunk (min (length (filter (\<lambda>c. c = LF) cs)) u32_max) start (index_hunks line hunks) = Some k"
  shows "\<exists>h. ph_id h = k \<and> first_held line hunks start cs h"
proof -
  obtain m where m: "start = Some m" "find_map (index_hunks line hunks) [m..<min (m + count_list cs LF) u32_max + 1] = Some k"
    using assms by (auto simp: in_hunk_def token_lines length_filter_LF bind_eq_Some_conv)
  obtain n where n: "m \<le> n" "n \<le> min (m + count_list cs LF) u32_max" "index_hunks line hunks n = Some k"
      "\<forall>i\<in>{m..<n}. index_hunks line hunks i = None"
    using find_map_upt [OF m(2)] unfolding less_Suc_eq_le Suc_eq_plus1 [symmetric] by blast
  obtain h where "h \<in> set hunks" "holds_line line n h" "ph_id h = k" using index_hunks_Some [OF n(3)] by blast
  then show ?thesis using m(1) n(1,2,4) by (auto simp: first_held_def index_hunks_None)
qed

lemma in_hunk_None:
  assumes "in_hunk (min (length (filter (\<lambda>c. c = LF) cs)) u32_max) start (index_hunks line hunks) = None"
  shows "\<not> first_held line hunks start cs h"
proof
  assume "first_held line hunks start cs h"
  then obtain m n where h: "h \<in> set hunks" "start = Some m" "n \<in> set [m..<min (m + count_list cs LF) u32_max + 1]" "holds_line line n h"
    by (auto simp: first_held_def less_Suc_eq_le simp del: upt_Suc)
  then show False
    using assms by (auto simp: in_hunk_def token_lines length_filter_LF find_map_None index_hunks_None simp del: upt_Suc set_upt)
qed

lemma change_hunk_held:
  assumes "change_hunk (index_hunks pl_old_line hunks) (index_hunks pl_new_line hunks) c = Some k"
  shows "\<exists>h. ph_id h = k
    \<and> (first_held pl_old_line hunks (tc_old_line c) (tc_text c) h
       \<or> (\<nexists>h'. first_held pl_old_line hunks (tc_old_line c) (tc_text c) h') \<and> first_held pl_new_line hunks (tc_new_line c) (tc_text c) h)"
  using assms in_hunk_Some in_hunk_None by (fastforce simp: change_hunk_def Let_def split: option.splits)

lemma ranges_loop_nth:
  "nth_get (ranges_loop index offset parts) i =
     (if i < length parts
      then Some \<lparr>tr_start_byte = offset + length (concat (take i parts)), tr_end_byte = offset + length (concat (take i parts)) + length (parts ! i),
             tr_start_line = min (index + i + 1) u32_max, tr_end_line = min (index + i + 1) u32_max\<rparr>
      else None)"
proof (induction index offset parts arbitrary: i rule: ranges_loop.induct)
  case (2 index offset part parts)
  have step: "nth_get (x # xs) (Suc n) = nth_get xs n" for x :: TextRange and xs n by (simp add: nth_get_def)
  show ?case
  proof (cases i)
    case (Suc n)
    then show ?thesis using 2 [of n] by (simp add: step add.assoc)
  qed (simp add: nth_get_def)
qed (simp add: nth_get_def)

lemma change_range_extent: "change_range (line_ranges source) line = line_extent source line"
  by (cases line) (simp_all add: change_range_def line_ranges_def line_extent_def ranges_loop_nth Let_def)

lemma change_span_kind_cases:
  "change_span_kind k = None \<longleftrightarrow> k = CkUnchanged"
  "change_span_kind k = Some k' \<longleftrightarrow> (k, k') \<in> {(CkAdded, AddedNode), (CkRemoved, RemovedNode), (CkMoved, MovedNode)}"
  by (cases k; auto)+

lemma span_loop_shows:
  "span_loop (index_hunks pl_old_line hunks) (index_hunks pl_new_line hunks) (line_ranges old) (line_ranges new) k cs = (spans, k', False) \<Longrightarrow>
   list_all2 (shows_change hunks old new) (filter (\<lambda>c. tc_kind c \<noteq> CkUnchanged) cs) spans"
proof (induction cs arbitrary: k spans)
  case (Cons c cs)
  let ?loop = "span_loop (index_hunks pl_old_line hunks) (index_hunks pl_new_line hunks) (line_ranges old) (line_ranges new)"
  show ?case
  proof (cases "change_span_kind (tc_kind c)")
    case None
    then show ?thesis using Cons by (simp add: change_span_kind_cases)
  next
    case (Some kind)
    then have changed: "tc_kind c \<noteq> CkUnchanged" by auto
    obtain k1 where k1: "change_hunk (index_hunks pl_old_line hunks) (index_hunks pl_new_line hunks) c = Some k1"
      using Cons.prems Some by (auto split: option.splits prod.splits)
    obtain sp k2 lo where r: "?loop (k + 1) cs = (sp, k2, lo)" by (cases "?loop (k + 1) cs")
    obtain s where s: "spans = s # sp" "ss_hunk_id s = k1" "ss_kind s = kind" "\<not> lo" "k2 = k'"
        "ss_old_range s = line_extent old (tc_old_line c)" "ss_new_range s = line_extent new (tc_new_line c)"
      using Cons.prems Some k1 r by (auto simp: change_range_extent)
    have "shows_change hunks old new c s"
      using change_hunk_held [OF k1] Some by (simp add: shows_change_def s change_span_kind_cases)
    then show ?thesis using Cons.IH [of "k + 1" sp] r s changed by simp
  qed
qed simp

subsection \<open>The service loop\<close>

text \<open>What one file of a bundle may be, beside the file of the patch and the sources given.\<close>

definition file_accounted :: "Grammar \<Rightarrow> (string \<times> SourcePair) list \<Rightarrow> ReviewFile \<Rightarrow> ReviewFile \<times> FileAnalysis \<Rightarrow> bool" where
  "file_accounted g pairs file r \<longleftrightarrow>
     fa_path (snd r) = rf_path file \<and> fst r = file\<lparr>rf_semantic_twin := rf_semantic_twin (fst r), rf_planner := rf_planner (fst r)\<rparr>
     \<and> (case bt_get pairs (rf_path file) of
          None \<Rightarrow> fst r = file \<and> snd r = \<lparr>fa_path = rf_path file, fa_coverage = CvMissingSource, fa_structural = None\<rparr>
        | Some pair \<Rightarrow>
            if \<not> supported_change file
            then fst r = file \<and> snd r = \<lparr>fa_path = rf_path file, fa_coverage = CvUnsupportedChange, fa_structural = None\<rparr>
            else absence_valid (rf_status file) pair \<and> patch_matches file (opt_text (sp_old pair)) (opt_text (sp_new pair))
              \<and> (\<exists>k k'. enrich_file g file pair k = (fst r, snd r, k')))"

lemma accounted_without_sources:
  "bt_get pairs (rf_path f) = None \<Longrightarrow>
     file_accounted g pairs f (f, \<lparr>fa_path = rf_path f, fa_coverage = CvMissingSource, fa_structural = None\<rparr>)"
  "bt_get pairs (rf_path f) = Some pair \<Longrightarrow> \<not> supported_change f \<Longrightarrow>
     file_accounted g pairs f (f, \<lparr>fa_path = rf_path f, fa_coverage = CvUnsupportedChange, fa_structural = None\<rparr>)"
  by (simp_all add: file_accounted_def)

lemma enrich_file_parts:
  assumes "enrich_file g file pair k = (file', analysis, k')"
  shows "fa_path analysis = rf_path file" "file' = file\<lparr>rf_semantic_twin := rf_semantic_twin file', rf_planner := rf_planner file'\<rparr>"
  using assms by (auto simp: enrich_file_def Let_def split: prod.splits)

lemma service_loop_accounts:
  "service_loop g pairs k files = Inr results \<Longrightarrow> list_all2 (file_accounted g pairs) files results"
proof (induction g pairs k files arbitrary: results rule: service_loop.induct)
  case (2 g pairs k "file" files)
  show ?case
  proof (cases "bt_get pairs (rf_path file)")
    case None
    then show ?thesis using 2(1) 2(4) by (auto simp: res_elims accounted_without_sources)
  next
    case (Some pair)
    show ?thesis
    proof (cases "supported_change file")
      case False
      then show ?thesis using Some 2(2) 2(4) by (auto simp: res_elims accounted_without_sources)
    next
      case True
      obtain file' analysis k' where e: "enrich_file g file pair k = (file', analysis, k')" by (cases "enrich_file g file pair k")
      have ok: "absence_valid (rf_status file) pair \<and> patch_matches file (opt_text (sp_old pair)) (opt_text (sp_new pair))"
        using 2(4) Some True by (auto split: if_splits)
      obtain rest where r: "service_loop g pairs k' files = Inr rest" "results = (file', analysis) # rest"
        using 2(4) Some True ok e by (auto simp: res_elims)
      have "list_all2 (file_accounted g pairs) files rest" using 2(3) Some True ok e r(1) by auto
      moreover have "file_accounted g pairs file (file', analysis)"
        using enrich_file_parts [OF e] Some True ok e by (auto simp: file_accounted_def)
      ultimately show ?thesis by (simp add: r(2))
    qed
  qed
qed simp

subsection \<open>Parsed files have no semantics yet\<close>

definition no_twins :: "ReviewFile list \<Rightarrow> bool" where
  "no_twins fs \<longleftrightarrow> list_all (\<lambda>f. rf_semantic_twin f = None) fs"

lemma into_review_file_twin [simp]: "rf_semantic_twin (into_review_file f) = None"
  by (simp add: into_review_file_def Let_def)

lemma flush_file_buf_twin: "flush_file_buf f n = Inr rf \<Longrightarrow> rf_semantic_twin rf = None"
  by (auto simp: flush_file_buf_def Let_def res_elims split: if_splits option.splits)

lemma no_twins_step: "no_twins (pr_files p) \<Longrightarrow> pstep L p p' \<Longrightarrow> no_twins (pr_files p')"
  by (erule pstep.cases)
     (auto simp: no_twins_def same_content_def mark_eof_def mark_lossy_def update_last_body_line_def Let_def close_hunk_def flush_file_def res_elims
        flush_file_buf_twin split: option.splits if_splits)

interpretation twin_machine: parser_invariant "\<lambda>L p. no_twins (pr_files p)" "\<lambda>L. no_twins"
  by unfold_locales (auto simp: Parser_default_def no_twins_def [of "[]"] intro: no_twins_step)

lemma captured_no_twins: "capture raw = Inr patch \<Longrightarrow> no_twins (cp_files patch)"
  using twin_machine.I_parse_lines by (auto simp: capture_def parse_def parse_with_def res_elims)

text \<open>The spans an enriched file carries.\<close>

definition file_spans :: "Grammar \<Rightarrow> ReviewFile \<Rightarrow> SourcePair \<Rightarrow> nat \<Rightarrow> SemanticSpan list \<times> nat \<times> bool" where
  "file_spans g f pair k =
     span_loop (index_hunks pl_old_line (pt_hunks (rf_patch_twin f))) (index_hunks pl_new_line (pt_hunks (rf_patch_twin f)))
       (line_ranges (opt_text (sp_old pair))) (line_ranges (opt_text (sp_new pair))) k
       (sf_changes (structural_diff g (syntax_detect_language (rf_path f)) (opt_text (sp_old pair)) (opt_text (sp_new pair))))"

lemma enrich_file_spans:
  assumes "enrich_file g f pair k = (f', a, k')"
  shows "\<exists>t lost. rf_semantic_twin f' = Some t \<and> file_spans g f pair k = (st_spans t, k', lost) \<and> rf_patch_twin f' = rf_patch_twin f
    \<and> fa_structural a = Some (structural_diff g (syntax_detect_language (rf_path f)) (opt_text (sp_old pair)) (opt_text (sp_new pair)))
    \<and> (fa_coverage a = CvAnalyzed \<longrightarrow> \<not> lost)"
  using assms by (auto simp: enrich_file_def file_spans_def Let_def split: prod.splits)

lemma file_spans_spec:
  assumes "file_spans g f pair k = (spans, k', lost)"
  shows "ss_hunk_id ` set spans \<subseteq> ph_id ` set (pt_hunks (rf_patch_twin f))"
  using span_loop_spec [OF assms [unfolded file_spans_def]] index_hunks_ids [of pl_old_line] index_hunks_ids [of pl_new_line] by blast

lemma file_accounted_anchored:
  assumes "file_accounted g pairs f r" "rf_semantic_twin f = None"
  shows "spans_anchored (fst r)"
proof (cases "\<exists>pair k k'. enrich_file g f pair k = (fst r, snd r, k')")
  case True
  then obtain pair k k' where e: "enrich_file g f pair k = (fst r, snd r, k')" by blast
  from enrich_file_spans [OF e] show ?thesis using file_spans_spec [of g f pair k] by (auto simp: spans_anchored_def)
next
  case False
  then have "fst r = f" using assms(1) by (auto simp: file_accounted_def split: option.splits if_splits)
  then show ?thesis using assms(2) by (simp add: spans_anchored_def)
qed

subsection \<open>A bundle\<close>

lemma collect_pairs_sources:
  assumes "collect_pairs paths bytes sources pairs = Inr pairs'"
  shows "bt_get pairs' path = Some p \<longleftrightarrow> bt_get pairs path = Some p \<or> p \<in> set sources \<and> sp_path p = path"
  using assms
proof (induction paths bytes sources pairs rule: collect_pairs.induct)
  case (2 paths bytes q qs pairs)
  have new: "bt_get pairs (sp_path q) = None" using 2(2) by (auto simp: Let_def split: if_splits)
  have "bt_get pairs' path = Some p \<longleftrightarrow> bt_get (bt_insert (sp_path q) q pairs) path = Some p \<or> p \<in> set qs \<and> sp_path p = path"
    using 2 by (auto simp: Let_def split: if_splits)
  then show ?case using new by auto
qed simp

lemma analyze_review_parts:
  assumes "analyze_review g raw sources = Inr b"
  obtains pairs results where "capture raw = Inr (rb_patch b)" "distinct (map rf_path (cp_files (rb_patch b)))"
    "collect_pairs (rf_path ` set (cp_files (rb_patch b))) 0 sources [] = Inr pairs" "rb_files b = map fst results" "rb_analyses b = map snd results"
    "list_all2 (file_accounted g pairs) (cp_files (rb_patch b)) results"
proof -
  obtain patch where c: "capture raw = Inr patch" using assms by (cases "capture raw") (auto simp: analyze_review_def)
  have d: "card (set (map rf_path (cp_files patch))) = length (cp_files patch)"
    using assms c by (auto simp: analyze_review_def Let_def split: if_splits)
  obtain pairs results where p: "collect_pairs (set (map rf_path (cp_files patch))) 0 sources [] = Inr pairs"
      "service_loop g pairs 0 (cp_files patch) = Inr results"
    and b: "rb_patch b = patch" "rb_files b = map fst results" "rb_analyses b = map snd results"
    using assms c d by (auto simp: analyze_review_def Let_def res_elims)
  show thesis
    using that [of pairs results] c p(1) b service_loop_accounts [OF p(2)] card_distinct [of "map rf_path (cp_files patch)"] d by simp
qed

lemma bundle_files:
  assumes "list_all2 (file_accounted g pairs) fs results"
  shows "map rf_path (map fst results) = map rf_path fs" "map rf_patch_twin (map fst results) = map rf_patch_twin fs"
    "map rf_status (map fst results) = map rf_status fs" "map fa_path (map snd results) = map rf_path fs"
proof -
  have h: "rf_path (fst r) = rf_path f \<and> rf_patch_twin (fst r) = rf_patch_twin f \<and> rf_status (fst r) = rf_status f \<and> fa_path (snd r) = rf_path f"
    if "file_accounted g pairs f r" for f r
  proof -
    have "fst r = f\<lparr>rf_semantic_twin := rf_semantic_twin (fst r), rf_planner := rf_planner (fst r)\<rparr>" "fa_path (snd r) = rf_path f"
      using that by (simp_all add: file_accounted_def)
    then show ?thesis by (metis ReviewFile.select_convs(1,2,3) ReviewFile.surjective ReviewFile.update_convs(4,5))
  qed
  have "map rf_path (map fst results) = map rf_path fs \<and> map rf_patch_twin (map fst results) = map rf_patch_twin fs
    \<and> map rf_status (map fst results) = map rf_status fs \<and> map fa_path (map snd results) = map rf_path fs"
    using assms by (induction rule: list_all2_induct) (auto dest: h)
  then show "map rf_path (map fst results) = map rf_path fs" "map rf_patch_twin (map fst results) = map rf_patch_twin fs"
    "map rf_status (map fst results) = map rf_status fs" "map fa_path (map snd results) = map rf_path fs" by simp_all
qed

lemma bundle_anchored: "list_all2 (file_accounted g pairs) fs results \<Longrightarrow> no_twins fs \<Longrightarrow> list_all spans_anchored (map fst results)"
  by (induction rule: list_all2_induct) (auto simp: no_twins_def intro: file_accounted_anchored)

lemma patch_matches_eq:
  "patch_matches f old new \<longleftrightarrow>
     (\<exists>news. transforms 0 0 (pt_hunks (rf_patch_twin f)) (split_inclusive LF old) news \<and> concat news = new)"
  using match_hunks_eq [of 0 "split_inclusive LF old" "pt_hunks (rf_patch_twin f)" "[]" 0 new]
  by (auto simp: patch_matches_def Let_def split: option.splits)

text \<open>What the coverage of a file says of the sources given for it.\<close>

definition coverage_true :: "SourcePair list \<Rightarrow> ReviewFile \<Rightarrow> Coverage \<Rightarrow> bool" where
  "coverage_true sources f c =
     (case c of
        CvMissingSource \<Rightarrow> rf_path f \<notin> sp_path ` set sources
      | CvUnsupportedChange \<Rightarrow> rf_path f \<in> sp_path ` set sources \<and> \<not> supported_change f
      | _ \<Rightarrow> (\<exists>pair news. pair \<in> set sources \<and> sp_path pair = rf_path f \<and> absence_valid (rf_status f) pair
               \<and> transforms 0 0 (pt_hunks (rf_patch_twin f)) (split_inclusive LF (opt_text (sp_old pair))) news
               \<and> concat news = opt_text (sp_new pair)))"

lemma enrich_file_coverage: "enrich_file g f pair k = (f', a, k') \<Longrightarrow> fa_coverage a \<notin> {CvMissingSource, CvUnsupportedChange}"
  by (auto simp: enrich_file_def Let_def split: prod.splits option.splits if_splits)

lemma file_accounted_coverage:
  assumes "file_accounted g pairs f r" and get: "\<And>path p. bt_get pairs path = Some p \<longleftrightarrow> p \<in> set sources \<and> sp_path p = path"
  shows "coverage_true sources f (fa_coverage (snd r))"
proof (cases "bt_get pairs (rf_path f)")
  case None
  then have "rf_path f \<notin> sp_path ` set sources" using get by (metis imageE option.distinct(1))
  then show ?thesis using assms(1) None by (simp add: file_accounted_def coverage_true_def)
next
  case (Some pair)
  then have p: "pair \<in> set sources" "sp_path pair = rf_path f" using get by auto
  show ?thesis
  proof (cases "supported_change f")
    case False
    have "rf_path f \<in> sp_path ` set sources" using p by (metis imageI)
    then show ?thesis using assms(1) Some False by (simp add: file_accounted_def coverage_true_def)
  next
    case True
    then have v: "absence_valid (rf_status f) pair" "patch_matches f (opt_text (sp_old pair)) (opt_text (sp_new pair))"
      "fa_coverage (snd r) \<notin> {CvMissingSource, CvUnsupportedChange}"
      using assms(1) Some enrich_file_coverage by (auto simp: file_accounted_def)
    then show ?thesis using p unfolding coverage_true_def patch_matches_eq by (auto split: Coverage.splits)
  qed
qed

subsection \<open>The properties\<close>

text \<open>C10: the check of the sources is patch application: it accepts a pair of sources exactly when replacing, at the places the hunk
  headers name, the old lines of every hunk with its new lines and keeping every other line turns the old source into the new one,
  byte for byte.\<close>

theorem patch_check_is_application:
  "patch_matches f old new \<longleftrightarrow>
     (\<exists>news. transforms 0 0 (pt_hunks (rf_patch_twin f)) (split_inclusive LF old) news \<and> concat news = new)"
  by (rule patch_matches_eq)

text \<open>C11: a bundle accounts for every file of its patch: the records are those of the captured patch's files, in order, with paths,
  statuses and patch content unchanged, no path occurs twice, and each file's coverage is true of the sources given for it; a file that was
  analysed at all was transformed by its patch.\<close>

theorem bundle_accounts_for_every_file:
  assumes "analyze_review g raw sources = Inr b"
  shows "capture raw = Inr (rb_patch b) \<and> distinct (map rf_path (rb_files b))
     \<and> map fa_path (rb_analyses b) = map rf_path (cp_files (rb_patch b)) \<and> map rf_path (rb_files b) = map rf_path (cp_files (rb_patch b))
     \<and> map rf_patch_twin (rb_files b) = map rf_patch_twin (cp_files (rb_patch b)) \<and> map rf_status (rb_files b) = map rf_status (cp_files (rb_patch b))
     \<and> list_all2 (coverage_true sources) (cp_files (rb_patch b)) (map fa_coverage (rb_analyses b))"
proof -
  obtain pairs results where p: "capture raw = Inr (rb_patch b)" "distinct (map rf_path (cp_files (rb_patch b)))"
    "collect_pairs (rf_path ` set (cp_files (rb_patch b))) 0 sources [] = Inr pairs" "rb_files b = map fst results" "rb_analyses b = map snd results"
    "list_all2 (file_accounted g pairs) (cp_files (rb_patch b)) results" using analyze_review_parts [OF assms] .
  have "bt_get pairs path = Some q \<longleftrightarrow> q \<in> set sources \<and> sp_path q = path" for path q using collect_pairs_sources [OF p(3)] by simp
  then have "list_all2 (coverage_true sources) (cp_files (rb_patch b)) (map fa_coverage (rb_analyses b))"
    using p(6) file_accounted_coverage [of g pairs _ _ sources] unfolding p(5) by (auto simp: list_all2_map2 intro: list_all2_mono)
  then show ?thesis using p(1,2) bundle_files [OF p(6)] by (simp add: p(4,5) del: map_map)
qed

text \<open>A patch of one line, its sources, and a grammar that reads a source as one token.\<close>

definition svc_patch :: string where
  "svc_patch = ''--- a/x.rs'' @ [LF] @ ''+++ b/x.rs'' @ [LF] @ ''@@ -1 +1 @@'' @ [LF] @ ''-a'' @ [LF] @ ''+b'' @ [LF]"

definition svc_pair :: SourcePair where
  "svc_pair = \<lparr>sp_path = ''x.rs'', sp_old = Some (''a'' @ [LF]), sp_new = Some (''b'' @ [LF])\<rparr>"

definition svc_grammar :: Grammar where
  "svc_grammar = \<lparr>gr_loads = True, gr_parse = (\<lambda>s. Some (TsNode ''source_file'' 0 (length s) 0 [])), gr_has_error = (\<lambda>t. False)\<rparr>"

definition svc_hunk :: PatchHunk where
  "svc_hunk = \<lparr>ph_id = 0, ph_old_start = Some 1, ph_new_start = Some 1, ph_section = None,
     ph_lines = [\<lparr>pl_no_newline = False, pl_lossy = False, pl_kind = LkRemoved, pl_old_line = Some 1, pl_new_line = None, pl_text = ''a''\<rparr>,
       \<lparr>pl_no_newline = False, pl_lossy = False, pl_kind = LkAdded, pl_old_line = None, pl_new_line = Some 1, pl_text = ''b''\<rparr>]\<rparr>"

definition svc_file :: ReviewFile where
  "svc_file = \<lparr>rf_path = ''x.rs'', rf_status = FsModified,
     rf_patch_twin = \<lparr>pt_binary_body = [], pt_hunks = [svc_hunk], pt_metadata = [], pt_lossy_lines = 0\<rparr>,
     rf_semantic_twin = None, rf_planner = \<lparr>pd_strategy = DsLine, pd_fallback = None, pd_notes = []\<rparr>\<rparr>"

lemma svc_parses: "parse svc_patch = Inr [svc_file]"
  by code_simp

lemma svc_matches: "patch_matches svc_file (opt_text (sp_old svc_pair)) (opt_text (sp_new svc_pair))"
  by code_simp

lemma svc_analyzed: "\<exists>b. analyze_review svc_grammar svc_patch [svc_pair] = Inr b \<and> cp_files (rb_patch b) = [svc_file]"
proof -
  obtain f' a k' where e: "enrich_file svc_grammar svc_file svc_pair 0 = (f', a, k')"
    by (cases "enrich_file svc_grammar svc_file svc_pair 0")
  have "supported_change svc_file" "absence_valid (rf_status svc_file) svc_pair" and path: "rf_path svc_file = ''x.rs''"
    by (simp_all add: supported_change_def absence_valid_def svc_file_def svc_pair_def)
  moreover have "bt_get [(''x.rs'', svc_pair)] ''x.rs'' = Some svc_pair" by (simp add: bt_get_def)
  ultimately have "service_loop svc_grammar [(''x.rs'', svc_pair)] 0 [svc_file] = Inr [(f', a)]"
    using path svc_matches e by simp
  moreover have "collect_pairs {''x.rs''} 0 [svc_pair] [] = Inr [(''x.rs'', svc_pair)]"
    by (simp add: svc_pair_def opt_text_def sat_add_usize_def DEFAULT_BYTE_BUDGET_def usize_max_def)
  ultimately show ?thesis
    by (simp add: analyze_review_def capture_def svc_parses Let_def path del: service_loop.simps collect_pairs.simps)
qed

lemma svc_coverage: "fa_coverage (fst (snd (enrich_file svc_grammar svc_file svc_pair 0))) = CvAnalyzed"
  by code_simp

theorem bundle_accounts_for_every_file_witness:
  "\<exists>b. analyze_review svc_grammar svc_patch [svc_pair] = Inr b \<and> map fa_path (rb_analyses b) = [''x.rs'']
     \<and> list_all2 (coverage_true [svc_pair]) [svc_file] (map fa_coverage (rb_analyses b))"
proof -
  obtain b where b: "analyze_review svc_grammar svc_patch [svc_pair] = Inr b" "cp_files (rb_patch b) = [svc_file]"
    using svc_analyzed by blast
  then show ?thesis using bundle_accounts_for_every_file [OF b(1)] by (intro exI [of _ b]) (simp add: svc_file_def)
qed

text \<open>C12: a file reported as analysed hides no change: its spans, numbered in a row, are one for each changed token of the structural
  diff of the sources, in order. Each span has the kind of its token; its hunk is a hunk of the file that holds the first of the token's
  lines (as many as the line feeds of its text, and one) that any hunk holds, by the old line numbers, or by the new ones where no hunk holds
  a line of the token on the old side; and its ranges are the byte range and number of the line the token starts on in the old
  and in the new source.\<close>

theorem analyzed_file_shows_every_change:
  assumes "enrich_file g f pair k = (f', a, k')" "fa_coverage a = CvAnalyzed"
  shows "\<exists>d t. fa_structural a = Some d \<and> rf_semantic_twin f' = Some t
     \<and> d = structural_diff g (syntax_detect_language (rf_path f)) (opt_text (sp_old pair)) (opt_text (sp_new pair))
     \<and> list_all2 (shows_change (pt_hunks (rf_patch_twin f')) (opt_text (sp_old pair)) (opt_text (sp_new pair)))
         (filter (\<lambda>c. tc_kind c \<noteq> CkUnchanged) (sf_changes d)) (st_spans t)
     \<and> map ss_id (st_spans t) = [k..<k'] \<and> ss_hunk_id ` set (st_spans t) \<subseteq> ph_id ` set (pt_hunks (rf_patch_twin f'))"
proof -
  let ?d = "structural_diff g (syntax_detect_language (rf_path f)) (opt_text (sp_old pair)) (opt_text (sp_new pair))"
  obtain t lost where t: "rf_semantic_twin f' = Some t" "file_spans g f pair k = (st_spans t, k', lost)" "rf_patch_twin f' = rf_patch_twin f"
      "fa_structural a = Some ?d" "\<not> lost"
    using enrich_file_spans [OF assms(1)] assms(2) by blast
  then have "file_spans g f pair k = (st_spans t, k', False)" by simp
  from span_loop_shows [OF this [unfolded file_spans_def]] span_loop_spec [OF this [unfolded file_spans_def]] file_spans_spec [OF this]
  show ?thesis
    using t by (intro exI [of _ ?d] exI [of _ t]) simp
qed

theorem analyzed_file_shows_every_change_witness:
  "\<exists>d t. fa_structural (fst (snd (enrich_file svc_grammar svc_file svc_pair 0))) = Some d
     \<and> rf_semantic_twin (fst (enrich_file svc_grammar svc_file svc_pair 0)) = Some t
     \<and> list_all2 (shows_change (pt_hunks (rf_patch_twin (fst (enrich_file svc_grammar svc_file svc_pair 0))))
           (opt_text (sp_old svc_pair)) (opt_text (sp_new svc_pair)))
         (filter (\<lambda>c. tc_kind c \<noteq> CkUnchanged) (sf_changes d)) (st_spans t)"
proof -
  obtain f' a k' where e: "enrich_file svc_grammar svc_file svc_pair 0 = (f', a, k')"
    by (cases "enrich_file svc_grammar svc_file svc_pair 0")
  then have "fa_coverage a = CvAnalyzed" using svc_coverage by simp
  from analyzed_file_shows_every_change [OF e this] show ?thesis by (auto simp: e)
qed

subsection \<open>Snapshot bytes\<close>

fun be_value :: "string \<Rightarrow> nat" where
  "be_value [] = 0"
| "be_value (c # cs) = of_char c * 256 ^ length cs + be_value cs"

lemma be_bytes_Suc: "be_bytes (Suc k) n = char_of (n div 256 ^ k mod 256) # be_bytes k n"
  by (simp add: be_bytes_def upt_conv_Cons del: upt_Suc) (simp add: map_Suc_upt [symmetric] comp_def del: upt_Suc)

lemma be_value_be_bytes: "be_value (be_bytes k n) = n mod 256 ^ k"
proof (induction k)
  case (Suc k)
  have "n mod (256 ^ k * 256) = 256 ^ k * (n div 256 ^ k mod 256) + n mod 256 ^ k" by (rule mod_mult2_eq)
  then show ?case using Suc by (simp add: be_bytes_Suc mult.commute)
qed (simp add: be_bytes_def)

lemma snapshot_frame_inj:
  assumes "snapshot_frame a @ u = snapshot_frame b @ v" "length a < 2 ^ 64" "length b < 2 ^ 64"
  shows "a = b \<and> u = v"
proof -
  have p: "(256 :: nat) ^ 8 = 2 ^ 64" by simp
  have len: "be_value (be_bytes 8 (length x mod 2 ^ 64)) = length x" if "length x < 2 ^ 64" for x :: string
    unfolding be_value_be_bytes p using that by (metis mod_less)
  have "be_bytes 8 (length a mod 2 ^ 64) = be_bytes 8 (length b mod 2 ^ 64) \<and> a @ u = b @ v"
    using assms(1) unfolding snapshot_frame_def append_assoc by (subst (asm) append_eq_append_conv) (auto simp only: length_be_bytes)
  then show ?thesis using len [OF assms(2)] len [OF assms(3)] append_eq_append_conv by metis
qed

text \<open>The entries of a snapshot are of a size a machine has.\<close>

definition entry_fits :: "string \<times> string option \<Rightarrow> bool" where
  "entry_fits e \<longleftrightarrow> length (fst e) < 2 ^ 64 \<and> length (opt_text (snd e)) < 2 ^ 64"

lemma snapshot_entry_inj:
  assumes "snapshot_entry e @ u = snapshot_entry e' @ v" "entry_fits e" "entry_fits e'"
  shows "e = e' \<and> u = v"
proof -
  obtain p b p' b' where e: "e = (p, b)" "e' = (p', b')" by (cases e; cases e')
  have "p = p' \<and> (case b of None \<Rightarrow> [CHR 0x00] | Some bytes \<Rightarrow> CHR 0x01 # snapshot_frame bytes) @ u
      = (case b' of None \<Rightarrow> [CHR 0x00] | Some bytes \<Rightarrow> CHR 0x01 # snapshot_frame bytes) @ v"
    using assms by (intro snapshot_frame_inj) (auto simp: snapshot_entry_def e entry_fits_def)
  then show ?thesis
    using assms(2,3) by (cases b; cases b') (auto simp: e entry_fits_def opt_text_def dest!: snapshot_frame_inj)
qed

lemma snapshot_entries_inj:
  "concat (map snapshot_entry es) = concat (map snapshot_entry es') \<Longrightarrow> list_all entry_fits es \<Longrightarrow> list_all entry_fits es' \<Longrightarrow> es = es'"
proof (induction es arbitrary: es')
  case Nil
  have "snapshot_entry e \<noteq> []" for e by (auto simp: snapshot_entry_def split: option.splits)
  then show ?case using Nil by (cases es') auto
next
  case (Cons e es)
  have ne: "snapshot_entry e \<noteq> []" by (auto simp: snapshot_entry_def split: option.splits)
  then obtain e' es'' where es': "es' = e' # es''" using Cons.prems(1) by (cases es') auto
  with snapshot_entry_inj [of e "concat (map snapshot_entry es)" e' "concat (map snapshot_entry es'')"] Cons show ?case by auto
qed

lemma sort_key_distinct:
  assumes "mset es = mset es'" "distinct (map fst es)"
  shows "sort_key fst es = sort_key fst es'"
proof (rule properties_for_sort_key)
  have dist: "distinct (map fst xs)" if "mset xs = mset es" for xs
    using that assms(2) by (metis mset_map mset_eq_imp_distinct_iff)
  have one: "filter (\<lambda>x. fst e = fst x) xs = [e]" if "e \<in> set xs" "distinct (map fst xs)" for e :: "'a \<times> 'b" and xs
    using that by (induction xs) (auto simp: filter_empty_conv image_iff)
  fix e assume "e \<in> set (sort_key fst es')"
  then have "e \<in> set es'" "e \<in> set es" using mset_eq_setD [OF assms(1)] by auto
  then show "filter (\<lambda>x. fst e = fst x) (sort_key fst es') = filter (\<lambda>x. fst e = fst x) es"
    using one [of e es] one [of e "sort_key fst es'"] dist [of es] dist [of "sort_key fst es'"] assms(1) by simp
qed (use assms in simp_all)

text \<open>C40: a snapshot identity is the digest of bytes that determine the sources and nothing else: two lists of sources, of sizes below
  2 to the power 64, with the same bytes have the same entries, each path absent or present with the same content; and, as no path is
  listed twice, the bytes do not depend on the order of the entries.\<close>

theorem snapshot_bytes_determine_sources:
  assumes "list_all entry_fits es" "list_all entry_fits es'"
  shows "(snapshot_bytes es = snapshot_bytes es' \<longrightarrow> mset es = mset es')
    \<and> (distinct (map fst es) \<longrightarrow> mset es = mset es' \<longrightarrow> snapshot_bytes es = snapshot_bytes es')"
proof -
  have "sort_key fst es = sort_key fst es'" if "snapshot_bytes es = snapshot_bytes es'"
    using that assms by (intro snapshot_entries_inj) (auto simp: snapshot_bytes_def list_all_iff)
  then show ?thesis using sort_key_distinct [of es es'] by (metis mset_sort snapshot_bytes_def)
qed

theorem snapshot_bytes_determine_sources_witness:
  "snapshot_bytes [(''b'', None), (''a'', Some ''x'')] = snapshot_bytes [(''a'', Some ''x''), (''b'', None)]
   \<and> snapshot_bytes [(''a'', None)] \<noteq> snapshot_bytes [(''a'', Some [])]"
  using snapshot_bytes_determine_sources [of "[(''b'', None), (''a'', Some ''x'')]" "[(''a'', Some ''x''), (''b'', None)]"]
    snapshot_bytes_determine_sources [of "[(''a'', None)]" "[(''a'', Some [])]"]
  by (simp add: entry_fits_def opt_text_def)

end
