(* ===== verification/Spec2Isabelle.thy ===== *)
theory Spec2Isabelle
  imports Patch_Claims Graph_Claims Daemon_Claims Council_Claims Projection_Claims Journal_Claims Git_Claims Agent_Claims Cockpit_Claims Structural_Claims Review_Claims
begin

text \<open>
  A verification library for deep-diff-forge, the diff review tool under src/crates/.

  \<^bold>\<open>The program.\<close> A patch enters as bytes. deep-diff-forge-patch decodes them line by line
  (decode.rs), parses them into a list of review files (parser.rs, with the path quoting of paths.rs
  and the typed errors of lib.rs), refuses them under the caller's guards (guards.rs), binds the result
  to a digest of the exact input (sealed.rs, and the SHA-256 of core/seal.rs) and can write the review
  back as a unified diff (render.rs). The review model is core/lib.rs; every text the tool prints goes
  through the escaping of core/util.rs, and every process ends with a code of core/exit.rs. The parsed
  review feeds the other crates: deep-diff-forge-graph blanks comments and strings (lexical.rs), finds
  risk signals in what is left (evidence.rs), scores and ranks the files (risk.rs, rank.rs), and
  deep-diff-forge-cluster runs that work over worker threads with a deterministic join;
  deep-diff-forge-projection lays the hunks out side by side or inline. deep-diff-forge-daemon admits
  requests under a byte budget in arrival order (admission.rs). deep-diff-forge-review decides whether
  a run of reviewers and gates is ready for a human (model.rs, policy.rs) and keeps the human's
  decisions in a hash-chained journal (journal.rs). Git's own streams enter through git_raw.rs, which binds
  every patch block to a raw record. deep-diff-forge-agent checks where an agent's findings point and keeps
  annotations apart by who wrote them. deep-diff-forge-tui shows the ranked review in a terminal cockpit.
  deep-diff-forge-syntax compares the token streams of two sources (structural.rs), and deep-diff-forge-pipeline checks a patch against
  its sources and puts the structural changes into the review (review.rs).

  \<^bold>\<open>The theories.\<close>
  \<^item> \<^verbatim>\<open>Ddf_Prelude\<close>, \<^verbatim>\<open>Utf8\<close>: results as sums, saturating arithmetic, and the parts of Rust's
    str, slice and char that the source calls, on byte strings; the well-formed UTF-8 table, lossy
    decoding and scalar values.
  \<^item> \<^verbatim>\<open>Core_Model\<close>: the records and enums of core/lib.rs with PatchHunk::counts and body_bytes.
  \<^item> \<^verbatim>\<open>Paths\<close>, \<^verbatim>\<open>Header_Syntax\<close>, \<^verbatim>\<open>Parse_Error\<close>, \<^verbatim>\<open>Parser\<close>: paths.rs, the header grammar of
    parser.rs, the error type with the exit registry of core/exit.rs, and the parser itself: FileBuf,
    HunkBuf and Parser are records, every method is a function returning \<open>PatchParseError + state\<close>.
  \<^item> \<^verbatim>\<open>Header_Props\<close>: the hunk header grammar, squashing, and the split search of a diff --git line.
  \<^item> \<^verbatim>\<open>Parser_Steps\<close>: every accepted line is a run of the step relation \<^verbatim>\<open>pstep\<close>; the locale
    \<^verbatim>\<open>parser_invariant\<close> lifts an invariant of the steps to every parse.  \<^verbatim>\<open>Hunk_Inv\<close>, \<^verbatim>\<open>Section_Inv\<close>
    and \<^verbatim>\<open>Mark_Inv\<close> interpret it: exact hunk extents, consistent file sections, end-of-file marks and
    lossy lines.
  \<^item> \<^verbatim>\<open>Render\<close>, \<^verbatim>\<open>Render_Steps\<close>, \<^verbatim>\<open>Render_Roundtrip\<close>: render.rs, the parser's reaction to rendered
    lines, and the round trip.
  \<^item> \<^verbatim>\<open>Decode\<close>, \<^verbatim>\<open>Seal\<close>, \<^verbatim>\<open>Sealed_Review\<close>: decode.rs, seal.rs with the functional form of FIPS 180-4
    it is proved equal to, and guards.rs, sealed.rs and CapturedPatch of lib.rs.
  \<^item> \<^verbatim>\<open>Core_Text\<close>: util.rs, with a JSON string reader for the round trip of json_escape.
  \<^item> \<^verbatim>\<open>Hunk_Address\<close>: the digest and the address of a hunk, and that the hashed bytes determine it.
  \<^item> \<^verbatim>\<open>Std_Text\<close>, \<^verbatim>\<open>Utf8_Whole\<close>: more of the standard library; blanking by whole characters.
  \<^item> \<^verbatim>\<open>Lexical\<close>, \<^verbatim>\<open>Lexical_Props\<close>, \<^verbatim>\<open>Lexical_Whole\<close>: graph/lexical.rs, the scanner that blanks comments and
    strings; the locale \<^verbatim>\<open>scan_invariant\<close> lifts a property of its steps to a line, interpreted for
    alignment with well-formed frames and for whole characters; the hunk view keeps what the plain
    reading keeps.
  \<^item> \<^verbatim>\<open>Evidence\<close>, \<^verbatim>\<open>Evidence_Props\<close>, \<^verbatim>\<open>Risk\<close>, \<^verbatim>\<open>Rank\<close>: graph/evidence.rs, risk.rs and rank.rs: the rule table,
    the items found in a file, the score they add up to and the order of the review. \<^verbatim>\<open>Graph_Claims\<close> states apart
    from the code what a rule hits, and proves the items of a file to be exactly the hits on its changed lines.
  \<^item> \<^verbatim>\<open>Cluster\<close>: cluster/scheduler.rs and cluster.rs; the locale \<^verbatim>\<open>chunk_plan\<close> states what a run needs of a
    division into chunks, interpreted by \<^verbatim>\<open>contiguous_chunks\<close>.
  \<^item> \<^verbatim>\<open>Graph_Claims\<close>: the properties of these parts with their instances; \<^verbatim>\<open>Patch_Claims\<close> holds those of the
    patch and core crates, and this theory those that span crates.
  \<^item> \<^verbatim>\<open>Admission\<close>, \<^verbatim>\<open>Read_Budget\<close>, \<^verbatim>\<open>Daemon_Claims\<close>: daemon/admission.rs; the critical sections under the mutex
    and the atomic accesses are the steps of two transition systems, over any interleaving of the
    connections; the locale \<^verbatim>\<open>gate_invariant\<close> lifts an invariant of the steps to every reachable gate, and the
    last theory holds the properties.
  \<^item> \<^verbatim>\<open>Btree\<close>, \<^verbatim>\<open>Council\<close>, \<^verbatim>\<open>Council_Props\<close>, \<^verbatim>\<open>Council_Claims\<close>: the ordered maps of the standard library, and
    review/model.rs and policy.rs; the specification \<^verbatim>\<open>council_clear\<close> of a run that is ready, and the
    refinement of it by \<^verbatim>\<open>assess\<close>.
  \<^item> \<^verbatim>\<open>Journal\<close>, \<^verbatim>\<open>Journal_Chain\<close>, \<^verbatim>\<open>Journal_Plan\<close>, \<^verbatim>\<open>Journal_Claims\<close>: review/journal.rs: the run directory is the
    state and the import its step; the chain of hashes, what a plan holds and what its replay leaves. An
    import into a directory that already has its limit of checkpoints writes one more; what loads and imports do then is part of the
    properties.
  \<^item> \<^verbatim>\<open>Projection\<close>, \<^verbatim>\<open>Projection_Props\<close>, \<^verbatim>\<open>Projection_Claims\<close>: the projection crate; the row loop is a partial
    function, proved to end and to agree with a recursion over change blocks.
  \<^item> \<^verbatim>\<open>Git_Raw\<close>, \<^verbatim>\<open>Git_Raw_Props\<close>, \<^verbatim>\<open>Git_Claims\<close>: patch/git_raw.rs: the raw section as a loop over NUL-terminated
    fields, the pairing of records with patch blocks, and the structured diff that streams are appended to.
  \<^item> \<^verbatim>\<open>Runs\<close>, \<^verbatim>\<open>Annotations\<close>, \<^verbatim>\<open>Findings\<close>, \<^verbatim>\<open>Agent_Claims\<close>: the agent crate: annotation trust, the store, the evidence
    registry and the verification of findings; the locale \<^verbatim>\<open>run_invariant\<close> lifts an invariant from the operations of
    a component to every run of them, interpreted for the store and the registry.
  \<^item> \<^verbatim>\<open>Cockpit\<close>, \<^verbatim>\<open>Cockpit_Claims\<close>, \<^verbatim>\<open>Engine_Notes\<close>: the tui crate: the app's state and its event handlers, the rows of the
    file tree, the bindings, and the notes the engine writes; the last two hold the properties,
    among them that the tree is the list of directories, each with its files.
  \<^item> \<^verbatim>\<open>Std_More\<close>, \<^verbatim>\<open>Structural\<close>, \<^verbatim>\<open>Structural_Props\<close>, \<^verbatim>\<open>Structural_Moves\<close>, \<^verbatim>\<open>Structural_Claims\<close>: syntax/structural.rs: the flat
    longest-common-subsequence table is filled as the loops fill it and proved to hold the lengths; every script is a walk through both
    token streams, the direct one minimal; moved blocks are matched in pairs. The grammar library is a parameter.
  \<^item> \<^verbatim>\<open>Review_Service\<close>, \<^verbatim>\<open>Review_Claims\<close>: pipeline/review.rs and core/snapshot.rs: the sources are checked by applying the patch, which
    is proved to be what the relation \<^verbatim>\<open>transforms\<close> says, with the place of a hunk stated on its header alone; enrichment, where
    each span shows one changed token in the hunk and lines it belongs to; coverage and snapshot bytes.

  \<^bold>\<open>Representation.\<close> Text and bytes are char lists with one char per byte; a Rust char is the
  code point as a natural number. Line numbers and counters are natural numbers; the places where
  the source saturates at its machine width use the saturating operations of the prelude, modes are
  32-bit words, and the SHA-256 state is a list of eight 32-bit words. Mutable parser state is passed
  explicitly. No fuel is used: every loop is a structural recursion, has a termination
  proof, or (the row loop of the side-by-side layout) is a partial function proved to return on every
  input.

  \<^bold>\<open>Not modelled.\<close>
  The Display texts of the error types and the JSON documents (string assembly with no state); git
  child processes, file descriptors, containers and deployment checks (operating-system calls); the
  sockets and threads of the daemon; the drawing of the terminal interface, its
  mouse hit map and what its commands print, and the command line (I/O); the learning
  rates, which are floating point; tree-sitter, serde and the Unicode tables, which are third-party code
  (the tree of a parsed source, serde's event writer and reader and the Unicode tables are parameters where
  the modelled parts call them).
\<close>

subsection \<open>Properties that span components\<close>

lemma capture_files:
  assumes "StructuredDiff_capture d = Inr captured"
  shows "parse_decoded (decode (sd_patch d)) ParseOptions_default = Inr (cp_files captured)"
    "original_bytes captured = sd_patch d" "length (cp_files captured) = diff_blocks d"
  using assms
  by (auto simp: StructuredDiff_capture_def capture_bytes_parts res_bind_Inr_iff original_bytes_def decode_def
      split: sum.splits if_splits)

text \<open>C16: from Git's streams to a sealed review: when a structured diff is captured and reviewed, the seal is of the exact
  patch bytes, the files are what those bytes parse to with nothing but their paths changed, and the paths are those of
  the raw records, one for each block a change owns.\<close>

theorem sealed_git_review_composes:
  assumes "StructuredDiff_capture (append_all streams) = Inr captured"
    and "StructuredDiff_sealed_review (append_all streams) captured version = Inr review"
  shows "sr_seal review = InputSeal_of (sd_patch (append_all streams)) version
     \<and> (\<exists>files. parse_decoded (decode (sd_patch (append_all streams))) ParseOptions_default = Inr files
          \<and> map (rf_path_update (\<lambda>_. [])) (sr_files review) = map (rf_path_update (\<lambda>_. [])) files)
     \<and> map (Some \<circ> rf_path) (sr_files review)
         = concat (map (\<lambda>c. replicate (gc_block_count c) (utf8_path c)) (sd_changes (append_all streams)))"
proof -
  note c = capture_files [OF assms(1)]
  obtain files where f: "name_files 0 (sd_changes (append_all streams)) (cp_files captured) = Inr files"
    "review = SealedReview_from_capture files (original_bytes captured) version"
    using assms(2) c(3) by (auto simp: StructuredDiff_sealed_review_def review_files_def res_bind_Inr_iff)
  then show ?thesis
    using name_files_result [of "cp_files captured" "sd_changes (append_all streams)" 0] c
    by (simp add: SealedReview_from_capture_def diff_blocks_def)
qed

theorem sealed_git_review_composes_witness:
  "\<exists>captured review. StructuredDiff_capture (append_all [(sample_stream, Tracked)]) = Inr captured
     \<and> StructuredDiff_sealed_review (append_all [(sample_stream, Tracked)]) captured ''1'' = Inr review
     \<and> map (Some \<circ> rf_path) (sr_files review) = [Some ''f'']"
proof -
  let ?d = "append_all [(sample_stream, Tracked)]"
  note d = sample_stream_changes
  have "case parse_decoded (decode sample_blocks) ParseOptions_default of Inl _ \<Rightarrow> False | Inr fs \<Rightarrow> length fs = 1" by code_simp
  then obtain fs where fs: "parse_decoded (decode sample_blocks) ParseOptions_default = Inr fs" "length fs = 1"
    by (auto split: sum.splits)
  obtain captured where cap: "StructuredDiff_capture ?d = Inr captured" and len: "length (cp_files captured) = 1"
    using fs by (auto simp: d StructuredDiff_capture_def capture_bytes_parts diff_blocks_def sample_change_def)
  have path: "utf8_path sample_change = Some ''f''" by code_simp
  have "is_ok (name_files 0 [sample_change] (cp_files captured))"
    using name_files_result [of "cp_files captured" "[sample_change]" 0] path len
    by (auto simp: is_ok_def sample_change_def split: sum.splits)
  then obtain review where rev: "StructuredDiff_sealed_review ?d captured ''1'' = Inr review"
    using len by (auto simp: StructuredDiff_sealed_review_def review_files_def d diff_blocks_def is_ok_iff sample_change_def)
  have "map (Some \<circ> rf_path) (sr_files review) = [Some ''f'']"
    using sealed_git_review_composes [OF cap rev] path by (simp add: d sample_change_def)
  with cap rev show ?thesis by (intro exI conjI)
qed

subsection \<open>From a patch and its sources to the engine's notes\<close>

text \<open>C13: on every review the shared service returns, each note the engine writes is its own, carries evidence and points at a file or
  hunk of that review: the service refuses a path named twice and puts every semantic span into a hunk of its file, which is what the
  notes rely on.\<close>

theorem bundle_notes_resolve:
  assumes "analyze_review g raw sources = Inr b"
  shows "list_all (note_ok (rb_files b)) (engine_annotations (rb_files b) (rank (rb_files b)))"
proof -
  obtain pairs results where p: "capture raw = Inr (rb_patch b)" "distinct (map rf_path (cp_files (rb_patch b)))"
    "rb_files b = map fst results" "list_all2 (file_accounted g pairs) (cp_files (rb_patch b)) results"
    using analyze_review_parts [OF assms] by metis
  have "duplicate_path (rb_files b) = None"
    using p(2) bundle_files(1) [OF p(4)] by (simp add: duplicate_path_def duplicate_loop_None p(3))
  moreover have "list_all spans_anchored (rb_files b)"
    using bundle_anchored [OF p(4) captured_no_twins [OF p(1)]] by (simp add: p(3))
  ultimately show ?thesis by (rule engine_notes_ok)
qed

theorem bundle_notes_resolve_witness:
  "\<exists>b. analyze_review svc_grammar svc_patch [svc_pair] = Inr b
     \<and> list_all (note_ok (rb_files b)) (engine_annotations (rb_files b) (rank (rb_files b)))"
  using svc_analyzed bundle_notes_resolve by blast

end
